(* ===== verification/Locks.thy ===== *)
theory Locks
  imports Prelude
begin

text \<open>
  \<open>BlobMutationLocks\<close> of \<open>src/models.rs\<close>: one mutex per blob hash, made on demand and forgotten when
  nobody refers to it. The table holds \<open>Weak\<close> pointers, here addresses; the strong count of an address is
  the number of tasks that hold or wait for its mutex. The other theories run an operation under the lock
  of its hash as one step; this theory justifies it.
\<close>

record lock_ticket =
  lt_hash :: string
  lt_address :: nat
  lt_held :: bool

record lock_state =
  lk_map :: "(string \<times> nat) list"
  lk_tasks :: "(nat \<times> lock_ticket) list"
  lk_next :: nat

definition locks_default :: lock_state where
  "locks_default = \<lparr>lk_map = [], lk_tasks = [], lk_next = 0\<rparr>"

definition strong_count :: "lock_state \<Rightarrow> nat \<Rightarrow> nat" where
  "strong_count s a = length (filter (\<lambda>(_, t). lt_address t = a) (lk_tasks s))"

text \<open>
  \<open>lock\<close> up to \<open>lock_owned\<close>: dead entries are dropped, and the task gets the live mutex of its hash or a new
  one. It then waits.
\<close>

definition lock_enter :: "nat \<Rightarrow> string \<Rightarrow> lock_state \<Rightarrow> lock_state" where
  "lock_enter task sha256 s =
     (let locks = filter (\<lambda>(_, a). strong_count s a > 0) (lk_map s) in
      case map_of locks sha256 of
        Some a \<Rightarrow>
          s\<lparr>lk_map := locks, lk_tasks := (task, \<lparr>lt_hash = sha256, lt_address = a, lt_held = False\<rparr>) # lk_tasks s\<rparr>
      | None \<Rightarrow>
          s\<lparr>lk_map := hm_insert sha256 (lk_next s) locks,
            lk_tasks := (task, \<lparr>lt_hash = sha256, lt_address = lk_next s, lt_held = False\<rparr>) # lk_tasks s,
            lk_next := lk_next s + 1\<rparr>)"

text \<open>The mutex is given to one waiting task, when nobody holds it.\<close>

definition lock_acquire :: "nat \<Rightarrow> lock_state \<Rightarrow> lock_state option" where
  "lock_acquire task s =
     (case map_of (lk_tasks s) task of
        None \<Rightarrow> None
      | Some t \<Rightarrow>
          if list_ex (\<lambda>(_, u). lt_address u = lt_address t \<and> lt_held u) (lk_tasks s) then None
          else Some (s\<lparr>lk_tasks := hm_insert task (t\<lparr>lt_held := True\<rparr>) (lk_tasks s)\<rparr>))"

text \<open>The guard is dropped, or the waiting task is cancelled.\<close>

definition lock_leave :: "nat \<Rightarrow> lock_state \<Rightarrow> lock_state" where
  "lock_leave task s = s\<lparr>lk_tasks := hm_remove task (lk_tasks s)\<rparr>"

inductive lock_step :: "lock_state \<Rightarrow> lock_state \<Rightarrow> bool" where
  enters: "map_of (lk_tasks s) task = None \<Longrightarrow> lock_step s (lock_enter task sha256 s)"
| acquires: "lock_acquire task s = Some s' \<Longrightarrow> lock_step s s'"
| leaves: "lock_step s (lock_leave task s)"

definition lock_inv :: "lock_state \<Rightarrow> bool" where
  "lock_inv s \<longleftrightarrow> hm_wf (lk_tasks s) \<and> hm_wf (lk_map s) \<and>
     (\<forall>k t. map_of (lk_tasks s) k = Some t \<longrightarrow> map_of (lk_map s) (lt_hash t) = Some (lt_address t)) \<and>
     (\<forall>h a. map_of (lk_map s) h = Some a \<longrightarrow> a < lk_next s) \<and>
     (\<forall>h h' a. map_of (lk_map s) h = Some a \<longrightarrow> map_of (lk_map s) h' = Some a \<longrightarrow> h = h') \<and>
     (\<forall>k k' t t'. map_of (lk_tasks s) k = Some t \<longrightarrow> map_of (lk_tasks s) k' = Some t' \<longrightarrow>
        lt_address t = lt_address t' \<longrightarrow> lt_held t \<longrightarrow> lt_held t' \<longrightarrow> k = k')"

lemma strong_count_pos: "map_of (lk_tasks s) k = Some t \<Longrightarrow> strong_count s (lt_address t) > 0"
  by (auto simp: strong_count_def filter_empty_conv dest!: map_of_SomeD intro!: bexI)

lemma lock_inv_enter:
  assumes inv: "lock_inv s" and new: "map_of (lk_tasks s) task = None"
  shows "lock_inv (lock_enter task h s)"
proof -
  define m where "m = filter (\<lambda>(_, a). strong_count s a > 0) (lk_map s)"
  have wfm: "hm_wf m" using inv by (simp add: m_def lock_inv_def)
  have look: "map_of m x = (case map_of (lk_map s) x of None \<Rightarrow> None | Some a \<Rightarrow> if strong_count s a > 0 then Some a else None)" for x
    unfolding m_def using inv hm_get_filter [of "lk_map s" "\<lambda>_ a. strong_count s a > 0" x] by (simp add: lock_inv_def)
  have kept: "map_of m (lt_hash t) = Some (lt_address t)" if "map_of (lk_tasks s) k = Some t" for k t
    using inv that strong_count_pos [OF that] by (simp add: look lock_inv_def)
  have sub: "map_of (lk_map s) x = Some a" if "map_of m x = Some a" for x a
    using that by (auto simp: look split: option.splits if_splits)
  have fresh: "task \<notin> fst ` set (lk_tasks s)" using new by (simp add: map_of_eq_None_iff)
  have lt: "a < lk_next s" if "map_of m x = Some a" for x a using inv sub [OF that] by (auto simp: lock_inv_def)
  have inj: "x = y" if "map_of m x = Some a" "map_of m y = Some a" for x y a
    using inv sub [OF that(1)] sub [OF that(2)] unfolding lock_inv_def by blast
  have held: "k = k'" if "map_of (lk_tasks s) k = Some t" "map_of (lk_tasks s) k' = Some t'"
      "lt_address t = lt_address t'" "lt_held t" "lt_held t'" for k k' t t'
    using inv that unfolding lock_inv_def by blast
  have wft: "hm_wf (lk_tasks s)" using inv by (simp add: lock_inv_def)
  show ?thesis
  proof (cases "map_of m h")
    case (Some a)
    have e: "lock_enter task h s = s\<lparr>lk_map := m, lk_tasks := (task, \<lparr>lt_hash = h, lt_address = a, lt_held = False\<rparr>) # lk_tasks s\<rparr>"
      using Some by (simp add: lock_enter_def m_def)
    show ?thesis
      unfolding e lock_inv_def using Some kept lt inj held wfm wft fresh new
      by (simp del: map_of_eq_Some_iff map_of_eq_None_iff)
  next
    case None
    have e: "lock_enter task h s = s\<lparr>lk_map := hm_insert h (lk_next s) m,
        lk_tasks := (task, \<lparr>lt_hash = h, lt_address = lk_next s, lt_held = False\<rparr>) # lk_tasks s, lk_next := lk_next s + 1\<rparr>"
      using None by (simp add: lock_enter_def m_def)
    have other: "lt_hash t \<noteq> h" if "map_of (lk_tasks s) k = Some t" for k t using kept [OF that] None by auto
    have nx: "map_of m x \<noteq> Some (lk_next s)" for x using lt by fastforce
    show ?thesis
      unfolding e lock_inv_def using None kept lt inj held wfm wft fresh other nx
      by (auto simp: hm_simps less_Suc_eq split: if_splits)
  qed
qed

lemma lock_inv_acquire:
  assumes inv: "lock_inv s" and acq: "lock_acquire task s = Some s'"
  shows "lock_inv s'"
proof -
  obtain t where t: "map_of (lk_tasks s) task = Some t"
    and free: "\<not> list_ex (\<lambda>(_, u). lt_address u = lt_address t \<and> lt_held u) (lk_tasks s)"
    and s': "s' = s\<lparr>lk_tasks := hm_insert task (t\<lparr>lt_held := True\<rparr>) (lk_tasks s)\<rparr>"
    using acq by (auto simp: lock_acquire_def split: option.splits if_splits)
  have "\<not> (lt_address u = lt_address t \<and> lt_held u)" if "map_of (lk_tasks s) k = Some u" for k u
    using free map_of_SomeD [OF that] by (auto simp: list_ex_iff)
  then show ?thesis
    using inv t unfolding s' lock_inv_def by (auto simp: hm_simps split: if_splits)
qed

lemma lock_inv_leave: "lock_inv s \<Longrightarrow> lock_inv (lock_leave task s)"
  unfolding lock_inv_def lock_leave_def by (auto simp: hm_simps split: if_splits)

lemma lock_inv_reachable: "lock_step\<^sup>*\<^sup>* locks_default s \<Longrightarrow> lock_inv s"
proof (induction rule: rtranclp_induct)
  case base
  then show ?case by (simp add: lock_inv_def locks_default_def)
next
  case (step s s')
  from step.hyps(2) step.IH show ?case
    by cases (auto intro: lock_inv_enter lock_inv_acquire lock_inv_leave)
qed

section \<open>One mutex per hash\<close>

text \<open>The specification: a mutex per hash, free or held by one task, with no table and no addresses.\<close>

type_synonym mutexes = "string \<Rightarrow> nat option"

inductive mutex_step :: "mutexes \<Rightarrow> mutexes \<Rightarrow> bool" where
  mutex_takes: "holder h = None \<Longrightarrow> mutex_step holder (holder(h := Some task))"
| mutex_gives: "holder h = Some task \<Longrightarrow> mutex_step holder (holder(h := None))"

inductive_simps mutex_step_iff: "mutex_step holder holder'"

definition lock_holder :: "lock_state \<Rightarrow> mutexes" where
  "lock_holder s h = map_option fst (find (\<lambda>(_, t). lt_held t \<and> lt_hash t = h) (lk_tasks s))"

lemma lock_holder_iff:
  assumes "lock_inv s"
  shows "lock_holder s h = Some k \<longleftrightarrow> (\<exists>t. map_of (lk_tasks s) k = Some t \<and> lt_held t \<and> lt_hash t = h)"
proof
  have wf: "hm_wf (lk_tasks s)" using assms by (simp add: lock_inv_def)
  show "lock_holder s h = Some k \<Longrightarrow> \<exists>t. map_of (lk_tasks s) k = Some t \<and> lt_held t \<and> lt_hash t = h"
    by (auto simp: lock_holder_def find_Some_iff hm_in_set_iff [OF wf, symmetric]) (metis nth_mem)
  assume "\<exists>t. map_of (lk_tasks s) k = Some t \<and> lt_held t \<and> lt_hash t = h"
  then obtain t where t: "map_of (lk_tasks s) k = Some t" "lt_held t" "lt_hash t = h" by blast
  then have "find (\<lambda>(_, t). lt_held t \<and> lt_hash t = h) (lk_tasks s) \<noteq> None"
    by (auto simp: find_None_iff hm_in_set_iff [OF wf, symmetric])
  then obtain k' t' where f: "find (\<lambda>(_, t). lt_held t \<and> lt_hash t = h) (lk_tasks s) = Some (k', t')" by auto
  then have t': "map_of (lk_tasks s) k' = Some t'" "lt_held t'" "lt_hash t' = h"
    by (auto simp: find_Some_iff hm_in_set_iff [OF wf, symmetric]) (metis nth_mem)
  have "lt_address t = lt_address t'"
    using assms t(1,3) t'(1,3) unfolding lock_inv_def by (metis option.inject)
  then have "k' = k" using assms t t' unfolding lock_inv_def by blast
  then show "lock_holder s h = Some k" using f by (simp add: lock_holder_def)
qed

lemma lock_holder_eqI:
  assumes "\<And>k. lock_holder s h = Some k \<longleftrightarrow> holder h = Some k"
  shows "lock_holder s h = holder h"
  using assms by (metis option.exhaust)

lemma acquire_iff:
  assumes inv: "lock_inv s" and t: "map_of (lk_tasks s) task = Some t"
  shows "lock_acquire task s \<noteq> None \<longleftrightarrow> lock_holder s (lt_hash t) = None"
proof -
  have addr: "lt_address u = lt_address t \<longleftrightarrow> lt_hash u = lt_hash t" if "map_of (lk_tasks s) k = Some u" for k u
    using inv that t unfolding lock_inv_def by (metis option.inject)
  have wf: "hm_wf (lk_tasks s)" using inv by (simp add: lock_inv_def)
  have "list_ex (\<lambda>(_, u). lt_address u = lt_address t \<and> lt_held u) (lk_tasks s) \<longleftrightarrow>
      (\<exists>k u. map_of (lk_tasks s) k = Some u \<and> lt_address u = lt_address t \<and> lt_held u)"
    by (auto simp: list_ex_iff hm_in_set_iff [OF wf]) blast
  also have "\<dots> \<longleftrightarrow> (\<exists>k. lock_holder s (lt_hash t) = Some k)" using addr by (auto simp: lock_holder_iff [OF inv])
  finally show ?thesis using t by (simp add: lock_acquire_def)
qed

lemma lock_step_refines:
  assumes inv: "lock_inv s" and step: "lock_step s s'"
  shows "lock_holder s' = lock_holder s \<or> mutex_step (lock_holder s) (lock_holder s')"
  using step
proof cases
  case (enters task h)
  note inv' = lock_inv_enter [OF inv enters(2), of h]
  have tasks: "\<exists>a. lk_tasks s' = (task, \<lparr>lt_hash = h, lt_address = a, lt_held = False\<rparr>) # lk_tasks s"
    by (auto simp: enters(1) lock_enter_def Let_def split: option.splits)
  have "lock_holder s' x = lock_holder s x" for x
    using tasks enters(2) by (intro lock_holder_eqI)
      (auto simp: lock_holder_iff [OF inv] lock_holder_iff [OF inv' [folded enters(1)]] split: if_splits)
  then show ?thesis by blast
next
  case (acquires task)
  note inv' = lock_inv_acquire [OF inv acquires]
  obtain t where t: "map_of (lk_tasks s) task = Some t"
    and s': "s' = s\<lparr>lk_tasks := hm_insert task (t\<lparr>lt_held := True\<rparr>) (lk_tasks s)\<rparr>"
    using acquires by (auto simp: lock_acquire_def split: option.splits if_splits)
  have free: "lock_holder s (lt_hash t) = None" using acquire_iff [OF inv t] acquires by simp
  then have none: "\<not> (lt_held u \<and> lt_hash u = lt_hash t)" if "map_of (lk_tasks s) k = Some u" for k u
    using lock_holder_iff [OF inv, of "lt_hash t" k] that by auto
  have "lock_holder s' x = ((lock_holder s)(lt_hash t := Some task)) x" for x
    using t none by (intro lock_holder_eqI) 
      (auto simp: lock_holder_iff [OF inv] lock_holder_iff [OF inv' [unfolded s']] s' hm_simps split: if_splits)
  then have "lock_holder s' = (lock_holder s)(lt_hash t := Some task)" by blast
  then show ?thesis using mutex_takes [of "lock_holder s", OF free] by simp
next
  case (leaves task)
  note inv' = lock_inv_leave [OF inv, of task]
  have after: "lock_holder s' x = Some k \<longleftrightarrow> k \<noteq> task \<and> lock_holder s x = Some k" for x k
    by (auto simp: lock_holder_iff [OF inv] lock_holder_iff [OF inv'] leaves) (auto simp: lock_leave_def hm_simps split: if_splits)
  show ?thesis
  proof (cases "\<exists>h. lock_holder s h = Some task")
    case True
    then obtain h where h: "lock_holder s h = Some task" by blast
    then have "lock_holder s x \<noteq> Some task" if "x \<noteq> h" for x using that by (auto simp: lock_holder_iff [OF inv])
    then have "lock_holder s' x = ((lock_holder s)(h := None)) x" for x
      using after h by (intro lock_holder_eqI) auto
    then have "lock_holder s' = (lock_holder s)(h := None)" by blast
    then show ?thesis using mutex_gives [of "lock_holder s", OF h] by simp
  next
    case False
    then have "lock_holder s' x = lock_holder s x" for x using after by (intro lock_holder_eqI) auto
    then show ?thesis by blast
  qed
qed

text \<open>C36: The lock table is a mutex per hash. From an empty table on, whatever tasks enter, acquire, finish or
  are cancelled, and although entries are dropped and made anew at other addresses, each step leaves every
  mutex as it is, takes a free one, or gives one back; a task has the lock exactly when it is the one holder
  of its hash, and a waiting task can acquire exactly when that mutex is free.\<close>
theorem blob_lock_refines_mutex:
  assumes "lock_step\<^sup>*\<^sup>* locks_default s"
  shows "lock_holder locks_default = (\<lambda>_. None) \<and>
    (\<forall>s'. lock_step s s' \<longrightarrow> lock_holder s' = lock_holder s \<or> mutex_step (lock_holder s) (lock_holder s')) \<and>
    (\<forall>task t. map_of (lk_tasks s) task = Some t \<longrightarrow>
       (lt_held t \<longleftrightarrow> lock_holder s (lt_hash t) = Some task) \<and>
       (lock_acquire task s \<noteq> None \<longleftrightarrow> lock_holder s (lt_hash t) = None))"
proof -
  note inv = lock_inv_reachable [OF assms]
  have "lock_holder locks_default = (\<lambda>_. None)" by (simp add: lock_holder_def locks_default_def fun_eq_iff)
  moreover have "lt_held t \<longleftrightarrow> lock_holder s (lt_hash t) = Some task" if "map_of (lk_tasks s) task = Some t" for task t
    using that by (simp add: lock_holder_iff [OF inv])
  ultimately show ?thesis using lock_step_refines [OF inv] acquire_iff [OF inv] by blast
qed

text \<open>Two tasks ask for one hash; the first gets it, the second has to wait.\<close>

theorem blob_lock_refines_mutex_witness:
  "\<exists>s. lock_step\<^sup>*\<^sup>* locks_default s \<and> map_of (lk_tasks s) 1 \<noteq> None \<and> lock_acquire 2 s = None"
proof -
  let ?s2 = "lock_enter 2 ''a'' (lock_enter 1 ''a'' locks_default)"
  define s3 where "s3 = ?s2\<lparr>lk_tasks := hm_insert 1 \<lparr>lt_hash = ''a'', lt_address = 0, lt_held = True\<rparr> (lk_tasks ?s2)\<rparr>"
  have e1: "lock_step locks_default (lock_enter 1 ''a'' locks_default)" by (rule enters) (simp add: locks_default_def)
  have e2: "lock_step (lock_enter 1 ''a'' locks_default) ?s2"
    by (rule enters) (simp add: lock_enter_def locks_default_def)
  have e3: "lock_step ?s2 s3"
    by (rule acquires [where task = 1]) (simp add: s3_def lock_acquire_def lock_enter_def locks_default_def strong_count_def)
  have r: "lock_step\<^sup>*\<^sup>* locks_default s3" 
    by (intro converse_rtranclp_into_rtranclp [where r = lock_step, OF e1] converse_rtranclp_into_rtranclp [where r = lock_step, OF e2]
        converse_rtranclp_into_rtranclp [where r = lock_step, OF e3] rtranclp.rtrancl_refl)
  have t: "map_of (lk_tasks s3) 1 = Some \<lparr>lt_hash = ''a'', lt_address = 0, lt_held = True\<rparr>"
    "map_of (lk_tasks s3) 2 = Some \<lparr>lt_hash = ''a'', lt_address = 0, lt_held = False\<rparr>"
    by (simp_all add: s3_def lock_enter_def locks_default_def strong_count_def)
  have "lock_holder s3 ''a'' = Some 1"
    using blob_lock_refines_mutex [OF r] t(1) by fastforce
  then have "lock_acquire 2 s3 = None" using blob_lock_refines_mutex [OF r] t(2) by fastforce
  then show ?thesis using r t by blast
qed

end
