(* ===== verification/Errors.thy ===== *)
theory Errors
  imports Prelude
begin

text \<open>
  The error type of the server and its HTTP rendering (\<open>src/error.rs\<close>), with the small part of
  the \<open>http\<close> crate the handlers use: header maps and responses. A fallible operation of the code
  returns \<open>app_error + 'a\<close>; \<open>and_then\<close> is the \<open>?\<close> operator.

  \<open>into_response\<close> is \<open>None\<close> where the code's \<open>expect\<close> panics because the message is not a legal
  header value.
\<close>

section \<open>Headers and responses\<close>

type_synonym header_map = "(string \<times> string) list"

text \<open>\<open>HeaderMap::get\<close>: the first value under a name, names compared without case.\<close>

definition hget :: "header_map \<Rightarrow> string \<Rightarrow> string option" where
  "hget hs n = map_option snd (find (\<lambda>(k, _). eq_ignore_ascii_case k n) hs)"

text \<open>\<open>HeaderValue::to_str\<close> succeeds on visible ASCII and tabs only.\<close>

definition visible_ascii :: "char \<Rightarrow> bool" where
  "visible_ascii c \<longleftrightarrow> (32 \<le> byte_of c \<and> byte_of c < 127) \<or> byte_of c = 9"

definition to_str :: "string \<Rightarrow> string option" where
  "to_str v = (if list_all visible_ascii v then Some v else None)"

definition hget_str :: "header_map \<Rightarrow> string \<Rightarrow> string option" where
  "hget_str hs n = Option.bind (hget hs n) to_str"

text \<open>\<open>HeaderValue::from_str\<close> accepts bytes from 32 upwards except DEL, and the tab.\<close>

definition header_value_ok :: "string \<Rightarrow> bool" where
  "header_value_ok v \<longleftrightarrow> list_all (\<lambda>c. (32 \<le> byte_of c \<and> byte_of c \<noteq> 127) \<or> byte_of c = 9) v"

text \<open>\<open>HeaderMap::insert\<close> replaces every value under the name.\<close>

definition hinsert :: "string \<Rightarrow> string \<Rightarrow> header_map \<Rightarrow> header_map" where
  "hinsert n v hs = filter (\<lambda>(k, _). \<not> eq_ignore_ascii_case k n) hs @ [(n, v)]"

record 'b response =
  status :: nat
  rheaders :: header_map
  body :: 'b

lemma eq_ignore_ascii_case_refl [simp]: "eq_ignore_ascii_case s s"
  by (simp add: eq_ignore_ascii_case_def)

lemma find_append: "find P (xs @ ys) = (case find P xs of None \<Rightarrow> find P ys | Some x \<Rightarrow> Some x)"
  by (induction xs) auto

lemma find_filter_same: "find P (filter (\<lambda>x. \<not> P x) xs) = None"
  by (auto simp: find_None_iff)

lemma hget_hinsert_same: "hget (hinsert n v hs) n = Some v"
  by (induction hs) (auto simp: hget_def hinsert_def)

section \<open>The error type\<close>

datatype app_error =
    Unauthorized string
  | Forbidden string
  | PaymentRequired (amount_sats: u64) (unit_name: string) (mints: "string list")
  | BadRequest string
  | LengthRequired string
  | PayloadTooLarge string
  | NotFound string
  | Conflict string
  | InsufficientStorage string
  | IoError string
  | NetworkError string
  | Timeout string
  | BadGateway string
  | ServiceUnavailable string
  | InternalError string

type_synonym 'a app_result = "app_error + 'a"

definition and_then :: "'e + 'a \<Rightarrow> ('a \<Rightarrow> 'e + 'b) \<Rightarrow> 'e + 'b" where
  "and_then r f = (case r of Inl e \<Rightarrow> Inl e | Inr x \<Rightarrow> f x)"

definition ok_or :: "'a option \<Rightarrow> 'e \<Rightarrow> 'e + 'a" where
  "ok_or x e = (case x of None \<Rightarrow> Inl e | Some v \<Rightarrow> Inr v)"

lemma and_then_simps [simp]: "and_then (Inl e) f = Inl e" "and_then (Inr x) f = f x"
  by (simp_all add: and_then_def)

lemma and_then_Inr_iff: "and_then r f = Inr y \<longleftrightarrow> (\<exists>x. r = Inr x \<and> f x = Inr y)"
  by (cases r) auto

lemma and_then_Inl_iff:
  "and_then r f = Inl e \<longleftrightarrow> r = Inl e \<or> (\<exists>x. r = Inr x \<and> f x = Inl e)"
  by (cases r) auto

lemma ok_or_Inr_iff [simp]: "ok_or x e = Inr v \<longleftrightarrow> x = Some v"
  by (simp add: ok_or_def split: option.splits)

lemma ok_or_simps [simp]: "ok_or None e = Inl e" "ok_or (Some v) e = Inr v"
  by (simp_all add: ok_or_def)

fun error_display :: "app_error \<Rightarrow> string" where
  "error_display (Unauthorized msg) = ''Unauthorized: '' @ msg"
| "error_display (Forbidden msg) = ''Forbidden: '' @ msg"
| "error_display (PaymentRequired amount un ms) =
     ''Payment required: '' @ show_u64 amount @ '' '' @ un @ '' (mints: '' @ join_with '', '' ms @ '')''"
| "error_display (BadRequest msg) = ''Bad request: '' @ msg"
| "error_display (LengthRequired msg) = ''Length required: '' @ msg"
| "error_display (PayloadTooLarge msg) = ''Payload too large: '' @ msg"
| "error_display (NotFound msg) = ''Not found: '' @ msg"
| "error_display (Conflict msg) = ''Conflict: '' @ msg"
| "error_display (InsufficientStorage msg) = ''Insufficient storage: '' @ msg"
| "error_display (IoError msg) = ''I/O error: '' @ msg"
| "error_display (NetworkError msg) = ''Network error: '' @ msg"
| "error_display (Timeout msg) = ''Timeout: '' @ msg"
| "error_display (BadGateway msg) = ''Bad gateway: '' @ msg"
| "error_display (ServiceUnavailable msg) = ''Service unavailable: '' @ msg"
| "error_display (InternalError msg) = ''Internal error: '' @ msg"

text \<open>\<open>impl From<AppError> for StatusCode\<close>.\<close>

fun status_of_error :: "app_error \<Rightarrow> nat" where
  "status_of_error (Unauthorized _) = 401"
| "status_of_error (Forbidden _) = 403"
| "status_of_error (PaymentRequired _ _ _) = 402"
| "status_of_error (BadRequest _) = 400"
| "status_of_error (LengthRequired _) = 411"
| "status_of_error (PayloadTooLarge _) = 413"
| "status_of_error (NotFound _) = 404"
| "status_of_error (Conflict _) = 409"
| "status_of_error (InsufficientStorage _) = 507"
| "status_of_error (IoError _) = 500"
| "status_of_error (NetworkError _) = 502"
| "status_of_error (Timeout _) = 408"
| "status_of_error (BadGateway _) = 502"
| "status_of_error (ServiceUnavailable _) = 503"
| "status_of_error (InternalError _) = 500"

text \<open>
  \<open>impl IntoResponse for AppError\<close>. \<open>enc\<close> stands for the URL-safe Base64 of the JSON payment
  request (\<open>base64\<close> and \<open>serde_json\<close>, outside the repository). The status match of the general
  branch lists the same codes as \<open>status_of_error\<close>.
\<close>

definition into_response ::
  "(u64 \<Rightarrow> string \<Rightarrow> string list \<Rightarrow> string) \<Rightarrow> app_error \<Rightarrow> string response option" where
  "into_response enc e =
     (case e of
        PaymentRequired amount un ms \<Rightarrow>
          (let encoded = ''cashuA'' @ enc amount un ms; reason = error_display e
           in if header_value_ok encoded \<and> header_value_ok reason
              then Some \<lparr>status = 402, rheaders = [(''X-Cashu'', encoded), (''X-Reason'', reason)],
                         body = ''Payment required: '' @ show_u64 amount @ '' '' @ un\<rparr>
              else None)
      | _ \<Rightarrow>
          (let b = error_display e
           in if header_value_ok b
              then Some \<lparr>status = status_of_error e, rheaders = [(''X-Reason'', b)], body = b\<rparr>
              else None))"

lemma status_of_error_range: "400 \<le> status_of_error e \<and> status_of_error e < 600"
  by (cases e) auto

lemma into_response_status:
  assumes "into_response enc e = Some r"
  shows "status r = status_of_error e \<and> hget (rheaders r) ''X-Reason'' = Some (error_display e)"
  using assms
  by (cases e)
    (auto simp: into_response_def Let_def hget_def eq_ignore_ascii_case_def ascii_lower_def
        is_ascii_uppercase_def byte_of_def split: if_splits)

end
