(* ===== verification/Models.thy ===== *)
theory Models
  imports Errors
begin

text \<open>
  The data model of \<open>src/models.rs\<close>: feature and upstream modes, blob metadata, the storage layout,
  the in-flight download types, chunk uploads, the request queries, and \<open>app_config\<close>, the part of
  \<open>AppState\<close> no handler changes. The mutable part of \<open>AppState\<close> is split over the component
  theories that own it. A path is its list of components; a public key is its hexadecimal text.
\<close>

type_synonym path = "string list"
type_synonym pubkey = string
type_synonym instant = nat

section \<open>Modes\<close>

datatype feature_mode = Off | Wot | Dvm | Public

definition is_enabled :: "feature_mode \<Rightarrow> bool" where
  "is_enabled m \<longleftrightarrow> m = Wot \<or> m = Dvm \<or> m = Public"

definition requires_wot :: "feature_mode \<Rightarrow> bool" where
  "requires_wot m \<longleftrightarrow> m = Wot"

definition requires_dvm :: "feature_mode \<Rightarrow> bool" where
  "requires_dvm m \<longleftrightarrow> m = Dvm"

fun feature_mode_str :: "feature_mode \<Rightarrow> string" where
  "feature_mode_str Off = ''off''"
| "feature_mode_str Wot = ''wot''"
| "feature_mode_str Dvm = ''dvm''"
| "feature_mode_str Public = ''public''"

datatype upstream_mode = Proxy | Redirect | RedirectAndCache

definition is_redirect :: "upstream_mode \<Rightarrow> bool" where
  "is_redirect m \<longleftrightarrow> m = Redirect \<or> m = RedirectAndCache"

definition caches_in_background :: "upstream_mode \<Rightarrow> bool" where
  "caches_in_background m \<longleftrightarrow> m = RedirectAndCache"

fun upstream_mode_str :: "upstream_mode \<Rightarrow> string" where
  "upstream_mode_str Proxy = ''proxy''"
| "upstream_mode_str Redirect = ''redirect''"
| "upstream_mode_str RedirectAndCache = ''redirect-and-cache''"

datatype report_action = Quarantine | Delete

fun report_action_str :: "report_action \<Rightarrow> string" where
  "report_action_str Quarantine = ''quarantine''"
| "report_action_str Delete = ''delete''"

lemma is_enabled_iff [simp]: "is_enabled m \<longleftrightarrow> m \<noteq> Off"
  by (cases m) (auto simp: is_enabled_def)

section \<open>Blobs and where they live\<close>

datatype file_location = Local path | S3 string

datatype blob_origin = Upload | UpstreamCache

record storage_layout =
  root :: path
  uploads :: path
  upstream_cache :: path
  temp :: path
  quarantine :: path
  reports :: path

definition storage_layout_new :: "path \<Rightarrow> storage_layout" where
  "storage_layout_new r =
     \<lparr>root = r, uploads = r @ [''uploads''], upstream_cache = r @ [''upstream-cache''],
      temp = r @ [''temp''], quarantine = r @ [''quarantine''], reports = r @ [''reports'']\<rparr>"

record file_metadata =
  md_location :: file_location
  md_extension :: "string option"
  md_mime_type :: "string option"
  md_size :: u64
  md_created_at :: u64
  md_pubkey :: "pubkey option"
  md_expiration :: "u64 option"
  md_origin :: blob_origin

record serve_file_metadata =
  sf_path :: path
  sf_extension :: "string option"
  sf_mime_type :: "string option"
  sf_size :: u64

record blob_descriptor =
  bd_url :: string
  bd_sha256 :: string
  bd_size :: u64
  bd_type :: string
  bd_uploaded :: u64
  bd_expiration :: "u64 option"
  bd_nip94 :: "string list list"

section \<open>In-flight downloads\<close>

datatype download_phase = Running | Complete | Failed

record download_progress =
  written :: u64
  phase :: download_phase

datatype negotiation_phase = NegPending | NegReady | NegFailed

section \<open>Chunked uploads\<close>

record chunk_upload_key =
  ck_pubkey :: pubkey
  ck_sha256 :: string

record chunk_info =
  ch_offset :: u64
  ch_length :: u64
  ch_path :: path

record chunk_upload =
  cu_sha256 :: string
  cu_owner :: pubkey
  cu_upload_type :: string
  cu_upload_length :: u64
  cu_chunks :: "chunk_info list"
  cu_created_at :: instant
  cu_expiration :: "u64 option"

section \<open>Request queries\<close>

record list_query =
  lq_since :: "u64 option"
  lq_until :: "u64 option"
  lq_cursor :: "string option"
  lq_limit :: "nat option"

record file_request_query =
  fq_servers :: "string list"
  fq_origin :: "string option"
  fq_xs :: "string list"
  fq_author_pubkey :: "string option"

section \<open>Configuration held by the application state\<close>

record app_config =
  storage :: storage_layout
  max_total_size :: u64
  max_total_files :: nat
  max_blob_size_bytes :: u64
  min_free_disk_bytes :: u64
  cors_allowed_origins :: "string list"
  public_url :: string
  allowed_pubkeys :: "pubkey list"
  max_file_age_secs :: u64
  max_upstream_cache_ttl_secs :: u64
  upstream_servers :: "string list"
  upstream_mode_of :: upstream_mode
  max_upstream_download_size_bytes :: u64
  max_chunk_size_bytes :: u64
  chunk_cleanup_timeout :: nat
  feature_upload_enabled :: feature_mode
  feature_mirror_enabled :: feature_mode
  feature_list_enabled :: bool
  feature_custom_upstream_origin_enabled :: feature_mode
  feature_homepage_enabled :: bool
  filter_algorithm :: string
  report_action_of :: report_action
  feature_report_enabled :: feature_mode
  auth_max_ttl_secs :: u64
  auth_clock_skew_secs :: u64
  auth_require_server_tag :: bool
  metrics_bearer_token :: "string option"
  feature_paid_upload :: bool
  feature_paid_mirror :: bool
  feature_paid_download :: bool
  cashu_price_per_mb :: u64
  cashu_accepted_mints :: "string list"
  blossom_server_list_cache_ttl :: nat
  max_chunk_upload_sessions :: nat
  max_chunk_upload_sessions_per_pubkey :: nat
  serve_files_path :: "path option"
  serve_files_manifest_dir :: path
  serve_files_manifest_name :: string
  dvm_allowed_kinds :: "nat list"
  dvm_relays :: "string list"

lemma storage_layout_roots:
  "uploads (storage_layout_new r) \<noteq> upstream_cache (storage_layout_new r)"
  "uploads (storage_layout_new r) \<noteq> temp (storage_layout_new r)"
  "uploads (storage_layout_new r) \<noteq> quarantine (storage_layout_new r)"
  by (simp_all add: storage_layout_new_def)

text \<open>A configuration for the examples: everything on, no quotas, no payments.\<close>

definition sample_config :: app_config where
  "sample_config =
     \<lparr>storage = storage_layout_new [''srv''], max_total_size = 0, max_total_files = 0,
      max_blob_size_bytes = 1000, min_free_disk_bytes = 0, cors_allowed_origins = [],
      public_url = ''https://blobs.example'', allowed_pubkeys = [''alice''], max_file_age_secs = 0,
      max_upstream_cache_ttl_secs = 0, upstream_servers = [], upstream_mode_of = Proxy,
      max_upstream_download_size_bytes = 500, max_chunk_size_bytes = 100, chunk_cleanup_timeout = 60,
      feature_upload_enabled = Public, feature_mirror_enabled = Public, feature_list_enabled = True,
      feature_custom_upstream_origin_enabled = Off, feature_homepage_enabled = False,
      filter_algorithm = ''binary-fuse-16'', report_action_of = Quarantine,
      feature_report_enabled = Public, auth_max_ttl_secs = 600, auth_clock_skew_secs = 30,
      auth_require_server_tag = False, metrics_bearer_token = None, feature_paid_upload = False,
      feature_paid_mirror = False, feature_paid_download = False, cashu_price_per_mb = 1,
      cashu_accepted_mints = [], blossom_server_list_cache_ttl = 3600,
      max_chunk_upload_sessions = 8, max_chunk_upload_sessions_per_pubkey = 2, serve_files_path = None,
      serve_files_manifest_dir = [''tmp''], serve_files_manifest_name = ''manifest-sha256.txt'',
      dvm_allowed_kinds = [], dvm_relays = []\<rparr>"

end
