(* ===== verification/BlobName.thy ===== *)
theory BlobName
  imports Models
begin

text \<open>
  The blob-name grammar \<open><hash>[_<expiration>][.<extension>]\<close> of \<open>src/services/blob_name.rs\<close> and the
  object keys \<open><h0>/<h1>/<name>\<close> built on it by \<open>src/services/native_storage.rs\<close>. The locale \<open>codec\<close>
  states what both printers promise their parsers; its client lemma is that distinct blobs never
  share a name.
\<close>

section \<open>Hashes\<close>

abbreviation HASH_LEN :: nat where
  "HASH_LEN \<equiv> 64"

definition is_valid_hash :: "string \<Rightarrow> bool" where
  "is_valid_hash h \<longleftrightarrow> length h = HASH_LEN \<and> list_all is_lower_hex h"

definition require_hash :: "string \<Rightarrow> unit app_result" where
  "require_hash h =
     (if \<not> is_valid_hash h then Inl (BadRequest ''Invalid SHA-256 hash'') else Inr ())"

definition validate_sha256_format :: "string \<Rightarrow> unit app_result" where
  "validate_sha256_format h =
     (if \<not> is_valid_hash h
      then Inl (BadRequest ''SHA-256 must be exactly 64 lowercase hexadecimal characters'')
      else Inr ())"

section \<open>The name grammar\<close>

record parsed_name =
  pn_hash :: string
  pn_expiration :: "u64 option"
  pn_extension :: "string option"

definition blob_name :: "string \<Rightarrow> u64 option \<Rightarrow> string option \<Rightarrow> string app_result" where
  "blob_name h expiration extension =
     and_then (require_hash h) (\<lambda>_. Inr
       (case (expiration, extension) of
          (Some e, Some x) \<Rightarrow> h @ ''_'' @ show_u64 e @ ''.'' @ x
        | (Some e, None) \<Rightarrow> h @ ''_'' @ show_u64 e
        | (None, Some x) \<Rightarrow> h @ ''.'' @ x
        | (None, None) \<Rightarrow> h))"

text \<open>
  The part after the hash: nothing, \<open>_<digits>\<close> up to a dot or the end, or \<open>.<extension>\<close>. The outer
  \<open>option\<close> is the early \<open>return None\<close> of the code.
\<close>

definition parse_rest :: "string \<Rightarrow> (u64 option \<times> string option) option" where
  "parse_rest rest =
     (if rest = [] then Some (None, None)
      else case strip_prefix ''_'' rest of
        Some after \<Rightarrow>
          (let (digits, extension) =
             (case split_once (CHR ''.'') after of
                None \<Rightarrow> (after, None) | Some (ds, ext) \<Rightarrow> (ds, Some ext))
           in if digits = [] \<or> \<not> list_all is_ascii_digit digits then None
              else map_option (\<lambda>n. (Some n, extension)) (parse_u64 digits))
      | None \<Rightarrow> map_option (\<lambda>x. (None, Some x)) (strip_prefix ''.'' rest))"

definition parse_name :: "string \<Rightarrow> parsed_name option" where
  "parse_name nm =
     (if length nm < HASH_LEN then None
      else let h = take HASH_LEN nm; rest = drop HASH_LEN nm
           in if \<not> is_valid_hash h then None
              else map_option (\<lambda>(e, x). \<lparr>pn_hash = h, pn_expiration = e, pn_extension = x\<rparr>)
                     (parse_rest rest))"

definition fan_out :: "string \<Rightarrow> (string \<times> string) app_result" where
  "fan_out h = and_then (require_hash h) (\<lambda>_. Inr (take 1 h, take 1 (drop 1 h)))"

definition extract_sha256_from_filename :: "string \<Rightarrow> string option" where
  "extract_sha256_from_filename filename = map_option pn_hash (parse_name filename)"

text \<open>\<open>get_sha256_hash_from_filename\<close> of \<open>src/utils.rs\<close>: the request path, either hex case.\<close>

definition get_sha256_hash_from_filename :: "string \<Rightarrow> string option" where
  "get_sha256_hash_from_filename filename =
     (let h = (case split_once (CHR ''.'') filename of None \<Rightarrow> filename | Some (h, _) \<Rightarrow> h)
      in if length h = 64 \<and> list_all is_ascii_hexdigit h then Some h else None)"

section \<open>Object keys of the S3 backend\<close>

definition object_key :: "string \<Rightarrow> string option \<Rightarrow> u64 option \<Rightarrow> string app_result" where
  "object_key sha256 extension expiration =
     and_then (fan_out sha256) (\<lambda>(h0, h1).
     and_then (blob_name sha256 expiration extension) (\<lambda>filename.
       Inr (h0 @ ''/'' @ h1 @ ''/'' @ filename)))"

definition hash_prefix :: "string \<Rightarrow> string app_result" where
  "hash_prefix sha256 =
     and_then (fan_out sha256) (\<lambda>(h0, h1). Inr (h0 @ ''/'' @ h1 @ ''/'' @ sha256))"

definition parse_object_key :: "string \<Rightarrow> (string \<times> u64 option \<times> string option) option" where
  "parse_object_key key =
     (case split_on (CHR ''/'') key of
        [first, second, filename] \<Rightarrow>
          (case parse_name filename of
             None \<Rightarrow> None
           | Some p \<Rightarrow>
               if first \<noteq> take 1 (pn_hash p) \<or> second \<noteq> take 1 (drop 1 (pn_hash p)) then None
               else Some (pn_hash p, pn_expiration p, pn_extension p))
      | _ \<Rightarrow> None)"

section \<open>Lemmas\<close>

lemma valid_hash_length: "is_valid_hash h \<Longrightarrow> length h = 64"
  by (simp add: is_valid_hash_def)

lemma lower_hex_chars:
  "\<not> is_lower_hex (CHR ''/'')" "\<not> is_lower_hex (CHR ''.'')" "\<not> is_lower_hex (CHR ''_'')"
  by (simp_all add: is_lower_hex_def is_ascii_digit_def byte_of_def)

lemma valid_hash_no_char: "is_valid_hash h \<Longrightarrow> \<not> is_lower_hex c \<Longrightarrow> c \<notin> set h"
  by (auto simp: is_valid_hash_def list_all_iff)

lemma require_hash_iff [simp]: "require_hash h = Inr u \<longleftrightarrow> is_valid_hash h"
  by (simp add: require_hash_def)

lemma validate_sha256_format_iff [simp]: "validate_sha256_format h = Inr u \<longleftrightarrow> is_valid_hash h"
  by (simp add: validate_sha256_format_def)

definition name_suffix :: "u64 option \<Rightarrow> string option \<Rightarrow> string" where
  "name_suffix e x =
     (case e of None \<Rightarrow> [] | Some n \<Rightarrow> ''_'' @ show_u64 n) @
     (case x of None \<Rightarrow> [] | Some ext \<Rightarrow> ''.'' @ ext)"

lemma blob_name_valid: "is_valid_hash h \<Longrightarrow> blob_name h e x = Inr (h @ name_suffix e x)"
  by (simp add: blob_name_def require_hash_def name_suffix_def split: option.splits)

lemma blob_name_iff: "blob_name h e x = Inr n \<longleftrightarrow> is_valid_hash h \<and> n = h @ name_suffix e x"
  using blob_name_valid [of h e x] by (auto simp: blob_name_def and_then_Inr_iff)

lemma parse_rest_suffix: "parse_rest (name_suffix e x) = Some (e, x)"
proof (cases e)
  case None
  then show ?thesis
    by (cases x) (simp_all add: name_suffix_def parse_rest_def)
next
  case (Some n)
  note dot = show_u64_no_char [OF not_digit_dot, of n]
  show ?thesis
  proof (cases x)
    case None
    have "split_once (CHR ''.'') (show_u64 n) = None"
      using dot by (simp add: str_simps)
    with Some None show ?thesis
      by (simp add: name_suffix_def parse_rest_def show_u64_digits)
  next
    case (Some ext)
    with \<open>e = Some n\<close> dot show ?thesis
      by (simp add: name_suffix_def parse_rest_def show_u64_digits)
  qed
qed

lemma parse_name_append:
  "is_valid_hash h \<Longrightarrow> parse_name (h @ s) =
     map_option (\<lambda>(e, x). \<lparr>pn_hash = h, pn_expiration = e, pn_extension = x\<rparr>) (parse_rest s)"
  by (simp add: parse_name_def valid_hash_length)

lemma parse_blob_name:
  "blob_name h e x = Inr n \<Longrightarrow>
     parse_name n = Some \<lparr>pn_hash = h, pn_expiration = e, pn_extension = x\<rparr>"
  by (auto simp: blob_name_iff parse_name_append parse_rest_suffix)

lemma parse_name_hash: "parse_name n = Some p \<Longrightarrow> is_valid_hash (pn_hash p) \<and> take 64 n = pn_hash p"
  by (auto simp: parse_name_def Let_def split: if_splits)

section \<open>Printers and parsers as codecs\<close>

locale codec =
  fixes enc :: "'a \<Rightarrow> string app_result"
    and dec :: "string \<Rightarrow> 'a option"
  assumes dec_enc: "enc a = Inr s \<Longrightarrow> dec s = Some a"
begin

lemma enc_inj: "enc a = Inr s \<Longrightarrow> enc b = Inr s \<Longrightarrow> a = b"
  using dec_enc [of a s] dec_enc [of b s] by simp

lemma enc_collision_free: "a \<noteq> b \<Longrightarrow> enc a = Inr s \<Longrightarrow> enc b \<noteq> Inr s"
  using enc_inj by blast

lemma dec_total_on_range: "\<exists>a. enc a = Inr s \<Longrightarrow> dec s \<noteq> None"
  using dec_enc by fastforce

end

definition name_of_parts :: "parsed_name \<Rightarrow> string app_result" where
  "name_of_parts p = blob_name (pn_hash p) (pn_expiration p) (pn_extension p)"

interpretation name_codec: codec name_of_parts parse_name
proof
  fix a s
  assume "name_of_parts a = Inr s"
  then show "parse_name s = Some a"
    using parse_blob_name [of "pn_hash a" "pn_expiration a" "pn_extension a" s]
    by (simp add: name_of_parts_def)
qed

definition key_of_parts :: "string \<times> u64 option \<times> string option \<Rightarrow> string app_result" where
  "key_of_parts = (\<lambda>(h, e, x). object_key h x e)"

lemma fan_out_valid: "is_valid_hash h \<Longrightarrow> fan_out h = Inr (take 1 h, take 1 (drop 1 h))"
  by (simp add: fan_out_def require_hash_def)

lemma object_key_iff:
  "object_key h x e = Inr k \<longleftrightarrow>
     is_valid_hash h \<and> k = take 1 h @ ''/'' @ take 1 (drop 1 h) @ ''/'' @ h @ name_suffix e x"
proof (cases "is_valid_hash h")
  case True
  then show ?thesis
    by (auto simp: object_key_def fan_out_valid blob_name_valid)
next
  case False
  then show ?thesis
    by (simp add: object_key_def fan_out_def require_hash_def)
qed

lemma parse_object_key_key:
  assumes key: "object_key h x e = Inr k"
    and ext: "\<And>s. x = Some s \<Longrightarrow> CHR ''/'' \<notin> set s"
  shows "parse_object_key k = Some (h, e, x)"
proof -
  from key have h: "is_valid_hash h"
    and k: "k = take 1 h @ CHR ''/'' # take 1 (drop 1 h) @ CHR ''/'' # (h @ name_suffix e x)"
    by (auto simp: object_key_iff)
  have slash: "CHR ''/'' \<notin> set h"
    using h lower_hex_chars(1) by (rule valid_hash_no_char)
  then have t: "CHR ''/'' \<notin> set (take 1 h)" "CHR ''/'' \<notin> set (take 1 (drop 1 h))"
    by (auto dest: in_set_takeD in_set_dropD)
  have "CHR ''/'' \<notin> set (name_suffix e x)"
    using ext show_u64_no_char [OF not_digit_slash]
    by (auto simp: name_suffix_def split: option.splits)
  with slash have n: "CHR ''/'' \<notin> set (h @ name_suffix e x)" by simp
  have "split_on (CHR ''/'') k = [take 1 h, take 1 (drop 1 h), h @ name_suffix e x]"
    unfolding k split_on_append [OF t(1)] split_on_append [OF t(2)] split_on_no_sep [OF n] ..
  then show ?thesis
    using h by (simp add: parse_object_key_def parse_name_append parse_rest_suffix)
qed

lemma parse_object_key_valid:
  "parse_object_key k = Some (h, e, x) \<Longrightarrow> is_valid_hash h"
  by (auto simp: parse_object_key_def dest: parse_name_hash split: list.splits option.splits if_splits)

text \<open>The key codec, for extensions without a path separator.\<close>

definition slash_free_key :: "string \<times> u64 option \<times> string option \<Rightarrow> string app_result" where
  "slash_free_key = (\<lambda>(h, e, x).
     if (case x of Some s \<Rightarrow> CHR ''/'' \<in> set s | None \<Rightarrow> False)
     then Inl (BadRequest ''extension with a separator'') else key_of_parts (h, e, x))"

interpretation key_codec: codec slash_free_key parse_object_key
proof
  fix a s
  assume "slash_free_key a = Inr s"
  moreover obtain h e x where a: "a = (h, e, x)" by (cases a) auto
  ultimately have "object_key h x e = Inr s" "\<And>t. x = Some t \<Longrightarrow> CHR ''/'' \<notin> set t"
    by (auto simp: slash_free_key_def key_of_parts_def split: if_splits option.splits)
  with a show "parse_object_key s = Some a"
    using parse_object_key_key by simp
qed

end
