(* ===== verification/Files.thy ===== *)
theory Files
  imports BlobName
begin

text \<open>
  The part of \<open>std::fs\<close> / \<open>tokio::fs\<close> the server uses, over an explicit tree: regular files with
  their bytes, and the directories that exist. Faults of the host are an oracle of the environment,
  \<open>io_fault\<close>, asked before every call; apart from them the calls behave as POSIX documents. The
  clock, free disk space and fresh identifiers come from the environment too.
\<close>

datatype io_op = Io_Create_Dir | Io_Read_Dir | Io_Exists | Io_Remove | Io_Rename | Io_Create
  | Io_Write | Io_Read | Io_Sync | Io_Stat | Io_Open | Io_Seek | Io_Flush

datatype io_error = Io_NotFound | Io_Other string

fun io_text :: "io_error \<Rightarrow> string" where
  "io_text Io_NotFound = ''No such file or directory (os error 2)''"
| "io_text (Io_Other e) = e"

record fs =
  fs_files :: "(path \<times> bytes) list"
  fs_dirs :: "path list"

record host_env =
  io_fault :: "io_op \<Rightarrow> path \<Rightarrow> string option"
  available_space :: "path \<Rightarrow> string + u64"
  now_secs :: u64
  fresh_uuid :: string
  mtime_of :: "path \<Rightarrow> u64"

abbreviation fs_data :: "fs \<Rightarrow> path \<Rightarrow> bytes option" where
  "fs_data f p \<equiv> map_of (fs_files f) p"

definition display_path :: "path \<Rightarrow> string" where
  "display_path p = join_with ''/'' p"

definition fs_remove_file :: "host_env \<Rightarrow> path \<Rightarrow> fs \<Rightarrow> (io_error + unit) \<times> fs" where
  "fs_remove_file h p f =
     (case io_fault h Io_Remove p of
        Some e \<Rightarrow> (Inl (Io_Other e), f)
      | None \<Rightarrow>
          if p \<in> set (fs_dirs f) then (Inl (Io_Other ''Is a directory (os error 21)''), f)
          else (case fs_data f p of
            None \<Rightarrow> (Inl Io_NotFound, f)
          | Some _ \<Rightarrow> (Inr (), f\<lparr>fs_files := hm_remove p (fs_files f)\<rparr>)))"

definition fs_rename :: "host_env \<Rightarrow> path \<Rightarrow> path \<Rightarrow> fs \<Rightarrow> (io_error + unit) \<times> fs" where
  "fs_rename h src dst f =
     (case io_fault h Io_Rename src of
        Some e \<Rightarrow> (Inl (Io_Other e), f)
      | None \<Rightarrow> (case fs_data f src of
            None \<Rightarrow> (Inl Io_NotFound, f)
          | Some d \<Rightarrow>
              if dst \<in> set (fs_dirs f) then (Inl (Io_Other ''Is a directory (os error 21)''), f)
              else if butlast dst \<notin> set (fs_dirs f) then (Inl Io_NotFound, f)
              else (Inr (), f\<lparr>fs_files := hm_insert dst d (hm_remove src (fs_files f))\<rparr>)))"

fun path_prefixes :: "path \<Rightarrow> path list" where
  "path_prefixes [] = [[]]"
| "path_prefixes (c # cs) = [] # map ((#) c) (path_prefixes cs)"

definition fs_create_dir_all :: "host_env \<Rightarrow> path \<Rightarrow> fs \<Rightarrow> (io_error + unit) \<times> fs" where
  "fs_create_dir_all h p f =
     (case io_fault h Io_Create_Dir p of
        Some e \<Rightarrow> (Inl (Io_Other e), f)
      | None \<Rightarrow>
          if \<exists>q \<in> set (path_prefixes p). fs_data f q \<noteq> None
          then (Inl (Io_Other ''Not a directory (os error 20)''), f)
          else (Inr (), f\<lparr>fs_dirs := fold List.insert (path_prefixes p) (fs_dirs f)\<rparr>))"

text \<open>The names of the entries of a directory, files and subdirectories.\<close>

definition fs_read_dir :: "host_env \<Rightarrow> path \<Rightarrow> fs \<Rightarrow> io_error + string list" where
  "fs_read_dir h p f =
     (case io_fault h Io_Read_Dir p of
        Some e \<Rightarrow> Inl (Io_Other e)
      | None \<Rightarrow>
          if p \<notin> set (fs_dirs f) then Inl Io_NotFound
          else Inr (map last (filter (\<lambda>q. q \<noteq> [] \<and> butlast q = p) (map fst (fs_files f) @ fs_dirs f))))"

definition fs_try_exists :: "host_env \<Rightarrow> path \<Rightarrow> fs \<Rightarrow> io_error + bool" where
  "fs_try_exists h p f =
     (case io_fault h Io_Exists p of
        Some e \<Rightarrow> Inl (Io_Other e)
      | None \<Rightarrow> Inr (fs_data f p \<noteq> None \<or> p \<in> set (fs_dirs f)))"

definition fs_create :: "host_env \<Rightarrow> path \<Rightarrow> fs \<Rightarrow> (io_error + unit) \<times> fs" where
  "fs_create h p f =
     (case io_fault h Io_Create p of
        Some e \<Rightarrow> (Inl (Io_Other e), f)
      | None \<Rightarrow>
          if p \<in> set (fs_dirs f) then (Inl (Io_Other ''Is a directory (os error 21)''), f)
          else if butlast p \<notin> set (fs_dirs f) then (Inl Io_NotFound, f)
          else (Inr (), f\<lparr>fs_files := hm_insert p [] (fs_files f)\<rparr>))"

definition fs_append :: "host_env \<Rightarrow> path \<Rightarrow> bytes \<Rightarrow> fs \<Rightarrow> (io_error + unit) \<times> fs" where
  "fs_append h p d f =
     (case io_fault h Io_Write p of
        Some e \<Rightarrow> (Inl (Io_Other e), f)
      | None \<Rightarrow>
          (Inr (), f\<lparr>fs_files := hm_insert p ((case fs_data f p of None \<Rightarrow> [] | Some b \<Rightarrow> b) @ d) (fs_files f)\<rparr>))"

definition fs_read :: "host_env \<Rightarrow> path \<Rightarrow> fs \<Rightarrow> io_error + bytes" where
  "fs_read h p f =
     (case io_fault h Io_Read p of
        Some e \<Rightarrow> Inl (Io_Other e)
      | None \<Rightarrow> (case fs_data f p of None \<Rightarrow> Inl Io_NotFound | Some d \<Rightarrow> Inr d))"

definition fs_sync :: "host_env \<Rightarrow> path \<Rightarrow> fs \<Rightarrow> io_error + unit" where
  "fs_sync h p f = (case io_fault h Io_Sync p of Some e \<Rightarrow> Inl (Io_Other e) | None \<Rightarrow> Inr ())"

text \<open>\<open>?\<close> on a value-state pair, and \<open>map_err\<close>.\<close>

definition bind_st :: "('e + 'a) \<times> 's \<Rightarrow> ('a \<Rightarrow> 's \<Rightarrow> ('e + 'b) \<times> 's) \<Rightarrow> ('e + 'b) \<times> 's" where
  "bind_st rs k = (case rs of (Inl e, s) \<Rightarrow> (Inl e, s) | (Inr x, s) \<Rightarrow> k x s)"

definition err_st :: "('e \<Rightarrow> 'f) \<Rightarrow> ('e + 'a) \<times> 's \<Rightarrow> ('f + 'a) \<times> 's" where
  "err_st g rs = (case rs of (Inl e, s) \<Rightarrow> (Inl (g e), s) | (Inr x, s) \<Rightarrow> (Inr x, s))"

definition pure_st :: "'e + 'a \<Rightarrow> 's \<Rightarrow> ('e + 'a) \<times> 's" where
  "pure_st r s = (r, s)"

definition app_err :: "('e \<Rightarrow> app_error) \<Rightarrow> 'e + 'a \<Rightarrow> 'a app_result" where
  "app_err g r = (case r of Inl e \<Rightarrow> Inl (g e) | Inr x \<Rightarrow> Inr x)"

lemma bind_st_simps [simp]:
  "bind_st (Inl e, s) k = (Inl e, s)" "bind_st (Inr x, s) k = k x s"
  by (simp_all add: bind_st_def)

lemma err_st_simps [simp]:
  "err_st g (Inl e, s) = (Inl (g e), s)" "err_st g (Inr x, s) = (Inr x, s)"
  by (simp_all add: err_st_def)

lemma app_err_simps [simp]: "app_err g (Inl e) = Inl (g e)" "app_err g (Inr x) = Inr x"
  by (simp_all add: app_err_def)

lemma app_err_Inr_iff [simp]: "app_err g r = Inr x \<longleftrightarrow> r = Inr x"
  by (cases r) auto

lemma bind_st_Inr_iff:
  "bind_st rs k = (Inr y, t) \<longleftrightarrow> (\<exists>x s. rs = (Inr x, s) \<and> k x s = (Inr y, t))"
  by (cases rs; cases "fst rs") auto

lemma err_st_Inr_iff [simp]: "err_st g rs = (Inr x, s) \<longleftrightarrow> rs = (Inr x, s)"
  by (cases rs; cases "fst rs") auto

section \<open>What the calls guarantee\<close>

lemma path_prefixes_self [simp]: "p \<in> set (path_prefixes p)"
  by (induction p) auto

lemma set_fold_insert: "set (fold List.insert xs ys) = set xs \<union> set ys"
  by (induction xs arbitrary: ys) auto

lemma path_prefixes_set: "set (path_prefixes p) = {q. \<exists>t. p = q @ t}"
proof (induction p)
  case Nil
  then show ?case by simp
next
  case (Cons c cs)
  have "q \<in> set (path_prefixes (c # cs)) \<longleftrightarrow> (\<exists>t. c # cs = q @ t)" for q
    using Cons by (cases q) auto
  then show ?case by blast
qed

lemma create_dir_dirs:
  "fs_create_dir_all h p f = (r, f') \<Longrightarrow> set (fs_dirs f') \<subseteq> set (fs_dirs f) \<union> {q. \<exists>t. p = q @ t}"
  by (auto simp: fs_create_dir_all_def set_fold_insert path_prefixes_set split: option.splits if_splits)

lemma remove_file_cases:
  "fs_remove_file h p f = (r, f') \<Longrightarrow>
     (r = Inr () \<and> fs_data f p \<noteq> None \<and> f' = f\<lparr>fs_files := hm_remove p (fs_files f)\<rparr>) \<or>
     (\<exists>e. r = Inl e \<and> f' = f \<and> (e = Io_NotFound \<longrightarrow> fs_data f p = None))"
  by (auto simp: fs_remove_file_def split: option.splits if_splits)

lemma rename_cases:
  "fs_rename h src dst f = (r, f') \<Longrightarrow>
     (\<exists>d. r = Inr () \<and> fs_data f src = Some d \<and>
        f' = f\<lparr>fs_files := hm_insert dst d (hm_remove src (fs_files f))\<rparr>) \<or>
     (\<exists>e. r = Inl e \<and> f' = f)"
  by (auto simp: fs_rename_def split: option.splits if_splits)

lemma create_dir_files [simp]: "fs_files (snd (fs_create_dir_all h p f)) = fs_files f"
  by (auto simp: fs_create_dir_all_def split: option.splits)

lemma create_dir_keeps: "fs_create_dir_all h p f = (r, f') \<Longrightarrow> fs_files f' = fs_files f"
  by (auto simp: fs_create_dir_all_def split: option.splits if_splits)

lemma create_dir_ok:
  "fs_create_dir_all h p f = (Inr u, f') \<Longrightarrow> p \<in> set (fs_dirs f') \<and> fs_files f' = fs_files f"
  by (auto simp: fs_create_dir_all_def set_fold_insert split: option.splits if_splits)

end
