(* ===== verification/BlobIndex.thy ===== *)
theory BlobIndex
  imports BlobName
begin

text \<open>
  The in-memory catalogue of stored blobs, \<open>src/services/blob_index.rs\<close>: \<open>entries\<close> is the locked
  \<open>Entries\<close> (map, running byte total, newest-first \<open>BTreeSet\<close>, generation), one definition per
  method. \<open>index_inv\<close> ties the aggregates to the map; every mutation keeps it. The locale
  \<open>catalogue\<close> is what the storage and retention layers rely on.
\<close>

section \<open>The newest-first order\<close>

text \<open>\<open>(Reverse<u64>, Reverse<String>)\<close>: the derived tuple order on reversed components.\<close>

datatype order_key = Order_Key (ok_time: u64) (ok_hash: string)

instantiation order_key :: linorder
begin

definition less_eq_order_key :: "order_key \<Rightarrow> order_key \<Rightarrow> bool" where
  "less_eq_order_key a b \<longleftrightarrow>
     ok_time b < ok_time a \<or> (ok_time a = ok_time b \<and> ok_hash b \<le> ok_hash a)"

definition less_order_key :: "order_key \<Rightarrow> order_key \<Rightarrow> bool" where
  "less_order_key a b \<longleftrightarrow>
     ok_time b < ok_time a \<or> (ok_time a = ok_time b \<and> ok_hash b < ok_hash a)"

instance
  by standard (auto simp: less_eq_order_key_def less_order_key_def order_key.expand intro: order_key.expand)

end

definition btree_insert :: "'a::linorder \<Rightarrow> 'a list \<Rightarrow> 'a list" where
  "btree_insert x xs = (if x \<in> set xs then xs else insort x xs)"

definition btree_wf :: "'a::linorder list \<Rightarrow> bool" where
  "btree_wf xs \<longleftrightarrow> sorted xs \<and> distinct xs"

lemma set_btree_insert [simp]: "set (btree_insert x xs) = insert x (set xs)"
  by (auto simp: btree_insert_def set_insort_key)

lemma btree_wf_insert [simp]: "btree_wf xs \<Longrightarrow> btree_wf (btree_insert x xs)"
  by (simp add: btree_wf_def btree_insert_def sorted_insort distinct_insort)

lemma btree_wf_remove [simp]: "btree_wf xs \<Longrightarrow> btree_wf (remove1 x xs)"
  by (simp add: btree_wf_def sorted_remove1)

lemma set_btree_remove: "btree_wf xs \<Longrightarrow> set (remove1 x xs) = set xs - {x}"
  by (simp add: btree_wf_def)

section \<open>Entries\<close>

record entries =
  e_map :: "(string \<times> file_metadata) list"
  e_total_bytes :: u64
  e_order :: "order_key list"
  e_generation :: u64

record index_stats =
  is_count :: nat
  is_total_bytes :: u64
  is_generation :: u64

datatype publish_result =
    Published (displaced: "file_metadata option")
  | Retained (existing: file_metadata)

definition entries_default :: entries where
  "entries_default = \<lparr>e_map = [], e_total_bytes = 0, e_order = [], e_generation = 0\<rparr>"

definition key_of :: "string \<Rightarrow> file_metadata \<Rightarrow> order_key" where
  "key_of k m = Order_Key (md_created_at m) k"

text \<open>\<open>Entries::insert\<close> and \<open>Entries::remove\<close>; \<open>+=\<close> wraps as in a release build.\<close>

definition entries_insert ::
  "string \<Rightarrow> file_metadata \<Rightarrow> entries \<Rightarrow> entries \<times> file_metadata option" where
  "entries_insert k m e =
     (let total = e_total_bytes e + md_size m;
          previous = map_of (e_map e) k;
          total' = (case previous of None \<Rightarrow> total | Some p \<Rightarrow> saturating_sub total (md_size p));
          order' = (case previous of None \<Rightarrow> e_order e | Some p \<Rightarrow> remove1 (key_of k p) (e_order e))
      in (\<lparr>e_map = hm_insert k m (e_map e), e_total_bytes = total',
           e_order = btree_insert (key_of k m) order', e_generation = e_generation e + 1\<rparr>, previous))"

definition entries_remove :: "string \<Rightarrow> entries \<Rightarrow> entries \<times> file_metadata option" where
  "entries_remove k e =
     (case map_of (e_map e) k of
        None \<Rightarrow> (e, None)
      | Some r \<Rightarrow>
          (e\<lparr>e_map := hm_remove k (e_map e),
             e_total_bytes := saturating_sub (e_total_bytes e) (md_size r),
             e_order := remove1 (key_of k r) (e_order e),
             e_generation := e_generation e + 1\<rparr>, Some r))"

section \<open>The operations of \<open>BlobIndex\<close>\<close>

definition index_replace :: "(string \<times> file_metadata) list \<Rightarrow> entries \<Rightarrow> entries" where
  "index_replace m e =
     e\<lparr>e_map := m, e_order := fold (\<lambda>(k, v). btree_insert (key_of k v)) m [],
       e_total_bytes := fold (\<lambda>(k, v) acc. acc + md_size v) m 0,
       e_generation := e_generation e + 1\<rparr>"

definition index_get :: "entries \<Rightarrow> string \<Rightarrow> file_metadata option" where
  "index_get e k = map_of (e_map e) k"

definition index_contains :: "entries \<Rightarrow> string \<Rightarrow> bool" where
  "index_contains e k \<longleftrightarrow> map_of (e_map e) k \<noteq> None"

definition index_insert :: "string \<Rightarrow> file_metadata \<Rightarrow> entries \<Rightarrow> entries" where
  "index_insert k m e = fst (entries_insert k m e)"

definition index_publish ::
  "string \<Rightarrow> file_metadata \<Rightarrow> entries \<Rightarrow> entries \<times> publish_result" where
  "index_publish k m e =
     (let go = (let (e', previous) = entries_insert k m e in (e', Published previous))
      in if md_origin m = UpstreamCache
         then (case map_of (e_map e) k of Some ex \<Rightarrow> (e, Retained ex) | None \<Rightarrow> go)
         else go)"

definition index_remove :: "string \<Rightarrow> entries \<Rightarrow> entries \<times> file_metadata option" where
  "index_remove k e = entries_remove k e"

definition index_remove_if_location_matches ::
  "string \<Rightarrow> file_location \<Rightarrow> entries \<Rightarrow> entries \<times> bool" where
  "index_remove_if_location_matches k loc e =
     (let hit = (case map_of (e_map e) k of None \<Rightarrow> False | Some m \<Rightarrow> md_location m = loc)
      in (if hit then fst (entries_remove k e) else e, hit))"

definition index_get_stats :: "entries \<Rightarrow> index_stats" where
  "index_get_stats e =
     \<lparr>is_count = length (e_map e), is_total_bytes = e_total_bytes e, is_generation = e_generation e\<rparr>"

definition index_snapshot :: "entries \<Rightarrow> (string \<times> file_metadata) list" where
  "index_snapshot e = e_map e"

definition page_match :: "u64 \<Rightarrow> u64 \<Rightarrow> pubkey option \<Rightarrow> file_metadata \<Rightarrow> bool" where
  "page_match since til author m \<longleftrightarrow>
     since \<le> md_created_at m \<and> md_created_at m \<le> til \<and>
     (case author of None \<Rightarrow> True | Some a \<Rightarrow> md_pubkey m = Some a)"

text \<open>
  The loop of \<open>page\<close> over the order: \<open>after\<close> is \<open>after_cursor\<close>, \<open>acc\<close> the page so far. A limit of
  zero never equals the length of a non-empty page, so it does not bound the loop.
\<close>

fun page_loop ::
  "(string \<times> file_metadata) list \<Rightarrow> (file_metadata \<Rightarrow> bool) \<Rightarrow> string option \<Rightarrow> nat \<Rightarrow> order_key list \<Rightarrow>
     bool \<Rightarrow> (string \<times> file_metadata) list \<Rightarrow> (string \<times> file_metadata) list" where
  "page_loop m P cursor limit [] after acc = acc"
| "page_loop m P cursor limit (o' # os) after acc =
     (if \<not> after
      then page_loop m P cursor limit os (cursor = Some (ok_hash o')) acc
      else case map_of m (ok_hash o') of
        None \<Rightarrow> page_loop m P cursor limit os after acc
      | Some v \<Rightarrow>
          if \<not> P v then page_loop m P cursor limit os after acc
          else let acc' = acc @ [(ok_hash o', v)]
               in if length acc' = limit then acc' else page_loop m P cursor limit os after acc')"

definition index_page ::
  "u64 \<Rightarrow> u64 \<Rightarrow> pubkey option \<Rightarrow> string option \<Rightarrow> nat \<Rightarrow> entries \<Rightarrow> (string \<times> file_metadata) list" where
  "index_page since til author cursor limit e =
     (let P = page_match since til author;
          cursor_is_in_result =
            (case Option.bind cursor (map_of (e_map e)) of None \<Rightarrow> False | Some m \<Rightarrow> P m)
      in page_loop (e_map e) P cursor limit (e_order e) (\<not> cursor_is_in_result) [])"

definition index_hash_keys :: "entries \<Rightarrow> string list \<times> u64" where
  "index_hash_keys e =
     (map (take 64) (filter (\<lambda>k. 64 \<le> length k \<and> list_all is_ascii_hexdigit (take 64 k))
        (map fst (e_map e))), e_generation e)"

section \<open>The invariant\<close>

definition index_inv :: "entries \<Rightarrow> bool" where
  "index_inv e \<longleftrightarrow> hm_wf (e_map e) \<and> btree_wf (e_order e) \<and>
     set (e_order e) = (\<lambda>(k, v). key_of k v) ` set (e_map e)"

definition map_bytes :: "(string \<times> file_metadata) list \<Rightarrow> nat" where
  "map_bytes m = (\<Sum>(k, v) \<leftarrow> m. unat (md_size v))"

definition total_exact :: "entries \<Rightarrow> bool" where
  "total_exact e \<longleftrightarrow> unat (e_total_bytes e) = map_bytes (e_map e)"

lemma key_of_sel [simp]: "ok_hash (key_of k v) = k" "ok_time (key_of k v) = md_created_at v"
  by (simp_all add: key_of_def)

lemma key_of_eq [simp]: "key_of k v = key_of k' v' \<longleftrightarrow> k = k' \<and> md_created_at v = md_created_at v'"
  by (auto simp: key_of_def)

lemma order_iff:
  "index_inv e \<Longrightarrow> o' \<in> set (e_order e) \<longleftrightarrow>
     (\<exists>v. map_of (e_map e) (ok_hash o') = Some v \<and> md_created_at v = ok_time o')"
  by (cases o') (auto simp: index_inv_def hm_in_set_iff [symmetric] key_of_def image_iff split_beta
      intro!: bexI [where x = "(ok_hash o', _)"])

lemma set_hm_insert:
  "hm_wf m \<Longrightarrow> set (hm_insert k v m) = insert (k, v) {(k', w) \<in> set m. k' \<noteq> k}"
  by (induction m) (auto simp: image_iff)

lemma set_hm_remove: "set (hm_remove k m) = {(k', w) \<in> set m. k' \<noteq> k}"
  by (auto simp: AList.delete_eq)

lemma index_inv_default: "index_inv entries_default"
  by (simp add: index_inv_def entries_default_def btree_wf_def)

lemma set_remove_order:
  assumes inv: "index_inv e" and k: "map_of (e_map e) k = Some p"
  shows "set (remove1 (key_of k p) (e_order e)) =
    (\<lambda>(k', w). key_of k' w) ` {(k', w) \<in> set (e_map e). k' \<noteq> k}"
proof -
  have wf: "hm_wf (e_map e)" and bt: "btree_wf (e_order e)"
    and ord: "set (e_order e) = (\<lambda>(k, v). key_of k v) ` set (e_map e)"
    using inv by (simp_all add: index_inv_def)
  have kp: "w = p" if "(k, w) \<in> set (e_map e)" for w
    using wf k that by simp
  have inj: "key_of k' w = key_of k p \<longleftrightarrow> k' = k" if "(k', w) \<in> set (e_map e)" for k' w
    using kp that by auto
  show ?thesis
    unfolding set_btree_remove [OF bt] ord
  proof (intro set_eqI iffI)
    fix x
    assume "x \<in> (\<lambda>(k, v). key_of k v) ` set (e_map e) - {key_of k p}"
    then obtain k' w where x: "x = key_of k' w" "(k', w) \<in> set (e_map e)" "x \<noteq> key_of k p"
      by auto
    with inj have "k' \<noteq> k" by blast
    with x show "x \<in> (\<lambda>(k', w). key_of k' w) ` {(k', w) \<in> set (e_map e). k' \<noteq> k}" by force
  next
    fix x
    assume "x \<in> (\<lambda>(k', w). key_of k' w) ` {(k', w) \<in> set (e_map e). k' \<noteq> k}"
    then obtain k' w where x: "x = key_of k' w" "(k', w) \<in> set (e_map e)" "k' \<noteq> k"
      by auto
    have "x \<noteq> key_of k p"
      using inj [OF x(2)] x(1,3) by simp
    with x show "x \<in> (\<lambda>(k, v). key_of k v) ` set (e_map e) - {key_of k p}" by force
  qed
qed

lemma order_without_key:
  assumes "index_inv e" "map_of (e_map e) k = None"
  shows "{(k', w) \<in> set (e_map e). k' \<noteq> k} = set (e_map e)"
  using assms by (auto simp: map_of_eq_None_iff image_iff)

lemma index_inv_insert [intro]:
  assumes inv: "index_inv e"
  shows "index_inv (fst (entries_insert k m e))"
proof (cases "map_of (e_map e) k")
  case None
  then show ?thesis
    using inv order_without_key [OF inv None]
    by (simp add: index_inv_def entries_insert_def Let_def set_hm_insert)
next
  case (Some p)
  then show ?thesis
    using inv set_remove_order [OF inv Some]
    by (simp add: index_inv_def entries_insert_def Let_def set_hm_insert)
qed

lemma index_inv_remove [intro]:
  assumes inv: "index_inv e"
  shows "index_inv (fst (entries_remove k e))"
proof (cases "map_of (e_map e) k")
  case None
  with inv show ?thesis by (simp add: entries_remove_def)
next
  case (Some p)
  then show ?thesis
    using inv set_remove_order [OF inv Some]
    by (simp add: index_inv_def entries_remove_def set_hm_remove)
qed

lemma index_inv_publish [intro]: "index_inv e \<Longrightarrow> index_inv (fst (index_publish k m e))"
  using index_inv_insert [of e k m]
  by (auto simp: index_publish_def split_beta Let_def split: option.splits)

lemma index_inv_remove_if [intro]:
  "index_inv e \<Longrightarrow> index_inv (fst (index_remove_if_location_matches k loc e))"
  by (auto simp: index_remove_if_location_matches_def Let_def)

lemma replace_order:
  "btree_wf os \<Longrightarrow> btree_wf (fold (\<lambda>(k, v). btree_insert (key_of k v)) m os) \<and>
     set (fold (\<lambda>(k, v). btree_insert (key_of k v)) m os) = (\<lambda>(k, v). key_of k v) ` set m \<union> set os"
  by (induction m arbitrary: os) auto

lemma index_inv_replace [intro]: "hm_wf m \<Longrightarrow> index_inv (index_replace m e)"
  using replace_order [of "[]" m] by (simp add: index_inv_def index_replace_def btree_wf_def)

subsection \<open>What the map holds after an operation\<close>

lemma e_map_insert [hm_simps]: "e_map (fst (entries_insert k m e)) = hm_insert k m (e_map e)"
  by (simp add: entries_insert_def Let_def)

lemma snd_insert [hm_simps]: "snd (entries_insert k m e) = map_of (e_map e) k"
  by (simp add: entries_insert_def Let_def)

lemma get_insert [hm_simps]:
  "index_get (fst (entries_insert k m e)) = (index_get e)(k \<mapsto> m)"
  by (rule ext) (simp add: index_get_def hm_simps)

lemma get_remove [hm_simps]: "index_get (fst (entries_remove k e)) = (index_get e)(k := None)"
  by (rule ext) (auto simp: index_get_def entries_remove_def hm_simps split: option.splits)

lemma get_replace [hm_simps]: "index_get (index_replace m e) = map_of m"
  by (rule ext) (simp add: index_get_def index_replace_def)

lemma get_publish [hm_simps]:
  "index_get (fst (index_publish k m e)) =
     (if md_origin m = UpstreamCache \<and> index_get e k \<noteq> None then index_get e else (index_get e)(k \<mapsto> m))"
  by (auto simp: index_publish_def split_beta Let_def hm_simps index_get_def split: option.splits)

lemma get_remove_if [hm_simps]:
  "index_get (fst (index_remove_if_location_matches k loc e)) =
     (if \<exists>m. index_get e k = Some m \<and> md_location m = loc then (index_get e)(k := None) else index_get e)"
  by (auto simp: index_remove_if_location_matches_def Let_def hm_simps index_get_def split: option.splits)

subsection \<open>The running byte total\<close>

lemma map_bytes_insert:
  assumes "hm_wf m"
  shows "map_bytes (hm_insert k v m) +
    (case map_of m k of None \<Rightarrow> 0 | Some p \<Rightarrow> unat (md_size p)) = map_bytes m + unat (md_size v)"
  using assms unfolding map_bytes_def
proof (induction m)
  case Nil
  then show ?case by simp
next
  case (Cons kv m)
  then show ?case
    by (cases kv) (auto simp: map_of_eq_None_iff split: option.splits)
qed

lemma map_bytes_remove:
  assumes "hm_wf m" "map_of m k = Some p"
  shows "map_bytes (hm_remove k m) + unat (md_size p) = map_bytes m"
  using assms unfolding map_bytes_def
proof (induction m)
  case Nil
  then show ?case by simp
next
  case (Cons kv m)
  have same: "k \<notin> fst ` set m \<Longrightarrow> hm_remove k m = m"
    by (simp add: delete_id)
  show ?case
    using Cons same by (cases kv) (auto split: if_splits)
qed

lemma map_bytes_member: "map_of m k = Some p \<Longrightarrow> unat (md_size p) \<le> map_bytes m"
  unfolding map_bytes_def by (induction m) (auto split: if_splits)

lemma total_exact_insert:
  assumes inv: "index_inv e" and tot: "total_exact e"
    and fits: "unat (e_total_bytes e) + unat (md_size m) < 2 ^ 64"
  shows "total_exact (fst (entries_insert k m e))"
proof -
  have wf: "hm_wf (e_map e)" using inv by (simp add: index_inv_def)
  show ?thesis
    using map_bytes_insert [OF wf, of k m] tot fits
    by (cases "map_of (e_map e) k")
       (simp_all add: total_exact_def entries_insert_def Let_def unat_add_u64 unat_saturating_sub)
qed

lemma total_exact_remove:
  assumes inv: "index_inv e" and tot: "total_exact e"
  shows "total_exact (fst (entries_remove k e))"
proof (cases "map_of (e_map e) k")
  case None
  with tot show ?thesis by (simp add: entries_remove_def)
next
  case (Some p)
  have wf: "hm_wf (e_map e)" using inv by (simp add: index_inv_def)
  show ?thesis
    using map_bytes_remove [OF wf Some] tot Some
    by (simp add: total_exact_def entries_remove_def unat_saturating_sub)
qed

section \<open>Pages\<close>

definition page_items ::
  "(string \<times> file_metadata) list \<Rightarrow> (file_metadata \<Rightarrow> bool) \<Rightarrow> order_key list \<Rightarrow>
     (string \<times> file_metadata) list" where
  "page_items m P os = concat (map (\<lambda>o'. case map_of m (ok_hash o') of
     None \<Rightarrow> [] | Some v \<Rightarrow> if P v then [(ok_hash o', v)] else []) os)"

lemma page_items_simps [simp]:
  "page_items m P [] = []"
  "page_items m P (o' # os) = (case map_of m (ok_hash o') of
     None \<Rightarrow> [] | Some v \<Rightarrow> if P v then [(ok_hash o', v)] else []) @ page_items m P os"
  by (simp_all add: page_items_def)

lemma page_items_append: "page_items m P (xs @ ys) = page_items m P xs @ page_items m P ys"
  by (simp add: page_items_def)

lemma page_loop_after:
  "length acc < limit \<Longrightarrow>
     page_loop m P c limit os True acc = acc @ take (limit - length acc) (page_items m P os)"
  by (induction os arbitrary: acc) (auto simp: Let_def Suc_diff_Suc [symmetric] take_Cons' split: option.splits)

lemma page_loop_unbounded: "page_loop m P c 0 os True acc = acc @ page_items m P os"
  by (induction os arbitrary: acc) (auto simp: Let_def split: option.splits)

lemma page_loop_seek:
  "k \<notin> ok_hash ` set xs \<Longrightarrow> ok_hash o' = k \<Longrightarrow>
     page_loop m P (Some k) limit (xs @ o' # ys) False acc = page_loop m P (Some k) limit ys True acc"
  by (induction xs) auto

lemma page_items_member:
  "(k, v) \<in> set (page_items m P os) \<longleftrightarrow> k \<in> ok_hash ` set os \<and> map_of m k = Some v \<and> P v"
  by (induction os) (auto split: option.splits if_splits)

lemma page_items_split:
  assumes "page_items m P os = us @ (k, v) # ws"
  shows "\<exists>xs o' ys. os = xs @ o' # ys \<and> ok_hash o' = k \<and> page_items m P ys = ws"
  using assms
proof (induction os arbitrary: us)
  case Nil
  then show ?case by simp
next
  case (Cons o' os)
  show ?case
  proof (cases "page_items m P [o'] = []")
    case True
    with Cons.prems have "page_items m P os = us @ (k, v) # ws" by simp
    from Cons.IH [OF this] show ?thesis by (metis append_Cons)
  next
    case False
    then obtain w where w: "page_items m P [o'] = [(ok_hash o', w)]"
      by (auto split: option.splits if_splits)
    show ?thesis
    proof (cases us)
      case Nil
      with Cons.prems w show ?thesis
        by (auto split: option.splits if_splits intro!: exI [where x = "[]"])
    next
      case (Cons u us')
      with Cons.prems w have "page_items m P os = us' @ (k, v) # ws" by simp
      from Cons.IH [OF this] show ?thesis by (metis append_Cons)
    qed
  qed
qed

lemma order_hash_inj:
  assumes "index_inv e"
  shows "inj_on ok_hash (set (e_order e))"
  by (rule inj_onI) (metis assms option.inject order_iff order_key.expand)

lemma distinct_order_hashes: "index_inv e \<Longrightarrow> distinct (map ok_hash (e_order e))"
  using order_hash_inj by (auto simp: distinct_map index_inv_def btree_wf_def)

lemma page_items_keys:
  assumes inv: "index_inv e" and sub: "set os \<subseteq> set (e_order e)"
  shows "map (\<lambda>(k, v). key_of k v) (page_items (e_map e) P os) =
    filter (\<lambda>o'. \<exists>v. map_of (e_map e) (ok_hash o') = Some v \<and> P v) os"
  using sub
proof (induction os)
  case Nil
  then show ?case by simp
next
  case (Cons o' os)
  then obtain v where v: "map_of (e_map e) (ok_hash o') = Some v" "md_created_at v = ok_time o'"
    using order_iff [OF inv, of o'] by auto
  then have "key_of (ok_hash o') v = o'"
    by (cases o') (simp add: key_of_def)
  with v Cons show ?case by simp
qed

lemma page_items_sorted:
  assumes "index_inv e"
  shows "sorted (map (\<lambda>(k, v). key_of k v) (page_items (e_map e) P (e_order e)))"
    and "distinct (page_items (e_map e) P (e_order e))"
proof -
  have wf: "sorted (e_order e)" "distinct (e_order e)"
    using assms by (simp_all add: index_inv_def btree_wf_def)
  show "sorted (map (\<lambda>(k, v). key_of k v) (page_items (e_map e) P (e_order e)))"
    unfolding page_items_keys [OF assms order_refl] using wf by (simp add: sorted_wrt_filter)
  have "distinct (map (\<lambda>(k, v). key_of k v) (page_items (e_map e) P (e_order e)))"
    unfolding page_items_keys [OF assms order_refl] using wf by simp
  then show "distinct (page_items (e_map e) P (e_order e))"
    by (simp add: distinct_map)
qed

lemma page_items_set:
  assumes inv: "index_inv e"
  shows "set (page_items (e_map e) P (e_order e)) = {(k, v). index_get e k = Some v \<and> P v}"
proof -
  have "k \<in> ok_hash ` set (e_order e)" if "map_of (e_map e) k = Some v" for k v
    using that order_iff [OF inv, of "key_of k v"] by (auto intro!: image_eqI [of _ _ "key_of k v"])
  then show ?thesis
    by (auto simp: page_items_member index_get_def)
qed

lemma page_first:
  assumes "0 < limit"
  shows "index_page since til author None limit e =
    take limit (page_items (e_map e) (page_match since til author) (e_order e))"
  using assms by (simp add: index_page_def page_loop_after)

lemma page_next:
  assumes inv: "index_inv e" and limit: "0 < limit"
    and i: "i < length M" and M: "M = page_items (e_map e) (page_match since til author) (e_order e)"
  shows "index_page since til author (Some (fst (M ! i))) limit e = take limit (drop (Suc i) M)"
proof -
  obtain k v where kv: "M ! i = (k, v)" by (cases "M ! i") auto
  have "M = take i M @ (k, v) # drop (Suc i) M"
    using i kv by (metis id_take_nth_drop)
  then have split: "page_items (e_map e) (page_match since til author) (e_order e) =
      take i M @ (k, v) # drop (Suc i) M"
    using M by simp
  from page_items_split [OF split] obtain xs o' ys
    where os: "e_order e = xs @ o' # ys" and o': "ok_hash o' = k"
      and rest: "page_items (e_map e) (page_match since til author) ys = drop (Suc i) M"
    by blast
  have fresh: "k \<notin> ok_hash ` set xs"
    using distinct_order_hashes [OF inv] os o' by auto
  have "(k, v) \<in> set M" using i kv by (metis nth_mem)
  then have in_result: "map_of (e_map e) k = Some v" "page_match since til author v"
    unfolding M by (simp_all add: page_items_member)
  show ?thesis
    using kv in_result limit fresh o' rest
    by (simp add: index_page_def os page_loop_seek page_loop_after)
qed

section \<open>The catalogue contract\<close>

text \<open>
  What the storage, retention and S3 layers rely on: a map with an invariant, whose deletions and
  insertions can be batched.
\<close>

locale catalogue =
  fixes inv :: "'s \<Rightarrow> bool"
    and get :: "'s \<Rightarrow> string \<Rightarrow> file_metadata option"
    and put :: "string \<Rightarrow> file_metadata \<Rightarrow> 's \<Rightarrow> 's"
    and del :: "string \<Rightarrow> 's \<Rightarrow> 's"
  assumes inv_put: "inv s \<Longrightarrow> inv (put k m s)"
    and inv_del: "inv s \<Longrightarrow> inv (del k s)"
    and get_put: "get (put k m s) = (get s)(k \<mapsto> m)"
    and get_del: "get (del k s) = (get s)(k := None)"
begin

lemma inv_del_all: "inv s \<Longrightarrow> inv (fold del ks s)"
  by (induction ks arbitrary: s) (auto intro: inv_del)

lemma get_del_all: "get (fold del ks s) k = (if k \<in> set ks then None else get s k)"
  by (induction ks arbitrary: s) (auto simp: get_del)

lemma inv_put_all: "inv s \<Longrightarrow> inv (fold (\<lambda>(k, m). put k m) kms s)"
  by (induction kms arbitrary: s) (auto intro: inv_put)

lemma get_put_all:
  "get (fold (\<lambda>(k, m). put k m) kms s) k =
     (case map_of (rev kms) k of None \<Rightarrow> get s k | Some m \<Rightarrow> Some m)"
  by (induction kms arbitrary: s) (auto simp: get_put map_add_def split: option.splits)

lemma put_del_other: "k \<noteq> j \<Longrightarrow> get (del j (put k m s)) k = Some m"
  by (simp add: get_put get_del)

end

interpretation idx: catalogue index_inv index_get index_insert "\<lambda>k e. fst (index_remove k e)"
  by unfold_locales (auto simp: index_insert_def index_remove_def hm_simps)

section \<open>Properties\<close>

datatype index_op =
    Op_Insert string file_metadata
  | Op_Publish string file_metadata
  | Op_Remove string
  | Op_Remove_If string file_location

fun index_step :: "index_op \<Rightarrow> entries \<Rightarrow> entries" where
  "index_step (Op_Insert k m) e = index_insert k m e"
| "index_step (Op_Publish k m) e = fst (index_publish k m e)"
| "index_step (Op_Remove k) e = fst (index_remove k e)"
| "index_step (Op_Remove_If k loc) e = fst (index_remove_if_location_matches k loc e)"

fun op_size :: "index_op \<Rightarrow> nat" where
  "op_size (Op_Insert k m) = unat (md_size m)"
| "op_size (Op_Publish k m) = unat (md_size m)"
| "op_size _ = 0"

fun index_run :: "index_op list \<Rightarrow> entries \<Rightarrow> entries" where
  "index_run [] e = e"
| "index_run (op # ops) e = index_run ops (index_step op e)"

text \<open>The catalogued bytes and an incoming blob always fit in the \<open>u64\<close> counter.\<close>

fun run_fits :: "index_op list \<Rightarrow> entries \<Rightarrow> bool" where
  "run_fits [] e \<longleftrightarrow> True"
| "run_fits (op # ops) e \<longleftrightarrow>
     map_bytes (e_map e) + op_size op < 2 ^ 64 \<and> run_fits ops (index_step op e)"

lemma index_inv_step: "index_inv e \<Longrightarrow> index_inv (index_step op e)"
  by (cases op) (auto simp: index_insert_def index_remove_def)

lemma total_exact_publish:
  assumes "index_inv e" "total_exact e" "map_bytes (e_map e) + unat (md_size m) < 2 ^ 64"
  shows "total_exact (fst (index_publish k m e))"
  using assms total_exact_insert [of e m k]
  by (auto simp: index_publish_def split_beta Let_def total_exact_def split: option.splits)

lemma total_exact_remove_if:
  "index_inv e \<Longrightarrow> total_exact e \<Longrightarrow>
     total_exact (fst (index_remove_if_location_matches k loc e))"
  using total_exact_remove [of e k] by (simp add: index_remove_if_location_matches_def Let_def)

lemma total_exact_step:
  assumes inv: "index_inv e" and tot: "total_exact e"
    and fits: "map_bytes (e_map e) + op_size op < 2 ^ 64"
  shows "total_exact (index_step op e)"
proof (cases op)
  case (Op_Insert k m)
  have "unat (e_total_bytes e) + unat (md_size m) < 2 ^ 64"
    using fits tot Op_Insert by (simp add: total_exact_def)
  from total_exact_insert [OF inv tot this] show ?thesis
    using Op_Insert by (simp add: index_insert_def)
next
  case (Op_Publish k m)
  with total_exact_publish [OF inv tot] fits show ?thesis by simp
next
  case (Op_Remove k)
  with total_exact_remove [OF inv tot] show ?thesis by (simp add: index_remove_def)
next
  case (Op_Remove_If k loc)
  with total_exact_remove_if [OF inv tot] show ?thesis by simp
qed

lemma run_inv:
  "index_inv e \<Longrightarrow> total_exact e \<Longrightarrow> run_fits ops e \<Longrightarrow>
     index_inv (index_run ops e) \<and> total_exact (index_run ops e)"
  by (induction ops arbitrary: e) (simp_all add: index_inv_step total_exact_step)

definition sample_md :: "string \<Rightarrow> u64 \<Rightarrow> u64 \<Rightarrow> blob_origin \<Rightarrow> file_metadata" where
  "sample_md p sz created orig =
     \<lparr>md_location = Local [p], md_extension = None, md_mime_type = None, md_size = sz,
      md_created_at = created, md_pubkey = None, md_expiration = None, md_origin = orig\<rparr>"

text \<open>C2: From the empty catalogue, whatever sequence of inserts, publishes, removals and conditional
  removals runs, the aggregates read in constant time agree with the map: the count is the number of
  blobs, the byte total is the exact sum of their sizes, and the newest-first order lists exactly
  the stored blobs.\<close>
theorem index_aggregates_correct:
  assumes "run_fits ops entries_default"
  shows "let e = index_run ops entries_default; st = index_get_stats e in
     is_count st = card {k. index_contains e k} \<and>
     unat (is_total_bytes st) = (\<Sum>(k, v) \<leftarrow> index_snapshot e. unat (md_size v)) \<and>
     set (e_order e) = {key_of k v | k v. index_get e k = Some v} \<and>
     sorted (e_order e) \<and> distinct (e_order e)"
proof -
  define e where "e = index_run ops entries_default"
  have "total_exact entries_default"
    by (simp add: total_exact_def map_bytes_def entries_default_def)
  with assms have inv: "index_inv e" and tot: "total_exact e"
    unfolding e_def using run_inv [OF index_inv_default] by auto
  have wf: "hm_wf (e_map e)" using inv by (simp add: index_inv_def)
  have "{k. index_contains e k} = set (map fst (e_map e))"
    by (auto simp: index_contains_def map_of_eq_None_iff)
  then have "card {k. index_contains e k} = length (e_map e)"
    using distinct_card [OF wf] by simp
  moreover have "set (e_order e) = {key_of k v | k v. index_get e k = Some v}"
    using inv wf by (auto simp: index_inv_def index_get_def)
  ultimately show ?thesis
    using inv tot unfolding e_def [symmetric]
    by (simp add: index_get_stats_def index_snapshot_def total_exact_def map_bytes_def
        index_inv_def btree_wf_def Let_def)
qed

theorem index_aggregates_correct_witness:
  "let e = index_run [Op_Publish ''a'' (sample_md ''a'' 5 1 Upload),
                      Op_Publish ''b'' (sample_md ''b'' 7 2 UpstreamCache), Op_Remove ''a'']
             entries_default
   in is_count (index_get_stats e) = card {k. index_contains e k}"
  using index_aggregates_correct [of "[Op_Publish ''a'' (sample_md ''a'' 5 1 Upload),
      Op_Publish ''b'' (sample_md ''b'' 7 2 UpstreamCache), Op_Remove ''a'']"]
  by (simp add: Let_def entries_default_def sample_md_def map_bytes_def index_publish_def
      entries_insert_def)

text \<open>Publication is origin-aware: a cache fill never displaces a stored blob (the catalogue is
  left untouched and the stored entry is reported), every other publication makes the new metadata
  visible, reports exactly the entry it displaced and bumps the generation.\<close>
lemma publish_precedence:
  "let (e', r) = index_publish k m e in
     (case r of
        Retained ex \<Rightarrow> md_origin m = UpstreamCache \<and> index_get e k = Some ex \<and> e' = e
      | Published d \<Rightarrow>
          d = index_get e k \<and> index_get e' = (index_get e)(k \<mapsto> m) \<and>
          e_generation e' = e_generation e + 1 \<and> (md_origin m = Upload \<or> d = None))"
  by (cases "md_origin m")
    (auto simp: index_publish_def split_beta Let_def hm_simps index_get_def fun_eq_iff
      entries_insert_def split: option.splits)

end
