(* ===== verification/NativeS3.thy ===== *)
theory NativeS3
  imports Files BlobIndex
begin

text \<open>
  The S3 adapter, \<open>src/services/native_storage.rs\<close>. The object service is outside the repository: the
  model keeps the log of the requests it accepted, and the fields of \<open>s3_env\<close> are its answers, given
  that log. \<open>live_keys\<close> is the content those requests leave; \<open>s3_honest\<close> states that listings report
  it, the documented behaviour of ListObjectsV2.
\<close>

record s3_error =
  se_code :: "string option"
  se_display :: string
  se_context :: string

record s3_entry =
  en_key :: "string option"
  en_size :: "int option"
  en_modified :: "int option"

record s3_output =
  so_body :: "string + bytes"
  so_content_length :: "int option"
  so_content_range :: "string option"

datatype s3_request = S3_Put string bytes | S3_Delete string

type_synonym s3_log = "s3_request list"

record s3_env =
  s3_put_answer :: "s3_log \<Rightarrow> string \<Rightarrow> s3_error option"
  s3_delete_answer :: "s3_log \<Rightarrow> string \<Rightarrow> s3_error option"
  s3_list_answer :: "s3_log \<Rightarrow> string \<Rightarrow> s3_entry list \<times> s3_error option"
  s3_get_answer :: "s3_log \<Rightarrow> string \<Rightarrow> string option \<Rightarrow> s3_error + s3_output"
  mime_from_ext :: "string \<Rightarrow> string option"
  utf8_of :: "bytes \<Rightarrow> string + string"

datatype s3_status = S3_Available | S3_Unavailable (s3_last_error: string) (s3_last_attempt: u64)

record s3_storage =
  s3_log_of :: s3_log
  s3_status_of :: s3_status

definition s3_connect :: s3_storage where
  "s3_connect = \<lparr>s3_log_of = [], s3_status_of = S3_Available\<rparr>"

definition ensure_available :: "s3_storage \<Rightarrow> unit app_result" where
  "ensure_available s =
     (case s3_status_of s of
        S3_Available \<Rightarrow> Inr ()
      | S3_Unavailable e _ \<Rightarrow> Inl (ServiceUnavailable (''S3 storage is unavailable: '' @ e)))"

definition s3_record :: "s3_request \<Rightarrow> s3_storage \<Rightarrow> s3_storage" where
  "s3_record r s = s\<lparr>s3_log_of := s3_log_of s @ [r]\<rparr>"

definition s3_put ::
  "s3_env \<Rightarrow> host_env \<Rightarrow> path \<Rightarrow> string \<Rightarrow> string option \<Rightarrow> u64 option \<Rightarrow> s3_storage \<times> fs \<Rightarrow>
     string app_result \<times> s3_storage \<times> fs" where
  "s3_put e h temp_path sha256 extension expiration = (\<lambda>(s, f).
     case object_key sha256 extension expiration of
       Inl err \<Rightarrow> (Inl err, s, f)
     | Inr key \<Rightarrow>
         (case fs_read h temp_path f of
            Inl io \<Rightarrow> (Inl (IoError (''Unable to read temporary blob for S3 upload: '' @ io_text io)), s, f)
          | Inr data \<Rightarrow>
              (case s3_put_answer e (s3_log_of s) key of
                 Some err \<Rightarrow> (Inl (ServiceUnavailable (''S3 PutObject failed: '' @ se_display err)), s, f)
               | None \<Rightarrow>
                   (let s' = s3_record (S3_Put key data) s;
                        (r, f') = fs_remove_file h temp_path f
                    in (case r of Inl io \<Rightarrow> Inl (IoError (io_text io)) | Inr _ \<Rightarrow> Inr key, s', f')))))"

definition entry_metadata ::
  "s3_env \<Rightarrow> u64 \<Rightarrow> s3_entry \<Rightarrow> string \<Rightarrow> u64 option \<Rightarrow> string option \<Rightarrow> file_metadata" where
  "entry_metadata e now en key expiration extension =
     \<lparr>md_location = S3 key, md_extension = extension,
      md_mime_type = Option.bind extension (mime_from_ext e),
      md_size = word_of_int (max 0 (case en_size en of None \<Rightarrow> 0 | Some n \<Rightarrow> n)),
      md_created_at = (case en_modified en of None \<Rightarrow> now | Some t \<Rightarrow> word_of_int (max 0 t)),
      md_pubkey = None, md_expiration = expiration, md_origin = Upload\<rparr>"

definition list_failed :: "s3_error \<Rightarrow> app_error" where
  "list_failed err = ServiceUnavailable (''S3 ListObjectsV2 failed: '' @ se_display err)"

fun find_entry :: "s3_env \<Rightarrow> u64 \<Rightarrow> string \<Rightarrow> s3_entry list \<Rightarrow> file_metadata option" where
  "find_entry e now sha256 [] = None"
| "find_entry e now sha256 (en # ens) =
     (case en_key en of
        None \<Rightarrow> find_entry e now sha256 ens
      | Some key \<Rightarrow> (case parse_object_key key of
            None \<Rightarrow> find_entry e now sha256 ens
          | Some (h, expiration, extension) \<Rightarrow>
              if h \<noteq> sha256 then find_entry e now sha256 ens
              else Some (entry_metadata e now en key expiration extension)))"

definition s3_find :: "s3_env \<Rightarrow> u64 \<Rightarrow> string \<Rightarrow> s3_storage \<Rightarrow> file_metadata option app_result" where
  "s3_find e now sha256 s =
     and_then (hash_prefix sha256) (\<lambda>prefix.
       let (entries, failure) = s3_list_answer e (s3_log_of s) prefix
       in case find_entry e now sha256 entries of
            Some m \<Rightarrow> Inr (Some m)
          | None \<Rightarrow> (case failure of Some err \<Rightarrow> Inl (list_failed err) | None \<Rightarrow> Inr None))"

definition s3_get :: "s3_env \<Rightarrow> string \<Rightarrow> string option \<Rightarrow> s3_storage \<Rightarrow> s3_output app_result" where
  "s3_get e key rng s =
     app_err (\<lambda>err. ServiceUnavailable (''S3 GetObject failed: '' @ se_display err))
       (s3_get_answer e (s3_log_of s) key rng)"

definition s3_read_text :: "s3_env \<Rightarrow> string \<Rightarrow> s3_storage \<Rightarrow> string app_result" where
  "s3_read_text e key s =
     and_then (s3_get e key None s) (\<lambda>output.
     and_then (app_err (\<lambda>err. ServiceUnavailable (''S3 body read failed: '' @ err)) (so_body output)) (\<lambda>b.
       app_err (\<lambda>err. IoError (''S3 object was not UTF-8: '' @ err)) (utf8_of e b)))"

definition s3_delete :: "s3_env \<Rightarrow> string \<Rightarrow> s3_storage \<Rightarrow> unit app_result \<times> s3_storage" where
  "s3_delete e key s =
     (case s3_delete_answer e (s3_log_of s) key of
        Some err \<Rightarrow> (Inl (ServiceUnavailable (''S3 DeleteObject failed: '' @ se_display err)), s)
      | None \<Rightarrow> (Inr (), s3_record (S3_Delete key) s))"

definition key_of_hash :: "string \<Rightarrow> s3_entry \<Rightarrow> string option" where
  "key_of_hash sha256 en =
     (case en_key en of
        None \<Rightarrow> None
      | Some key \<Rightarrow> (case parse_object_key key of
            None \<Rightarrow> None
          | Some (h, _, _) \<Rightarrow> if h = sha256 then Some key else None))"

fun delete_entries :: "s3_env \<Rightarrow> string \<Rightarrow> s3_entry list \<Rightarrow> s3_storage \<Rightarrow> unit app_result \<times> s3_storage" where
  "delete_entries e sha256 [] s = (Inr (), s)"
| "delete_entries e sha256 (en # ens) s =
     (case key_of_hash sha256 en of
        None \<Rightarrow> delete_entries e sha256 ens s
      | Some key \<Rightarrow> bind_st (s3_delete e key s) (\<lambda>_. delete_entries e sha256 ens))"

definition delete_matching :: "s3_env \<Rightarrow> string \<Rightarrow> s3_storage \<Rightarrow> unit app_result \<times> s3_storage" where
  "delete_matching e sha256 s =
     (case hash_prefix sha256 of
        Inl err \<Rightarrow> (Inl err, s)
      | Inr prefix \<Rightarrow>
          (let (entries, failure) = s3_list_answer e (s3_log_of s) prefix
           in bind_st (delete_entries e sha256 entries s) (\<lambda>_ s'.
                (case failure of Some err \<Rightarrow> Inl (list_failed err) | None \<Rightarrow> Inr (), s'))))"

fun listed_blobs :: "s3_env \<Rightarrow> u64 \<Rightarrow> s3_entry list \<Rightarrow> (string \<times> file_metadata) list" where
  "listed_blobs e now [] = []"
| "listed_blobs e now (en # ens) =
     (case en_key en of
        None \<Rightarrow> listed_blobs e now ens
      | Some key \<Rightarrow> (case parse_object_key key of
            None \<Rightarrow> listed_blobs e now ens
          | Some (h, expiration, extension) \<Rightarrow>
              (h, entry_metadata e now en key expiration extension) # listed_blobs e now ens))"

definition list_all_blobs :: "s3_env \<Rightarrow> u64 \<Rightarrow> s3_storage \<Rightarrow> (string \<times> file_metadata) list app_result" where
  "list_all_blobs e now s =
     (let (entries, failure) = s3_list_answer e (s3_log_of s) []
      in case failure of Some err \<Rightarrow> Inl (list_failed err) | None \<Rightarrow> Inr (listed_blobs e now entries))"

fun merge_listing :: "(string \<times> file_metadata) list \<Rightarrow> entries \<Rightarrow> entries" where
  "merge_listing [] ix = ix"
| "merge_listing ((h, m) # kms) ix =
     merge_listing kms (if index_contains ix h then ix else index_insert h m ix)"

definition sync_index ::
  "s3_env \<Rightarrow> u64 \<Rightarrow> s3_storage \<times> entries \<Rightarrow> unit app_result \<times> s3_storage \<times> entries" where
  "sync_index e now = (\<lambda>(s, ix).
     case list_all_blobs e now s of
       Inr kms \<Rightarrow> (Inr (), s\<lparr>s3_status_of := S3_Available\<rparr>, merge_listing kms ix)
     | Inl err \<Rightarrow> (Inl err, s\<lparr>s3_status_of := S3_Unavailable (error_display err) now\<rparr>, ix))"

section \<open>The bucket probe\<close>

datatype probe_step = Probe_Put | Probe_Get | Probe_List | Probe_Delete

record probe_failure =
  pf_step :: probe_step
  pf_code :: "string option"
  pf_message :: string

definition mk_probe_failure :: "probe_step \<Rightarrow> s3_error \<Rightarrow> probe_failure" where
  "mk_probe_failure st err = \<lparr>pf_step = st, pf_code = se_code err, pf_message = se_context err\<rparr>"

definition probe_body :: bytes where
  "probe_body = map (\<lambda>c. word_of_nat (byte_of c)) ''almond probe''"

definition probe_check :: "s3_env \<Rightarrow> string \<Rightarrow> s3_log \<Rightarrow> probe_failure + unit" where
  "probe_check e key lg =
     (case s3_get_answer e lg key None of
        Inl err \<Rightarrow> Inl (mk_probe_failure Probe_Get err)
      | Inr out \<Rightarrow>
          (case so_body out of
             Inl msg \<Rightarrow> Inl \<lparr>pf_step = Probe_Get, pf_code = None, pf_message = msg\<rparr>
           | Inr b \<Rightarrow>
               if b \<noteq> probe_body
               then Inl \<lparr>pf_step = Probe_Get, pf_code = None,
                         pf_message = ''object read back differs from what was written''\<rparr>
               else (let (entries, failure) = s3_list_answer e lg key
                     in case failure of
                          Some err \<Rightarrow> Inl (mk_probe_failure Probe_List err)
                        | None \<Rightarrow>
                            if \<not> list_ex (\<lambda>en. en_key en = Some key) entries
                            then Inl \<lparr>pf_step = Probe_List, pf_code = None,
                                      pf_message = ''probe object missing from listing''\<rparr>
                            else Inr ())))"

definition probe :: "s3_env \<Rightarrow> string \<Rightarrow> s3_log \<Rightarrow> (probe_failure + unit) \<times> s3_log" where
  "probe e uuid lg =
     (let key = ''.almond-probe/'' @ uuid
      in case s3_put_answer e lg key of
           Some err \<Rightarrow> (Inl (mk_probe_failure Probe_Put err), lg)
         | None \<Rightarrow>
             (let lg1 = lg @ [S3_Put key probe_body];
                  result = probe_check e key lg1
              in case s3_delete_answer e lg1 key of
                   None \<Rightarrow> (result, lg1 @ [S3_Delete key])
                 | Some err \<Rightarrow>
                     ((case result of Inl p \<Rightarrow> Inl p | Inr _ \<Rightarrow> Inl (mk_probe_failure Probe_Delete err)), lg1)))"

section \<open>What the log leaves in the bucket\<close>

fun live_step :: "s3_request \<Rightarrow> string set \<Rightarrow> string set" where
  "live_step (S3_Put k d) ks = insert k ks"
| "live_step (S3_Delete k) ks = ks - {k}"

definition live_keys :: "s3_log \<Rightarrow> string set" where
  "live_keys lg = fold live_step lg {}"

definition s3_honest :: "s3_env \<Rightarrow> bool" where
  "s3_honest e \<longleftrightarrow> (\<forall>lg prefix. snd (s3_list_answer e lg prefix) = None \<longrightarrow>
     {k \<in> live_keys lg. starts_with prefix k} \<subseteq> {k. Some k \<in> en_key ` set (fst (s3_list_answer e lg prefix))})"

lemma live_keys_snoc: "live_keys (lg @ [r]) = live_step r (live_keys lg)"
  by (simp add: live_keys_def)

lemma split_on_join: "split_on d s = [a, b, c] \<Longrightarrow> s = a @ [d] @ b @ [d] @ c"
proof -
  have two: "split_on d s = [b, c] \<Longrightarrow> s = b @ [d] @ c" for s b c
  proof (induction s arbitrary: b)
    case Nil
    then show ?case by simp
  next
    case (Cons x xs)
    have one: "split_on d ys = [c] \<Longrightarrow> ys = c" for ys c
      by (induction ys arbitrary: c) (auto split: if_splits list.splits)
    show ?case
      using Cons one by (cases "split_on d xs") (auto split: if_splits)
  qed
  show "split_on d s = [a, b, c] \<Longrightarrow> s = a @ [d] @ b @ [d] @ c"
  proof (induction s arbitrary: a)
    case Nil
    then show ?case by simp
  next
    case (Cons x xs)
    show ?case
      using Cons two by (cases "split_on d xs") (auto split: if_splits)
  qed
qed

lemma parse_object_key_prefix:
  assumes "parse_object_key k = Some (h, x, y)"
  shows "is_valid_hash h" "hash_prefix h = Inr (take 1 h @ ''/'' @ take 1 (drop 1 h) @ ''/'' @ h)"
    "starts_with (take 1 h @ ''/'' @ take 1 (drop 1 h) @ ''/'' @ h) k"
proof -
  show h: "is_valid_hash h" using assms by (rule parse_object_key_valid)
  show "hash_prefix h = Inr (take 1 h @ ''/'' @ take 1 (drop 1 h) @ ''/'' @ h)"
    using fan_out_valid [OF h] by (simp add: hash_prefix_def)
  from assms obtain a b c p where s: "split_on (CHR ''/'') k = [a, b, c]"
    and p: "parse_name c = Some p" "pn_hash p = h" "a = take 1 h" "b = take 1 (drop 1 h)"
    by (auto simp: parse_object_key_def split: list.splits option.splits if_splits)
  have "take 64 c = h" using parse_name_hash [OF p(1)] p(2) by simp
  then have "c = h @ drop 64 c" by (metis append_take_drop_id)
  with split_on_join [OF s] p(3,4)
  show "starts_with (take 1 h @ ''/'' @ take 1 (drop 1 h) @ ''/'' @ h) k"
    unfolding starts_with_iff by (intro exI [of _ "drop 64 c"]) simp
qed

lemma delete_entries_live:
  "delete_entries e sha256 ens s = (Inr (), s') \<Longrightarrow>
     live_keys (s3_log_of s') = live_keys (s3_log_of s) - {k. Some k \<in> key_of_hash sha256 ` set ens}"
proof (induction ens arbitrary: s)
  case Nil
  then show ?case by simp
next
  case (Cons en ens)
  show ?case
  proof (cases "key_of_hash sha256 en")
    case None
    with Cons show ?thesis by auto
  next
    case (Some key)
    with Cons.prems obtain s1 where "s3_delete e key s = (Inr (), s1)"
      "delete_entries e sha256 ens s1 = (Inr (), s')"
      by (auto simp: bind_st_Inr_iff)
    with Cons.IH [of s1] Some show ?thesis
      by (auto simp: s3_delete_def s3_record_def live_keys_snoc split: option.splits)
  qed
qed

lemma delete_matching_clears:
  assumes honest: "s3_honest e" and del: "delete_matching e sha256 s = (Inr (), s')"
    and k: "parse_object_key k = Some (sha256, x, y)"
  shows "k \<notin> live_keys (s3_log_of s')"
proof -
  note pre = parse_object_key_prefix [OF k]
  define prefix where "prefix = take 1 sha256 @ ''/'' @ take 1 (drop 1 sha256) @ ''/'' @ sha256"
  obtain ens failure where ans: "s3_list_answer e (s3_log_of s) prefix = (ens, failure)"
    by (cases "s3_list_answer e (s3_log_of s) prefix")
  with del pre(2) have ok: "failure = None" "delete_entries e sha256 ens s = (Inr (), s')"
    by (auto simp: delete_matching_def prefix_def bind_st_Inr_iff split: option.splits)
  have none: "snd (s3_list_answer e (s3_log_of s) prefix) = None" using ans ok(1) by simp
  have "{k \<in> live_keys (s3_log_of s). starts_with prefix k} \<subseteq> {k. Some k \<in> en_key ` set ens}"
    using honest [unfolded s3_honest_def, rule_format, OF none] ans by simp
  then have listed: "k \<in> live_keys (s3_log_of s) \<Longrightarrow> Some k \<in> en_key ` set ens"
    using pre(3) unfolding prefix_def [symmetric] by blast
  have "Some k \<in> en_key ` set ens \<Longrightarrow> Some k \<in> key_of_hash sha256 ` set ens"
  proof -
    assume "Some k \<in> en_key ` set ens"
    then obtain en where en: "en \<in> set ens" "en_key en = Some k" by auto
    then have "key_of_hash sha256 en = Some k" using k by (simp add: key_of_hash_def)
    with en(1) show ?thesis by (metis image_eqI)
  qed
  with listed delete_entries_live [OF ok(2)] show ?thesis by auto
qed

section \<open>Merging a listing\<close>

lemma merge_listing_inv [intro]: "index_inv ix \<Longrightarrow> index_inv (merge_listing kms ix)"
  by (induction kms ix rule: merge_listing.induct) (auto simp: idx.inv_put)

lemma merge_listing_get:
  "index_get (merge_listing kms ix) k =
     (case index_get ix k of Some m \<Rightarrow> Some m | None \<Rightarrow> map_of kms k)"
  by (induction kms ix rule: merge_listing.induct)
    (auto simp: idx.get_put index_contains_def index_get_def [symmetric] split: option.splits)

text \<open>An honest service without faults, for the witnesses.\<close>

definition live_list :: "s3_log \<Rightarrow> string list" where
  "live_list lg = fold (\<lambda>r ks. case r of S3_Put k _ \<Rightarrow> List.insert k ks | S3_Delete k \<Rightarrow> removeAll k ks) lg []"

definition ex_s3 :: s3_env where
  "ex_s3 = \<lparr>s3_put_answer = \<lambda>_ _. None, s3_delete_answer = \<lambda>_ _. None,
     s3_list_answer = \<lambda>lg prefix. (map (\<lambda>k. \<lparr>en_key = Some k, en_size = None, en_modified = None\<rparr>)
        (filter (starts_with prefix) (live_list lg)), None),
     s3_get_answer = \<lambda>_ _ _. Inl \<lparr>se_code = None, se_display = [], se_context = []\<rparr>,
     mime_from_ext = \<lambda>_. None, utf8_of = \<lambda>_. Inl []\<rparr>"

lemma live_list_set: "set (live_list lg) = live_keys lg"
proof -
  have "set (fold (\<lambda>r ks. case r of S3_Put k _ \<Rightarrow> List.insert k ks | S3_Delete k \<Rightarrow> removeAll k ks) lg ks) =
      fold live_step lg (set ks)" for ks
    by (induction lg arbitrary: ks) (auto split: s3_request.splits)
  then show ?thesis by (simp add: live_list_def live_keys_def)
qed

lemma ex_s3_honest: "s3_honest ex_s3"
  by (auto simp: s3_honest_def ex_s3_def live_list_set image_iff)

lemma ex_delete_entries: "\<exists>s'. delete_entries ex_s3 h ens s = (Inr (), s')"
  by (induction ens arbitrary: s) (auto simp: s3_delete_def ex_s3_def split: option.splits)

lemma ex_delete_ok:
  assumes "is_valid_hash h"
  shows "fst (delete_matching ex_s3 h s) = Inr ()"
proof -
  obtain prefix where p: "hash_prefix h = Inr prefix"
    using fan_out_valid [OF assms] by (simp add: hash_prefix_def)
  obtain ens where l: "s3_list_answer ex_s3 (s3_log_of s) prefix = (ens, None)"
    by (simp add: ex_s3_def)
  obtain s' where "delete_entries ex_s3 h ens s = (Inr (), s')"
    using ex_delete_entries by blast
  with p l show ?thesis by (simp add: delete_matching_def)
qed

definition ex_key_name :: string where
  "ex_key_name = ''a/a/'' @ replicate 64 (CHR ''a'')"

lemma ex_key_ok: "object_key (replicate 64 (CHR ''a'')) None None = Inr ex_key_name"
  by (simp add: object_key_iff is_valid_hash_def is_lower_hex_def is_ascii_digit_def byte_of_def
      list_all_iff ex_key_name_def name_suffix_def eval_nat_numeral)

section \<open>Properties\<close>

text \<open>A bucket sweep is complete: when \<open>delete_matching\<close> succeeds against a service whose listings
  report every stored key of the requested prefix, no object that parses as a copy of that hash is
  left in the bucket, whatever its extension and expiration suffix.\<close>
lemma delete_matching_complete:
  assumes "s3_honest e" and "delete_matching e sha256 s = (Inr (), s')"
    and "parse_object_key k = Some (sha256, x, y)"
  shows "k \<notin> live_keys (s3_log_of s')"
  using assms by (rule delete_matching_clears)

text \<open>Bucket synchronisation never overrides a local blob and never loses one: a successful sync
  leaves every catalogued hash as it was, adds exactly the listed hashes that were missing and marks
  the bucket available; a failed one leaves the catalogue alone and makes every later availability
  check answer 503.\<close>
lemma sync_index_merges:
  "let (r, s', ix') = sync_index e now (s, ix) in
     (case r of
        Inr _ \<Rightarrow> (\<exists>kms. list_all_blobs e now s = Inr kms \<and>
           (\<forall>k. index_get ix' k = (case index_get ix k of Some m \<Rightarrow> Some m | None \<Rightarrow> map_of kms k))) \<and>
           ensure_available s' = Inr ()
      | Inl err \<Rightarrow> ix' = ix \<and> list_all_blobs e now s = Inl err \<and>
           (\<exists>msg. ensure_available s' = Inl (ServiceUnavailable msg)))"
  by (auto simp: sync_index_def ensure_available_def merge_listing_get split: sum.splits)

end
