(* ===== verification/Storage.thy ===== *)
theory Storage
  imports NativeS3
begin

text \<open>
  The storage layer, \<open>src/services/file_storage.rs\<close> and \<open>src/services/intake.rs\<close>: publication of a
  completed temporary blob, its removal, quarantine, the superseded-copy queue and the admission
  checks, over \<open>store\<close> (files, catalogue, optional S3 adapter, deletion queue, change flag). Each
  operation runs under the per-hash guard of \<open>blob_lock\<close>, so it is one atomic function here. A
  \<open>TempBlob\<close> that is dropped unlinks its file: \<open>drop_temp\<close>.
\<close>

section \<open>State and environment\<close>

record store =
  st_fs :: fs
  st_index :: entries
  st_s3 :: "s3_storage option"
  st_superseded :: "(string \<times> file_metadata) list"
  st_changes_pending :: bool

record storage_env =
  host :: host_env
  s3e :: s3_env

record blob_publication =
  bp_sha256 :: string
  bp_origin :: blob_origin
  bp_extension :: "string option"
  bp_mime_type :: "string option"
  bp_size :: u64
  bp_expiration :: "u64 option"

record stored_blob =
  sb_metadata :: file_metadata
  sb_created :: bool

type_synonym 'a op = "store \<Rightarrow> 'a app_result \<times> store"

definition on_fs :: "(fs \<Rightarrow> ('e + 'a) \<times> fs) \<Rightarrow> store \<Rightarrow> ('e + 'a) \<times> store" where
  "on_fs g s = (let (r, f) = g (st_fs s) in (r, s\<lparr>st_fs := f\<rparr>))"

section \<open>Paths and temporary files\<close>

definition publication_metadata :: "u64 \<Rightarrow> blob_publication \<Rightarrow> file_location \<Rightarrow> file_metadata" where
  "publication_metadata now p loc =
     \<lparr>md_location = loc, md_extension = bp_extension p, md_mime_type = bp_mime_type p,
      md_size = bp_size p, md_created_at = now, md_pubkey = None, md_expiration = bp_expiration p,
      md_origin = bp_origin p\<rparr>"

definition root_of :: "app_config \<Rightarrow> blob_origin \<Rightarrow> path" where
  "root_of c orig = (case orig of Upload \<Rightarrow> uploads (storage c) | UpstreamCache \<Rightarrow> upstream_cache (storage c))"

text \<open>\<open>completed_path\<close>; \<open>None\<close> is the \<open>expect\<close> its caller has ruled out by validating the hash.\<close>

definition completed_path ::
  "app_config \<Rightarrow> blob_origin \<Rightarrow> string \<Rightarrow> string option \<Rightarrow> u64 option \<Rightarrow> path option" where
  "completed_path c orig h extension expiration =
     (case (fan_out h, blob_name h expiration extension) of
        (Inr (h0, h1), Inr filename) \<Rightarrow> Some (root_of c orig @ [h0, h1, filename])
      | _ \<Rightarrow> None)"

definition create_parent_dirs :: "host_env \<Rightarrow> path \<Rightarrow> unit op" where
  "create_parent_dirs h p s =
     (if p = [] then (Inr (), s)
      else err_st (\<lambda>e. IoError (''Failed to create directory '' @ display_path (butlast p) @ '': '' @ io_text e))
             (on_fs (fs_create_dir_all h (butlast p)) s))"

definition remove_local_file :: "host_env \<Rightarrow> path \<Rightarrow> unit op" where
  "remove_local_file h p s =
     (case on_fs (fs_remove_file h p) s of
        (Inr _, s') \<Rightarrow> (Inr (), s')
      | (Inl Io_NotFound, s') \<Rightarrow> (Inr (), s')
      | (Inl e, s') \<Rightarrow> (Inl (IoError (''Failed to remove file '' @ display_path p @ '': '' @ io_text e)), s'))"

definition temp_reserve :: "app_config \<Rightarrow> host_env \<Rightarrow> string \<Rightarrow> string option \<Rightarrow> path" where
  "temp_reserve c h prefix extension =
     temp (storage c) @ [(case extension of
        None \<Rightarrow> prefix @ ''_'' @ fresh_uuid h
      | Some x \<Rightarrow> prefix @ ''_'' @ fresh_uuid h @ ''.'' @ x)]"

definition drop_temp :: "host_env \<Rightarrow> path \<Rightarrow> store \<Rightarrow> store" where
  "drop_temp h p s = snd (on_fs (fs_remove_file h p) s)"

definition ensure_temp_dir :: "app_config \<Rightarrow> host_env \<Rightarrow> path op" where
  "ensure_temp_dir c h s =
     bind_st (err_st (\<lambda>e. IoError (''Failed to create temporary storage '' @ display_path (temp (storage c)) @
                '': '' @ io_text e))
            (on_fs (fs_create_dir_all h (temp (storage c))) s))
       (\<lambda>_ s'. (Inr (temp (storage c)), s'))"

definition ensure_storage_capacity :: "app_config \<Rightarrow> host_env \<Rightarrow> store \<Rightarrow> u64 \<Rightarrow> unit app_result" where
  "ensure_storage_capacity c h s n =
     (if n > max_blob_size_bytes c
      then Inl (PayloadTooLarge (''Blob size '' @ show_u64 n @ '' exceeds configured maximum '' @
             show_u64 (max_blob_size_bytes c)))
      else let stats = index_get_stats (st_index s);
               over_size = max_total_size c \<noteq> 0 \<and>
                 saturating_add (is_total_bytes stats) n > max_total_size c;
               over_files = max_total_files c \<noteq> 0 \<and> is_count stats \<ge> max_total_files c
        in if over_size \<or> over_files then Inl (InsufficientStorage ''Storage quota would be exceeded'')
           else and_then (app_err (\<lambda>e. IoError (''Failed to inspect available disk space: '' @ e))
                   (available_space h (root (storage c)))) (\<lambda>available.
             if available < saturating_add (min_free_disk_bytes c) n
             then Inl (InsufficientStorage ''Configured free-disk reserve would be violated'')
             else Inr ()))"

section \<open>Quarantine\<close>

definition quarantine_name_matches :: "string \<Rightarrow> string \<Rightarrow> bool" where
  "quarantine_name_matches sha256 nm =
     (case strip_prefix sha256 nm of
        None \<Rightarrow> False
      | Some suffix \<Rightarrow> suffix = [] \<or> starts_with ''_'' suffix \<or> starts_with ''.'' suffix)"

definition ensure_not_quarantined :: "app_config \<Rightarrow> host_env \<Rightarrow> store \<Rightarrow> string \<Rightarrow> unit app_result" where
  "ensure_not_quarantined c h s sha256 =
     and_then (validate_sha256_format sha256) (\<lambda>_.
       let q = quarantine (storage c) in
       case fs_read_dir h q (st_fs s) of
         Inl Io_NotFound \<Rightarrow> Inr ()
       | Inl e \<Rightarrow> Inl (IoError (''Failed to inspect quarantine directory '' @ display_path q @ '': '' @ io_text e))
       | Inr names \<Rightarrow>
           (case io_fault h Io_Stat q of
              Some e \<Rightarrow> Inl (IoError (''Failed to read quarantine directory '' @ display_path q @ '': '' @ e))
            | None \<Rightarrow>
                if list_ex (quarantine_name_matches sha256) names
                then Inl (Forbidden ''Blob is quarantined and cannot be uploaded'')
                else Inr ()))"

section \<open>Physical copies\<close>

definition s3_missing :: app_error where
  "s3_missing = ServiceUnavailable ''S3 storage is not configured''"

definition on_s3 :: "(s3_storage \<Rightarrow> 'a app_result \<times> s3_storage) \<Rightarrow> 'a op" where
  "on_s3 g s = (case st_s3 s of
       None \<Rightarrow> (Inl s3_missing, s)
     | Some b \<Rightarrow> (let (r, b') = g b in (r, s\<lparr>st_s3 := Some b'\<rparr>)))"

definition remove_physical_file :: "storage_env \<Rightarrow> file_metadata \<Rightarrow> unit op" where
  "remove_physical_file e m s =
     (case md_location m of
        Local p \<Rightarrow> remove_local_file (host e) p s
      | S3 key \<Rightarrow> on_s3 (s3_delete (s3e e) key) s)"

definition sweep_backend_copies :: "storage_env \<Rightarrow> string \<Rightarrow> unit op" where
  "sweep_backend_copies e sha256 s =
     (case st_s3 s of None \<Rightarrow> (Inr (), s) | Some _ \<Rightarrow> on_s3 (delete_matching (s3e e) sha256) s)"

definition read_text :: "storage_env \<Rightarrow> store \<Rightarrow> file_metadata \<Rightarrow> string app_result" where
  "read_text e s m =
     (case md_location m of
        Local p \<Rightarrow>
          and_then (app_err (\<lambda>err. IoError (''Failed to read '' @ display_path p @ '': '' @ io_text err))
              (fs_read (host e) p (st_fs s))) (\<lambda>b.
            app_err (\<lambda>_. IoError (''Failed to read '' @ display_path p @ '': stream did not contain valid UTF-8''))
              (utf8_of (s3e e) b))
      | S3 key \<Rightarrow> (case st_s3 s of None \<Rightarrow> Inl s3_missing | Some b \<Rightarrow> s3_read_text (s3e e) key b))"

definition local_path :: "file_metadata \<Rightarrow> path option" where
  "local_path m = (case md_location m of Local p \<Rightarrow> Some p | S3 _ \<Rightarrow> None)"

definition get_file_metadata :: "store \<Rightarrow> string \<Rightarrow> file_metadata option" where
  "get_file_metadata s sha256 = index_get (st_index s) sha256"

definition mark_changes_pending :: "store \<Rightarrow> store" where
  "mark_changes_pending s = s\<lparr>st_changes_pending := True\<rparr>"

section \<open>Publication\<close>

definition queue_superseded_deletion :: "string \<Rightarrow> file_metadata \<Rightarrow> store \<Rightarrow> store" where
  "queue_superseded_deletion sha256 m s =
     (if \<exists>(h, m') \<in> set (st_superseded s). h = sha256 \<and> md_location m' = md_location m then s
      else s\<lparr>st_superseded := st_superseded s @ [(sha256, m)]\<rparr>)"

definition publish_metadata :: "storage_env \<Rightarrow> string \<Rightarrow> file_metadata \<Rightarrow> stored_blob op" where
  "publish_metadata e sha256 m s =
     (case index_publish sha256 m (st_index s) of
        (ix, Published old) \<Rightarrow>
          (let s1 = s\<lparr>st_index := ix\<rparr>;
               published = the (index_get ix sha256);
               s2 = (case old of
                   None \<Rightarrow> s1
                 | Some d \<Rightarrow> (case remove_physical_file e d s1 of
                       (Inr _, s') \<Rightarrow> s'
                     | (Inl _, s') \<Rightarrow> queue_superseded_deletion sha256 d s'))
           in (Inr \<lparr>sb_metadata = published, sb_created = True\<rparr>, mark_changes_pending s2))
      | (ix, Retained ex) \<Rightarrow> (Inr \<lparr>sb_metadata = ex, sb_created = False\<rparr>, s\<lparr>st_index := ix\<rparr>))"

definition publish_existing_metadata :: "storage_env \<Rightarrow> string \<Rightarrow> file_metadata \<Rightarrow> file_metadata op" where
  "publish_existing_metadata e sha256 m s =
     bind_st (publish_metadata e sha256 m s) (\<lambda>b s'. (Inr (sb_metadata b), s'))"

text \<open>
  The rename into place; the flag says whether the temporary file has been given up
  (\<open>into_published\<close>), otherwise the caller drops it.
\<close>

definition move_into_place :: "host_env \<Rightarrow> path \<Rightarrow> path \<Rightarrow> unit op" where
  "move_into_place h temp_path final_path s =
     bind_st (create_parent_dirs h final_path s) (\<lambda>_ s1.
     bind_st (err_st (\<lambda>e. IoError (''Failed to inspect final blob path '' @ display_path final_path @ '': '' @ io_text e))
                (fs_try_exists h final_path (st_fs s1), s1)) (\<lambda>present s2.
     bind_st (if present then remove_local_file h final_path s2 else (Inr (), s2)) (\<lambda>_ s3.
       err_st (\<lambda>e. IoError (''Failed to publish '' @ display_path temp_path @ '' to '' @ display_path final_path @
                 '': '' @ io_text e))
         (on_fs (fs_rename h temp_path final_path) s3))))"

definition publish_to_s3 :: "storage_env \<Rightarrow> path \<Rightarrow> blob_publication \<Rightarrow> string op" where
  "publish_to_s3 e temp_path p s =
     (case st_s3 s of
        None \<Rightarrow> (Inl s3_missing, s)
      | Some b \<Rightarrow>
          (case ensure_available b of
             Inl err \<Rightarrow> (Inl err, s)
           | Inr _ \<Rightarrow>
               (let (r, b', f') = s3_put (s3e e) (host e) temp_path (bp_sha256 p) (bp_extension p)
                                    (bp_expiration p) (b, st_fs s)
                in (r, s\<lparr>st_s3 := Some b', st_fs := f'\<rparr>))))"

text \<open>The part of \<open>publish_blob\<close> after the incumbent check: the S3 branch, then the local one.\<close>

definition publish_new :: "app_config \<Rightarrow> storage_env \<Rightarrow> path \<Rightarrow> blob_publication \<Rightarrow> stored_blob op" where
  "publish_new c e temp_path p s =
     (if bp_origin p = Upload \<and> st_s3 s \<noteq> None
      then (case publish_to_s3 e temp_path p s of
          (Inl err, s') \<Rightarrow> (Inl err, drop_temp (host e) temp_path s')
        | (Inr key, s') \<Rightarrow>
            publish_metadata e (bp_sha256 p) (publication_metadata (now_secs (host e)) p (S3 key)) s')
      else (case completed_path c (bp_origin p) (bp_sha256 p) (bp_extension p) (bp_expiration p) of
          None \<Rightarrow> (Inl (InternalError ''hash validated by publish_blob''), drop_temp (host e) temp_path s)
        | Some final_path \<Rightarrow>
            (case move_into_place (host e) temp_path final_path s of
               (Inl err, s') \<Rightarrow> (Inl err, drop_temp (host e) temp_path s')
             | (Inr _, s') \<Rightarrow>
                 publish_metadata e (bp_sha256 p)
                   (publication_metadata (now_secs (host e)) p (Local final_path)) s')))"

definition publish_blob :: "app_config \<Rightarrow> storage_env \<Rightarrow> path \<Rightarrow> blob_publication \<Rightarrow> stored_blob op" where
  "publish_blob c e temp_path p s =
     (case and_then (validate_sha256_format (bp_sha256 p)) (\<lambda>_.
             ensure_not_quarantined c (host e) s (bp_sha256 p)) of
        Inl err \<Rightarrow> (Inl err, drop_temp (host e) temp_path s)
      | Inr _ \<Rightarrow>
          (case index_get (st_index s) (bp_sha256 p) of
             Some ex \<Rightarrow>
               if bp_origin p = UpstreamCache \<or> md_origin ex = Upload
               then (Inr \<lparr>sb_metadata = ex, sb_created = False\<rparr>, drop_temp (host e) temp_path s)
               else publish_new c e temp_path p s
           | None \<Rightarrow> publish_new c e temp_path p s))"

section \<open>Removal\<close>

fun reconcile_loop ::
  "storage_env \<Rightarrow> (string \<times> file_metadata) list \<Rightarrow> (string \<times> file_metadata) list \<Rightarrow> store \<Rightarrow>
     (string \<times> file_metadata) list \<times> store" where
  "reconcile_loop e [] retry s = (retry, s)"
| "reconcile_loop e ((h, m) # pending) retry s =
     (case remove_physical_file e m s of
        (Inr _, s') \<Rightarrow> reconcile_loop e pending retry s'
      | (Inl _, s') \<Rightarrow> reconcile_loop e pending (retry @ [(h, m)]) s')"

definition reconcile_superseded_blobs :: "storage_env \<Rightarrow> store \<Rightarrow> store" where
  "reconcile_superseded_blobs e s =
     (let (retry, s') = reconcile_loop e (st_superseded s) [] (s\<lparr>st_superseded := []\<rparr>)
      in s'\<lparr>st_superseded := st_superseded s' @ retry\<rparr>)"

datatype removal = Requested | Reported | Quarantined | Evicted

definition sweeps_backend :: "removal \<Rightarrow> bool" where
  "sweeps_backend r \<longleftrightarrow> r = Requested \<or> r = Reported"

definition quarantine_current :: "app_config \<Rightarrow> storage_env \<Rightarrow> string \<Rightarrow> file_metadata \<Rightarrow> unit op" where
  "quarantine_current c e sha256 m s =
     (case md_location m of
        S3 _ \<Rightarrow> sweep_backend_copies e sha256 s
      | Local p \<Rightarrow>
          (let q = quarantine (storage c);
               destination = q @ [if p = [] then sha256 else last p]
           in bind_st (err_st (\<lambda>err. IoError (''Failed to create quarantine directory '' @ display_path q @
                          '': '' @ io_text err))
                   (on_fs (fs_create_dir_all (host e) q) s)) (\<lambda>_ s1.
                err_st (\<lambda>err. IoError (''Failed to quarantine '' @ display_path p @ '' into '' @
                          display_path destination @ '': '' @ io_text err))
                  (on_fs (fs_rename (host e) p destination) s1))))"

definition stale_candidate :: "file_metadata \<Rightarrow> file_metadata option \<Rightarrow> bool" where
  "stale_candidate current expected =
     (case expected of
        None \<Rightarrow> False
      | Some x \<Rightarrow> md_location current \<noteq> md_location x \<or> md_created_at current \<noteq> md_created_at x \<or>
                 md_origin current \<noteq> md_origin x)"

definition remove_indexed_blob ::
  "app_config \<Rightarrow> storage_env \<Rightarrow> string \<Rightarrow> removal \<Rightarrow> file_metadata option \<Rightarrow> bool op" where
  "remove_indexed_blob c e sha256 removal expected s =
     (case index_get (st_index s) sha256 of
        None \<Rightarrow>
          if sweeps_backend removal
          then bind_st (sweep_backend_copies e sha256 s) (\<lambda>_ s'. (Inr False, s'))
          else (Inr False, s)
      | Some current \<Rightarrow>
          if stale_candidate current expected then (Inr False, s)
          else bind_st (if removal = Quarantined then quarantine_current c e sha256 current s
                        else remove_physical_file e current s) (\<lambda>_ s1.
               bind_st (if sweeps_backend removal then sweep_backend_copies e sha256 s1 else (Inr (), s1)) (\<lambda>_ s2.
                 let (ix, removed) = index_remove_if_location_matches sha256 (md_location current) (st_index s2);
                     s3 = s2\<lparr>st_index := ix\<rparr>
                 in (Inr removed, if removed then mark_changes_pending s3 else s3))))"

section \<open>Intake\<close>

datatype intake = ClientUpload | UpstreamFetch

definition resolve_limit :: "u64 \<Rightarrow> u64 \<Rightarrow> intake \<Rightarrow> u64" where
  "resolve_limit max_blob max_upstream i =
     (case i of
        ClientUpload \<Rightarrow> max_blob
      | UpstreamFetch \<Rightarrow> if max_upstream < max_blob then max_upstream else max_blob)"

definition size_limit :: "app_config \<Rightarrow> intake \<Rightarrow> u64" where
  "size_limit c i = resolve_limit (max_blob_size_bytes c) (max_upstream_download_size_bytes c) i"

definition accept :: "app_config \<Rightarrow> storage_env \<Rightarrow> path \<Rightarrow> blob_publication \<Rightarrow> stored_blob op" where
  "accept c e temp_path a = publish_blob c e temp_path a"

definition finalize_upload ::
  "app_config \<Rightarrow> storage_env \<Rightarrow> path \<Rightarrow> string \<Rightarrow> u64 \<Rightarrow> string option \<Rightarrow> string option \<Rightarrow> u64 option \<Rightarrow>
     stored_blob op" where
  "finalize_upload c e temp_path sha256 sz extension mime expiration =
     accept c e temp_path \<lparr>bp_sha256 = sha256, bp_origin = Upload, bp_extension = extension,
       bp_mime_type = mime, bp_size = sz, bp_expiration = expiration\<rparr>"

section \<open>Where blobs live\<close>

text \<open>
  \<open>blob_path c p k\<close>: \<open>p\<close> lies in a served root and its name is one of hash \<open>k\<close>. \<open>located\<close>: the
  catalogued copy exists there, with content satisfying \<open>Q\<close> (for instance: it hashes to \<open>k\<close>).
\<close>

definition layout_ok :: "app_config \<Rightarrow> bool" where
  "layout_ok c \<longleftrightarrow> (\<exists>r. storage c = storage_layout_new r)"

definition blob_path :: "app_config \<Rightarrow> path \<Rightarrow> string \<Rightarrow> bool" where
  "blob_path c p k \<longleftrightarrow> (\<exists>orig tail. tail \<noteq> [] \<and> p = root_of c orig @ tail) \<and>
     extract_sha256_from_filename (last p) = Some k"

definition located ::
  "app_config \<Rightarrow> (string \<Rightarrow> file_metadata \<Rightarrow> bytes \<Rightarrow> bool) \<Rightarrow> fs \<Rightarrow> string \<Rightarrow> file_metadata \<Rightarrow> bool" where
  "located c Q f k m \<longleftrightarrow>
     (case md_location m of
        S3 _ \<Rightarrow> True
      | Local p \<Rightarrow> (\<exists>tail. tail \<noteq> [] \<and> p = root_of c (md_origin m) @ tail) \<and>
          extract_sha256_from_filename (last p) = Some k \<and> (\<exists>d. fs_data f p = Some d \<and> Q k m d))"

definition store_inv ::
  "app_config \<Rightarrow> (string \<Rightarrow> file_metadata \<Rightarrow> bytes \<Rightarrow> bool) \<Rightarrow> store \<Rightarrow> bool" where
  "store_inv c Q s \<longleftrightarrow> index_inv (st_index s) \<and>
     (\<forall>k m. index_get (st_index s) k = Some m \<longrightarrow> located c Q (st_fs s) k m)"

definition is_temp_path :: "app_config \<Rightarrow> path \<Rightarrow> bool" where
  "is_temp_path c p \<longleftrightarrow> (\<exists>x xs. p = temp (storage c) @ x # xs)"

text \<open>Files of other hashes are untouched.\<close>

definition frame :: "app_config \<Rightarrow> string \<Rightarrow> store \<Rightarrow> store \<Rightarrow> bool" where
  "frame c sha s s' \<longleftrightarrow>
     (\<forall>p k. blob_path c p k \<longrightarrow> k \<noteq> sha \<longrightarrow> fs_data (st_fs s') p = fs_data (st_fs s) p)"

lemma frame_refl [simp]: "frame c sha s s"
  by (simp add: frame_def)

lemma frame_trans: "frame c sha s1 s2 \<Longrightarrow> frame c sha s2 s3 \<Longrightarrow> frame c sha s1 s3"
  by (simp add: frame_def)

lemma frame_files: "fs_files (st_fs s') = fs_files (st_fs s) \<Longrightarrow> frame c sha s s'"
  by (simp add: frame_def)

lemma temp_not_blob: "layout_ok c \<Longrightarrow> is_temp_path c p \<Longrightarrow> \<not> blob_path c p k"
  by (auto simp: layout_ok_def is_temp_path_def blob_path_def root_of_def storage_layout_new_def
      split: blob_origin.splits)

lemma quarantine_not_blob: "layout_ok c \<Longrightarrow> \<not> blob_path c (quarantine (storage c) @ [x]) k"
  by (auto simp: layout_ok_def blob_path_def root_of_def storage_layout_new_def split: blob_origin.splits)

lemma roots_differ:
  "layout_ok c \<Longrightarrow> root_of c Upload @ xs \<noteq> root_of c UpstreamCache @ ys"
  by (auto simp: layout_ok_def root_of_def storage_layout_new_def)

lemma roots_inj: "root_of c a @ xs = root_of c b @ ys \<Longrightarrow> layout_ok c \<Longrightarrow> a = b"
  by (cases a; cases b) (simp_all add: roots_differ roots_differ [symmetric])

lemma located_blob_path: "located c Q f k m \<Longrightarrow> md_location m = Local p \<Longrightarrow> blob_path c p k"
  by (auto simp: located_def blob_path_def)

lemma blob_path_hash: "blob_path c p k \<Longrightarrow> blob_path c p k' \<Longrightarrow> k = k'"
  by (simp add: blob_path_def)

lemma store_inv_step:
  assumes inv: "store_inv c Q s" and ix: "index_inv (st_index s')"
    and others: "\<And>k. k \<noteq> sha \<Longrightarrow> index_get (st_index s') k = index_get (st_index s) k"
    and own: "\<And>m. index_get (st_index s') sha = Some m \<Longrightarrow> located c Q (st_fs s') sha m"
    and fr: "frame c sha s s'"
  shows "store_inv c Q s'"
  unfolding store_inv_def
proof (intro conjI ix allI impI)
  fix k m
  assume m: "index_get (st_index s') k = Some m"
  show "located c Q (st_fs s') k m"
  proof (cases "k = sha")
    case True
    with m own show ?thesis by simp
  next
    case False
    with m others inv have loc: "located c Q (st_fs s) k m" by (simp add: store_inv_def)
    then have "fs_data (st_fs s') p = fs_data (st_fs s) p" if "md_location m = Local p" for p
      using fr False located_blob_path [OF loc that] by (simp add: frame_def)
    with loc show ?thesis by (auto simp: located_def split: file_location.splits)
  qed
qed

lemma completed_path_valid:
  assumes "is_valid_hash h"
  shows "completed_path c orig h x e = Some (root_of c orig @ [take 1 h, take 1 (drop 1 h), h @ name_suffix e x])"
  using fan_out_valid [OF assms] blob_name_valid [OF assms, of e x] by (simp add: completed_path_def)

lemma completed_path_blob:
  assumes "completed_path c orig h x e = Some p"
  shows "is_valid_hash h" "\<exists>tail. tail \<noteq> [] \<and> p = root_of c orig @ tail"
    "extract_sha256_from_filename (last p) = Some h"
proof -
  show h: "is_valid_hash h"
    using assms by (auto simp: completed_path_def fan_out_def and_then_Inr_iff split: sum.splits)
  with assms show "\<exists>tail. tail \<noteq> [] \<and> p = root_of c orig @ tail"
    by (auto simp: completed_path_valid)
  show "extract_sha256_from_filename (last p) = Some h"
    using assms h by (auto simp: completed_path_valid extract_sha256_from_filename_def parse_name_append parse_rest_suffix)
qed

section \<open>Effects of the building blocks\<close>

lemma remove_local_effect:
  assumes "remove_local_file h p s = (r, s')"
  shows "st_index s' = st_index s" "st_s3 s' = st_s3 s" "st_superseded s' = st_superseded s"
    "st_changes_pending s' = st_changes_pending s"
    "\<And>q. q \<noteq> p \<Longrightarrow> fs_data (st_fs s') q = fs_data (st_fs s) q"
    "fs_dirs (st_fs s') = fs_dirs (st_fs s)"
    "r = Inr () \<Longrightarrow> fs_data (st_fs s') p = None"
  using assms remove_file_cases [of h p "st_fs s"]
  by (cases "fs_remove_file h p (st_fs s)"; cases "fst (fs_remove_file h p (st_fs s))";
      auto simp: remove_local_file_def on_fs_def hm_simps split: io_error.splits)+

lemma drop_temp_effect:
  "st_index (drop_temp h p s) = st_index s" "st_s3 (drop_temp h p s) = st_s3 s"
  "st_superseded (drop_temp h p s) = st_superseded s"
  "st_changes_pending (drop_temp h p s) = st_changes_pending s"
  "q \<noteq> p \<Longrightarrow> fs_data (st_fs (drop_temp h p s)) q = fs_data (st_fs s) q"
  using remove_file_cases [of h p "st_fs s"]
  by (cases "fs_remove_file h p (st_fs s)"; auto simp: drop_temp_def on_fs_def hm_simps)+

lemma drop_temp_gone:
  "io_fault h Io_Remove p = None \<Longrightarrow> p \<notin> set (fs_dirs (st_fs s)) \<Longrightarrow>
     fs_data (st_fs (drop_temp h p s)) p = None"
  by (auto simp: drop_temp_def on_fs_def fs_remove_file_def hm_simps split: option.splits)

lemma on_s3_effect:
  "on_s3 g s = (r, s') \<Longrightarrow> st_index s' = st_index s \<and> st_fs s' = st_fs s \<and>
     st_superseded s' = st_superseded s \<and> st_changes_pending s' = st_changes_pending s"
  by (auto simp: on_s3_def split: option.splits prod.splits)

lemma remove_physical_effect:
  assumes "remove_physical_file e m s = (r, s')"
  shows "st_index s' = st_index s" "st_superseded s' = st_superseded s"
    "\<And>q. md_location m \<noteq> Local q \<Longrightarrow> fs_data (st_fs s') q = fs_data (st_fs s) q"
proof -
  have "st_index s' = st_index s \<and> st_superseded s' = st_superseded s \<and>
      (\<forall>q. md_location m \<noteq> Local q \<longrightarrow> fs_data (st_fs s') q = fs_data (st_fs s) q)"
  proof (cases "md_location m")
    case (Local p)
    with assms have "remove_local_file (host e) p s = (r, s')"
      by (simp add: remove_physical_file_def)
    from remove_local_effect [OF this] Local show ?thesis by auto
  next
    case (S3 key)
    with assms have "on_s3 (s3_delete (s3e e) key) s = (r, s')"
      by (simp add: remove_physical_file_def)
    from on_s3_effect [OF this] show ?thesis by simp
  qed
  then show "st_index s' = st_index s" "st_superseded s' = st_superseded s"
    "\<And>q. md_location m \<noteq> Local q \<Longrightarrow> fs_data (st_fs s') q = fs_data (st_fs s) q"
    by blast+
qed

lemma sweep_effect:
  "sweep_backend_copies e sha s = (r, s') \<Longrightarrow> st_index s' = st_index s \<and> st_fs s' = st_fs s"
  using on_s3_effect by (auto simp: sweep_backend_copies_def split: option.splits)

lemma publish_to_s3_dirs:
  "publish_to_s3 e src p s = (r, s') \<Longrightarrow> fs_dirs (st_fs s') = fs_dirs (st_fs s)"
  by (auto simp: publish_to_s3_def s3_put_def fs_remove_file_def Let_def
      split: option.splits sum.splits if_splits)

lemma publish_metadata_spec:
  assumes inv: "index_inv (st_index s)"
    and fresh: "md_origin m = UpstreamCache \<longrightarrow> index_get (st_index s) sha = None"
    and res: "publish_metadata e sha m s = (r, s')"
  shows "r = Inr \<lparr>sb_metadata = m, sb_created = True\<rparr>"
    and "index_get (st_index s') = (index_get (st_index s))(sha \<mapsto> m)"
    and "index_inv (st_index s')" and "st_changes_pending s'"
    and "\<And>q. (\<And>d. index_get (st_index s) sha = Some d \<Longrightarrow> md_location d \<noteq> Local q) \<Longrightarrow>
           fs_data (st_fs s') q = fs_data (st_fs s) q"
proof -
  define ix where "ix = fst (entries_insert sha m (st_index s))"
  define old where "old = index_get (st_index s) sha"
  have get: "index_get ix = (index_get (st_index s))(sha \<mapsto> m)" and ix: "index_inv ix"
    using inv by (auto simp: ix_def hm_simps)
  have pub: "index_publish sha m (st_index s) = (ix, Published old)"
    using fresh by (cases "md_origin m") (auto simp: index_publish_def ix_def old_def index_get_def
        split_beta Let_def hm_simps)
  define s1 where "s1 = s\<lparr>st_index := ix\<rparr>"
  define s2 where "s2 = (case old of None \<Rightarrow> s1 | Some d \<Rightarrow> (case remove_physical_file e d s1 of
      (Inr _, s') \<Rightarrow> s' | (Inl _, s') \<Rightarrow> queue_superseded_deletion sha d s'))"
  have "publish_metadata e sha m s =
      (Inr \<lparr>sb_metadata = the (index_get ix sha), sb_created = True\<rparr>, mark_changes_pending s2)"
    unfolding publish_metadata_def pub s2_def s1_def by (simp add: Let_def)
  then have r: "r = Inr \<lparr>sb_metadata = m, sb_created = True\<rparr>" and s': "s' = mark_changes_pending s2"
    using res get by simp_all
  have s2: "st_index s2 = ix \<and>
      (\<forall>q. (\<forall>d. old = Some d \<longrightarrow> md_location d \<noteq> Local q) \<longrightarrow> fs_data (st_fs s2) q = fs_data (st_fs s) q)"
  proof (cases old)
    case None
    then show ?thesis by (simp add: s2_def s1_def)
  next
    case (Some d)
    obtain rr t where t: "remove_physical_file e d s1 = (rr, t)" by (cases "remove_physical_file e d s1")
    note eff = remove_physical_effect [OF t]
    have "s2 = (case rr of Inr _ \<Rightarrow> t | Inl _ \<Rightarrow> queue_superseded_deletion sha d t)"
      using Some t by (simp add: s2_def split: sum.splits)
    then have "st_index s2 = st_index t" "st_fs s2 = st_fs t"
      by (auto simp: queue_superseded_deletion_def split: sum.splits)
    with eff Some show ?thesis by (simp add: s1_def)
  qed
  show "r = Inr \<lparr>sb_metadata = m, sb_created = True\<rparr>" by (rule r)
  show "index_get (st_index s') = (index_get (st_index s))(sha \<mapsto> m)" "index_inv (st_index s')"
    "st_changes_pending s'"
    using s2 get ix s' by (simp_all add: mark_changes_pending_def)
  fix q
  assume "\<And>d. index_get (st_index s) sha = Some d \<Longrightarrow> md_location d \<noteq> Local q"
  then show "fs_data (st_fs s') q = fs_data (st_fs s) q"
    using s2 s' by (simp add: mark_changes_pending_def old_def)
qed

lemma move_into_place_spec:
  assumes res: "move_into_place h src dst s = (r, s')" and ne: "src \<noteq> dst"
  shows "st_index s' = st_index s" "st_superseded s' = st_superseded s"
    and "\<And>q. q \<noteq> src \<Longrightarrow> q \<noteq> dst \<Longrightarrow> fs_data (st_fs s') q = fs_data (st_fs s) q"
    and "r = Inr u \<Longrightarrow> fs_data (st_fs s') src = None \<and>
           (\<exists>d. fs_data (st_fs s) src = Some d \<and> fs_data (st_fs s') dst = Some d)"
proof -
  obtain r1 s1 where c1: "create_parent_dirs h dst s = (r1, s1)" by (cases "create_parent_dirs h dst s")
  have f1: "st_index s1 = st_index s" "st_superseded s1 = st_superseded s"
    "fs_files (st_fs s1) = fs_files (st_fs s)"
    using c1 create_dir_keeps [of h "butlast dst" "st_fs s"]
    by (auto simp: create_parent_dirs_def on_fs_def err_st_def split: if_splits sum.splits prod.splits)
  have "st_index s' = st_index s \<and> st_superseded s' = st_superseded s \<and>
      (\<forall>q. q \<noteq> src \<longrightarrow> q \<noteq> dst \<longrightarrow> fs_data (st_fs s') q = fs_data (st_fs s) q) \<and>
      (\<forall>u. r = Inr u \<longrightarrow> fs_data (st_fs s') src = None \<and>
           (\<exists>d. fs_data (st_fs s) src = Some d \<and> fs_data (st_fs s') dst = Some d))"
  proof (cases "\<exists>x present. r1 = Inr x \<and> fs_try_exists h dst (st_fs s1) = Inr present")
    case False
    then show ?thesis
      using res c1 f1 by (cases r1; cases "fs_try_exists h dst (st_fs s1)") (auto simp: move_into_place_def)
  next
    case True
    then obtain x present where ok: "r1 = Inr x" "fs_try_exists h dst (st_fs s1) = Inr present" by blast
    obtain r3 s3 where c3: "(if present then remove_local_file h dst s1 else (Inr (), s1)) = (r3, s3)"
      by (cases "if present then remove_local_file h dst s1 else (Inr (), s1)")
    have f3: "st_index s3 = st_index s" "st_superseded s3 = st_superseded s"
      "\<And>q. q \<noteq> dst \<Longrightarrow> fs_data (st_fs s3) q = fs_data (st_fs s) q"
    proof -
      have "st_index s3 = st_index s1 \<and> st_superseded s3 = st_superseded s1 \<and>
          (\<forall>q. q \<noteq> dst \<longrightarrow> fs_data (st_fs s3) q = fs_data (st_fs s1) q)"
      proof (cases present)
        case True
        with c3 have "remove_local_file h dst s1 = (r3, s3)" by simp
        from remove_local_effect [OF this] show ?thesis by blast
      next
        case False
        with c3 show ?thesis by simp
      qed
      then show "st_index s3 = st_index s" "st_superseded s3 = st_superseded s"
        "\<And>q. q \<noteq> dst \<Longrightarrow> fs_data (st_fs s3) q = fs_data (st_fs s) q"
        using f1 by simp_all
    qed
    obtain r4 f4 where c4: "fs_rename h src dst (st_fs s3) = (r4, f4)" by (cases "fs_rename h src dst (st_fs s3)")
    show ?thesis
    proof (cases r3)
      case (Inl e)
      then show ?thesis using res c1 ok c3 f3 by (auto simp: move_into_place_def)
    next
      case (Inr y)
      have res': "r = app_err (\<lambda>e. IoError (''Failed to publish '' @ display_path src @ '' to '' @
            display_path dst @ '': '' @ io_text e)) r4 \<and> s' = s3\<lparr>st_fs := f4\<rparr>"
        using res c1 ok c3 c4 Inr by (cases r4) (auto simp: move_into_place_def on_fs_def)
      show ?thesis
        using rename_cases [OF c4] res' f3 ne by (auto simp: hm_simps)
    qed
  qed
  then show "st_index s' = st_index s" "st_superseded s' = st_superseded s"
    "\<And>q. q \<noteq> src \<Longrightarrow> q \<noteq> dst \<Longrightarrow> fs_data (st_fs s') q = fs_data (st_fs s) q"
    "r = Inr u \<Longrightarrow> fs_data (st_fs s') src = None \<and>
       (\<exists>d. fs_data (st_fs s) src = Some d \<and> fs_data (st_fs s') dst = Some d)"
    by blast+
qed

lemma publish_to_s3_spec:
  assumes res: "publish_to_s3 e src p s = (r, s')"
  shows "st_index s' = st_index s" "st_superseded s' = st_superseded s"
    and "\<And>q. q \<noteq> src \<Longrightarrow> fs_data (st_fs s') q = fs_data (st_fs s) q"
    and "r = Inr key \<Longrightarrow> fs_data (st_fs s') src = None"
proof -
  have "st_index s' = st_index s \<and> st_superseded s' = st_superseded s \<and>
     (\<forall>q. q \<noteq> src \<longrightarrow> fs_data (st_fs s') q = fs_data (st_fs s) q) \<and>
     (\<forall>key. r = Inr key \<longrightarrow> fs_data (st_fs s') src = None)"
    using res remove_file_cases [of "host e" src "st_fs s"]
    by (cases "fs_remove_file (host e) src (st_fs s)")
      (auto simp: publish_to_s3_def s3_put_def Let_def hm_simps split: option.splits sum.splits)
  then show "st_index s' = st_index s" "st_superseded s' = st_superseded s"
    "\<And>q. q \<noteq> src \<Longrightarrow> fs_data (st_fs s') q = fs_data (st_fs s) q"
    "r = Inr key \<Longrightarrow> fs_data (st_fs s') src = None"
    by blast+
qed

section \<open>Publication keeps the store consistent\<close>

definition content_ok ::
  "(string \<Rightarrow> file_metadata \<Rightarrow> bytes \<Rightarrow> bool) \<Rightarrow> u64 \<Rightarrow> blob_publication \<Rightarrow> store \<Rightarrow> path \<Rightarrow> bool" where
  "content_ok Q now p s src \<longleftrightarrow>
     (\<forall>d loc. fs_data (st_fs s) src = Some d \<longrightarrow> Q (bp_sha256 p) (publication_metadata now p loc) d)"

lemma located_local_ne:
  "located c Q f k m \<Longrightarrow> layout_ok c \<Longrightarrow> md_origin m \<noteq> orig \<Longrightarrow>
     md_location m \<noteq> Local (root_of c orig @ tail)"
  by (auto simp: located_def dest: roots_inj)

lemma located_not_temp:
  "located c Q f k m \<Longrightarrow> layout_ok c \<Longrightarrow> is_temp_path c q \<Longrightarrow> md_location m \<noteq> Local q"
  using located_blob_path temp_not_blob by blast

lemma located_same:
  "located c Q (st_fs s) k m \<Longrightarrow>
     (\<And>q. md_location m = Local q \<Longrightarrow> fs_data (st_fs s') q = fs_data (st_fs s) q) \<Longrightarrow>
     located c Q (st_fs s') k m"
  by (auto simp: located_def split: file_location.splits)

lemma publish_new_local:
  assumes lay: "layout_ok c" and tmp: "is_temp_path c src" and inv: "store_inv c Q s"
    and path: "completed_path c (bp_origin p) (bp_sha256 p) (bp_extension p) (bp_expiration p) = Some dst"
    and old: "\<And>m. index_get (st_index s) (bp_sha256 p) = Some m \<Longrightarrow> bp_origin p = Upload \<and> md_origin m = UpstreamCache"
    and content: "content_ok Q (now_secs (host e)) p s src"
    and move: "move_into_place (host e) src dst s = (Inr u, s1)"
    and pub: "publish_metadata e (bp_sha256 p) (publication_metadata (now_secs (host e)) p (Local dst)) s1 = (r, s')"
  shows "store_inv c Q s'" "frame c (bp_sha256 p) s s'" "fs_data (st_fs s') src = None"
    "r = Inr \<lparr>sb_metadata = publication_metadata (now_secs (host e)) p (Local dst), sb_created = True\<rparr>"
    "index_get (st_index s') = (index_get (st_index s))(bp_sha256 p \<mapsto> publication_metadata (now_secs (host e)) p (Local dst))"
    "st_changes_pending s'"
proof -
  let ?k = "bp_sha256 p" and ?m = "publication_metadata (now_secs (host e)) p (Local dst)"
  note cp = completed_path_blob [OF path]
  have dst: "blob_path c dst ?k" using cp by (auto simp: blob_path_def)
  have ne: "src \<noteq> dst" using temp_not_blob [OF lay tmp] dst by blast
  note mv = move_into_place_spec [OF move ne]
  have ixinv: "index_inv (st_index s1)" using inv mv(1) by (simp add: store_inv_def)
  have fresh: "md_origin ?m = UpstreamCache \<longrightarrow> index_get (st_index s1) ?k = None"
    using old mv(1) by (cases "index_get (st_index s) ?k") (auto simp: publication_metadata_def)
  note pm = publish_metadata_spec [OF ixinv fresh pub]
  obtain tail where tail: "dst = root_of c (bp_origin p) @ tail" "tail \<noteq> []" using cp(2) by blast
  have notold: "md_location m \<noteq> Local dst" "md_location m \<noteq> Local src"
    if "index_get (st_index s1) ?k = Some m" for m
  proof -
    have loc: "located c Q (st_fs s) ?k m" and "md_origin m \<noteq> bp_origin p"
      using that inv old mv(1) by (auto simp: store_inv_def)
    then show "md_location m \<noteq> Local dst" "md_location m \<noteq> Local src"
      using located_local_ne [OF loc lay] located_not_temp [OF loc lay tmp] tail by auto
  qed
  obtain d where d: "fs_data (st_fs s) src = Some d" "fs_data (st_fs s1) dst = Some d"
    using mv(4) by blast
  have d': "fs_data (st_fs s') dst = Some d" using pm(5) [of dst] notold(1) d(2) by metis
  show r: "r = Inr \<lparr>sb_metadata = ?m, sb_created = True\<rparr>" by (rule pm(1))
  show get: "index_get (st_index s') = (index_get (st_index s))(?k \<mapsto> ?m)" using pm(2) mv(1) by simp
  show "st_changes_pending s'" by (rule pm(4))
  show "fs_data (st_fs s') src = None" using pm(5) [of src] notold(2) mv(4) by metis
  show fr: "frame c ?k s s'"
    unfolding frame_def
  proof (intro allI impI)
    fix q k
    assume q: "blob_path c q k" "k \<noteq> ?k"
    have notq: "md_location m \<noteq> Local q" if m: "index_get (st_index s1) ?k = Some m" for m
    proof
      assume l: "md_location m = Local q"
      have "located c Q (st_fs s) ?k m" using inv m mv(1) by (simp add: store_inv_def)
      from located_blob_path [OF this l] q blob_path_hash show False by blast
    qed
    have "fs_data (st_fs s') q = fs_data (st_fs s1) q" by (rule pm(5), erule notq)
    moreover have "q \<noteq> src" "q \<noteq> dst"
      using q temp_not_blob [OF lay tmp] blob_path_hash [OF dst] by blast+
    ultimately show "fs_data (st_fs s') q = fs_data (st_fs s) q" using mv(3) by simp
  qed
  have "located c Q (st_fs s') ?k ?m"
    using cp(3) tail d' content d(1)
    by (auto simp: located_def publication_metadata_def content_ok_def)
  then show "store_inv c Q s'"
    by (intro store_inv_step [OF inv pm(3) _ _ fr]) (auto simp: get)
qed

lemma publish_new_s3:
  assumes lay: "layout_ok c" and tmp: "is_temp_path c src" and inv: "store_inv c Q s"
    and orig: "bp_origin p = Upload"
    and put: "publish_to_s3 e src p s = (Inr key, s1)"
    and pub: "publish_metadata e (bp_sha256 p) (publication_metadata (now_secs (host e)) p (S3 key)) s1 = (r, s')"
  shows "store_inv c Q s'" "frame c (bp_sha256 p) s s'" "fs_data (st_fs s') src = None"
    "r = Inr \<lparr>sb_metadata = publication_metadata (now_secs (host e)) p (S3 key), sb_created = True\<rparr>"
    "index_get (st_index s') = (index_get (st_index s))(bp_sha256 p \<mapsto> publication_metadata (now_secs (host e)) p (S3 key))"
    "st_changes_pending s'"
proof -
  let ?k = "bp_sha256 p" and ?m = "publication_metadata (now_secs (host e)) p (S3 key)"
  note ps = publish_to_s3_spec [OF put]
  have ixinv: "index_inv (st_index s1)" using inv ps(1) by (simp add: store_inv_def)
  have fresh: "md_origin ?m = UpstreamCache \<longrightarrow> index_get (st_index s1) ?k = None"
    using orig by (simp add: publication_metadata_def)
  note pm = publish_metadata_spec [OF ixinv fresh pub]
  have loc: "located c Q (st_fs s) ?k m" if "index_get (st_index s1) ?k = Some m" for m
    using that inv ps(1) by (simp add: store_inv_def)
  show r: "r = Inr \<lparr>sb_metadata = ?m, sb_created = True\<rparr>" by (rule pm(1))
  show get: "index_get (st_index s') = (index_get (st_index s))(?k \<mapsto> ?m)" using pm(2) ps(1) by simp
  show "st_changes_pending s'" by (rule pm(4))
  have "fs_data (st_fs s') src = fs_data (st_fs s1) src"
    by (rule pm(5), rule located_not_temp [OF _ lay tmp], erule loc)
  then show "fs_data (st_fs s') src = None" using ps(4) by simp
  show fr: "frame c ?k s s'"
    unfolding frame_def
  proof (intro allI impI)
    fix q k
    assume q: "blob_path c q k" "k \<noteq> ?k"
    have notq: "md_location m \<noteq> Local q" if m: "index_get (st_index s1) ?k = Some m" for m
      using located_blob_path [OF loc [OF m], of q] q blob_path_hash [of c q k ?k] by blast
    have "fs_data (st_fs s') q = fs_data (st_fs s1) q" by (rule pm(5), erule notq)
    moreover have "q \<noteq> src" using q temp_not_blob [OF lay tmp] by blast
    ultimately show "fs_data (st_fs s') q = fs_data (st_fs s) q" using ps(3) by simp
  qed
  have "located c Q (st_fs s') ?k ?m" by (simp add: located_def publication_metadata_def)
  then show "store_inv c Q s'"
    by (intro store_inv_step [OF inv pm(3) _ _ fr]) (auto simp: get)
qed

lemma move_into_place_dirs:
  assumes "move_into_place h src dst s = (r, s')"
  shows "set (fs_dirs (st_fs s')) \<subseteq> set (fs_dirs (st_fs s)) \<union> {q. \<exists>t. butlast dst = q @ t}"
proof -
  obtain r1 s1 where c1: "create_parent_dirs h dst s = (r1, s1)" by (cases "create_parent_dirs h dst s")
  have d1: "set (fs_dirs (st_fs s1)) \<subseteq> set (fs_dirs (st_fs s)) \<union> {q. \<exists>t. butlast dst = q @ t}"
  proof (cases "dst = []")
    case True
    with c1 show ?thesis by (auto simp: create_parent_dirs_def)
  next
    case False
    obtain r0 f0 where f0: "fs_create_dir_all h (butlast dst) (st_fs s) = (r0, f0)"
      by (cases "fs_create_dir_all h (butlast dst) (st_fs s)")
    then have "st_fs s1 = f0"
      using c1 False by (cases r0) (auto simp: create_parent_dirs_def on_fs_def)
    with create_dir_dirs [OF f0] show ?thesis by simp
  qed
  have rm: "fs_dirs (st_fs t) = fs_dirs (st_fs s1)" if "remove_local_file h dst s1 = (x, t)" for x t
    using remove_local_effect(6) [OF that] .
  have rn: "fs_dirs f' = fs_dirs f" if "fs_rename h src dst f = (x, f')" for f x f'
    using that by (auto simp: fs_rename_def split: option.splits if_splits)
  have "fs_dirs (st_fs s') = fs_dirs (st_fs s1)"
    using assms c1
    by (auto simp: move_into_place_def on_fs_def bind_st_def err_st_def dest!: rm rn
        split: prod.splits sum.splits if_splits)
  with d1 show ?thesis by simp
qed

lemma temp_not_parent:
  assumes "layout_ok c" "is_temp_path c src" "dst = root_of c orig @ tail"
  shows "butlast dst \<noteq> src @ t"
proof
  assume eq: "butlast dst = src @ t"
  obtain r where r: "storage c = storage_layout_new r" using assms(1) by (auto simp: layout_ok_def)
  obtain x xs where src: "src = r @ ''temp'' # x # xs"
    using assms(2) r by (auto simp: is_temp_path_def storage_layout_new_def)
  have "dst = butlast dst @ [last dst] \<or> dst = []" by (cases dst rule: rev_cases) auto
  with eq src have "\<exists>ys. dst = r @ ''temp'' # ys \<or> dst = []" by auto
  then show False
    using assms(3) r by (cases orig) (auto simp: root_of_def storage_layout_new_def)
qed

lemma store_inv_same:
  assumes inv: "store_inv c Q s" and ix: "st_index s' = st_index s"
    and same: "\<And>k m q. index_get (st_index s) k = Some m \<Longrightarrow> md_location m = Local q \<Longrightarrow>
        fs_data (st_fs s') q = fs_data (st_fs s) q"
  shows "store_inv c Q s'"
  using inv ix located_same [of c Q s _ _ s'] same by (auto simp: store_inv_def)

lemma drop_temp_inv:
  assumes lay: "layout_ok c" and tmp: "is_temp_path c src" and inv: "store_inv c Q s"
  shows "store_inv c Q (drop_temp h src s)" "frame c k s (drop_temp h src s)"
proof -
  show "store_inv c Q (drop_temp h src s)"
  proof (rule store_inv_same [OF inv drop_temp_effect(1)], rule drop_temp_effect(5))
    fix k m q
    assume "index_get (st_index s) k = Some m" "md_location m = Local q"
    moreover from this have loc: "located c Q (st_fs s) k m" using inv by (simp add: store_inv_def)
    ultimately show "q \<noteq> src"
      using located_not_temp [OF loc lay tmp] by blast
  qed
  show "frame c k s (drop_temp h src s)"
    using drop_temp_effect(5) temp_not_blob [OF lay tmp] by (metis frame_def)
qed

text \<open>A failed move or S3 upload: nothing indexed has changed, and the temporary file is dropped.\<close>

lemma failed_publication:
  assumes lay: "layout_ok c" and tmp: "is_temp_path c src" and inv: "store_inv c Q s"
    and ix: "st_index s1 = st_index s"
    and dst: "\<And>q. q \<noteq> src \<Longrightarrow> (\<forall>d. dst = Some d \<longrightarrow> q \<noteq> d) \<Longrightarrow> fs_data (st_fs s1) q = fs_data (st_fs s) q"
    and owner: "\<And>d. dst = Some d \<Longrightarrow> blob_path c d sha"
    and free: "\<And>d m. dst = Some d \<Longrightarrow> index_get (st_index s) sha = Some m \<Longrightarrow> md_location m \<noteq> Local d"
  shows "store_inv c Q (drop_temp h src s1) \<and> frame c sha s (drop_temp h src s1) \<and>
     st_index (drop_temp h src s1) = st_index s"
proof -
  have inv1: "store_inv c Q s1"
  proof (rule store_inv_same [OF inv ix], rule dst)
    fix k m q
    assume m: "index_get (st_index s) k = Some m" "md_location m = Local q"
    then have loc: "located c Q (st_fs s) k m" using inv by (simp add: store_inv_def)
    show "q \<noteq> src" using located_not_temp [OF loc lay tmp] m by blast
    show "\<forall>d. dst = Some d \<longrightarrow> q \<noteq> d"
      using located_blob_path [OF loc m(2)] owner free m blob_path_hash by metis
  qed
  have "frame c sha s s1"
    unfolding frame_def
    using dst owner blob_path_hash temp_not_blob [OF lay tmp] by metis
  with drop_temp_inv [OF lay tmp inv1] show ?thesis
    using frame_trans ix by (metis drop_temp_effect(1))
qed

lemma publish_blob_cases:
  assumes res: "publish_blob c e src p s = (r, s')"
  obtains (refused) err where "r = Inl err" "s' = drop_temp (host e) src s"
  | (kept) ex where "index_get (st_index s) (bp_sha256 p) = Some ex" "is_valid_hash (bp_sha256 p)"
      "r = Inr \<lparr>sb_metadata = ex, sb_created = False\<rparr>" "s' = drop_temp (host e) src s"
  | (new) "is_valid_hash (bp_sha256 p)" "publish_new c e src p s = (r, s')"
      "\<And>m. index_get (st_index s) (bp_sha256 p) = Some m \<Longrightarrow> bp_origin p = Upload \<and> md_origin m = UpstreamCache"
proof (cases "and_then (validate_sha256_format (bp_sha256 p)) (\<lambda>_. ensure_not_quarantined c (host e) s (bp_sha256 p))")
  case (Inl err)
  with res have "(r, s') = (Inl err, drop_temp (host e) src s)" by (simp add: publish_blob_def)
  with refused show thesis by simp
next
  case (Inr u)
  then have v: "is_valid_hash (bp_sha256 p)" by (auto simp: and_then_Inr_iff)
  have pb: "(r, s') = (case index_get (st_index s) (bp_sha256 p) of
      Some ex \<Rightarrow> if bp_origin p = UpstreamCache \<or> md_origin ex = Upload
        then (Inr \<lparr>sb_metadata = ex, sb_created = False\<rparr>, drop_temp (host e) src s)
        else publish_new c e src p s
    | None \<Rightarrow> publish_new c e src p s)"
    unfolding res [symmetric] publish_blob_def Inr by simp
  show thesis
  proof (cases "\<exists>ex. index_get (st_index s) (bp_sha256 p) = Some ex \<and> (bp_origin p = UpstreamCache \<or> md_origin ex = Upload)")
    case True
    then obtain ex where "index_get (st_index s) (bp_sha256 p) = Some ex"
      "bp_origin p = UpstreamCache \<or> md_origin ex = Upload" by blast
    with pb v kept show thesis by simp
  next
    case False
    have "bp_origin p = Upload \<and> md_origin m = UpstreamCache" if "index_get (st_index s) (bp_sha256 p) = Some m" for m
      using False that by (cases "bp_origin p"; cases "md_origin m") auto
    moreover have "publish_new c e src p s = (r, s')"
      using pb False by (cases "index_get (st_index s) (bp_sha256 p)") simp_all
    ultimately show thesis using new v by blast
  qed
qed

lemma failed_move:
  assumes lay: "layout_ok c" and tmp: "is_temp_path c src" and inv: "store_inv c Q s"
    and dst: "completed_path c (bp_origin p) (bp_sha256 p) (bp_extension p) (bp_expiration p) = Some dst"
    and other: "\<And>m. index_get (st_index s) (bp_sha256 p) = Some m \<Longrightarrow> bp_origin p = Upload \<and> md_origin m = UpstreamCache"
    and mv: "move_into_place (host e) src dst s = (r1, s1)"
  shows "store_inv c Q (drop_temp (host e) src s1) \<and> frame c (bp_sha256 p) s (drop_temp (host e) src s1) \<and>
    st_index (drop_temp (host e) src s1) = st_index s"
    "src \<notin> set (fs_dirs (st_fs s)) \<Longrightarrow> src \<notin> set (fs_dirs (st_fs s1))"
proof -
  let ?k = "bp_sha256 p"
  note cp = completed_path_blob [OF dst]
  have bp: "blob_path c dst ?k" using cp by (auto simp: blob_path_def)
  obtain tail where tail: "dst = root_of c (bp_origin p) @ tail" using cp(2) by blast
  have ne: "src \<noteq> dst" using temp_not_blob [OF lay tmp] bp by blast
  note ps = move_into_place_spec [OF mv ne]
  have free: "md_location m \<noteq> Local dst" if m: "index_get (st_index s) ?k = Some m" for m
  proof -
    have "located c Q (st_fs s) ?k m" using inv m by (simp add: store_inv_def)
    from located_local_ne [OF this lay] other [OF m] tail show ?thesis by auto
  qed
  show "src \<notin> set (fs_dirs (st_fs s)) \<Longrightarrow> src \<notin> set (fs_dirs (st_fs s1))"
    using move_into_place_dirs [OF mv] temp_not_parent [OF lay tmp tail] by blast
  show "store_inv c Q (drop_temp (host e) src s1) \<and> frame c ?k s (drop_temp (host e) src s1) \<and>
      st_index (drop_temp (host e) src s1) = st_index s"
  proof (rule failed_publication [OF lay tmp inv ps(1), of "Some dst"])
    show "fs_data (st_fs s1) q = fs_data (st_fs s) q" if "q \<noteq> src" "\<forall>d. Some dst = Some d \<longrightarrow> q \<noteq> d" for q
      using ps(3) [of q] that by simp
    show "blob_path c d ?k" if "Some dst = Some d" for d using that bp by simp
    show "md_location m \<noteq> Local d" if "Some dst = Some d" "index_get (st_index s) ?k = Some m" for d m
      using that free by simp
  qed
qed

lemma publish_blob_spec:
  assumes lay: "layout_ok c" and tmp: "is_temp_path c src" and inv: "store_inv c Q s"
    and content: "content_ok Q (now_secs (host e)) p s src"
    and res: "publish_blob c e src p s = (r, s')"
  shows "store_inv c Q s' \<and> frame c (bp_sha256 p) s s' \<and>
    (\<forall>b. r = Inr b \<longrightarrow> is_valid_hash (bp_sha256 p) \<and>
       index_get (st_index s') = (index_get (st_index s))(bp_sha256 p \<mapsto> sb_metadata b) \<and>
       (\<not> sb_created b \<longrightarrow> st_index s' = st_index s)) \<and>
    (\<forall>err. r = Inl err \<longrightarrow> st_index s' = st_index s) \<and>
    (io_fault (host e) Io_Remove src = None \<longrightarrow> src \<notin> set (fs_dirs (st_fs s)) \<longrightarrow>
       fs_data (st_fs s') src = None)"
proof -
  let ?k = "bp_sha256 p"
  from res show ?thesis
  proof (cases rule: publish_blob_cases)
    case refused
    with drop_temp_inv [OF lay tmp inv] drop_temp_gone show ?thesis by (simp add: drop_temp_effect(1))
  next
    case kept
    with drop_temp_inv [OF lay tmp inv] drop_temp_gone show ?thesis
      by (simp add: drop_temp_effect(1) fun_upd_idem)
  next
    case new
    show ?thesis
    proof (cases "bp_origin p = Upload \<and> st_s3 s \<noteq> None")
      case True
      obtain r1 s1 where put: "publish_to_s3 e src p s = (r1, s1)" by (cases "publish_to_s3 e src p s")
      show ?thesis
      proof (cases r1)
        case (Inl err)
        note ps = publish_to_s3_spec [OF put]
        have rs: "r = Inl err" "s' = drop_temp (host e) src s1"
          using new(2) True put Inl by (simp_all add: publish_new_def)
        have "st_index s1 = st_index s" "fs_dirs (st_fs s1) = fs_dirs (st_fs s)"
          using ps(1) publish_to_s3_dirs [OF put] by simp_all
        then show ?thesis
          using rs failed_publication [OF lay tmp inv ps(1), of None ?k "host e"] ps(3)
            drop_temp_gone [of "host e" src s1] by simp
      next
        case (Inr key)
        with new(2) True put have pub: "publish_metadata e ?k (publication_metadata (now_secs (host e)) p (S3 key)) s1 = (r, s')"
          by (simp add: publish_new_def)
        note ns = publish_new_s3 [OF lay tmp inv conjunct1 [OF True] put [unfolded Inr] pub]
        then show ?thesis using new(1) by simp
      qed
    next
      case False
      obtain dst where dst: "completed_path c (bp_origin p) ?k (bp_extension p) (bp_expiration p) = Some dst"
        using completed_path_valid [OF new(1)] by blast
      obtain r1 s1 where mv: "move_into_place (host e) src dst s = (r1, s1)" by (cases "move_into_place (host e) src dst s")
      show ?thesis
      proof (cases r1)
        case (Inl err)
        have rs: "r = Inl err" "s' = drop_temp (host e) src s1"
          using new(2) False dst mv Inl by (auto simp: publish_new_def)
        show ?thesis using rs failed_move [OF lay tmp inv dst new(3) mv] drop_temp_gone [of "host e" src s1] by simp
      next
        case (Inr u)
        with new(2) False dst mv
        have pub: "publish_metadata e ?k (publication_metadata (now_secs (host e)) p (Local dst)) s1 = (r, s')"
          by (auto simp: publish_new_def)
        note ns = publish_new_local [OF lay tmp inv dst new(3) content mv [unfolded Inr] pub]
        then show ?thesis using new(1) by simp
      qed
    qed
  qed
qed

end
