(* ===== verification/StorageProps.thy ===== *)
theory StorageProps
  imports Storage
begin

text \<open>
  What the storage layer guarantees: removal touches one hash only, quarantine keeps the bytes and
  blocks the hash, the admission check respects every configured limit, and each publication is
  all-or-nothing for the catalogue. \<open>store_inv c Q\<close> carries the content predicate \<open>Q\<close>.
\<close>

section \<open>Removal\<close>

lemma quarantine_effect:
  assumes res: "quarantine_current c e sha m s = (r, s')" and loc: "md_location m = Local p"
    and ne: "p \<noteq> quarantine (storage c) @ [last p]" and p: "p \<noteq> []"
  shows "st_index s' = st_index s"
    "\<And>q. q \<noteq> p \<Longrightarrow> q \<noteq> quarantine (storage c) @ [last p] \<Longrightarrow> fs_data (st_fs s') q = fs_data (st_fs s) q"
    "r = Inr u \<Longrightarrow> fs_data (st_fs s') p = None \<and>
       fs_data (st_fs s') (quarantine (storage c) @ [last p]) = fs_data (st_fs s) p \<and>
       fs_data (st_fs s) p \<noteq> None \<and> quarantine (storage c) \<in> set (fs_dirs (st_fs s'))"
proof -
  let ?q = "quarantine (storage c)"
  obtain r1 f1 where mk: "fs_create_dir_all (host e) ?q (st_fs s) = (r1, f1)"
    by (cases "fs_create_dir_all (host e) ?q (st_fs s)")
  obtain r2 f2 where mv: "fs_rename (host e) p (?q @ [last p]) f1 = (r2, f2)"
    by (cases "fs_rename (host e) p (?q @ [last p]) f1")
  have files: "fs_files f1 = fs_files (st_fs s)" using create_dir_keeps [OF mk] .
  have dirs: "fs_dirs f2 = fs_dirs f1"
    using mv by (auto simp: fs_rename_def split: option.splits if_splits)
  have "st_index s' = st_index s \<and>
    (\<forall>q. q \<noteq> p \<longrightarrow> q \<noteq> ?q @ [last p] \<longrightarrow> fs_data (st_fs s') q = fs_data (st_fs s) q) \<and>
    (\<forall>u. r = Inr u \<longrightarrow> fs_data (st_fs s') p = None \<and>
       fs_data (st_fs s') (?q @ [last p]) = fs_data (st_fs s) p \<and>
       fs_data (st_fs s) p \<noteq> None \<and> ?q \<in> set (fs_dirs (st_fs s')))"
  proof (cases r1)
    case (Inl err)
    with res loc mk files show ?thesis
      by (auto simp: quarantine_current_def on_fs_def Let_def)
  next
    case (Inr v)
    have s': "st_index s' = st_index s" "st_fs s' = f2" "r = Inr u \<Longrightarrow> r2 = Inr ()" for u
      using res loc mk mv Inr p by (cases r2; auto simp: quarantine_current_def on_fs_def Let_def)+
    have q: "?q \<in> set (fs_dirs f1)" using create_dir_ok mk Inr by blast
    show ?thesis
      using rename_cases [OF mv] s' files q dirs ne
      by (elim disjE exE conjE) (auto simp: hm_simps)
  qed
  then show "st_index s' = st_index s"
    "\<And>q. q \<noteq> p \<Longrightarrow> q \<noteq> ?q @ [last p] \<Longrightarrow> fs_data (st_fs s') q = fs_data (st_fs s) q"
    "r = Inr u \<Longrightarrow> fs_data (st_fs s') p = None \<and>
       fs_data (st_fs s') (?q @ [last p]) = fs_data (st_fs s) p \<and>
       fs_data (st_fs s) p \<noteq> None \<and> ?q \<in> set (fs_dirs (st_fs s'))"
    by blast+
qed

text \<open>The disposal step of a removal, whatever its reason.\<close>

definition dispose ::
  "app_config \<Rightarrow> storage_env \<Rightarrow> string \<Rightarrow> removal \<Rightarrow> file_metadata \<Rightarrow> store \<Rightarrow> unit app_result \<times> store" where
  "dispose c e sha removal m s =
     (if removal = Quarantined then quarantine_current c e sha m s else remove_physical_file e m s)"

text \<open>\<open>placed\<close>: a catalogued local path is one of its hash below a served root, whether or not the file is there.\<close>

definition placed :: "app_config \<Rightarrow> string \<Rightarrow> file_metadata \<Rightarrow> bool" where
  "placed c k m \<longleftrightarrow> (case md_location m of S3 _ \<Rightarrow> True | Local p \<Rightarrow> p \<noteq> [] \<and> blob_path c p k)"

lemma located_placed: "located c Q f k m \<Longrightarrow> placed c k m"
  using located_blob_path by (fastforce simp: placed_def located_def split: file_location.splits)

lemma placed_blob_path: "placed c k m \<Longrightarrow> md_location m = Local p \<Longrightarrow> blob_path c p k"
  by (simp add: placed_def)

lemma dispose_effect:
  assumes lay: "layout_ok c" and loc: "placed c sha m"
    and res: "dispose c e sha removal m s = (r, s')"
  shows "st_index s' = st_index s" "frame c sha s s'"
proof -
  have "st_index s' = st_index s \<and> frame c sha s s'"
  proof (cases "removal = Quarantined")
    case False
    with res have rp: "remove_physical_file e m s = (r, s')" by (simp add: dispose_def)
    note eff = remove_physical_effect [OF rp]
    have "frame c sha s s'"
      unfolding frame_def
    proof (intro allI impI)
      fix q k
      assume q: "blob_path c q k" "k \<noteq> sha"
      have "md_location m \<noteq> Local q"
        using placed_blob_path [OF loc] q blob_path_hash by blast
      then show "fs_data (st_fs s') q = fs_data (st_fs s) q" by (rule eff(3))
    qed
    with eff show ?thesis by simp
  next
    case True
    with res have qc: "quarantine_current c e sha m s = (r, s')" by (simp add: dispose_def)
    show ?thesis
    proof (cases "md_location m")
      case (S3 key)
      with qc have "sweep_backend_copies e sha s = (r, s')" by (simp add: quarantine_current_def)
      from sweep_effect [OF this] show ?thesis by (simp add: frame_files)
    next
      case (Local p)
      have bp: "blob_path c p sha" using placed_blob_path [OF loc Local] .
      have ne: "p \<noteq> quarantine (storage c) @ [last p]" "p \<noteq> []"
        using quarantine_not_blob [OF lay] bp loc Local by (metis, auto simp: placed_def)
      note eff = quarantine_effect [OF qc Local ne]
      have "frame c sha s s'"
        unfolding frame_def
        using eff(2) bp blob_path_hash quarantine_not_blob [OF lay] by metis
      with eff show ?thesis by simp
    qed
  qed
  then show "st_index s' = st_index s" "frame c sha s s'" by blast+
qed

lemma remove_indexed_alt:
  "index_get (st_index s) sha = Some m \<Longrightarrow> \<not> stale_candidate m expected \<Longrightarrow>
   remove_indexed_blob c e sha removal expected s =
     bind_st (dispose c e sha removal m s) (\<lambda>_ s1.
     bind_st (if sweeps_backend removal then sweep_backend_copies e sha s1 else (Inr (), s1)) (\<lambda>_ s2.
       let (ix, removed) = index_remove_if_location_matches sha (md_location m) (st_index s2);
           s3 = s2\<lparr>st_index := ix\<rparr>
       in (Inr removed, if removed then mark_changes_pending s3 else s3)))"
  by (simp add: remove_indexed_blob_def dispose_def)

lemma remove_if_matching:
  assumes "index_get ix sha = Some m"
  shows "index_remove_if_location_matches sha (md_location m) ix = (fst (entries_remove sha ix), True)"
  using assms by (simp add: index_remove_if_location_matches_def index_get_def)

lemma remove_indexed_spec:
  assumes lay: "layout_ok c" and inv: "store_inv c Q s"
    and res: "remove_indexed_blob c e sha removal expected s = (Inr removed, s')"
  shows "store_inv c Q s'" "frame c sha s s'"
    "removed \<longleftrightarrow> (\<exists>m. index_get (st_index s) sha = Some m \<and> \<not> stale_candidate m expected)"
    "index_get (st_index s') = (if removed then (index_get (st_index s))(sha := None) else index_get (st_index s))"
proof -
  have "store_inv c Q s' \<and> frame c sha s s' \<and>
    (removed \<longleftrightarrow> (\<exists>m. index_get (st_index s) sha = Some m \<and> \<not> stale_candidate m expected)) \<and>
    index_get (st_index s') = (if removed then (index_get (st_index s))(sha := None) else index_get (st_index s))"
  proof (cases "\<exists>m. index_get (st_index s) sha = Some m \<and> \<not> stale_candidate m expected")
    case False
    have "\<not> removed \<and> st_index s' = st_index s \<and> st_fs s' = st_fs s"
      using res False sweep_effect [of e sha s]
      by (cases "index_get (st_index s) sha")
        (auto simp: remove_indexed_blob_def bind_st_Inr_iff split: if_splits)
    then show ?thesis
      using False inv by (auto simp: frame_files store_inv_def)
  next
    case True
    then obtain m where m: "index_get (st_index s) sha = Some m" "\<not> stale_candidate m expected" by blast
    have loc: "located c Q (st_fs s) sha m" using inv m by (simp add: store_inv_def)
    obtain s1 s2 where d: "dispose c e sha removal m s = (Inr (), s1)"
      and sw: "(if sweeps_backend removal then sweep_backend_copies e sha s1 else (Inr (), s1)) = (Inr (), s2)"
      and s': "(let (ix, removed) = index_remove_if_location_matches sha (md_location m) (st_index s2);
           s3 = s2\<lparr>st_index := ix\<rparr>
       in (Inr removed, if removed then mark_changes_pending s3 else s3)) = (Inr removed :: bool app_result, s')"
      using res [unfolded remove_indexed_alt [OF m]] by (auto simp: bind_st_Inr_iff)
    note de = dispose_effect [OF lay located_placed [OF loc] d]
    have s2: "st_index s2 = st_index s" "st_fs s2 = st_fs s1"
      using sw sweep_effect [of e sha s1] de by (auto split: if_splits)
    have "index_get (st_index s2) sha = Some m" using s2 m by simp
    from s' [unfolded remove_if_matching [OF this]]
    have fin: "removed" "st_index s' = fst (entries_remove sha (st_index s))" "st_fs s' = st_fs s1"
      using s2 by (auto simp: mark_changes_pending_def)
    have fr: "frame c sha s s'" using de(2) fin(3) by (simp add: frame_def)
    have get: "index_get (st_index s') = (index_get (st_index s))(sha := None)"
      by (simp add: fin(2) get_remove)
    have ix: "index_inv (st_index s')"
      using inv unfolding fin(2) by (auto simp: store_inv_def)
    have "store_inv c Q s'"
      by (rule store_inv_step [OF inv ix _ _ fr]) (simp_all add: get)
    with fr get fin(1) True show ?thesis by simp
  qed
  then show "store_inv c Q s'" "frame c sha s s'"
    "removed \<longleftrightarrow> (\<exists>m. index_get (st_index s) sha = Some m \<and> \<not> stale_candidate m expected)"
    "index_get (st_index s') = (if removed then (index_get (st_index s))(sha := None) else index_get (st_index s))"
    by blast+
qed

text \<open>Whatever the outcome, only the entry and the files of the hash are affected.\<close>

lemma remove_indexed_any:
  assumes lay: "layout_ok c" and pl: "\<And>m. index_get (st_index s) sha = Some m \<Longrightarrow> placed c sha m"
    and res: "remove_indexed_blob c e sha removal expected s = (r, s')"
  shows "frame c sha s s'" "k \<noteq> sha \<Longrightarrow> index_get (st_index s') k = index_get (st_index s) k"
    "index_get (st_index s') sha = None \<or> index_get (st_index s') sha = index_get (st_index s) sha"
    "r = Inr True \<Longrightarrow> index_get (st_index s') sha = None"
    "r \<noteq> Inr True \<Longrightarrow> st_index s' = st_index s"
proof -
  have "frame c sha s s' \<and>
    (if r = Inr True then st_index s' = fst (entries_remove sha (st_index s)) else st_index s' = st_index s)"
  proof (cases "\<exists>m. index_get (st_index s) sha = Some m \<and> \<not> stale_candidate m expected")
    case False
    have "st_index s' = st_index s \<and> st_fs s' = st_fs s \<and> r \<noteq> Inr True"
      using res False sweep_effect [of e sha s]
      by (cases "index_get (st_index s) sha")
        (auto simp: remove_indexed_blob_def bind_st_def split: if_splits prod.splits sum.splits)
    then show ?thesis by (simp add: frame_files)
  next
    case True
    then obtain m where m: "index_get (st_index s) sha = Some m" "\<not> stale_candidate m expected" by blast
    obtain r1 s1 where d: "dispose c e sha removal m s = (r1, s1)" by fastforce
    note de = dispose_effect [OF lay pl [OF m(1)] d]
    obtain r2 s2 where sw: "(if sweeps_backend removal then sweep_backend_copies e sha s1 else (Inr (), s1)) = (r2, s2)" by fastforce
    then have s2: "st_index s2 = st_index s1" "st_fs s2 = st_fs s1"
      using sweep_effect [of e sha s1] by (auto split: if_splits)
    have "index_get (st_index s2) sha = Some m" using s2 de(1) m by simp
    note rm = remove_if_matching [OF this]
    show ?thesis
      using res [unfolded remove_indexed_alt [OF m] d] sw rm de s2
      by (cases r1; cases r2) (auto simp: frame_def mark_changes_pending_def)
  qed
  then show "frame c sha s s'" "k \<noteq> sha \<Longrightarrow> index_get (st_index s') k = index_get (st_index s) k"
    "index_get (st_index s') sha = None \<or> index_get (st_index s') sha = index_get (st_index s) sha"
    "r = Inr True \<Longrightarrow> index_get (st_index s') sha = None"
    "r \<noteq> Inr True \<Longrightarrow> st_index s' = st_index s"
    by (auto simp: get_remove split: if_splits)
qed

section \<open>Quarantined names\<close>

lemma parse_rest_cases: "parse_rest r = Some x \<Longrightarrow> r = [] \<or> starts_with ''_'' r \<or> starts_with ''.'' r"
  by (auto simp: parse_rest_def str_simps split: if_splits option.splits)

lemma quarantined_name:
  assumes "extract_sha256_from_filename n = Some sha"
  shows "is_valid_hash sha" "quarantine_name_matches sha n"
proof -
  obtain pn where pn: "parse_name n = Some pn" "pn_hash pn = sha"
    using assms by (auto simp: extract_sha256_from_filename_def)
  then show v: "is_valid_hash sha" using parse_name_hash by blast
  have n: "n = sha @ drop 64 n" using parse_name_hash [OF pn(1)] pn(2) by (metis append_take_drop_id)
  have "parse_name (sha @ drop 64 n) = Some pn" using pn(1) n by simp
  then have "\<exists>x. parse_rest (drop 64 n) = Some x" by (auto simp: parse_name_append [OF v])
  then have "drop 64 n = [] \<or> starts_with ''_'' (drop 64 n) \<or> starts_with ''.'' (drop 64 n)"
    using parse_rest_cases by blast
  moreover have "strip_prefix sha n = Some (drop 64 n)" using n by (metis strip_prefix_append)
  ultimately show "quarantine_name_matches sha n" by (simp add: quarantine_name_matches_def)
qed

lemma quarantined_refused:
  assumes v: "extract_sha256_from_filename x = Some sha"
    and present: "fs_data (st_fs s) (quarantine (storage c) @ [x]) \<noteq> None"
    and dir: "quarantine (storage c) \<in> set (fs_dirs (st_fs s))"
    and io: "io_fault h Io_Read_Dir (quarantine (storage c)) = None" "io_fault h Io_Stat (quarantine (storage c)) = None"
  shows "ensure_not_quarantined c h s sha = Inl (Forbidden ''Blob is quarantined and cannot be uploaded'')"
proof -
  let ?q = "quarantine (storage c)"
  obtain d where "map_of (fs_files (st_fs s)) (?q @ [x]) = Some d" using present by blast
  then have "?q @ [x] \<in> set (map fst (fs_files (st_fs s)))"
    by (metis map_of_eq_None_iff option.distinct(1) list.set_map)
  then have "x \<in> set (map last (filter (\<lambda>p. p \<noteq> [] \<and> butlast p = ?q) (map fst (fs_files (st_fs s)) @ fs_dirs (st_fs s))))"
    by (force simp: image_iff)
  then have "list_ex (quarantine_name_matches sha)
      (map last (filter (\<lambda>p. p \<noteq> [] \<and> butlast p = ?q) (map fst (fs_files (st_fs s)) @ fs_dirs (st_fs s))))"
    using quarantined_name(2) [OF v] by (auto simp: list_ex_iff)
  moreover have valid: "validate_sha256_format sha = Inr ()"
    using quarantined_name(1) [OF v] by (simp only: validate_sha256_format_iff)
  ultimately show ?thesis
    unfolding ensure_not_quarantined_def valid using dir io by (simp add: fs_read_dir_def Let_def)
qed

section \<open>A small store for the examples\<close>

definition calm_host :: host_env where
  "calm_host = \<lparr>io_fault = \<lambda>_ _. None, available_space = \<lambda>_. Inr u64_max, now_secs = 100,
     fresh_uuid = ''u'', mtime_of = \<lambda>_. 0\<rparr>"

definition calm_env :: storage_env where
  "calm_env = \<lparr>host = calm_host, s3e = ex_s3\<rparr>"

definition hash_a :: string where
  "hash_a = replicate 64 (CHR ''a'')"

definition path_a :: path where
  "path_a = [''srv'', ''uploads'', ''a'', ''a'', hash_a]"

definition md_a :: file_metadata where
  "md_a = \<lparr>md_location = Local path_a, md_extension = None, md_mime_type = None, md_size = 2,
     md_created_at = 1, md_pubkey = None, md_expiration = None, md_origin = Upload\<rparr>"

definition store_a :: store where
  "store_a = \<lparr>st_fs = \<lparr>fs_files = [(path_a, [1, 2]), ([''srv'', ''temp'', ''t''], [3])],
       fs_dirs = [[''srv'', ''temp'']]\<rparr>,
     st_index = index_insert hash_a md_a entries_default, st_s3 = None, st_superseded = [],
     st_changes_pending = False\<rparr>"

lemma hash_a_valid: "is_valid_hash hash_a"
  by (simp add: hash_a_def is_valid_hash_def is_lower_hex_def is_ascii_digit_def byte_of_def list_all_iff)

lemma extract_hash: "is_valid_hash h \<Longrightarrow> extract_sha256_from_filename h = Some h"
  using parse_name_append [of h "[]"] by (simp add: extract_sha256_from_filename_def parse_rest_def)

lemma index_get_a: "index_get (index_insert hash_a md_a entries_default) = [hash_a \<mapsto> md_a]"
  by (rule ext) (simp add: idx.get_put, simp add: index_get_def entries_default_def)

lemma layout_sample: "layout_ok sample_config"
  by (auto simp: layout_ok_def sample_config_def)

lemma store_a_inv:
  assumes "Q hash_a md_a [1, 2]"
  shows "store_inv sample_config Q store_a"
proof -
  have "index_inv (index_insert hash_a md_a entries_default)"
    by (intro idx.inv_put index_inv_default)
  moreover have "located sample_config Q (st_fs store_a) hash_a md_a"
    using assms extract_hash [OF hash_a_valid]
    by (simp add: located_def store_a_def md_a_def path_a_def root_of_def sample_config_def storage_layout_new_def)
  ultimately show ?thesis
    by (auto simp: store_inv_def store_a_def index_get_a split: if_splits)
qed

lemma removed_a: "\<exists>s'. remove_indexed_blob sample_config calm_env hash_a removal None store_a = (Inr True, s')"
proof -
  have get: "index_get (st_index store_a) hash_a = Some md_a"
    by (simp add: store_a_def index_get_a)
  have ns: "\<not> stale_candidate md_a None" by (simp add: stale_candidate_def)
  obtain s1 where d: "dispose sample_config calm_env hash_a removal md_a store_a = (Inr (), s1)"
    and same: "st_index s1 = st_index store_a" "st_s3 s1 = None"
    by (cases "removal = Quarantined")
      (auto simp: dispose_def quarantine_current_def remove_physical_file_def remove_local_file_def md_a_def
        calm_env_def calm_host_def on_fs_def fs_remove_file_def fs_rename_def fs_create_dir_all_def
        store_a_def path_a_def sample_config_def storage_layout_new_def)
  have "index_get (st_index s1) hash_a = Some md_a" using get same by simp
  note rm = remove_if_matching [OF this]
  show ?thesis
    unfolding remove_indexed_alt [OF get ns] d
    using same rm by (simp add: sweep_backend_copies_def)
qed

section \<open>Properties\<close>

definition integrity :: "(bytes \<Rightarrow> string) \<Rightarrow> string \<Rightarrow> file_metadata \<Rightarrow> bytes \<Rightarrow> bool" where
  "integrity sha k m d \<longleftrightarrow> sha d = k \<and> unat (md_size m) = length d"

text \<open>C8: Publication preserves integrity and isolation. Publishing a temporary file whose bytes hash to
  the claimed hash and have the claimed size keeps every catalogued local blob present with content
  of its hash and size, leaves the files of all other hashes alone, makes the returned metadata the
  visible entry for this hash only, and changes nothing in the catalogue when it fails; the
  temporary file is gone either way unless the unlink itself fails.\<close>
theorem publish_blob_integrity:
  assumes "layout_ok c" and "is_temp_path c src" and "store_inv c (integrity sha) s"
    and "\<And>d. fs_data (st_fs s) src = Some d \<Longrightarrow> sha d = bp_sha256 p \<and> unat (bp_size p) = length d"
    and "publish_blob c e src p s = (r, s')"
  shows "store_inv c (integrity sha) s' \<and> frame c (bp_sha256 p) s s' \<and>
     (case r of
        Inr b \<Rightarrow> index_get (st_index s') = (index_get (st_index s))(bp_sha256 p \<mapsto> sb_metadata b)
      | Inl err \<Rightarrow> st_index s' = st_index s) \<and>
     (io_fault (host e) Io_Remove src \<noteq> None \<or> src \<in> set (fs_dirs (st_fs s)) \<or>
        fs_data (st_fs s') src = None)"
proof -
  have "content_ok (integrity sha) (now_secs (host e)) p s src"
    using assms(4) by (auto simp: content_ok_def integrity_def publication_metadata_def)
  from publish_blob_spec [OF assms(1-3) this assms(5)] show ?thesis
    by (auto split: sum.splits)
qed

theorem publish_blob_integrity_witness:
  "fs_data (st_fs store_a) [''srv'', ''temp'', ''t''] = Some [3] \<and>
   store_inv sample_config (integrity (\<lambda>d. if d = [3] then replicate 64 (CHR ''b'') else hash_a))
     (snd (publish_blob sample_config calm_env [''srv'', ''temp'', ''t'']
        \<lparr>bp_sha256 = replicate 64 (CHR ''b''), bp_origin = Upload, bp_extension = None,
         bp_mime_type = None, bp_size = 1, bp_expiration = None\<rparr> store_a))"
proof -
  let ?sha = "\<lambda>d :: bytes. if d = [3] then replicate 64 (CHR ''b'') else hash_a"
  have "store_inv sample_config (integrity ?sha) store_a"
    by (rule store_a_inv) (simp add: integrity_def md_a_def)
  moreover have "is_temp_path sample_config [''srv'', ''temp'', ''t'']"
    by (simp add: is_temp_path_def sample_config_def storage_layout_new_def)
  ultimately show ?thesis
    using publish_blob_integrity [OF layout_sample _ _ _ prod.collapse [symmetric],
        of "[''srv'', ''temp'', ''t'']" ?sha store_a
          "\<lparr>bp_sha256 = replicate 64 (CHR ''b''), bp_origin = Upload, bp_extension = None,
            bp_mime_type = None, bp_size = 1, bp_expiration = None\<rparr>" calm_env]
    by (simp add: store_a_def path_a_def)
qed

text \<open>Removal affects one hash. A successful removal drops exactly the selected entry (nothing when
  it is absent or the index has moved on from the candidate), keeps every other catalogued blob and
  its file, and reports precisely whether an entry was removed.\<close>
lemma remove_indexed_blob_exact:
  assumes "layout_ok c" and "store_inv c Q s"
    and "remove_indexed_blob c e sha removal expected s = (Inr removed, s')"
  shows "store_inv c Q s' \<and> frame c sha s s' \<and>
     (removed \<longleftrightarrow> (\<exists>m. index_get (st_index s) sha = Some m \<and> \<not> stale_candidate m expected)) \<and>
     index_get (st_index s') =
       (if removed then (index_get (st_index s))(sha := None) else index_get (st_index s))"
  using remove_indexed_spec [OF assms] by blast

text \<open>The quarantine directory holds a file of a hash.\<close>

definition quarantine_holds :: "app_config \<Rightarrow> string \<Rightarrow> fs \<Rightarrow> bool" where
  "quarantine_holds c sha f \<longleftrightarrow> quarantine (storage c) \<in> set (fs_dirs f) \<and>
     (\<exists>x. extract_sha256_from_filename x = Some sha \<and> fs_data f (quarantine (storage c) @ [x]) \<noteq> None)"

lemma quarantined_publication:
  assumes "layout_ok c" and "quarantine_holds c sha (st_fs s)" and "bp_sha256 pub = sha" and "is_temp_path c src"
    and "io_fault (host e) Io_Read_Dir (quarantine (storage c)) = None"
    and "io_fault (host e) Io_Stat (quarantine (storage c)) = None"
    and "publish_blob c e src pub s = (r, s')"
  shows "r = Inl (Forbidden ''Blob is quarantined and cannot be uploaded'')" "st_index s' = st_index s"
    "quarantine_holds c sha (st_fs s')"
proof -
  obtain x where x: "extract_sha256_from_filename x = Some sha" "fs_data (st_fs s) (quarantine (storage c) @ [x]) \<noteq> None"
    "quarantine (storage c) \<in> set (fs_dirs (st_fs s))"
    using assms(2) by (auto simp: quarantine_holds_def)
  have v: "validate_sha256_format sha = Inr ()" using quarantined_name(1) [OF x(1)] by (simp only: validate_sha256_format_iff)
  have p: "r = Inl (Forbidden ''Blob is quarantined and cannot be uploaded'')" "s' = drop_temp (host e) src s"
    using assms(7) quarantined_refused [OF x assms(5,6)] by (simp_all add: publish_blob_def assms(3) v)
  then show "r = Inl (Forbidden ''Blob is quarantined and cannot be uploaded'')" "st_index s' = st_index s"
    by (simp_all add: drop_temp_effect(1))
  have "quarantine (storage c) @ [x] \<noteq> src"
    using assms(1,4) by (auto simp: is_temp_path_def layout_ok_def storage_layout_new_def)
  then have "fs_data (st_fs s') (quarantine (storage c) @ [x]) \<noteq> None" using x(2) p(2) by (simp add: drop_temp_effect(5))
  moreover have "fs_dirs (st_fs s') = fs_dirs (st_fs s)"
    unfolding p(2) by (auto simp: drop_temp_def on_fs_def fs_remove_file_def split: option.splits prod.splits)
  ultimately show "quarantine_holds c sha (st_fs s')" using x unfolding quarantine_holds_def by metis
qed

text \<open>C9: Quarantine is effective: after a locally stored blob has been quarantined its bytes sit in the
  quarantine root and the hash is no longer catalogued. From then on, in every later state, whatever
  happened in between, whose quarantine directory still holds a file of the hash and can be read, an
  attempt to publish that hash is refused, leaves the catalogue as it was, and leaves that file there, so
  that the next attempt is refused too. The check guards publications of bytes only: registering an
  object that is already in the bucket (\<open>publish_existing_metadata\<close>) does not look at the quarantine, and
  the last conjunct says that it catalogues the hash again.\<close>
theorem quarantine_blocks_republication:
  assumes "layout_ok c" and "store_inv c Q s"
    and "index_get (st_index s) sha = Some m" and "md_location m = Local p"
    and "remove_indexed_blob c e sha Quarantined None s = (Inr removed, s')"
  shows "fs_data (st_fs s') (quarantine (storage c) @ [last p]) = fs_data (st_fs s) p \<and>
     index_get (st_index s') sha = None \<and> quarantine_holds c sha (st_fs s') \<and>
     (\<forall>t e' src pub r t'. quarantine_holds c sha (st_fs t) \<longrightarrow>
        io_fault (host e') Io_Read_Dir (quarantine (storage c)) = None \<longrightarrow>
        io_fault (host e') Io_Stat (quarantine (storage c)) = None \<longrightarrow>
        bp_sha256 pub = sha \<longrightarrow> is_temp_path c src \<longrightarrow> publish_blob c e' src pub t = (r, t') \<longrightarrow>
        r = Inl (Forbidden ''Blob is quarantined and cannot be uploaded'') \<and> st_index t' = st_index t \<and>
        quarantine_holds c sha (st_fs t')) \<and>
     (\<forall>t e' mb r t'. quarantine_holds c sha (st_fs t) \<longrightarrow> index_inv (st_index t) \<longrightarrow> md_origin mb = Upload \<longrightarrow>
        publish_existing_metadata e' sha mb t = (r, t') \<longrightarrow> index_get (st_index t') sha = Some mb)"
proof -
  have ns: "\<not> stale_candidate m None" by (simp add: stale_candidate_def)
  have loc: "located c Q (st_fs s) sha m" using assms(2,3) by (simp add: store_inv_def)
  have name: "extract_sha256_from_filename (last p) = Some sha" and pne: "p \<noteq> []"
    using loc assms(4) by (auto simp: located_def)
  have bp: "blob_path c p sha" using located_blob_path [OF loc assms(4)] .
  have ne: "p \<noteq> quarantine (storage c) @ [last p]"
    using quarantine_not_blob [OF assms(1)] bp by metis
  obtain s1 where d: "quarantine_current c e sha m s = (Inr (), s1)"
    and k: "(let (ix, removed) = index_remove_if_location_matches sha (md_location m) (st_index s1);
           s3 = s1\<lparr>st_index := ix\<rparr>
       in (Inr removed, if removed then mark_changes_pending s3 else s3)) = (Inr removed :: bool app_result, s')"
    using assms(5) [unfolded remove_indexed_alt [OF assms(3) ns]]
    by (auto simp: bind_st_Inr_iff dispose_def sweeps_backend_def)
  have fs: "st_fs s' = st_fs s1"
    using k by (cases "index_remove_if_location_matches sha (md_location m) (st_index s1)")
      (auto simp: mark_changes_pending_def Let_def split: if_splits)
  note q = quarantine_effect(3) [OF d assms(4) ne pne refl]
  have bytes: "fs_data (st_fs s') (quarantine (storage c) @ [last p]) = fs_data (st_fs s) p"
    using q fs by simp
  moreover have held: "quarantine_holds c sha (st_fs s')" using q fs name unfolding quarantine_holds_def by metis
  moreover have "index_get (st_index s') sha = None"
    using remove_indexed_spec(3,4) [OF assms(1,2,5)] assms(3) ns by auto
  moreover have "index_get (st_index t') sha = Some mb"
    if ix: "index_inv (st_index t)" and up: "md_origin mb = Upload"
      and pub: "publish_existing_metadata e' sha mb t = (r, t')" for t e' mb r t'
  proof -
    obtain rp where pm: "publish_metadata e' sha mb t = (rp, t')"
      using pub by (auto simp: publish_existing_metadata_def bind_st_def split: prod.splits sum.splits)
    then show ?thesis using publish_metadata_spec(2) [OF ix _ pm] up by simp
  qed
  moreover have "r = Inl (Forbidden ''Blob is quarantined and cannot be uploaded'') \<and> st_index t' = st_index t \<and>
      quarantine_holds c sha (st_fs t')"
    if "quarantine_holds c sha (st_fs t)" "io_fault (host e') Io_Read_Dir (quarantine (storage c)) = None"
      "io_fault (host e') Io_Stat (quarantine (storage c)) = None" "bp_sha256 pub = sha" "is_temp_path c src"
      "publish_blob c e' src pub t = (r, t')" for t e' src pub r t'
    using quarantined_publication [OF assms(1) that(1,4,5,2,3,6)] by (intro conjI)
  ultimately show ?thesis by (intro conjI allI impI) blast+
qed

theorem quarantine_blocks_republication_witness:
  "\<exists>s'. remove_indexed_blob sample_config calm_env hash_a Quarantined None store_a = (Inr True, s') \<and>
     (let b = \<lparr>bp_sha256 = hash_a, bp_origin = Upload, bp_extension = None, bp_mime_type = None, bp_size = 1, bp_expiration = None\<rparr>;
          (r, t) = publish_blob sample_config calm_env [''srv'', ''temp'', ''t''] b s'
      in r = Inl (Forbidden ''Blob is quarantined and cannot be uploaded'') \<and>
         fst (publish_blob sample_config calm_env [''srv'', ''temp'', ''t2''] b t) =
           Inl (Forbidden ''Blob is quarantined and cannot be uploaded''))"
proof -
  let ?b = "\<lparr>bp_sha256 = hash_a, bp_origin = Upload, bp_extension = None, bp_mime_type = None, bp_size = 1, bp_expiration = None\<rparr>"
  let ?f = "[''srv'', ''temp'', ''t'']" and ?g = "[''srv'', ''temp'', ''t2'']"
  obtain s' where r: "remove_indexed_blob sample_config calm_env hash_a Quarantined None store_a = (Inr True, s')"
    using removed_a [of Quarantined] by auto
  have inv: "store_inv sample_config (\<lambda>_ _ _. True) store_a" by (rule store_a_inv) simp
  have get: "index_get (st_index store_a) hash_a = Some md_a" "md_location md_a = Local path_a"
    by (simp add: store_a_def index_get_a, simp add: md_a_def)
  have calm: "io_fault (host calm_env) op q = None" for op q
    by (simp add: calm_env_def calm_host_def)
  have tmp: "is_temp_path sample_config ?f" "is_temp_path sample_config ?g"
    by (simp_all add: is_temp_path_def sample_config_def storage_layout_new_def)
  obtain r1 t where t: "publish_blob sample_config calm_env ?f ?b s' = (r1, t)" by fastforce
  obtain r2 t2 where t2: "publish_blob sample_config calm_env ?g ?b t = (r2, t2)" by fastforce
  note all = quarantine_blocks_republication [OF layout_sample inv get r, THEN conjunct2, THEN conjunct2]
  note held = all [THEN conjunct1] and refuse = all [THEN conjunct2, THEN conjunct1, rule_format]
  have again: "ra = Inl (Forbidden ''Blob is quarantined and cannot be uploaded'') \<and> quarantine_holds sample_config hash_a (st_fs v)"
    if "quarantine_holds sample_config hash_a (st_fs u)" "is_temp_path sample_config src"
      "publish_blob sample_config calm_env src ?b u = (ra, v)" for u v ra src
    using refuse [OF that(1) calm calm _ that(2,3)] by simp
  show ?thesis
    using r t t2 again [OF held tmp(1) t] again [OF _ tmp(2) t2] by (auto simp: Let_def)
qed

text \<open>C10: Admission: a write is admitted exactly when it respects the blob ceiling, keeps the byte
  quota (computed without wrap-around) and the file quota, and leaves the configured free-disk
  reserve.\<close>
theorem ensure_storage_capacity_exact:
  "ensure_storage_capacity c h s n = Inr () \<longleftrightarrow>
     unat n \<le> unat (max_blob_size_bytes c) \<and>
     (max_total_size c = 0 \<or>
        min (unat (e_total_bytes (st_index s)) + unat n) (2 ^ 64 - 1) \<le> unat (max_total_size c)) \<and>
     (max_total_files c = 0 \<or> length (e_map (st_index s)) < max_total_files c) \<and>
     (\<exists>available. available_space h (root (storage c)) = Inr available \<and>
        min (unat (min_free_disk_bytes c) + unat n) (2 ^ 64 - 1) \<le> unat available)"
  by (cases "available_space h (root (storage c))")
    (auto simp: ensure_storage_capacity_def Let_def and_then_Inr_iff index_get_stats_def
      word_less_nat_alt word_le_nat_alt unat_saturating_add not_less)

end
