(* ===== verification/Retention.thy ===== *)
theory Retention
  imports StorageProps "HOL-Library.Multiset"
begin

text \<open>
  Retention, \<open>src/utils.rs\<close>: the expiration a client may ask for, the cleanup deadline and the
  \<open>Sunset\<close> announced from it, the expiry and capacity sweep of \<open>enforce_storage_limits_at\<close>, the removal
  of empty directories, and the startup scan that rebuilds the catalogue. A limit of 0 is off.
\<close>

section \<open>Deadlines\<close>

definition resolve_expiration :: "u64 \<Rightarrow> u64 option \<Rightarrow> u64 option app_result" where
  "resolve_expiration now client_expiration =
     (if (case client_expiration of None \<Rightarrow> False | Some e \<Rightarrow> e \<le> now)
      then Inl (BadRequest ''X-Expiration must be a future Unix timestamp'')
      else Inr client_expiration)"

definition extract_expiration :: "u64 \<Rightarrow> header_map \<Rightarrow> u64 option app_result" where
  "extract_expiration now headers =
     (case hget headers ''x-expiration'' of
        None \<Rightarrow> resolve_expiration now None
      | Some v \<Rightarrow>
          and_then (ok_or (to_str v) (BadRequest ''Invalid X-Expiration header'')) (\<lambda>v'.
          and_then (ok_or (parse_u64 v') (BadRequest ''Invalid X-Expiration header'')) (\<lambda>e.
            resolve_expiration now (Some e))))"

definition age_deadline :: "file_metadata \<Rightarrow> u64 \<Rightarrow> u64 option" where
  "age_deadline m secs = (if secs > 0 then Some (saturating_add (md_created_at m) secs) else None)"

text \<open>\<open>min_by_key\<close> keeps the first of equal keys.\<close>

definition cleanup_deadline :: "file_metadata \<Rightarrow> u64 \<Rightarrow> u64 \<Rightarrow> (u64 \<times> string) option" where
  "cleanup_deadline m max_file_age max_cache_ttl =
     (case md_origin m of
        Upload \<Rightarrow>
          (case (md_expiration m, age_deadline m max_file_age) of
             (None, None) \<Rightarrow> None
           | (Some e, None) \<Rightarrow> Some (e, ''expiration'')
           | (None, Some a) \<Rightarrow> Some (a, ''upload_age'')
           | (Some e, Some a) \<Rightarrow> Some (if e \<le> a then (e, ''expiration'') else (a, ''upload_age'')))
      | UpstreamCache \<Rightarrow> map_option (\<lambda>d. (d, ''upstream_cache_ttl'')) (age_deadline m max_cache_ttl))"

definition expiration_reason_for :: "file_metadata \<Rightarrow> u64 \<Rightarrow> u64 \<Rightarrow> u64 \<Rightarrow> string option" where
  "expiration_reason_for m max_file_age max_cache_ttl now =
     (case cleanup_deadline m max_file_age max_cache_ttl of
        None \<Rightarrow> None
      | Some (deadline, reason) \<Rightarrow> if now \<ge> deadline then Some reason else None)"

definition expiration_reason :: "app_config \<Rightarrow> file_metadata \<Rightarrow> u64 \<Rightarrow> string option" where
  "expiration_reason c m now =
     expiration_reason_for m (max_file_age_secs c) (max_upstream_cache_ttl_secs c) now"

definition sunset_expiration :: "file_metadata \<Rightarrow> u64 \<Rightarrow> u64 option" where
  "sunset_expiration m max_file_age =
     (case md_origin m of
        Upload \<Rightarrow> map_option fst (cleanup_deadline m max_file_age 0)
      | UpstreamCache \<Rightarrow> None)"

section \<open>The sweep\<close>

definition capacity_eviction_order :: "(string \<times> file_metadata) list \<Rightarrow> (string \<times> file_metadata) list" where
  "capacity_eviction_order entries =
     sort_key (\<lambda>(_, m). md_created_at m) (filter (\<lambda>(_, m). md_origin m = UpstreamCache) entries) @
     sort_key (\<lambda>(_, m). md_created_at m) (filter (\<lambda>(_, m). md_origin m = Upload) entries)"

definition delete_cleanup_candidate ::
  "app_config \<Rightarrow> storage_env \<Rightarrow> string \<Rightarrow> file_metadata \<Rightarrow> store \<Rightarrow> bool \<times> store" where
  "delete_cleanup_candidate c e sha256 m s =
     (case remove_indexed_blob c e sha256 Evicted (Some m) s of
        (Inr removed, s') \<Rightarrow> (removed, s')
      | (Inl _, s') \<Rightarrow> (False, s'))"

fun expiry_loop ::
  "app_config \<Rightarrow> storage_env \<Rightarrow> u64 \<Rightarrow> (string \<times> file_metadata) list \<Rightarrow> store \<Rightarrow> store" where
  "expiry_loop c e now [] s = s"
| "expiry_loop c e now ((k, m) # es) s =
     expiry_loop c e now es
       (case expiration_reason c m now of
          None \<Rightarrow> s | Some _ \<Rightarrow> snd (delete_cleanup_candidate c e k m s))"

fun capacity_loop ::
  "app_config \<Rightarrow> storage_env \<Rightarrow> (string \<times> file_metadata) list \<Rightarrow> u64 \<Rightarrow> nat \<Rightarrow> store \<Rightarrow> store" where
  "capacity_loop c e [] total_size total_files s = s"
| "capacity_loop c e ((k, m) # es) total_size total_files s =
     (let size_ok = max_total_size c = 0 \<or> total_size \<le> max_total_size c;
          files_ok = max_total_files c = 0 \<or> total_files \<le> max_total_files c
      in if size_ok \<and> files_ok then s
         else let (gone, s') = delete_cleanup_candidate c e k m s
              in if gone
                 then capacity_loop c e es (saturating_sub total_size (md_size m)) (total_files - 1) s'
                 else capacity_loop c e es total_size total_files s')"

text \<open>
  \<open>cleanup_empty_dirs\<close>: a first pass collects the directories without entries, a second one removes
  them (\<open>remove_dir\<close> refuses a directory that is not empty). The walk visits the directories below the
  root; a directory that cannot be read is not descended into.
\<close>

definition dir_names :: "fs \<Rightarrow> path \<Rightarrow> string list" where
  "dir_names f d = map last (filter (\<lambda>q. q \<noteq> [] \<and> butlast q = d) (map fst (fs_files f) @ fs_dirs f))"

definition below :: "path \<Rightarrow> path \<Rightarrow> bool" where
  "below d q \<longleftrightarrow> take (length d) q = d"

definition fs_remove_dir :: "host_env \<Rightarrow> path \<Rightarrow> fs \<Rightarrow> fs" where
  "fs_remove_dir h d f =
     (if io_fault h Io_Remove d = None \<and> d \<in> set (fs_dirs f) \<and> dir_names f d = []
      then f\<lparr>fs_dirs := removeAll d (fs_dirs f)\<rparr> else f)"

definition cleanup_empty_dirs :: "host_env \<Rightarrow> path \<Rightarrow> store \<Rightarrow> store" where
  "cleanup_empty_dirs h root_dir s =
     (let f = st_fs s;
          visited = (\<lambda>d. \<forall>q \<in> set (path_prefixes d). \<not> below root_dir q \<or>
                        q \<in> set (fs_dirs f) \<and> io_fault h Io_Read_Dir q = None);
          empty = filter (\<lambda>d. below root_dir d \<and> d \<noteq> root_dir \<and> visited d \<and> dir_names f d = []) (fs_dirs f)
      in s\<lparr>st_fs := fold (fs_remove_dir h) empty f\<rparr>)"

definition enforce_storage_limits_at :: "app_config \<Rightarrow> storage_env \<Rightarrow> u64 \<Rightarrow> store \<Rightarrow> store" where
  "enforce_storage_limits_at c e now s =
     (let s1 = reconcile_superseded_blobs e s;
          s2 = expiry_loop c e now (index_snapshot (st_index s1)) s1;
          remaining = index_snapshot (st_index s2);
          total_size = foldl (\<lambda>sum (_, m). saturating_add sum (md_size m)) 0 remaining;
          s3 = capacity_loop c e (capacity_eviction_order remaining) total_size (length remaining) s2
      in cleanup_empty_dirs (host e) (upstream_cache (storage c))
           (cleanup_empty_dirs (host e) (uploads (storage c)) s3))"

section \<open>Lemmas on the sweep\<close>

definition removable :: "storage_env \<Rightarrow> store \<Rightarrow> file_metadata \<Rightarrow> bool" where
  "removable e s m \<longleftrightarrow>
     (case md_location m of
        Local p \<Rightarrow> io_fault (host e) Io_Remove p = None \<and> p \<notin> set (fs_dirs (st_fs s))
      | S3 key \<Rightarrow> st_s3 s \<noteq> None \<and> (\<forall>lg. s3_delete_answer (s3e e) lg key = None))"

definition same_host :: "store \<Rightarrow> store \<Rightarrow> bool" where
  "same_host s s' \<longleftrightarrow> fs_dirs (st_fs s') = fs_dirs (st_fs s) \<and> (st_s3 s' = None \<longleftrightarrow> st_s3 s = None)"

lemma same_host_refl [simp]: "same_host s s"
  by (simp add: same_host_def)

lemma same_host_trans: "same_host a b \<Longrightarrow> same_host b d \<Longrightarrow> same_host a d"
  by (simp add: same_host_def)

lemma removable_same: "same_host s s' \<Longrightarrow> removable e s' m = removable e s m"
  by (auto simp: removable_def same_host_def split: file_location.splits)

lemma remove_physical_host: "remove_physical_file e m s = (r, s') \<Longrightarrow> same_host s s'"
  using remove_local_effect(2,6)
  by (auto simp: remove_physical_file_def same_host_def on_s3_def split: file_location.splits option.splits prod.splits)

lemma remove_physical_ok:
  assumes "removable e s m"
  shows "\<exists>s'. remove_physical_file e m s = (Inr (), s')"
proof (cases "md_location m")
  case (Local p)
  with assms have "io_fault (host e) Io_Remove p = None" "p \<notin> set (fs_dirs (st_fs s))"
    by (simp_all add: removable_def)
  then show ?thesis
    using Local by (cases "fs_data (st_fs s) p")
      (simp_all add: remove_physical_file_def remove_local_file_def on_fs_def fs_remove_file_def)
next
  case (S3 key)
  with assms obtain b where "st_s3 s = Some b" "s3_delete_answer (s3e e) (s3_log_of b) key = None"
    by (auto simp: removable_def)
  then show ?thesis
    using S3 by (simp add: remove_physical_file_def on_s3_def s3_delete_def)
qed

lemma evict_candidate:
  assumes get: "index_get (st_index s) k = Some m" and rem: "removable e s m"
  shows "\<exists>s'. delete_cleanup_candidate c e k m s = (True, s') \<and> same_host s s' \<and>
    st_index s' = fst (entries_remove k (st_index s))"
proof -
  obtain s1 where r: "remove_physical_file e m s = (Inr (), s1)" using remove_physical_ok [OF rem] by blast
  note host = remove_physical_host [OF r] and eff = remove_physical_effect [OF r]
  have ns: "\<not> stale_candidate m (Some m)" by (simp add: stale_candidate_def)
  have "index_get (st_index s1) k = Some m" using get eff(1) by simp
  note rm = remove_if_matching [OF this]
  have "remove_indexed_blob c e k Evicted (Some m) s =
      (Inr True, mark_changes_pending (s1\<lparr>st_index := fst (entries_remove k (st_index s1))\<rparr>))"
    unfolding remove_indexed_alt [OF get ns] by (simp add: dispose_def r sweeps_backend_def rm)
  with host eff(1) show ?thesis
    by (simp add: delete_cleanup_candidate_def same_host_def mark_changes_pending_def)
qed

lemma evict_pre:
  assumes "\<forall>(k, m) \<in> set ((k0, m0) # es). index_get (st_index s) k = Some m \<and> removable e s m"
    and "distinct (map fst ((k0, m0) # es))"
    and "same_host s s1" "st_index s1 = fst (entries_remove k0 (st_index s))"
  shows "\<forall>(k, m) \<in> set es. index_get (st_index s1) k = Some m \<and> removable e s1 m"
proof (rule ballI, clarify)
  fix k m
  assume km: "(k, m) \<in> set es"
  then have "k \<in> fst ` set es" by (metis fst_conv image_eqI)
  then have "k \<noteq> k0" using assms(2) by auto
  moreover have "index_get (st_index s) k = Some m" "removable e s m" using assms(1) km by auto
  ultimately show "index_get (st_index s1) k = Some m \<and> removable e s1 m"
    using assms(3,4) by (simp add: get_remove removable_same)
qed

lemma reconcile_loop_frame:
  "reconcile_loop e pend retry s = (retry', s') \<Longrightarrow> st_index s' = st_index s \<and> same_host s s'"
proof (induction e pend retry s arbitrary: retry' s' rule: reconcile_loop.induct)
  case (1 e retry s)
  then show ?case by simp
next
  case (2 e h m pending retry s)
  obtain r t where t: "remove_physical_file e m s = (r, t)" by (cases "remove_physical_file e m s")
  note eff = remove_physical_effect(1) [OF t] remove_physical_host [OF t]
  show ?case
  proof (cases r)
    case (Inl err)
    have "reconcile_loop e pending (retry @ [(h, m)]) t = (retry', s')"
      using 2(3) t Inl by simp
    from 2(1) [OF t [symmetric] Inl this] eff show ?thesis
      using same_host_trans by metis
  next
    case (Inr u)
    have "reconcile_loop e pending retry t = (retry', s')"
      using 2(3) t Inr by simp
    from 2(2) [OF t [symmetric] Inr this] eff show ?thesis
      using same_host_trans by metis
  qed
qed

lemma reconcile_frame:
  "st_index (reconcile_superseded_blobs e s) = st_index s \<and> same_host s (reconcile_superseded_blobs e s)"
  using reconcile_loop_frame [of e "st_superseded s" "[]" "s\<lparr>st_superseded := []\<rparr>"]
  by (cases "reconcile_loop e (st_superseded s) [] (s\<lparr>st_superseded := []\<rparr>)")
    (simp add: reconcile_superseded_blobs_def same_host_def)

lemma e_map_remove: "e_map (fst (entries_remove k ix)) = hm_remove k (e_map ix)"
  by (auto simp: entries_remove_def delete_id map_of_eq_None_iff split: option.splits)

text \<open>The expiry loop: the catalogue afterwards is the old one without the expired candidates.\<close>

lemma expiry_loop_spec:
  assumes "\<forall>(k, m) \<in> set es. index_get (st_index s) k = Some m \<and> removable e s m"
    and "distinct (map fst es)"
  shows "same_host s (expiry_loop c e now es s) \<and>
    e_map (st_index (expiry_loop c e now es s)) =
      filter (\<lambda>(k, m). \<not> (\<exists>m'. (k, m') \<in> set es \<and> expiration_reason c m' now \<noteq> None)) (e_map (st_index s)) \<and>
    (index_inv (st_index s) \<longrightarrow> index_inv (st_index (expiry_loop c e now es s)))"
  using assms
proof (induction es arbitrary: s)
  case Nil
  then show ?case by (simp add: case_prod_beta')
next
  case (Cons km es)
  obtain k m where km: "km = (k, m)" by (cases km)
  show ?case
  proof (cases "expiration_reason c m now")
    case None
    have f: "filter (\<lambda>(k', m''). \<not> (\<exists>m'. (k', m') \<in> set es \<and> expiration_reason c m' now \<noteq> None)) xs =
        filter (\<lambda>(k', m''). \<not> (\<exists>m'. (k', m') \<in> set (km # es) \<and> expiration_reason c m' now \<noteq> None)) xs" for xs
      by (rule filter_cong) (auto simp: km None)
    show ?thesis
      using Cons.IH [of s] Cons.prems None unfolding f [symmetric] by (simp add: km)
  next
    case (Some reason)
    obtain s1 where s1: "delete_cleanup_candidate c e k m s = (True, s1)" "same_host s s1"
      "st_index s1 = fst (entries_remove k (st_index s))"
      using evict_candidate [of s k m e c] Cons.prems km by auto
    have pre: "\<forall>(k', m') \<in> set es. index_get (st_index s1) k' = Some m' \<and> removable e s1 m'"
      by (rule evict_pre [OF Cons.prems(1,2) [unfolded km] s1(2,3)])
    have step: "expiry_loop c e now (km # es) s = expiry_loop c e now es s1"
      using s1(1) Some km by simp
    note IH = Cons.IH [OF pre]
    have f: "filter (\<lambda>(k', m''). \<not> (\<exists>m'. (k', m') \<in> set es \<and> expiration_reason c m' now \<noteq> None))
          (hm_remove k xs) =
        filter (\<lambda>(k', m''). \<not> (\<exists>m'. (k', m') \<in> set (km # es) \<and> expiration_reason c m' now \<noteq> None)) xs" for xs
      unfolding AList.delete_eq filter_filter by (rule filter_cong) (auto simp: km Some)
    have inv: "index_inv (st_index s) \<Longrightarrow> index_inv (st_index s1)"
      unfolding s1(3) by (rule index_inv_remove)
    show ?thesis
      unfolding step using IH Cons.prems(2) s1(2,3) inv f
      by (auto simp: e_map_remove km intro: same_host_trans)
  qed
qed

definition within_limits :: "app_config \<Rightarrow> (string \<times> file_metadata) list \<Rightarrow> bool" where
  "within_limits c es \<longleftrightarrow>
     (max_total_size c = 0 \<or> map_bytes es \<le> unat (max_total_size c)) \<and>
     (max_total_files c = 0 \<or> length es \<le> max_total_files c)"

lemma map_bytes_simps [simp]:
  "map_bytes [] = 0" "map_bytes ((k, m) # es) = unat (md_size m) + map_bytes es"
  "map_bytes (xs @ ys) = map_bytes xs + map_bytes ys"
  by (simp_all add: map_bytes_def)

text \<open>The capacity loop evicts the shortest prefix of its order that brings the rest within limits.\<close>

lemma capacity_loop_spec:
  assumes "\<forall>(k, m) \<in> set es. index_get (st_index s) k = Some m \<and> removable e s m"
    and "distinct (map fst es)" and "unat total_size = map_bytes es" and "total_files = length es"
  shows "\<exists>n \<le> length es. same_host s (capacity_loop c e es total_size total_files s) \<and>
    st_index (capacity_loop c e es total_size total_files s) =
      fold (\<lambda>k ix. fst (entries_remove k ix)) (map fst (take n es)) (st_index s) \<and>
    within_limits c (drop n es) \<and> (\<forall>j < n. \<not> within_limits c (drop j es))"
  using assms
proof (induction es arbitrary: s total_size total_files)
  case Nil
  then show ?case by (simp add: within_limits_def)
next
  case (Cons km es)
  obtain k m where km: "km = (k, m)" by (cases km)
  have limit: "(max_total_size c = 0 \<or> total_size \<le> max_total_size c) \<and>
      (max_total_files c = 0 \<or> total_files \<le> max_total_files c) \<longleftrightarrow> within_limits c (km # es)"
    using Cons.prems by (simp add: within_limits_def word_le_nat_alt)
  show ?case
  proof (cases "within_limits c (km # es)")
    case True
    then have "capacity_loop c e (km # es) total_size total_files s = s"
      using limit by (simp add: km)
    with True show ?thesis by (intro exI [of _ 0]) simp
  next
    case False
    obtain s1 where s1: "delete_cleanup_candidate c e k m s = (True, s1)" "same_host s s1"
      "st_index s1 = fst (entries_remove k (st_index s))"
      using evict_candidate [of s k m e c] Cons.prems km by auto
    have pre: "\<forall>(k', m') \<in> set es. index_get (st_index s1) k' = Some m' \<and> removable e s1 m'"
      by (rule evict_pre [OF Cons.prems(1,2) [unfolded km] s1(2,3)])
    have step: "capacity_loop c e (km # es) total_size total_files s =
        capacity_loop c e es (saturating_sub total_size (md_size m)) (total_files - 1) s1"
      using s1(1) False limit by (auto simp: km Let_def)
    have "unat (saturating_sub total_size (md_size m)) = map_bytes es" "total_files - 1 = length es"
      using Cons.prems(3,4) by (simp_all add: km unat_saturating_sub)
    from Cons.IH [OF pre _ this] Cons.prems(2) obtain n where n: "n \<le> length es"
      "same_host s1 (capacity_loop c e es (saturating_sub total_size (md_size m)) (total_files - 1) s1)"
      "st_index (capacity_loop c e es (saturating_sub total_size (md_size m)) (total_files - 1) s1) =
        fold (\<lambda>k ix. fst (entries_remove k ix)) (map fst (take n es)) (st_index s1)"
      "within_limits c (drop n es)" "\<forall>j < n. \<not> within_limits c (drop j es)"
      by auto
    have "\<not> within_limits c (drop j (km # es))" if "j < Suc n" for j
      using that False n(5) by (cases j) auto
    then show ?thesis
      unfolding step using n s1(2,3) km
      by (intro exI [of _ "Suc n"]) (auto intro: same_host_trans)
  qed
qed

lemma eviction_order_props:
  "mset (capacity_eviction_order es) = mset es"
  "set (capacity_eviction_order es) = set es" "length (capacity_eviction_order es) = length es"
  "map_bytes (capacity_eviction_order es) = map_bytes es"
  "distinct (map fst es) \<Longrightarrow> distinct (map fst (capacity_eviction_order es))"
proof -
  have part: "filter (\<lambda>(_, m). md_origin m = UpstreamCache) es = filter (\<lambda>x. \<not> (md_origin (snd x) = Upload)) es"
    "filter (\<lambda>(_, m). md_origin m = Upload) es = filter (\<lambda>x. md_origin (snd x) = Upload) es"
    by (rule filter_cong, simp, auto simp: split_beta intro: blob_origin.exhaust) (rule filter_cong, simp, simp add: split_beta)
  show m: "mset (capacity_eviction_order es) = mset es"
    unfolding capacity_eviction_order_def part
    by (simp add: union_commute multiset_partition [symmetric])
  show "set (capacity_eviction_order es) = set es" "length (capacity_eviction_order es) = length es"
    using m by (metis set_mset_mset, metis size_mset)
  have "mset (map (\<lambda>(k, v). unat (md_size v)) (capacity_eviction_order es)) =
      mset (map (\<lambda>(k, v). unat (md_size v)) es)"
    using m by simp
  then show "map_bytes (capacity_eviction_order es) = map_bytes es"
    unfolding map_bytes_def by (metis sum_mset_sum_list)
  show "distinct (map fst es) \<Longrightarrow> distinct (map fst (capacity_eviction_order es))"
    using m by (metis mset_map mset_eq_imp_distinct_iff)
qed

lemma saturating_sum:
  "unat acc + map_bytes es < 2 ^ 64 \<Longrightarrow>
     unat (foldl (\<lambda>sum (_, m). saturating_add sum (md_size m)) acc es) = unat acc + map_bytes es"
proof (induction es arbitrary: acc)
  case Nil
  then show ?case by simp
next
  case (Cons km es)
  obtain k m where km: "km = (k, m)" by (cases km)
  have "unat (saturating_add acc (md_size m)) = unat acc + unat (md_size m)"
    using Cons.prems by (simp add: km unat_saturating_add)
  with Cons.IH [of "saturating_add acc (md_size m)"] Cons.prems show ?case by (simp add: km)
qed

lemma e_map_remove_all:
  "e_map (fold (\<lambda>k ix. fst (entries_remove k ix)) ks ix) = filter (\<lambda>(k, _). k \<notin> set ks) (e_map ix)"
proof (induction ks arbitrary: ix)
  case Nil
  then show ?case by (simp add: split_beta)
next
  case (Cons k ks)
  have "e_map (fold (\<lambda>k ix. fst (entries_remove k ix)) (k # ks) ix) =
      filter (\<lambda>(k', _). k' \<notin> set ks) (hm_remove k (e_map ix))"
    by (simp add: Cons.IH e_map_remove)
  also have "\<dots> = filter (\<lambda>(k', _). k' \<notin> set (k # ks)) (e_map ix)"
    unfolding AList.delete_eq filter_filter by (rule filter_cong) auto
  finally show ?case .
qed

lemma cleanup_dirs_index [simp]: "st_index (cleanup_empty_dirs h d s) = st_index s"
  by (simp add: cleanup_empty_dirs_def Let_def)

lemma dropped_entries:
  assumes "distinct (map fst order)" "set order = set es"
  shows "set (filter (\<lambda>(k, _). k \<notin> set (map fst (take n order))) es) = set (drop n order)"
proof -
  have split: "order = take n order @ drop n order" by simp
  have d: "set (map fst (take n order)) \<inter> set (map fst (drop n order)) = {}"
    using assms(1) by (metis append_take_drop_id distinct_append map_append)
  have "x \<in> set (drop n order) \<longleftrightarrow> x \<in> set order \<and> fst x \<notin> set (map fst (take n order))" for x
    using d split by (metis (no_types, lifting) Un_iff disjoint_iff image_eqI list.set_map set_append)
  then show ?thesis using assms(2) by (auto simp: split_beta)
qed

lemma enforce_spec:
  assumes inv: "index_inv (st_index s)"
    and rem: "\<forall>k m. index_get (st_index s) k = Some m \<longrightarrow> removable e s m"
    and small: "map_bytes (index_snapshot (st_index s)) < 2 ^ 64"
  shows "\<exists>order n. set order = {(k, m). index_get (st_index s) k = Some m \<and> expiration_reason c m now = None} \<and>
    distinct (map fst order) \<and>
    (\<exists>alive. order = capacity_eviction_order alive) \<and> n \<le> length order \<and>
    set (index_snapshot (st_index (enforce_storage_limits_at c e now s))) = set (drop n order) \<and>
    within_limits c (drop n order) \<and> (\<forall>j < n. \<not> within_limits c (drop j order))"
proof -
  define s1 where "s1 = reconcile_superseded_blobs e s"
  have s1: "st_index s1 = st_index s" "same_host s s1" using reconcile_frame [of e s] by (simp_all add: s1_def)
  have wf: "hm_wf (e_map (st_index s))" using inv by (simp add: index_inv_def)
  define es where "es = e_map (st_index s)"
  have get: "(k, m) \<in> set es \<longleftrightarrow> index_get (st_index s) k = Some m" for k m
    using wf by (simp add: es_def index_get_def)
  have pre1: "\<forall>(k, m) \<in> set es. index_get (st_index s1) k = Some m \<and> removable e s1 m"
    using rem s1 by (auto simp: get removable_same)
  have d1: "distinct (map fst es)" using wf by (simp add: es_def)
  define s2 where "s2 = expiry_loop c e now es s1"
  note ex = expiry_loop_spec [OF pre1 d1, of c now, folded s2_def]
  define alive where "alive = e_map (st_index s2)"
  have alive: "alive = filter (\<lambda>(k, m). expiration_reason c m now = None) es"
  proof -
    have "alive = filter (\<lambda>(k, m). \<not> (\<exists>m'. (k, m') \<in> set es \<and> expiration_reason c m' now \<noteq> None)) es"
      using ex s1(1) by (simp add: alive_def es_def)
    also have "\<dots> = filter (\<lambda>(k, m). expiration_reason c m now = None) es"
    proof (rule filter_cong [OF refl])
      fix x
      assume x: "x \<in> set es"
      obtain k m where km: "x = (k, m)" by (cases x)
      have only: "m' = m" if "(k, m') \<in> set es" for m'
        using x that get [of k m] get [of k m'] unfolding km by simp
      have "(\<exists>m'. (k, m') \<in> set es \<and> expiration_reason c m' now \<noteq> None) \<longleftrightarrow> expiration_reason c m now \<noteq> None"
        using x only unfolding km by metis
      then show "(case x of (k, m) \<Rightarrow> \<not> (\<exists>m'. (k, m') \<in> set es \<and> expiration_reason c m' now \<noteq> None)) =
          (case x of (k, m) \<Rightarrow> expiration_reason c m now = None)"
        unfolding km by blast
    qed
    finally show ?thesis .
  qed
  define order where "order = capacity_eviction_order alive"
  have da: "distinct (map fst alive)" using d1 by (simp add: alive distinct_map_filter)
  note ep = eviction_order_props [of alive, folded order_def]
  have inv2: "index_inv (st_index s2)" using ex inv s1(1) by simp
  have pre2: "\<forall>(k, m) \<in> set order. index_get (st_index s2) k = Some m \<and> removable e s2 m"
  proof (rule ballI, clarify)
    fix k m
    assume "(k, m) \<in> set order"
    then have a: "(k, m) \<in> set alive" using ep(2) by simp
    then have "index_get (st_index s2) k = Some m"
      using inv2 unfolding alive_def index_get_def index_inv_def by simp
    moreover have "removable e s m" using a rem get by (auto simp: alive)
    ultimately show "index_get (st_index s2) k = Some m \<and> removable e s2 m"
      using removable_same [of s s2 e m] ex s1(2) same_host_trans by blast
  qed
  have bytes: "map_bytes alive \<le> map_bytes es"
    unfolding alive map_bytes_def by (induction es) auto
  have tot: "unat (foldl (\<lambda>sum (_, m). saturating_add sum (md_size m)) 0 alive) = map_bytes order"
    using saturating_sum [of 0 alive] bytes small ep(4) by (simp add: es_def index_snapshot_def)
  have lenA: "length alive = length order" using ep(3) by simp
  from capacity_loop_spec [OF pre2 ep(5) [OF da] tot lenA, of c]
  obtain n where n: "n \<le> length order"
    "st_index (capacity_loop c e order (foldl (\<lambda>sum (_, m). saturating_add sum (md_size m)) 0 alive) (length alive) s2) =
      fold (\<lambda>k ix. fst (entries_remove k ix)) (map fst (take n order)) (st_index s2)"
    "within_limits c (drop n order)" "\<forall>j < n. \<not> within_limits c (drop j order)" by blast
  have fin: "st_index (enforce_storage_limits_at c e now s) =
      fold (\<lambda>k ix. fst (entries_remove k ix)) (map fst (take n order)) (st_index s2)"
    unfolding enforce_storage_limits_at_def
    using n(2) s1(1) by (simp add: Let_def s1_def [symmetric] index_snapshot_def s2_def [symmetric]
        es_def [symmetric] alive_def [symmetric] order_def [symmetric])
  have "set (index_snapshot (st_index (enforce_storage_limits_at c e now s))) = set (drop n order)"
    unfolding fin index_snapshot_def e_map_remove_all alive_def [symmetric]
    by (rule dropped_entries [OF ep(5) [OF da] ep(2)])
  moreover have "set order = {(k, m). index_get (st_index s) k = Some m \<and> expiration_reason c m now = None}"
    using ep(2) get by (auto simp: alive)
  ultimately show ?thesis
    using n ep(5) [OF da] order_def by blast
qed

text \<open>What the documentation promises, in naturals and without the code's own routines: when a blob is
  overdue (an age limit of zero is no limit), and which of two blobs is evicted first.\<close>

definition overdue :: "app_config \<Rightarrow> nat \<Rightarrow> file_metadata \<Rightarrow> bool" where
  "overdue c now m \<longleftrightarrow>
     (md_origin m = Upload \<and>
        ((\<exists>e. md_expiration m = Some e \<and> unat e \<le> now) \<or>
         0 < unat (max_file_age_secs c) \<and>
           min (unat (md_created_at m) + unat (max_file_age_secs c)) (2 ^ 64 - 1) \<le> now)) \<or>
     (md_origin m = UpstreamCache \<and> 0 < unat (max_upstream_cache_ttl_secs c) \<and>
        min (unat (md_created_at m) + unat (max_upstream_cache_ttl_secs c)) (2 ^ 64 - 1) \<le> now)"

definition evicted_before :: "file_metadata \<Rightarrow> file_metadata \<Rightarrow> bool" where
  "evicted_before a b \<longleftrightarrow>
     md_origin a = UpstreamCache \<and> md_origin b = Upload \<or>
     md_origin a = md_origin b \<and> unat (md_created_at a) \<le> unat (md_created_at b)"

lemma expiration_reason_overdue: "expiration_reason c m now = None \<longleftrightarrow> \<not> overdue c (unat now) m"
proof -
  have le: "a \<le> b \<longleftrightarrow> unat a \<le> unat b" for a b :: u64 by (rule word_le_nat_alt)
  have sat: "unat (saturating_add a b) = min (unat a + unat b) (2 ^ 64 - 1)" for a b :: u64
    by (rule unat_saturating_add)
  have pos: "0 < a \<longleftrightarrow> 0 < unat a" for a :: u64 by (simp add: word_less_nat_alt)
  show ?thesis
    by (cases "md_origin m"; cases "md_expiration m")
      (auto simp: expiration_reason_def expiration_reason_for_def cleanup_deadline_def age_deadline_def
        overdue_def le sat pos split: if_splits)
qed

lemma eviction_order_sorted:
  "sorted_wrt (\<lambda>(_, a) (_, b). evicted_before a b) (capacity_eviction_order es)"
proof -
  let ?part = "\<lambda>og. sort_key (\<lambda>(_, m). md_created_at m) (filter (\<lambda>(_, m). md_origin m = og) es)"
  let ?le = "\<lambda>(_, a) (_, b). evicted_before a b"
  have part: "sorted_wrt ?le (?part og)" for og
    using sorted_sort_key [of "\<lambda>(_, m). md_created_at m" "filter (\<lambda>(_, m). md_origin m = og) es"]
    unfolding sorted_map
    by (rule sorted_wrt_mono_rel [rotated])
      (auto simp: evicted_before_def word_le_nat_alt)
  have "?le x y" if "x \<in> set (?part UpstreamCache)" "y \<in> set (?part Upload)" for x y
    using that by (auto simp: evicted_before_def)
  then show ?thesis
    unfolding capacity_eviction_order_def sorted_wrt_append
    using part [of UpstreamCache] part [of Upload] by blast
qed

lemma removable_a: "removable calm_env store_a md_a"
proof -
  have "md_location md_a = Local path_a" by (simp add: md_a_def)
  then show ?thesis
    by (simp add: removable_def calm_env_def calm_host_def store_a_def path_a_def)
qed

section \<open>Properties of the sweep\<close>

text \<open>The announced \<open>Sunset\<close> is the cleanup deadline: an upload is expired at a time exactly when
  its announced deadline has come, the deadline is the earlier of the client's expiration and the
  age limit, and cache copies announce none.\<close>
lemma sunset_is_deadline:
  "(md_origin m = Upload \<and>
     (expiration_reason_for m age ttl now \<noteq> None \<longleftrightarrow> (\<exists>d. sunset_expiration m age = Some d \<and> d \<le> now)) \<and>
     sunset_expiration m age =
       (case (md_expiration m, age_deadline m age) of
          (None, None) \<Rightarrow> None | (Some e, None) \<Rightarrow> Some e | (None, Some a) \<Rightarrow> Some a
        | (Some e, Some a) \<Rightarrow> Some (min e a))) \<or>
   (md_origin m = UpstreamCache \<and> sunset_expiration m age = None \<and>
     (expiration_reason_for m age ttl now \<noteq> None \<longleftrightarrow> (\<exists>d. age_deadline m ttl = Some d \<and> d \<le> now)))"
  by (cases "md_origin m")
    (auto simp: expiration_reason_for_def sunset_expiration_def cleanup_deadline_def min_def
      split: option.splits)

text \<open>C11: The retention sweep does what it must and no more. When the listed bytes sum to less than
  2^64 and no unlink or bucket deletion fails, the catalogue afterwards is: the blobs that are not
  overdue (an upload at the earlier of its own expiration and the age limit, a cache copy at the cache
  limit), minus the shortest prefix of the eviction order whose removal brings the rest within the
  configured limits; in particular the limits hold afterwards. The eviction order lists every
  remaining blob once, upstream-cache copies before uploads and older before newer within each kind.\<close>
theorem enforce_storage_limits_exact:
  assumes "index_inv (st_index s)"
    and "\<forall>k m. index_get (st_index s) k = Some m \<longrightarrow> removable e s m"
    and "(\<Sum>(k, m) \<leftarrow> index_snapshot (st_index s). unat (md_size m)) < 2 ^ 64"
  shows "\<exists>order n. set order = {(k, m). index_get (st_index s) k = Some m \<and> \<not> overdue c (unat now) m} \<and>
    distinct (map fst order) \<and> sorted_wrt (\<lambda>(_, a) (_, b). evicted_before a b) order \<and> n \<le> length order \<and>
    set (index_snapshot (st_index (enforce_storage_limits_at c e now s))) = set (drop n order) \<and>
    within_limits c (drop n order) \<and> (\<forall>j < n. \<not> within_limits c (drop j order))"
proof -
  from enforce_spec [OF assms(1,2), of c now] assms(3)
  obtain order alive n where "set order = {(k, m). index_get (st_index s) k = Some m \<and> expiration_reason c m now = None}"
    "distinct (map fst order)" "order = capacity_eviction_order alive" "n \<le> length order"
    "set (index_snapshot (st_index (enforce_storage_limits_at c e now s))) = set (drop n order)"
    "within_limits c (drop n order)" "\<forall>j < n. \<not> within_limits c (drop j order)"
    by (auto simp: map_bytes_def)
  with eviction_order_sorted [of alive] show ?thesis
    unfolding expiration_reason_overdue by blast
qed

theorem enforce_storage_limits_exact_witness:
  "\<exists>order n. set order = {(k, m). index_get (st_index store_a) k = Some m \<and> \<not> overdue sample_config 5 m} \<and>
     set (index_snapshot (st_index (enforce_storage_limits_at sample_config calm_env 5 store_a))) = set (drop n order) \<and>
     within_limits sample_config (drop n order)"
proof -
  have inv: "index_inv (st_index store_a)"
    using store_a_inv [of "\<lambda>_ _ _. True"] by (simp add: store_inv_def)
  have get: "index_get (st_index store_a) = [hash_a \<mapsto> md_a]"
    by (simp add: store_a_def index_get_a)
  have rem: "\<forall>k m. index_get (st_index store_a) k = Some m \<longrightarrow> removable calm_env store_a m"
    using removable_a by (auto simp: get split: if_splits)
  have "(\<Sum>(k, m) \<leftarrow> index_snapshot (st_index store_a). unat (md_size m)) < 2 ^ 64"
    by (simp add: store_a_def index_snapshot_def index_insert_def entries_insert_def entries_default_def md_a_def)
  from enforce_storage_limits_exact [OF inv rem this, of sample_config 5] show ?thesis
    by (simp only: unat_numeral) (auto simp: take_bit_eq_mod)
qed

end
