(* ===== verification/Startup.thy ===== *)
theory Startup
  imports Retention
begin

text \<open>
  The startup scan of \<open>src/utils.rs\<close>: \<open>initialize_storage\<close>, \<open>scan_blob_root\<close> and \<open>build_file_index\<close>
  rebuild the catalogue from the two served roots. The walk keeps a stack of directories, popped from
  its end; \<open>dir_weight\<close> is the measure that ends it.
\<close>

section \<open>Creating the roots\<close>

fun create_roots :: "host_env \<Rightarrow> path list \<Rightarrow> unit op" where
  "create_roots h [] s = (Inr (), s)"
| "create_roots h (d # ds) s =
     bind_st (err_st (\<lambda>e. IoError (''Failed to create storage directory '' @ display_path d @ '': '' @ io_text e))
                (on_fs (fs_create_dir_all h d) s)) (\<lambda>_. create_roots h ds)"

definition initialize_storage :: "host_env \<Rightarrow> storage_layout \<Rightarrow> unit op" where
  "initialize_storage h l =
     create_roots h [root l, uploads l, upstream_cache l, temp l, quarantine l, reports l]"

section \<open>The scan\<close>

definition path_extension :: "string \<Rightarrow> string option" where
  "path_extension nm =
     (case rsplit_once (CHR ''.'') nm of
        None \<Rightarrow> None | Some (stem, ext) \<Rightarrow> if stem = [] then None else Some ext)"

definition parse_filename_for_hash_and_expiration :: "string \<Rightarrow> (string \<times> u64 option) option" where
  "parse_filename_for_hash_and_expiration filename =
     map_option (\<lambda>p. (pn_hash p, pn_expiration p)) (parse_name filename)"

type_synonym scan_acc = "(string \<times> file_metadata) list \<times> file_metadata list"

definition scanned_metadata ::
  "storage_env \<Rightarrow> blob_origin \<Rightarrow> path \<Rightarrow> string \<Rightarrow> bytes \<Rightarrow> u64 option \<Rightarrow> file_metadata" where
  "scanned_metadata e orig p nm data expiration =
     \<lparr>md_location = Local p, md_extension = path_extension nm,
      md_mime_type = mime_from_ext (s3e e) (case path_extension nm of None \<Rightarrow> [] | Some x \<Rightarrow> x),
      md_size = word_of_nat (length data), md_created_at = mtime_of (host e) p, md_pubkey = None,
      md_expiration = expiration, md_origin = orig\<rparr>"

text \<open>The files of one directory, in listing order; subdirectories go to the stack.\<close>

fun scan_files :: "storage_env \<Rightarrow> fs \<Rightarrow> blob_origin \<Rightarrow> path \<Rightarrow> string list \<Rightarrow> scan_acc \<Rightarrow> scan_acc app_result" where
  "scan_files e f orig d [] acc = Inr acc"
| "scan_files e f orig d (nm # nms) acc =
     (let p = d @ [nm] in
      if p \<in> set (fs_dirs f) then scan_files e f orig d nms acc
      else case fs_data f p of
        None \<Rightarrow> scan_files e f orig d nms acc
      | Some data \<Rightarrow>
          (case parse_filename_for_hash_and_expiration nm of
             None \<Rightarrow> scan_files e f orig d nms acc
           | Some (sha256, expiration) \<Rightarrow>
               (case io_fault (host e) Io_Stat p of
                  Some err \<Rightarrow> Inl (IoError (''Failed to read blob metadata '' @ display_path p @ '': '' @ err))
                | None \<Rightarrow>
                    let indexed = scanned_metadata e orig p nm data expiration;
                        previous = map_of (fst acc) sha256;
                        displaced' = (case previous of
                            None \<Rightarrow> snd acc
                          | Some old \<Rightarrow> if md_origin old = UpstreamCache \<and> orig = Upload
                                       then snd acc @ [old] else snd acc)
                    in scan_files e f orig d nms (hm_insert sha256 indexed (fst acc), displaced'))))"

definition subdirs :: "fs \<Rightarrow> path \<Rightarrow> path list" where
  "subdirs f d = remdups (filter (\<lambda>p. p \<in> set (fs_dirs f)) (map (\<lambda>nm. d @ [nm]) (dir_names f d)))"

definition dir_weight :: "fs \<Rightarrow> path \<Rightarrow> nat" where
  "dir_weight f d = length (filter (below d) (fs_dirs f))"

lemma below_self [simp]: "below d d"
  by (simp add: below_def)

lemma below_snoc: "below (d @ [x]) q \<Longrightarrow> below d q \<and> q \<noteq> d"
  by (auto simp: below_def take_add dest: arg_cong [where f = "take (length d)"])

lemma below_unique: "below (d @ [x]) q \<Longrightarrow> below (d @ [y]) q \<Longrightarrow> x = y"
  by (metis append1_eq_conv below_def length_append_singleton)

lemma weights_split:
  assumes "distinct cs" "\<forall>c \<in> set cs. \<exists>x. c = d @ [x]"
  shows "(\<Sum>c \<leftarrow> cs. length (filter (below c) xs)) \<le> length (filter (\<lambda>q. below d q \<and> q \<noteq> d) xs)"
proof (induction xs)
  case Nil
  then show ?case by (simp add: sum_list_0)
next
  case (Cons q xs)
  have one: "(\<Sum>c \<leftarrow> cs. if below c q then 1 else (0 :: nat)) \<le> (if below d q \<and> q \<noteq> d then 1 else 0)"
    using assms
  proof (induction cs)
    case Nil
    then show ?case by simp
  next
    case (Cons c cs)
    show ?case
    proof (cases "below c q")
      case True
      then have "\<not> below c' q" if "c' \<in> set cs" for c'
        using Cons.prems that below_unique by (metis distinct.simps(2) list.set_intros(1,2))
      then have "(\<Sum>c \<leftarrow> cs. if below c q then 1 else (0 :: nat)) = 0"
        by (induction cs) auto
      moreover have "below d q \<and> q \<noteq> d" using True Cons.prems(2) below_snoc by auto
      ultimately show ?thesis using True by simp
    next
      case False
      with Cons show ?thesis by simp
    qed
  qed
  have "(\<Sum>c \<leftarrow> cs. length (filter (below c) (q # xs))) =
      (\<Sum>c \<leftarrow> cs. (if below c q then 1 else 0) + length (filter (below c) xs))"
    by (intro arg_cong [where f = sum_list] map_cong) auto
  also have "\<dots> = (\<Sum>c \<leftarrow> cs. if below c q then 1 else 0) + (\<Sum>c \<leftarrow> cs. length (filter (below c) xs))"
    by (rule sum_list_addf)
  finally have "(\<Sum>c \<leftarrow> cs. length (filter (below c) (q # xs))) \<le>
      (if below d q \<and> q \<noteq> d then 1 else 0) + length (filter (\<lambda>q. below d q \<and> q \<noteq> d) xs)"
    using one Cons.IH by linarith
  then show ?case by (simp split: if_splits)
qed

lemma children_weight:
  assumes "d \<in> set (fs_dirs f)" "distinct cs" "\<forall>c \<in> set cs. \<exists>x. c = d @ [x]"
  shows "sum_list (map (dir_weight f) cs) < dir_weight f d"
proof -
  have "filter (\<lambda>q. below d q \<and> q \<noteq> d) (fs_dirs f) = filter (\<lambda>q. q \<noteq> d) (filter (below d) (fs_dirs f))"
    by (simp add: conj_commute)
  moreover have "length (filter (\<lambda>q. q \<noteq> d) (filter (below d) (fs_dirs f))) < length (filter (below d) (fs_dirs f))"
    using assms(1) by (intro length_filter_less [of d]) auto
  moreover have "sum_list (map (dir_weight f) cs) \<le> length (filter (\<lambda>q. below d q \<and> q \<noteq> d) (fs_dirs f))"
    unfolding dir_weight_def by (rule weights_split [OF assms(2,3)])
  ultimately show ?thesis by (simp add: dir_weight_def)
qed

lemma subdirs_weight:
  "d \<in> set (fs_dirs f) \<Longrightarrow> sum_list (map (dir_weight f) (subdirs f d)) < dir_weight f d"
  by (rule children_weight) (auto simp: subdirs_def)

text \<open>Popping a listed directory and pushing its subdirectories makes the stack lighter.\<close>

function scan_stack ::
  "storage_env \<Rightarrow> fs \<Rightarrow> blob_origin \<Rightarrow> path list \<Rightarrow> scan_acc \<Rightarrow> scan_acc app_result" where
  "scan_stack e f orig stack acc =
     (if stack = [] then Inr acc
      else let d = last stack in
        case fs_read_dir (host e) d f of
          Inl err \<Rightarrow> Inl (IoError (''Failed to scan blob root '' @ display_path d @ '': '' @ io_text err))
        | Inr names \<Rightarrow>
            (case scan_files e f orig d names acc of
               Inl err \<Rightarrow> Inl err
             | Inr acc' \<Rightarrow> scan_stack e f orig (butlast stack @ subdirs f d) acc'))"
  by pat_completeness auto

lemma read_dir_listed: "fs_read_dir h d f = Inr names \<Longrightarrow> d \<in> set (fs_dirs f) \<and> names = dir_names f d"
  by (auto simp: fs_read_dir_def dir_names_def split: option.splits if_splits)

termination scan_stack
proof (relation "measure (\<lambda>(e, f, orig, stack, acc). sum_list (map (dir_weight f) stack))")
  show "wf (measure (\<lambda>(e :: storage_env, f, orig :: blob_origin, stack, acc :: scan_acc). sum_list (map (dir_weight f) stack)))"
    by simp
next
  fix e :: storage_env and f orig and stack :: "path list" and acc :: scan_acc and d names acc'
  assume stack: "stack \<noteq> []" and d: "d = last stack" and names: "fs_read_dir (host e) d f = Inr names"
  have "sum_list (map (dir_weight f) (subdirs f d)) < dir_weight f d"
    using read_dir_listed [OF names] subdirs_weight by blast
  moreover obtain rest where rest: "stack = rest @ [d]" using stack d by (metis append_butlast_last_id)
  then have "sum_list (map (dir_weight f) stack) = sum_list (map (dir_weight f) (butlast stack)) + dir_weight f d"
    by simp
  ultimately show "((e, f, orig, butlast stack @ subdirs f d, acc'), e, f, orig, stack, acc)
      \<in> measure (\<lambda>(e, f, orig, stack, acc). sum_list (map (dir_weight f) stack))"
    by simp
qed

declare scan_stack.simps [simp del]

definition scan_blob_root ::
  "storage_env \<Rightarrow> fs \<Rightarrow> path \<Rightarrow> blob_origin \<Rightarrow> (string \<times> file_metadata) list \<Rightarrow> scan_acc app_result" where
  "scan_blob_root e f root_dir orig m = scan_stack e f orig [root_dir] (m, [])"

fun remove_duplicates :: "host_env \<Rightarrow> file_metadata list \<Rightarrow> store \<Rightarrow> store" where
  "remove_duplicates h [] s = s"
| "remove_duplicates h (m # ms) s =
     remove_duplicates h ms
       (case md_location m of Local p \<Rightarrow> snd (on_fs (fs_remove_file h p) s) | S3 _ \<Rightarrow> s)"

definition build_file_index :: "app_config \<Rightarrow> storage_env \<Rightarrow> unit op" where
  "build_file_index c e s =
     (case and_then (scan_blob_root e (st_fs s) (upstream_cache (storage c)) UpstreamCache [])
             (\<lambda>(m, _). scan_blob_root e (st_fs s) (uploads (storage c)) Upload m) of
        Inl err \<Rightarrow> (Inl err, s)
      | Inr (m, displaced_cache) \<Rightarrow>
          (Inr (), remove_duplicates (host e) displaced_cache
                     (s\<lparr>st_index := index_replace m (st_index s)\<rparr>)))"

section \<open>The rebuilt catalogue is consistent\<close>

text \<open>What a scan has put into the map so far.\<close>

definition scan_ok :: "app_config \<Rightarrow> fs \<Rightarrow> scan_acc \<Rightarrow> bool" where
  "scan_ok c f acc \<longleftrightarrow> hm_wf (fst acc) \<and>
     (\<forall>k m. map_of (fst acc) k = Some m \<longrightarrow>
        located c (\<lambda>_ m d. md_size m = word_of_nat (length d)) f k m \<and> is_valid_hash k) \<and>
     (\<forall>m \<in> set (snd acc). \<exists>k m'. located c (\<lambda>_ _ _. True) f k m \<and> md_origin m = UpstreamCache \<and>
        map_of (fst acc) k = Some m' \<and> md_origin m' = Upload)"

lemma located_weaken: "located c Q f k m \<Longrightarrow> (\<And>d. Q k m d \<Longrightarrow> Q' k m d) \<Longrightarrow> located c Q' f k m"
  by (auto simp: located_def split: file_location.splits)

lemma scan_insert_ok:
  assumes ok: "scan_ok c f acc" and ups: "\<forall>m \<in> ran (map_of (fst acc)). md_origin m = Upload \<longrightarrow> orig = Upload"
    and new: "located c (\<lambda>_ m d. md_size m = word_of_nat (length d)) f k m" "is_valid_hash k" "md_origin m = orig"
    and dis: "dis = (case map_of (fst acc) k of None \<Rightarrow> snd acc
       | Some old \<Rightarrow> if md_origin old = UpstreamCache \<and> orig = Upload then snd acc @ [old] else snd acc)"
  shows "scan_ok c f (hm_insert k m (fst acc), dis) \<and>
    (\<forall>m' \<in> ran (map_of (hm_insert k m (fst acc))). md_origin m' = Upload \<longrightarrow> orig = Upload)"
proof -
  have wf: "hm_wf (fst acc)" and entries: "\<And>j v. map_of (fst acc) j = Some v \<Longrightarrow>
      located c (\<lambda>_ m d. md_size m = word_of_nat (length d)) f j v \<and> is_valid_hash j"
    and olds: "\<And>v. v \<in> set (snd acc) \<Longrightarrow> \<exists>j m'. located c (\<lambda>_ _ _. True) f j v \<and> md_origin v = UpstreamCache \<and>
        map_of (fst acc) j = Some m' \<and> md_origin m' = Upload"
    using ok unfolding scan_ok_def by blast+
  have get: "map_of (hm_insert k m (fst acc)) = (map_of (fst acc))(k \<mapsto> m)" by (rule hm_get_insert)
  have "\<exists>j m'. located c (\<lambda>_ _ _. True) f j v \<and> md_origin v = UpstreamCache \<and>
      map_of (hm_insert k m (fst acc)) j = Some m' \<and> md_origin m' = Upload" if v: "v \<in> set dis" for v
  proof (cases "v \<in> set (snd acc)")
    case True
    then obtain j m' where j: "located c (\<lambda>_ _ _. True) f j v" "md_origin v = UpstreamCache"
      "map_of (fst acc) j = Some m'" "md_origin m' = Upload" using olds by blast
    then have "orig = Upload" using ups by (meson ranI)
    with j new(3) show ?thesis unfolding get by (cases "j = k") auto
  next
    case False
    then obtain old where old: "map_of (fst acc) k = Some old" "md_origin old = UpstreamCache" "orig = Upload" "v = old"
      using v unfolding dis by (cases "map_of (fst acc) k") (auto split: if_splits)
    have "located c (\<lambda>_ m d. md_size m = word_of_nat (length d)) f k v"
      using entries [OF old(1)] old(4) by simp
    then have "located c (\<lambda>_ _ _. True) f k v" by (rule located_weaken) simp
    with old new(3) show ?thesis unfolding get by auto
  qed
  moreover have "located c (\<lambda>_ m d. md_size m = word_of_nat (length d)) f j v \<and> is_valid_hash j"
    if "map_of (hm_insert k m (fst acc)) j = Some v" for j v
    using that entries new(1,2) unfolding get by (auto split: if_splits)
  ultimately have "scan_ok c f (hm_insert k m (fst acc), dis)"
    using wf by (simp add: scan_ok_def)
  moreover have "\<forall>m' \<in> ran (map_of (hm_insert k m (fst acc))). md_origin m' = Upload \<longrightarrow> orig = Upload"
    using ups new(3) unfolding get by (auto simp: ran_def)
  ultimately show ?thesis by blast
qed

lemma scan_files_ok:
  assumes "scan_files e f orig d nms acc = Inr acc'" and "scan_ok c f acc"
    and "\<exists>tail. d = root_of c orig @ tail"
    and "\<forall>m \<in> ran (map_of (fst acc)). md_origin m = Upload \<longrightarrow> orig = Upload"
  shows "scan_ok c f acc' \<and> (\<forall>m \<in> ran (map_of (fst acc')). md_origin m = Upload \<longrightarrow> orig = Upload)"
  using assms
proof (induction nms arbitrary: acc)
  case Nil
  then show ?case by simp
next
  case (Cons nm nms)
  let ?p = "d @ [nm]"
  show ?case
  proof (cases "?p \<in> set (fs_dirs f) \<or> fs_data f ?p = None \<or> parse_filename_for_hash_and_expiration nm = None")
    case True
    then have "scan_files e f orig d nms acc = Inr acc'"
      using Cons.prems(1) by (auto simp: Let_def split: if_splits option.splits)
    then show ?thesis using Cons.IH Cons.prems by blast
  next
    case False
    then obtain data k x where data: "?p \<notin> set (fs_dirs f)" "fs_data f ?p = Some data"
      and k: "parse_filename_for_hash_and_expiration nm = Some (k, x)" by auto
    let ?m = "scanned_metadata e orig ?p nm data x"
    define dis where "dis = (case map_of (fst acc) k of None \<Rightarrow> snd acc
       | Some old \<Rightarrow> if md_origin old = UpstreamCache \<and> orig = Upload then snd acc @ [old] else snd acc)"
    have go: "scan_files e f orig d nms (hm_insert k ?m (fst acc), dis) = Inr acc'"
      using Cons.prems(1) data k by (cases "map_of (fst acc) k") (auto simp: Let_def dis_def split: option.splits if_splits)
    have "extract_sha256_from_filename nm = Some k"
      using k by (auto simp: parse_filename_for_hash_and_expiration_def extract_sha256_from_filename_def)
    moreover from this have "is_valid_hash k" by (rule quarantined_name(1))
    ultimately have new: "located c (\<lambda>_ m d. md_size m = word_of_nat (length d)) f k ?m" "is_valid_hash k" "md_origin ?m = orig"
      using data Cons.prems(3) by (auto simp: located_def scanned_metadata_def)
    from Cons.IH [OF go] scan_insert_ok [OF Cons.prems(2,4) new dis_def] Cons.prems(3)
    show ?thesis by simp
  qed
qed

lemma scan_stack_ok:
  assumes "scan_stack e f orig stack acc = Inr acc'" and "scan_ok c f acc"
    and "\<forall>d \<in> set stack. \<exists>tail. d = root_of c orig @ tail"
    and "\<forall>m \<in> ran (map_of (fst acc)). md_origin m = Upload \<longrightarrow> orig = Upload"
  shows "scan_ok c f acc' \<and> (\<forall>m \<in> ran (map_of (fst acc')). md_origin m = Upload \<longrightarrow> orig = Upload)"
  using assms
proof (induction e f orig stack acc rule: scan_stack.induct)
  case (1 e f orig stack acc)
  show ?case
  proof (cases "stack = []")
    case True
    then have "acc' = acc" using "1.prems"(1) by (subst (asm) scan_stack.simps) simp
    with "1.prems" show ?thesis by simp
  next
    case False
    let ?d = "last stack"
    obtain names acc1 where names: "fs_read_dir (host e) ?d f = Inr names"
      and acc1: "scan_files e f orig ?d names acc = Inr acc1"
      and go: "scan_stack e f orig (butlast stack @ subdirs f ?d) acc1 = Inr acc'"
      using "1.prems"(1) False by (subst (asm) scan_stack.simps) (auto simp: Let_def split: sum.splits)
    have d: "\<exists>tail. ?d = root_of c orig @ tail" using "1.prems"(3) False by (meson last_in_set)
    note step = scan_files_ok [OF acc1 "1.prems"(2) d "1.prems"(4)]
    have "\<forall>x \<in> set (butlast stack @ subdirs f ?d). \<exists>tail. x = root_of c orig @ tail"
    proof
      fix x
      assume "x \<in> set (butlast stack @ subdirs f ?d)"
      then consider "x \<in> set stack" | nm where "x = ?d @ [nm]"
        by (auto simp: subdirs_def dest: in_set_butlastD)
      then show "\<exists>tail. x = root_of c orig @ tail"
        using d "1.prems"(3) by cases auto
    qed
    from "1.IH" [OF False refl names acc1 go _ this] step show ?thesis by blast
  qed
qed

lemma remove_duplicates_frame:
  assumes "\<forall>m \<in> set ms. md_location m \<noteq> Local q"
  shows "fs_data (st_fs (remove_duplicates h ms s)) q = fs_data (st_fs s) q \<and>
    st_index (remove_duplicates h ms s) = st_index s"
  using assms
proof (induction ms arbitrary: s)
  case Nil
  then show ?case by simp
next
  case (Cons m ms)
  have one: "st_index (case md_location m of Local p \<Rightarrow> snd (on_fs (fs_remove_file h p) s) | S3 _ \<Rightarrow> s) = st_index s \<and>
      fs_data (st_fs (case md_location m of Local p \<Rightarrow> snd (on_fs (fs_remove_file h p) s) | S3 _ \<Rightarrow> s)) q = fs_data (st_fs s) q"
    using drop_temp_effect(1) [where h = h and s = s] drop_temp_effect(5) [where h = h and s = s] Cons.prems
    by (cases "md_location m") (auto simp: drop_temp_def)
  with Cons show ?case by auto
qed

lemma remove_duplicates_index: "st_index (remove_duplicates h ms s) = st_index s"
proof (induction ms arbitrary: s)
  case (Cons m ms)
  then show ?case
    using drop_temp_effect(1) [where h = h and s = s] by (cases "md_location m") (auto simp: drop_temp_def)
qed simp

lemma rebuilt_catalogue:
  assumes "layout_ok c" and "build_file_index c e s = (Inr (), s')"
  shows "store_inv c (\<lambda>_ m d. md_size m = word_of_nat (length d)) s'"
proof -
  obtain m1 d1 m d where first: "scan_blob_root e (st_fs s) (upstream_cache (storage c)) UpstreamCache [] = Inr (m1, d1)"
    and second: "scan_blob_root e (st_fs s) (uploads (storage c)) Upload m1 = Inr (m, d)"
    and s': "s' = remove_duplicates (host e) d (s\<lparr>st_index := index_replace m (st_index s)\<rparr>)"
    using assms(2) by (auto simp: build_file_index_def and_then_Inr_iff split: sum.splits)
  have ok1: "scan_ok c (st_fs s) (m1, d1)"
    by (rule conjunct1, rule scan_stack_ok [OF first [unfolded scan_blob_root_def]])
      (auto simp: scan_ok_def root_of_def)
  then have "scan_ok c (st_fs s) (m1, [])" by (simp add: scan_ok_def)
  from scan_stack_ok [OF second [unfolded scan_blob_root_def] this]
  have ok: "scan_ok c (st_fs s) (m, d)" by (auto simp: root_of_def)
  have ix: "st_index s' = index_replace m (st_index s)" unfolding s' by (simp add: remove_duplicates_index)
  have "located c (\<lambda>_ m d. md_size m = word_of_nat (length d)) (st_fs s') k v"
    if kv: "index_get (st_index s') k = Some v" for k v
  proof -
    have mk: "map_of m k = Some v" using kv ix by (simp add: get_replace)
    then have loc: "located c (\<lambda>_ m d. md_size m = word_of_nat (length d)) (st_fs s) k v"
      using ok by (simp add: scan_ok_def)
    have "fs_data (st_fs s') q = fs_data (st_fs s) q" if q: "md_location v = Local q" for q
    proof -
      have "md_location w \<noteq> Local q" if w: "w \<in> set d" for w
      proof
        assume wq: "md_location w = Local q"
        obtain j m' where j: "located c (\<lambda>_ _ _. True) (st_fs s) j w" "md_origin w = UpstreamCache"
          "map_of m j = Some m'" "md_origin m' = Upload"
          using ok w by (auto simp: scan_ok_def)
        have "j = k" using located_blob_path [OF j(1) wq] located_blob_path [OF loc q] blob_path_hash by blast
        then have "md_origin v \<noteq> md_origin w" using j mk by auto
        moreover obtain tail where "q = root_of c (md_origin w) @ tail" using j(1) wq by (auto simp: located_def)
        ultimately show False using located_local_ne [OF loc assms(1)] q by metis
      qed
      then show ?thesis
        using remove_duplicates_frame [of d q "host e" "s\<lparr>st_index := index_replace m (st_index s)\<rparr>"] s' by simp
    qed
    with loc show ?thesis by (rule located_same)
  qed
  moreover have "index_inv (st_index s')"
    unfolding ix using ok by (auto simp: scan_ok_def)
  ultimately show ?thesis by (simp add: store_inv_def)
qed

text \<open>The files of the two roots are those that were there, less the duplicates.\<close>

lemma remove_duplicates_shrinks:
  "fs_data (st_fs (remove_duplicates h ms s)) q = Some d \<Longrightarrow> fs_data (st_fs s) q = Some d"
proof (induction ms arbitrary: s)
  case (Cons m ms)
  have "fs_data (st_fs s) q = Some d" if "fs_data (st_fs (snd (on_fs (fs_remove_file h p) s))) q = Some d" for p
    using that remove_file_cases [of h p "st_fs s"]
    by (cases "fs_remove_file h p (st_fs s)") (auto simp: on_fs_def hm_simps split: if_splits)
  then show ?case using Cons.IH [OF Cons.prems [unfolded remove_duplicates.simps]] by (auto split: file_location.splits)
qed simp

lemma rebuild_shrinks:
  "build_file_index c e s = (r, s') \<Longrightarrow> fs_data (st_fs s') q = Some d \<Longrightarrow> fs_data (st_fs s) q = Some d"
  by (auto simp: build_file_index_def split: sum.splits dest!: remove_duplicates_shrinks)

section \<open>Properties\<close>

text \<open>C12: Startup establishes the storage invariant: after a successful scan every catalogued blob is a
  file of its own hash in the root of its origin, with its exact length recorded, even though the
  cache copies that lost to an upload have been unlinked.\<close>
theorem build_file_index_consistent:
  assumes "layout_ok c" and "build_file_index c e s = (Inr (), s')"
  shows "store_inv c (\<lambda>_ m d. md_size m = word_of_nat (length d)) s'"
  using assms by (rule rebuilt_catalogue)

text \<open>The example: an upload root holding one file, everything readable.\<close>

definition fs_boot :: fs where
  "fs_boot = \<lparr>fs_files = [([''srv'', ''uploads'', hash_a], [1, 2])],
     fs_dirs = [[''srv'', ''uploads''], [''srv'', ''upstream-cache'']]\<rparr>"

definition store_boot :: store where
  "store_boot = \<lparr>st_fs = fs_boot, st_index = entries_default, st_s3 = None, st_superseded = [],
     st_changes_pending = False\<rparr>"

lemma scan_boot_cache: "scan_blob_root calm_env fs_boot [''srv'', ''upstream-cache''] UpstreamCache [] = Inr ([], [])"
  by (simp add: scan_blob_root_def scan_stack.simps fs_read_dir_def calm_env_def calm_host_def fs_boot_def
      subdirs_def)

lemma scan_boot_uploads: "\<exists>m d. scan_blob_root calm_env fs_boot [''srv'', ''uploads''] Upload [] = Inr (m, d)"
proof -
  have "scan_files calm_env fs_boot Upload [''srv'', ''uploads''] [hash_a] ([], []) =
      Inr ([(hash_a, scanned_metadata calm_env Upload [''srv'', ''uploads'', hash_a] hash_a [1, 2] None)], [])"
    using parse_name_append [OF hash_a_valid, of "[]"]
    by (simp add: parse_filename_for_hash_and_expiration_def fs_boot_def calm_env_def calm_host_def
        parse_rest_def)
  then show ?thesis
    by (simp add: scan_blob_root_def scan_stack.simps fs_read_dir_def calm_env_def calm_host_def fs_boot_def
        subdirs_def)
qed

theorem build_file_index_consistent_witness:
  "\<exists>s'. build_file_index sample_config calm_env store_boot = (Inr (), s') \<and>
     store_inv sample_config (\<lambda>_ m d. md_size m = word_of_nat (length d)) s'"
proof -
  obtain m d where "scan_blob_root calm_env fs_boot [''srv'', ''uploads''] Upload [] = Inr (m, d)"
    using scan_boot_uploads by auto
  then have "\<exists>s'. build_file_index sample_config calm_env store_boot = (Inr (), s')"
    using scan_boot_cache
    by (simp add: build_file_index_def store_boot_def sample_config_def storage_layout_new_def and_then_def)
  then show ?thesis using build_file_index_consistent [OF layout_sample] by blast
qed

end
