(* ===== verification/Helpers.thy ===== *)
theory Helpers
  imports Startup "HOL-Library.Sublist"
begin

text \<open>
  The request and response helpers of \<open>src/helpers.rs\<close> and the descriptor of \<open>src/models.rs\<close>: MIME
  types and extensions, forwarded headers, the cached \<open>Expires\<close> value, server URLs and the merge of
  server lists. \<open>mime_guess\<close> and the date formatter of \<open>chrono\<close> are not in the repository: they are the
  functions \<open>guess\<close>, \<open>exts\<close> and \<open>http_date\<close> the definitions take.
\<close>

section \<open>MIME types\<close>

definition default_mime :: string where
  "default_mime = ''application/octet-stream''"

definition get_mime_type :: "(string \<Rightarrow> string option) \<Rightarrow> string \<Rightarrow> string" where
  "get_mime_type guess file_name =
     (let by_guess = (case guess file_name of None \<Rightarrow> default_mime | Some m \<Rightarrow> m)
      in case path_extension file_name of
           None \<Rightarrow> by_guess
         | Some ext \<Rightarrow>
             (let e = to_lowercase ext in
              if e = ''m3u8'' then ''application/vnd.apple.mpegurl''
              else if e = ''ts'' then ''video/mp2t''
              else if e = ''mpd'' then ''application/dash+xml''
              else by_guess))"

definition get_extension_from_mime :: "(string \<Rightarrow> string option) \<Rightarrow> string \<Rightarrow> string option" where
  "get_extension_from_mime exts content_type =
     (let mime_type = trim (hd (split_on (CHR '';'') content_type)) in
      if mime_type \<in> {''application/vnd.apple.mpegurl'', ''application/x-mpegurl'', ''audio/mpegurl'',
                      ''audio/x-mpegurl''} then Some ''m3u8''
      else if mime_type = ''video/mp2t'' then Some ''ts''
      else if mime_type = ''application/dash+xml'' then Some ''mpd''
      else if mime_type \<in> {''image/jpeg'', ''image/pjpeg''} then Some ''jpg''
      else if mime_type = ''text/plain'' then Some ''txt''
      else if mime_type = ''audio/mpeg'' then Some ''mp3''
      else if mime_type = ''audio/mp4'' then Some ''m4a''
      else if mime_type \<in> {''application/xml'', ''text/xml''} then Some ''xml''
      else if mime_type \<in> {''text/javascript'', ''application/javascript''} then Some ''js''
      else if mime_type = ''application/octet-stream'' then Some ''bin''
      else exts mime_type)"

definition extract_content_type :: "header_map \<Rightarrow> string" where
  "extract_content_type headers =
     (case hget_str headers ''content-type'' of None \<Rightarrow> default_mime | Some v \<Rightarrow> v)"

definition extract_content_type_from_response :: "header_map \<Rightarrow> string" where
  "extract_content_type_from_response headers =
     (case hget_str headers ''content-type'' of None \<Rightarrow> default_mime | Some v \<Rightarrow> v)"

section \<open>Dates\<close>

text \<open>
  \<open>sunset_header\<close>: the seconds must fit a signed 64-bit number and the date type, and the rendered
  date must be a legal header value.
\<close>

definition sunset_header :: "(int \<Rightarrow> string option) \<Rightarrow> u64 option \<Rightarrow> string option" where
  "sunset_header http_date expiration =
     Option.bind expiration (\<lambda>e.
     Option.bind (if unat e < 2 ^ 63 then Some (uint e) else None) (\<lambda>i.
     Option.bind (http_date i) (\<lambda>s. if header_value_ok s then Some s else None)))"

text \<open>
  \<open>EXPIRES_CACHE\<close>: the instant of the last rendering and its value. \<open>t\<close> and \<open>t'\<close> are the readings of the
  clock under the read and under the write lock, \<open>render\<close> the value rendered at a time.
\<close>

definition immutable_expires_header ::
  "(nat \<Rightarrow> string) \<Rightarrow> nat \<Rightarrow> nat \<Rightarrow> nat \<times> string \<Rightarrow> string \<times> (nat \<times> string)" where
  "immutable_expires_header render t t' cached =
     (if t - fst cached < 60 then (snd cached, cached)
      else let cached' = (if t' - fst cached \<ge> 60 then (t', render t') else cached)
           in (snd cached', cached'))"

section \<open>Forwarded headers\<close>

text \<open>\<open>RequestBuilder::header\<close> and the response builder append a header.\<close>

definition forward_header :: "header_map \<Rightarrow> string \<Rightarrow> header_map \<Rightarrow> header_map" where
  "forward_header headers nm out = (case hget headers nm of None \<Rightarrow> out | Some v \<Rightarrow> out @ [(nm, v)])"

definition copy_headers_to_reqwest :: "header_map \<Rightarrow> header_map \<Rightarrow> header_map" where
  "copy_headers_to_reqwest headers request =
     fold (forward_header headers)
       [''user-agent'', ''accept'', ''range'', ''if-range'', ''if-match'', ''if-none-match'',
        ''if-modified-since'', ''if-unmodified-since''] request"

definition copy_headers_without_range :: "header_map \<Rightarrow> header_map \<Rightarrow> header_map" where
  "copy_headers_without_range headers request =
     fold (forward_header headers)
       [''user-agent'', ''accept'', ''if-range'', ''if-match'', ''if-none-match'',
        ''if-modified-since'', ''if-unmodified-since''] request"

definition copy_headers_from_reqwest :: "header_map \<Rightarrow> header_map \<Rightarrow> header_map" where
  "copy_headers_from_reqwest headers builder =
     fold (forward_header headers)
       [''content-range'', ''content-length'', ''accept-ranges'', ''cache-control'', ''etag'',
        ''last-modified''] builder"

definition create_error_response :: "nat \<Rightarrow> string \<Rightarrow> string response" where
  "create_error_response st message =
     \<lparr>status = st, rheaders = [(''content-type'', ''text/plain'')], body = message\<rparr>"

definition create_json_response :: "('a \<Rightarrow> string option) \<Rightarrow> 'a \<Rightarrow> nat + string response" where
  "create_json_response to_json d =
     (case to_json d of
        None \<Rightarrow> Inl 500
      | Some b \<Rightarrow> Inr \<lparr>status = 200, rheaders = [(''content-type'', ''application/json'')], body = b\<rparr>)"

section \<open>Server URLs\<close>

definition has_scheme :: "string \<Rightarrow> bool" where
  "has_scheme url \<longleftrightarrow> starts_with ''http://'' url \<or> starts_with ''https://'' url"

definition normalize_server_url :: "string \<Rightarrow> string" where
  "normalize_server_url raw =
     (let url = trim raw in if has_scheme url then url else ''https://'' @ url)"

definition server_url_candidates :: "string \<Rightarrow> string list" where
  "server_url_candidates raw =
     (let url = trim raw in if has_scheme url then [url] else [''https://'' @ url, ''http://'' @ url])"

definition build_public_blob_url :: "string \<Rightarrow> string \<Rightarrow> string option \<Rightarrow> string" where
  "build_public_blob_url public_base sha256 extension =
     (let base_url = trim_end_matches (CHR ''/'') public_base;
          ext = (case extension of None \<Rightarrow> ''bin'' | Some x \<Rightarrow> if x = [] then ''bin'' else x)
      in base_url @ ''/'' @ sha256 @ ''.'' @ ext)"

text \<open>
  \<open>combine_server_lists\<close>: \<open>seen\<close> is the set of comparison keys, \<open>combined\<close> the list built so far.
\<close>

definition comparison_key :: "string \<Rightarrow> string" where
  "comparison_key url = to_lowercase (trim_end_matches (CHR ''/'') url)"

fun add_servers :: "string list \<Rightarrow> string list \<times> string set \<Rightarrow> string list \<times> string set" where
  "add_servers [] acc = acc"
| "add_servers (server # servers) (combined, seen) =
     (let normalized = normalize_server_url server; key = comparison_key normalized
      in add_servers servers
           (if key \<in> seen then (combined, seen) else (combined @ [normalized], insert key seen)))"

definition combine_server_lists ::
  "string list option \<Rightarrow> string list option \<Rightarrow> string list \<Rightarrow> string list" where
  "combine_server_lists xs_servers as_servers default_servers =
     (let s0 = ([], {});
          s1 = (case xs_servers of None \<Rightarrow> s0 | Some xs \<Rightarrow> add_servers xs s0);
          s2 = (case as_servers of None \<Rightarrow> s1 | Some ys \<Rightarrow> add_servers ys s1);
          s3 = (if default_servers = [] then s2 else add_servers default_servers s2)
      in fst s3)"

section \<open>Blob descriptors\<close>

definition create_blob_descriptor :: "app_config \<Rightarrow> string \<Rightarrow> file_metadata \<Rightarrow> blob_descriptor" where
  "create_blob_descriptor c sha256 m =
     (let content_type = (case md_mime_type m of None \<Rightarrow> default_mime | Some t \<Rightarrow> t);
          url = build_public_blob_url (public_url c) sha256 (md_extension m)
      in \<lparr>bd_url = url, bd_sha256 = sha256, bd_size = md_size m, bd_type = content_type,
          bd_uploaded = md_created_at m, bd_expiration = sunset_expiration m (max_file_age_secs c),
          bd_nip94 = [[''url'', url], [''m'', content_type], [''x'', sha256], [''size'', show_u64 (md_size m)]]\<rparr>)"

section \<open>The merge of server lists\<close>

fun first_by :: "('a \<Rightarrow> 'b) \<Rightarrow> 'b set \<Rightarrow> 'a list \<Rightarrow> 'a list" where
  "first_by key seen [] = []"
| "first_by key seen (x # xs) =
     (if key x \<in> seen then first_by key seen xs else x # first_by key (insert (key x) seen) xs)"

lemma first_by_append:
  "first_by key seen (xs @ ys) = first_by key seen xs @ first_by key (seen \<union> key ` set xs) ys"
  by (induction xs arbitrary: seen) (auto simp: insert_absorb)

lemma first_by_keys:
  "key ` set (first_by key seen xs) = key ` set xs - seen"
  by (induction xs arbitrary: seen) auto

lemma first_by_distinct: "distinct (map key (first_by key seen xs))"
proof (induction xs arbitrary: seen)
  case (Cons x xs)
  then show ?case using first_by_keys [of key "insert (key x) seen" xs] by auto
qed simp

lemma first_by_set: "set (first_by key seen xs) \<subseteq> set xs"
  by (induction xs arbitrary: seen) auto

lemma first_by_subseq: "subseq (first_by key seen xs) xs"
  by (induction xs arbitrary: seen) auto

lemma first_by_fresh: "x \<in> set (first_by key seen xs) \<Longrightarrow> key x \<notin> seen"
  by (metis DiffD2 first_by_keys imageI)

lemma first_by_find:
  assumes "x \<in> set (first_by key seen xs)"
  shows "find (\<lambda>u. key u = key x) xs = Some x"
  using assms
proof (induction xs arbitrary: seen)
  case (Cons a xs)
  show ?case
  proof (cases "a = x")
    case False
    then have "x \<in> set (first_by key (insert (key a) seen) xs) \<or> x \<in> set (first_by key seen xs) \<and> key a \<in> seen"
      using Cons.prems by (auto split: if_splits)
    then have "key x \<noteq> key a" and "find (\<lambda>u. key u = key x) xs = Some x"
      using Cons.IH by (auto dest: first_by_fresh)
    then show ?thesis by simp
  qed simp
qed simp

lemma normalized_has_scheme: "has_scheme (normalize_server_url u)"
  by (auto simp: normalize_server_url_def Let_def has_scheme_def starts_with_def)

lemma add_servers_first:
  "add_servers servers (combined, seen) =
     (combined @ first_by comparison_key seen (map normalize_server_url servers),
      seen \<union> comparison_key ` set (map normalize_server_url servers))"
  by (induction servers arbitrary: combined seen) (auto simp: Let_def insert_absorb)

lemma combine_first:
  "combine_server_lists xs ys ds =
     first_by comparison_key {}
       (map normalize_server_url ((case xs of None \<Rightarrow> [] | Some l \<Rightarrow> l) @
          (case ys of None \<Rightarrow> [] | Some l \<Rightarrow> l) @ ds))"
  by (cases xs; cases ys)
    (auto simp: combine_server_lists_def Let_def add_servers_first first_by_append image_Un)

section \<open>Properties\<close>

end
