(* ===== verification/Fetch.thy ===== *)
theory Fetch
  imports Helpers
begin

text \<open>
  Outgoing requests and streamed bodies (\<open>src/services/upload.rs\<close>): the address policy that keeps
  fetches out of private networks, the fetch that validates every redirect hop, and the two loops that
  stream a body into a temporary file under a size bound.

  URL parsing, name resolution and HTTP are not in the repository: \<open>net_env\<close> answers them, given the
  log of what has been asked before, so two lookups of a name may differ. \<open>net_log\<close> records every lookup,
  every fetch with the addresses its client was pinned to, and every request of the shared upstream
  client with its method, URL and headers.
\<close>

section \<open>Addresses\<close>

datatype ip_addr =
    V4 "8 word" "8 word" "8 word" "8 word"
  | V6 "16 word" "16 word" "16 word" "16 word" "16 word" "16 word" "16 word" "16 word"

definition is_private_v4 :: "8 word \<Rightarrow> 8 word \<Rightarrow> 8 word \<Rightarrow> bool" where
  "is_private_v4 a b c \<longleftrightarrow>
     a = 0 \<or> a = 10 \<or> a = 127 \<or> a \<ge> 224 \<or>
     (a = 100 \<and> 64 \<le> b \<and> b \<le> 127) \<or>
     (a = 169 \<and> b = 254) \<or>
     (a = 172 \<and> 16 \<le> b \<and> b \<le> 31) \<or>
     (a = 192 \<and> (b = 0 \<or> b = 168)) \<or>
     (a = 192 \<and> b = 0 \<and> c = 2) \<or>
     (a = 198 \<and> (b = 18 \<or> b = 19 \<or> b = 51)) \<or>
     (a = 203 \<and> b = 0 \<and> c = 113)"

unbundle bit_operations_syntax

text \<open>The standard library's \<open>to_ipv4_mapped\<close>: \<open>::ffff:a.b.c.d\<close>.\<close>

fun to_ipv4_mapped :: "ip_addr \<Rightarrow> ip_addr option" where
  "to_ipv4_mapped (V4 a b c d) = None"
| "to_ipv4_mapped (V6 s0 s1 s2 s3 s4 s5 s6 s7) =
     (if s0 = 0 \<and> s1 = 0 \<and> s2 = 0 \<and> s3 = 0 \<and> s4 = 0 \<and> s5 = 0xffff
      then Some (V4 (ucast (drop_bit 8 s6)) (ucast s6) (ucast (drop_bit 8 s7)) (ucast s7)) else None)"

fun is_private_ip :: "ip_addr \<Rightarrow> bool" where
  "is_private_ip (V4 a b c d) = is_private_v4 a b c"
| "is_private_ip (V6 s0 s1 s2 s3 s4 s5 s6 s7) =
     (case to_ipv4_mapped (V6 s0 s1 s2 s3 s4 s5 s6 s7) of
        Some (V4 a b c d) \<Rightarrow> is_private_v4 a b c
      | _ \<Rightarrow>
          \<comment> \<open>loopback, unspecified, multicast\<close>
          (s0 = 0 \<and> s1 = 0 \<and> s2 = 0 \<and> s3 = 0 \<and> s4 = 0 \<and> s5 = 0 \<and> s6 = 0 \<and> (s7 = 1 \<or> s7 = 0)) \<or>
          s0 AND 0xff00 = 0xff00 \<or>
          s0 AND 0xffc0 = 0xfe80 \<or>
          s0 AND 0xfe00 = 0xfc00 \<or>
          (s0 = 0x2001 \<and> s1 = 0x0db8))"

definition is_fips_hostname :: "string \<Rightarrow> bool" where
  "is_fips_hostname h \<longleftrightarrow> ends_with ''.fips'' (to_lowercase (trim_end_matches (CHR ''.'') h))"

fun is_fips_overlay_ip :: "ip_addr \<Rightarrow> bool" where
  "is_fips_overlay_ip (V4 a b c d) = False"
| "is_fips_overlay_ip (V6 s0 s1 s2 s3 s4 s5 s6 s7) = (s0 AND 0xff00 = 0xfd00)"

definition is_allowed_private_upstream_ip :: "string \<Rightarrow> ip_addr \<Rightarrow> bool" where
  "is_allowed_private_upstream_ip h ip \<longleftrightarrow> is_fips_hostname h \<and> is_fips_overlay_ip ip"

section \<open>The network\<close>

text \<open>\<open>u_port\<close> is \<open>port_or_known_default\<close>, \<open>u_explicit_port\<close> is \<open>port\<close>.\<close>

record url =
  u_text :: string
  u_scheme :: string
  u_host :: "string option"
  u_port :: "nat option"
  u_explicit_port :: "nat option"

record socket_addr =
  sa_ip :: ip_addr
  sa_port :: nat

datatype dns_answer = Dns_Timeout | Dns_Failed | Dns_Addresses "socket_addr list"

datatype net_event =
    Net_Lookup string nat
  | Net_Get url "socket_addr list"
  | Net_Request string string header_map

type_synonym net_log = "net_event list"

text \<open>A response: the stream items are what the connection delivers, in order.\<close>

record upstream_response =
  ur_status :: nat
  ur_headers :: header_map
  ur_stream :: "(string + bytes) list"

datatype send_error = Send_Timeout | Send_Failed

record net_env =
  url_parse :: "string \<Rightarrow> url option"
  url_join :: "url \<Rightarrow> string \<Rightarrow> url option"
  dns_lookup :: "net_log \<Rightarrow> string \<Rightarrow> nat \<Rightarrow> dns_answer"
  client_fault :: "net_log \<Rightarrow> string option"
  http_send :: "net_log \<Rightarrow> url \<Rightarrow> socket_addr list \<Rightarrow> send_error + upstream_response"
  status_text :: "nat \<Rightarrow> string"

record resolved_target =
  rt_url :: url
  rt_host :: string
  rt_addresses :: "socket_addr list"

definition address_allowed :: "string \<Rightarrow> socket_addr \<Rightarrow> bool" where
  "address_allowed h a \<longleftrightarrow> \<not> is_private_ip (sa_ip a) \<or> is_allowed_private_upstream_ip h (sa_ip a)"

definition resolve_public_target :: "net_env \<Rightarrow> string \<Rightarrow> net_log \<Rightarrow> resolved_target app_result \<times> net_log" where
  "resolve_public_target env u lg =
     (case url_parse env u of
        None \<Rightarrow> (Inl (BadRequest ''Invalid URL format''), lg)
      | Some parsed \<Rightarrow>
          (case u_host parsed of
             None \<Rightarrow> (Inl (BadRequest ''URL has no hostname''), lg)
           | Some h \<Rightarrow>
               if u_scheme parsed \<noteq> ''https'' \<and> \<not> (u_scheme parsed = ''http'' \<and> is_fips_hostname h)
               then (Inl (BadRequest ''Only HTTPS URLs are allowed''), lg)
               else let port = (case u_port parsed of None \<Rightarrow> 443 | Some p \<Rightarrow> p);
                        lg' = lg @ [Net_Lookup h port]
                    in (case dns_lookup env lg h port of
                        Dns_Timeout \<Rightarrow> (Inl (Timeout (''DNS resolution timeout for '' @ h)), lg')
                      | Dns_Failed \<Rightarrow> (Inl (BadRequest (''DNS resolution failed for '' @ h)), lg')
                      | Dns_Addresses all \<Rightarrow>
                          (let addresses = filter (address_allowed h) all
                           in if addresses = []
                              then (Inl (BadRequest ''URL does not resolve to a publicly routable address''), lg')
                              else (Inr \<lparr>rt_url = parsed, rt_host = h, rt_addresses = addresses\<rparr>, lg')))))"

definition validate_url_for_ssrf :: "net_env \<Rightarrow> string \<Rightarrow> net_log \<Rightarrow> unit app_result \<times> net_log" where
  "validate_url_for_ssrf env u lg = bind_st (resolve_public_target env u lg) (\<lambda>_ lg'. (Inr (), lg'))"

definition validate_upstream_url :: "net_env \<Rightarrow> string \<Rightarrow> net_log \<Rightarrow> string app_result \<times> net_log" where
  "validate_upstream_url env server_url lg =
     (let normalized = normalize_server_url server_url
      in bind_st (validate_url_for_ssrf env normalized lg) (\<lambda>_ lg'. (Inr normalized, lg')))"

section \<open>Fetching with validated redirects\<close>

definition is_success :: "nat \<Rightarrow> bool" where
  "is_success st \<longleftrightarrow> 200 \<le> st \<and> st < 300"

definition is_redirection :: "nat \<Rightarrow> bool" where
  "is_redirection st \<longleftrightarrow> 300 \<le> st \<and> st < 400"

definition resolve_redirect_url :: "net_env \<Rightarrow> url \<Rightarrow> string \<Rightarrow> string app_result" where
  "resolve_redirect_url env base location =
     ok_or (map_option u_text (url_join env base location))
       (BadGateway ''Upstream redirect has an invalid Location'')"

datatype hop = Hop_Done upstream_response | Hop_Redirect url upstream_response

text \<open>The body of the loop up to the test of the redirect limit, then the rest.\<close>

definition fetch_hop :: "net_env \<Rightarrow> string \<Rightarrow> net_log \<Rightarrow> hop app_result \<times> net_log" where
  "fetch_hop env next_url lg =
     bind_st (resolve_public_target env next_url lg) (\<lambda>target lg1.
       case client_fault env lg1 of
         Some e \<Rightarrow> (Inl (InternalError (''Failed to build pinned HTTP client: '' @ e)), lg1)
       | None \<Rightarrow>
           (let lg2 = lg1 @ [Net_Get (rt_url target) (rt_addresses target)]
            in case http_send env lg1 (rt_url target) (rt_addresses target) of
                 Inl Send_Timeout \<Rightarrow> (Inl (BadGateway ''Upstream request timed out''), lg2)
               | Inl Send_Failed \<Rightarrow> (Inl (BadGateway ''Failed to fetch upstream URL''), lg2)
               | Inr response \<Rightarrow>
                   if is_success (ur_status response) then (Inr (Hop_Done response), lg2)
                   else if \<not> is_redirection (ur_status response)
                   then (Inl (BadGateway (''Upstream returned status '' @ status_text env (ur_status response))), lg2)
                   else (Inr (Hop_Redirect (rt_url target) response), lg2)))"

definition next_location :: "net_env \<Rightarrow> url \<Rightarrow> upstream_response \<Rightarrow> string app_result" where
  "next_location env base response =
     and_then (ok_or (hget_str (ur_headers response) ''location'')
                 (BadGateway ''Upstream redirect has no valid Location''))
       (resolve_redirect_url env base)"

primrec fetch_loop :: "net_env \<Rightarrow> nat \<Rightarrow> string \<Rightarrow> net_log \<Rightarrow> upstream_response app_result \<times> net_log" where
  "fetch_loop env 0 next_url lg =
     bind_st (fetch_hop env next_url lg) (\<lambda>hp lg'. case hp of
         Hop_Done response \<Rightarrow> (Inr response, lg')
       | Hop_Redirect _ _ \<Rightarrow> (Inl (BadGateway ''Upstream exceeded redirect limit''), lg'))"
| "fetch_loop env (Suc redirects_left) next_url lg =
     bind_st (fetch_hop env next_url lg) (\<lambda>hp lg'. case hp of
         Hop_Done response \<Rightarrow> (Inr response, lg')
       | Hop_Redirect base response \<Rightarrow>
           (case next_location env base response of
              Inl e \<Rightarrow> (Inl e, lg')
            | Inr u \<Rightarrow> fetch_loop env redirects_left u lg'))"

definition fetch_from_url :: "net_env \<Rightarrow> string \<Rightarrow> net_log \<Rightarrow> upstream_response app_result \<times> net_log" where
  "fetch_from_url env u lg = fetch_loop env 5 u lg"

definition check_size_limit :: "u64 option \<Rightarrow> u64 \<Rightarrow> unit app_result" where
  "check_size_limit content_length max_size_bytes =
     (case content_length of
        None \<Rightarrow> Inr ()
      | Some n \<Rightarrow>
          if n > max_size_bytes
          then Inl (PayloadTooLarge (''File too large: '' @ show_u64 (n div (1024 * 1024)) @
                 '' MB exceeds limit of '' @ show_u64 (max_size_bytes div (1024 * 1024)) @ '' MB''))
          else Inr ())"

section \<open>Streaming into a temporary file\<close>

text \<open>\<open>slice::chunks\<close>.\<close>

function chunks_of :: "nat \<Rightarrow> 'a list \<Rightarrow> 'a list list" where
  "chunks_of n xs = (if n = 0 \<or> xs = [] then [] else take n xs # chunks_of n (drop n xs))"
  by pat_completeness auto
termination by (relation "measure (\<lambda>(n, xs). length xs)") auto

declare chunks_of.simps [simp del]

text \<open>
  The hasher and the byte count run along: \<open>hashed\<close> is what \<open>Sha256\<close> has been fed. Each loop ends with
  \<open>sync_all\<close>; \<open>sha\<close> is the hexadecimal SHA-256.
\<close>

fun write_chunks ::
  "host_env \<Rightarrow> path \<Rightarrow> u64 \<Rightarrow> bytes list \<Rightarrow> bytes \<times> u64 \<Rightarrow> fs \<Rightarrow> (bytes \<times> u64) app_result \<times> fs" where
  "write_chunks h p max_bytes [] st f = (Inr st, f)"
| "write_chunks h p max_bytes (chunk # chunks) (hashed, total_bytes) f =
     (case checked_add total_bytes (word_of_nat (length chunk)) of
        None \<Rightarrow> (Inl (PayloadTooLarge ''Upload size overflow''), f)
      | Some next_total \<Rightarrow>
          if next_total > max_bytes
          then (Inl (PayloadTooLarge (''Upload exceeds configured maximum of '' @ show_u64 max_bytes @ '' bytes'')), f)
          else bind_st (err_st (\<lambda>e. IoError (''Failed to write to temp file: '' @ io_text e))
                          (fs_append h p chunk f))
                 (\<lambda>_ f'. write_chunks h p max_bytes chunks (hashed @ chunk, next_total) f'))"

fun upload_loop ::
  "host_env \<Rightarrow> path \<Rightarrow> u64 \<Rightarrow> ('x + bytes) list \<Rightarrow> bytes \<times> u64 \<Rightarrow> fs \<Rightarrow> (bytes \<times> u64) app_result \<times> fs" where
  "upload_loop h p max_bytes [] st f = (Inr st, f)"
| "upload_loop h p max_bytes (Inl _ # items) st f =
     (Inl (PayloadTooLarge ''Request body exceeded the configured upload limit''), f)"
| "upload_loop h p max_bytes (Inr data # items) st f =
     bind_st (write_chunks h p max_bytes (chunks_of (1024 * 1024) data) st f)
       (\<lambda>st' f'. upload_loop h p max_bytes items st' f')"

definition finish_stream ::
  "host_env \<Rightarrow> (bytes \<Rightarrow> string) \<Rightarrow> path \<Rightarrow> bytes \<times> u64 \<Rightarrow> fs \<Rightarrow> (string \<times> u64) app_result \<times> fs" where
  "finish_stream h sha p = (\<lambda>(hashed, total) f.
     (case fs_sync h p f of
        Inl e \<Rightarrow> (Inl (IoError (''Failed to sync temp file: '' @ io_text e)), f)
      | Inr _ \<Rightarrow> (Inr (sha hashed, total), f)))"

definition stream_to_temp_file ::
  "host_env \<Rightarrow> (bytes \<Rightarrow> string) \<Rightarrow> ('x + bytes) list \<Rightarrow> path \<Rightarrow> u64 \<Rightarrow> fs \<Rightarrow>
     (string \<times> u64) app_result \<times> fs" where
  "stream_to_temp_file h sha items p max_bytes f =
     bind_st (err_st (\<lambda>e. IoError (''Failed to create temp file: '' @ io_text e)) (fs_create h p f)) (\<lambda>_ f1.
     bind_st (upload_loop h p max_bytes items ([], 0) f1) (\<lambda>st f2. finish_stream h sha p st f2))"

fun contains_str :: "string \<Rightarrow> string \<Rightarrow> bool" where
  "contains_str pat [] = (pat = [])"
| "contains_str pat (c # cs) = (starts_with pat (c # cs) \<or> contains_str pat cs)"

fun download_loop ::
  "host_env \<Rightarrow> path \<Rightarrow> u64 \<Rightarrow> (string + bytes) list \<Rightarrow> bytes \<times> u64 \<Rightarrow> fs \<Rightarrow> (bytes \<times> u64) app_result \<times> fs" where
  "download_loop h p max_size_bytes [] st f = (Inr st, f)"
| "download_loop h p max_size_bytes (Inl error_msg # items) st f =
     (if contains_str ''timeout'' error_msg \<or> contains_str ''timed out'' error_msg
      then (Inl (Timeout ''Download timeout''), f)
      else (Inl (NetworkError (''Failed to read chunk: '' @ error_msg)), f))"
| "download_loop h p max_size_bytes (Inr chunk # items) (hashed, body_size) f =
     (case checked_add body_size (word_of_nat (length chunk)) of
        None \<Rightarrow> (Inl (PayloadTooLarge ''Download size overflow''), f)
      | Some new_size \<Rightarrow>
          if new_size > max_size_bytes
          then (Inl (PayloadTooLarge (''File too large: '' @ show_u64 new_size @ '' bytes exceeds limit of '' @
                  show_u64 (max_size_bytes div (1024 * 1024)) @ '' MB'')), f)
          else bind_st (err_st (\<lambda>e. IoError (''Failed to write chunk: '' @ io_text e)) (fs_append h p chunk f))
                 (\<lambda>_ f'. download_loop h p max_size_bytes items
                    (hashed @ chunk, body_size + word_of_nat (length chunk)) f'))"

definition stream_response_to_temp_file ::
  "host_env \<Rightarrow> (bytes \<Rightarrow> string) \<Rightarrow> upstream_response \<Rightarrow> path \<Rightarrow> u64 \<Rightarrow> fs \<Rightarrow>
     (string \<times> u64) app_result \<times> fs" where
  "stream_response_to_temp_file h sha response p max_size_bytes f =
     bind_st (err_st (\<lambda>e. IoError (''Failed to create temp file: '' @ io_text e)) (fs_create h p f)) (\<lambda>_ f1.
     bind_st (download_loop h p max_size_bytes (ur_stream response) ([], 0) f1) (\<lambda>st f2.
       finish_stream h sha p st f2))"

section \<open>The address policy as a list of networks\<close>

text \<open>An IPv4 address as a number, and membership in a network given by its base and prefix length.\<close>

definition v4_number :: "8 word \<Rightarrow> 8 word \<Rightarrow> 8 word \<Rightarrow> 8 word \<Rightarrow> nat" where
  "v4_number a b c d = unat a * 16777216 + unat b * 65536 + unat c * 256 + unat d"

definition in_network :: "nat \<Rightarrow> (8 word \<times> 8 word \<times> 8 word \<times> 8 word) \<times> nat \<Rightarrow> bool" where
  "in_network n = (\<lambda>((a, b, c, d), len). n div 2 ^ (32 - len) = v4_number a b c d div 2 ^ (32 - len))"

definition reserved_networks :: "((8 word \<times> 8 word \<times> 8 word \<times> 8 word) \<times> nat) list" where
  "reserved_networks =
     [((0, 0, 0, 0), 8), ((10, 0, 0, 0), 8), ((100, 64, 0, 0), 10), ((127, 0, 0, 0), 8),
      ((169, 254, 0, 0), 16), ((172, 16, 0, 0), 12), ((192, 0, 0, 0), 16), ((192, 168, 0, 0), 16),
      ((198, 18, 0, 0), 15), ((198, 51, 0, 0), 16), ((203, 0, 113, 0), 24), ((224, 0, 0, 0), 3)]"

lemma octet_bound [simp]: "unat (a :: 8 word) < 256"
  using unsigned_less [of a] by simp

lemma quotient_by: "(n :: nat) = q * k + r \<Longrightarrow> r < k \<Longrightarrow> n div k = q"
  by simp

lemma quotient_iff: "0 < k \<Longrightarrow> (y :: nat) div k = q \<longleftrightarrow> q * k \<le> y \<and> y < q * k + k"
  by (metis add.commute div_nat_eqI dividend_less_times_div mult.commute mult_Suc_right times_div_less_eq_dividend)

lemma two_digits: "(y :: nat) < k \<Longrightarrow> x * k + y = N \<longleftrightarrow> x = N div k \<and> y = N mod k"
  by (metis div_mult_mod_eq quotient_by mod_mult_self3 mod_less)

lemma v4_quotients:
  "v4_number a b c d div 16777216 = unat a"
  "v4_number a b c d div 65536 = unat a * 256 + unat b"
  "v4_number a b c d div 256 = 65536 * unat a + unat b * 256 + unat c"
  "v4_number a b c d div 536870912 = unat a div 32"
  "v4_number a b c d div 4194304 = unat a * 4 + unat b div 64"
  "v4_number a b c d div 1048576 = unat a * 16 + unat b div 16"
  "v4_number a b c d div 131072 = unat a * 128 + unat b div 2"
proof -
  note bounds = octet_bound [of a] octet_bound [of b] octet_bound [of c] octet_bound [of d]
  note parts = div_mult_mod_eq [of "unat a" 32] div_mult_mod_eq [of "unat b" 64] div_mult_mod_eq [of "unat b" 16]
    div_mult_mod_eq [of "unat b" 2]
  have rests: "unat a mod 32 < 32" "unat b mod 64 < 64" "unat b mod 16 < 16" "unat b mod 2 < 2" by simp_all
  show "v4_number a b c d div 16777216 = unat a"
    unfolding v4_number_def
    by (rule quotient_by [where r = "unat b * 65536 + unat c * 256 + unat d"], simp, use bounds rests in linarith)
  show "v4_number a b c d div 65536 = unat a * 256 + unat b"
    unfolding v4_number_def
    by (rule quotient_by [where r = "unat c * 256 + unat d"], simp, use bounds rests in linarith)
  show "v4_number a b c d div 256 = 65536 * unat a + unat b * 256 + unat c"
    unfolding v4_number_def
    by (rule quotient_by [where r = "unat d"], simp, use bounds rests in linarith)
  show "v4_number a b c d div 536870912 = unat a div 32"
    unfolding v4_number_def
    by (rule quotient_by [where r = "unat a mod 32 * 16777216 + unat b * 65536 + unat c * 256 + unat d"], (simp only: distrib_right mult.assoc)?, use parts in linarith,
        use bounds rests in linarith)
  show "v4_number a b c d div 4194304 = unat a * 4 + unat b div 64"
    unfolding v4_number_def
    by (rule quotient_by [where r = "unat b mod 64 * 65536 + unat c * 256 + unat d"], (simp only: distrib_right mult.assoc)?, use parts in linarith,
        use bounds rests in linarith)
  show "v4_number a b c d div 1048576 = unat a * 16 + unat b div 16"
    unfolding v4_number_def
    by (rule quotient_by [where r = "unat b mod 16 * 65536 + unat c * 256 + unat d"], (simp only: distrib_right mult.assoc)?, use parts in linarith,
        use bounds rests in linarith)
  show "v4_number a b c d div 131072 = unat a * 128 + unat b div 2"
    unfolding v4_number_def
    by (rule quotient_by [where r = "unat b mod 2 * 65536 + unat c * 256 + unat d"], (simp only: distrib_right mult.assoc)?, use parts in linarith,
        use bounds rests in linarith)
qed

lemma octet_blocks:
  fixes x y z :: nat
  assumes "x < 256" "y < 256" "z < 256"
  shows "x div 32 = 7 \<longleftrightarrow> 224 \<le> x"
    and "x * 4 + y div 64 = 401 \<longleftrightarrow> x = 100 \<and> 64 \<le> y \<and> y \<le> 127"
    and "x * 16 + y div 16 = 2753 \<longleftrightarrow> x = 172 \<and> 16 \<le> y \<and> y \<le> 31"
    and "x * 128 + y div 2 = 25353 \<longleftrightarrow> x = 198 \<and> (y = 18 \<or> y = 19)"
    and "x * 256 + y = 43518 \<longleftrightarrow> x = 169 \<and> y = 254"
    and "x * 256 + y = 49152 \<longleftrightarrow> x = 192 \<and> y = 0"
    and "x * 256 + y = 49320 \<longleftrightarrow> x = 192 \<and> y = 168"
    and "x * 256 + y = 50739 \<longleftrightarrow> x = 198 \<and> y = 51"
    and "65536 * x + y * 256 + z = 13303921 \<longleftrightarrow> x = 203 \<and> y = 0 \<and> z = 113"
proof -
  show "x div 32 = 7 \<longleftrightarrow> 224 \<le> x" using assms(1) by (simp add: quotient_iff)
  have "y div 64 = 1 \<longleftrightarrow> 64 \<le> y \<and> y \<le> 127" by (simp add: quotient_iff) linarith
  then show "x * 4 + y div 64 = 401 \<longleftrightarrow> x = 100 \<and> 64 \<le> y \<and> y \<le> 127"
    using assms(2) two_digits [of "y div 64" 4 x 401] by simp
  have "y div 16 = 1 \<longleftrightarrow> 16 \<le> y \<and> y \<le> 31" by (simp add: quotient_iff) linarith
  then show "x * 16 + y div 16 = 2753 \<longleftrightarrow> x = 172 \<and> 16 \<le> y \<and> y \<le> 31"
    using assms(2) two_digits [of "y div 16" 16 x 2753] by simp
  have "y div 2 = 9 \<longleftrightarrow> y = 18 \<or> y = 19" by (simp add: quotient_iff) linarith
  then show "x * 128 + y div 2 = 25353 \<longleftrightarrow> x = 198 \<and> (y = 18 \<or> y = 19)"
    using assms(2) two_digits [of "y div 2" 128 x 25353] by simp
  have two: "x * 256 + y = n \<longleftrightarrow> x = n div 256 \<and> y = n mod 256" for n
    by (rule two_digits [OF assms(2)])
  show "x * 256 + y = 43518 \<longleftrightarrow> x = 169 \<and> y = 254" "x * 256 + y = 49152 \<longleftrightarrow> x = 192 \<and> y = 0"
    "x * 256 + y = 49320 \<longleftrightarrow> x = 192 \<and> y = 168" "x * 256 + y = 50739 \<longleftrightarrow> x = 198 \<and> y = 51"
    by (simp_all only: two) simp_all
  have "65536 * x + y * 256 + z = (x * 256 + y) * 256 + z" by simp
  also have "\<dots> = 13303921 \<longleftrightarrow> x * 256 + y = 51968 \<and> z = 113"
    by (simp only: two_digits [OF assms(3)]) simp
  also have "\<dots> \<longleftrightarrow> x = 203 \<and> y = 0 \<and> z = 113" by (simp only: two) simp
  finally show "65536 * x + y * 256 + z = 13303921 \<longleftrightarrow> x = 203 \<and> y = 0 \<and> z = 113" .
qed

section \<open>The log of a fetch\<close>

definition is_get :: "net_event \<Rightarrow> bool" where
  "is_get ev = (case ev of Net_Get _ _ \<Rightarrow> True | _ \<Rightarrow> False)"

text \<open>A request the address policy permits; one that is not pinned to vetted addresses never is.\<close>

definition event_safe :: "net_event \<Rightarrow> bool" where
  "event_safe ev =
     (case ev of
        Net_Lookup _ _ \<Rightarrow> True
      | Net_Request _ _ _ \<Rightarrow> False
      | Net_Get u addrs \<Rightarrow>
          (case u_host u of
             None \<Rightarrow> False
           | Some h \<Rightarrow> addrs \<noteq> [] \<and>
               (u_scheme u = ''https'' \<or> u_scheme u = ''http'' \<and> is_fips_hostname h) \<and>
               list_all (\<lambda>a. is_private_ip (sa_ip a) \<longrightarrow> is_fips_hostname h \<and> is_fips_overlay_ip (sa_ip a)) addrs))"

definition final_answer :: "net_env \<Rightarrow> net_log \<Rightarrow> upstream_response \<Rightarrow> bool" where
  "final_answer env lg response =
     (lg \<noteq> [] \<and> (case last lg of
        Net_Get u addrs \<Rightarrow> http_send env (butlast lg) u addrs = Inr response
      | _ \<Rightarrow> False))"

lemma resolve_log:
  "resolve_public_target env u lg = (r, lg') \<Longrightarrow>
     (\<exists>new. lg' = lg @ new \<and> filter is_get new = [] \<and> list_all event_safe new) \<and>
     (case r of Inl _ \<Rightarrow> True
      | Inr t \<Rightarrow> u_host (rt_url t) = Some (rt_host t) \<and> event_safe (Net_Get (rt_url t) (rt_addresses t)))"
  by (auto simp: resolve_public_target_def Let_def is_get_def event_safe_def list_all_iff address_allowed_def
      is_allowed_private_upstream_ip_def split: option.splits dns_answer.splits if_splits)

lemma fetch_hop_log:
  assumes "fetch_hop env u lg = (r, lg')"
  shows "\<exists>new. lg' = lg @ new \<and> length (filter is_get new) \<le> 1 \<and> list_all event_safe new \<and>
     (case r of Inr (Hop_Done response) \<Rightarrow> is_success (ur_status response) \<and> final_answer env lg' response
      | _ \<Rightarrow> True)"
proof (cases "resolve_public_target env u lg")
  case (Pair t lg1)
  from resolve_log [OF Pair] obtain new where new: "lg1 = lg @ new" "filter is_get new = []" "list_all event_safe new"
    by blast
  show ?thesis
  proof (cases t)
    case (Inl e)
    then show ?thesis using assms Pair new by (auto simp: fetch_hop_def)
  next
    case (Inr target)
    have safe: "event_safe (Net_Get (rt_url target) (rt_addresses target))"
      using resolve_log [OF Pair] Inr by simp
    show ?thesis
      using assms Pair new safe Inr
      by (auto simp: fetch_hop_def Let_def final_answer_def is_get_def butlast_append
          split: option.splits sum.splits if_splits send_error.splits)
  qed
qed

lemma fetch_loop_log:
  "fetch_loop env k u lg = (r, lg') \<Longrightarrow>
     \<exists>new. lg' = lg @ new \<and> length (filter is_get new) \<le> Suc k \<and> list_all event_safe new \<and>
       (case r of Inr response \<Rightarrow> is_success (ur_status response) \<and> final_answer env lg' response
        | Inl _ \<Rightarrow> True)"
proof (induction k arbitrary: u lg)
  case 0
  obtain h lg1 where hop: "fetch_hop env u lg = (h, lg1)" by fastforce
  from fetch_hop_log [OF hop] 0 hop show ?case by (auto split: sum.splits hop.splits)
next
  case (Suc k)
  obtain h lg1 where hop: "fetch_hop env u lg = (h, lg1)" by fastforce
  from fetch_hop_log [OF hop] obtain new where new: "lg1 = lg @ new" "length (filter is_get new) \<le> 1"
    "list_all event_safe new" by blast
  show ?case
  proof (cases "\<exists>base response v. h = Inr (Hop_Redirect base response) \<and> next_location env base response = Inr v")
    case True
    then obtain v where "fetch_loop env k v lg1 = (r, lg')" using Suc.prems hop by auto
    from Suc.IH [OF this] obtain new' where "lg' = lg1 @ new'" "length (filter is_get new') \<le> Suc k"
      "list_all event_safe new'"
      "case r of Inr response \<Rightarrow> is_success (ur_status response) \<and> final_answer env lg' response | Inl _ \<Rightarrow> True"
      by blast
    then show ?thesis using new by (intro exI [of _ "new @ new'"]) auto
  next
    case False
    then show ?thesis using fetch_hop_log [OF hop] Suc.prems hop
      by (auto split: sum.splits hop.splits intro: le_SucI)
  qed
qed

section \<open>What the streams write\<close>

lemma concat_chunks_of: "0 < n \<Longrightarrow> concat (chunks_of n xs) = xs"
  by (induction n xs rule: chunks_of.induct) (subst chunks_of.simps, auto)

lemma chunks_of_small: "c \<in> set (chunks_of n xs) \<Longrightarrow> length c \<le> n"
  by (induction n xs rule: chunks_of.induct) (subst (asm) (2) chunks_of.simps, auto split: if_splits)

lemma unat_of_small: "n < 2 ^ 64 \<Longrightarrow> unat (word_of_nat n :: u64) = n"
  by (simp add: unsigned_of_nat take_bit_nat_eq_self)

lemma append_file_cases:
  "fs_append h p d f = (r, f') \<Longrightarrow>
     (r = Inr () \<and> f' = f\<lparr>fs_files := hm_insert p ((case fs_data f p of None \<Rightarrow> [] | Some b \<Rightarrow> b) @ d) (fs_files f)\<rparr>) \<or>
     (\<exists>e. r = Inl e \<and> f' = f)"
  by (auto simp: fs_append_def split: option.splits)

text \<open>Nothing but the temporary file changes.\<close>

definition only_file :: "path \<Rightarrow> fs \<Rightarrow> fs \<Rightarrow> bool" where
  "only_file p f f' \<longleftrightarrow> fs_dirs f' = fs_dirs f \<and> (\<forall>q. q \<noteq> p \<longrightarrow> fs_data f' q = fs_data f q)"

lemma only_file_refl [simp]: "only_file p f f"
  by (simp add: only_file_def)

lemma only_file_trans: "only_file p f f' \<Longrightarrow> only_file p f' f'' \<Longrightarrow> only_file p f f''"
  by (simp add: only_file_def)

lemma append_only: "fs_append h p d f = (r, f') \<Longrightarrow> only_file p f f'"
  by (auto dest!: append_file_cases simp: only_file_def hm_simps)

lemma create_only: "fs_create h p f = (r, f') \<Longrightarrow> only_file p f f'"
  by (auto simp: fs_create_def only_file_def hm_simps split: option.splits if_splits)

lemma write_chunks_only: "write_chunks h p mx chs st f = (r, f') \<Longrightarrow> only_file p f f'"
proof (induction h p mx chs st f arbitrary: r f' rule: write_chunks.induct)
  case (2 h p mx ch chs hashed total f)
  obtain ra fa where a: "fs_append h p ch f = (ra, fa)" by fastforce
  show ?case
    using 2 a append_only [OF a] by (cases ra) (auto split: option.splits if_splits intro: only_file_trans)
qed auto

lemma upload_loop_only: "upload_loop h p mx items st f = (r, f') \<Longrightarrow> only_file p f f'"
proof (induction h p mx items st f arbitrary: r f' rule: upload_loop.induct)
  case (3 h p mx data items st f)
  obtain rw fw where w: "write_chunks h p mx (chunks_of (1024 * 1024) data) st f = (rw, fw)" by fastforce
  show ?case
    using 3 w write_chunks_only [OF w] by (cases rw) (auto intro: only_file_trans)
qed auto

text \<open>The running state of a stream: what has been hashed is what the file holds, counted exactly.\<close>

definition stream_state :: "path \<Rightarrow> u64 \<Rightarrow> bytes \<Rightarrow> bytes \<times> u64 \<Rightarrow> fs \<Rightarrow> bool" where
  "stream_state p mx d st f \<longleftrightarrow>
     fst st = d \<and> unat (snd st) = length d \<and> snd st \<le> mx \<and> fs_data f p = Some d"

lemma write_chunks_ok:
  "write_chunks h p mx chs st f = (Inr st', f') \<Longrightarrow> stream_state p mx d st f \<Longrightarrow>
     \<forall>c \<in> set chs. length c < 2 ^ 64 \<Longrightarrow> stream_state p mx (d @ concat chs) st' f'"
proof (induction h p mx chs st f arbitrary: d rule: write_chunks.induct)
  case (2 h p mx ch chs hashed total f)
  obtain ra fa where a: "fs_append h p ch f = (ra, fa)" by fastforce
  from 2(2) a obtain nt where nt: "checked_add total (word_of_nat (length ch)) = Some nt" "nt \<le> mx"
    and ok: "ra = Inr ()" and rest: "write_chunks h p mx chs (hashed @ ch, nt) fa = (Inr st', f')"
    by (cases ra) (auto split: option.splits if_splits)
  have "unat nt = unat total + length ch"
    using nt(1) 2(4) unat_of_small [of "length ch"] by (simp add: checked_add_Some_iff)
  then have "stream_state p mx (d @ ch) (hashed @ ch, nt) fa"
    using 2(3) nt(2) append_file_cases [OF a] ok by (auto simp: stream_state_def hm_simps)
  then have "stream_state p mx ((d @ ch) @ concat chs) st' f'"
    using 2(1) [OF nt(1) _ rest, of "d @ ch"] 2(4) nt(2) by auto
  then show ?case by simp
qed simp

lemma upload_loop_ok:
  "upload_loop h p mx items st f = (Inr st', f') \<Longrightarrow> stream_state p mx d st f \<Longrightarrow>
     \<exists>ds. items = map Inr ds \<and> stream_state p mx (d @ concat ds) st' f'"
proof (induction h p mx items st f arbitrary: d rule: upload_loop.induct)
  case (1 h p mx st f)
  then show ?case by (intro exI [of _ "[]"]) simp
next
  case (3 h p mx data items st f)
  obtain rw fw where w: "write_chunks h p mx (chunks_of (1024 * 1024) data) st f = (rw, fw)" by fastforce
  with 3(2) obtain st1 where ok: "rw = Inr st1" and rest: "upload_loop h p mx items st1 fw = (Inr st', f')"
    by (cases rw) auto
  have "stream_state p mx (d @ concat (chunks_of (1024 * 1024) data)) st1 fw"
    by (rule write_chunks_ok [OF w [unfolded ok] 3(3)]) (auto dest!: chunks_of_small)
  then have "stream_state p mx (d @ data) st1 fw" by (simp add: concat_chunks_of)
  from 3(1) [OF rest this] obtain ds where "items = map Inr ds" "stream_state p mx ((d @ data) @ concat ds) st' f'"
    by blast
  then show ?case by (intro exI [of _ "data # ds"]) simp
qed simp

lemma upload_stream_contents:
  assumes "stream_to_temp_file h sha items p max_bytes f = (Inr (hash, n), f')"
  shows "\<exists>ds. items = map Inr ds \<and> fs_data f' p = Some (concat ds) \<and> hash = sha (concat ds) \<and>
     unat n = length (concat ds) \<and> n \<le> max_bytes \<and> only_file p f f'"
proof -
  obtain rc f1 where c: "fs_create h p f = (rc, f1)" by fastforce
  obtain ru f2 where u: "upload_loop h p max_bytes items ([], 0) f1 = (ru, f2)" by fastforce
  from assms c obtain st where rc: "rc = Inr ()" and ru: "ru = Inr st" and fin: "finish_stream h sha p st f2 = (Inr (hash, n), f')"
    using u by (cases rc; cases ru) (auto simp: stream_to_temp_file_def)
  have "stream_state p max_bytes [] ([], 0) f1"
    using c rc by (auto simp: stream_state_def fs_create_def hm_simps split: option.splits if_splits)
  from upload_loop_ok [OF u [unfolded ru] this] obtain ds
    where "items = map Inr ds" "stream_state p max_bytes (concat ds) st f2" by auto
  moreover have "f' = f2" "hash = sha (fst st)" "n = snd st"
    using fin by (auto simp: finish_stream_def split: sum.splits prod.splits)
  moreover have "only_file p f f2"
    using create_only [OF c] upload_loop_only [OF u] by (rule only_file_trans)
  ultimately show ?thesis by (auto simp: stream_state_def)
qed

section \<open>Properties\<close>

text \<open>The IPv4 address filter is exactly a list of networks: an address is refused precisely when it
  lies in one of twelve reserved blocks (this-network, RFC 1918, carrier NAT, loopback, link-local,
  IETF, benchmarking and documentation blocks, multicast and above), and an IPv4-mapped IPv6
  address is treated as the address it maps.\<close>
lemma is_private_ip_networks:
  "(is_private_ip (V4 a b c d) \<longleftrightarrow> list_ex (in_network (v4_number a b c d)) reserved_networks) \<and>
   is_private_ip (V6 0 0 0 0 0 0xffff s6 s7) =
     is_private_ip (V4 (ucast (drop_bit 8 s6)) (ucast s6) (ucast (drop_bit 8 s7)) (ucast s7))"
proof
  show "is_private_ip (V4 a b c d) \<longleftrightarrow> list_ex (in_network (v4_number a b c d)) reserved_networks"
    by (simp add: reserved_networks_def in_network_def v4_quotients is_private_v4_def
        octet_blocks [OF octet_bound [of a] octet_bound [of b] octet_bound [of c]]
        word_unat_eq_iff word_le_nat_alt) blast
qed simp

text \<open>C13: No fetch reaches a private network: whatever URL is fetched and whatever the name service and
  the servers answer, every request made on the way, redirect hops included, goes over HTTPS (or HTTP
  to a host of the overlay) to a non-empty list of addresses the policy admits for that very URL; at
  most six requests are made; and a returned response is the successful answer to the last of them.\<close>
theorem fetch_never_private:
  "let (r, lg') = fetch_from_url env u lg; new = drop (length lg) lg'
   in lg' = lg @ new \<and> list_all event_safe new \<and> length (filter is_get new) \<le> 6 \<and>
      (case r of Inl _ \<Rightarrow> True
       | Inr response \<Rightarrow> is_success (ur_status response) \<and> final_answer env lg' response)"
proof (cases "fetch_from_url env u lg")
  case (Pair r lg')
  from fetch_loop_log [OF this [unfolded fetch_from_url_def]] show ?thesis
    unfolding Pair Let_def prod.case by (auto split: sum.splits)
qed

definition fs_temp :: fs where
  "fs_temp = \<lparr>fs_files = [], fs_dirs = [[''srv'', ''temp'']]\<rparr>"

end
