(* ===== verification/Serving.thy ===== *)
theory Serving
  imports Fetch
begin

text \<open>
  Byte ranges, revalidation and the responses that carry a stored blob: \<open>parse_range_header\<close>
  (\<open>src/utils.rs\<close>) and the response builders of \<open>src/handlers/file_serving.rs\<close>. A response body is what
  the stream delivers: the bytes, or the error it breaks off with. A header value the builder rejects
  is the code's 500 answer.
\<close>

section \<open>Byte ranges\<close>

datatype range_spec = Satisfiable u64 u64 | Unsatisfiable | Ignore

text \<open>The two forms of a range once the dash has been found.\<close>

definition suffix_range :: "string \<Rightarrow> u64 \<Rightarrow> range_spec" where
  "suffix_range last_part total_size =
     (case parse_u64 last_part of
        None \<Rightarrow> Ignore
      | Some n \<Rightarrow> if n = 0 then Unsatisfiable else Satisfiable (saturating_sub total_size n) (total_size - 1))"

definition from_range :: "string \<Rightarrow> string \<Rightarrow> u64 \<Rightarrow> range_spec" where
  "from_range first_part last_part total_size =
     (case parse_u64 first_part of
        None \<Rightarrow> Ignore
      | Some start \<Rightarrow>
          if start \<ge> total_size then Unsatisfiable
          else (case (if last_part = [] then Some (total_size - 1)
                      else map_option (\<lambda>e. min e (total_size - 1)) (parse_u64 last_part)) of
                  None \<Rightarrow> Ignore
                | Some final \<Rightarrow> if start > final then Unsatisfiable else Satisfiable start final))"

definition parse_range_header :: "string \<Rightarrow> u64 \<Rightarrow> range_spec" where
  "parse_range_header header_value total_size =
     (case strip_prefix ''bytes='' (trim header_value) of
        None \<Rightarrow> Ignore
      | Some raw \<Rightarrow>
          (let spec = trim raw in
           if CHR '','' \<in> set spec then Ignore
           else case split_once (CHR ''-'') spec of
             None \<Rightarrow> Ignore
           | Some (a, b) \<Rightarrow>
               (let first_part = trim a; last_part = trim b in
                if total_size = 0 then Unsatisfiable
                else if first_part = [] then suffix_range last_part total_size
                else from_range first_part last_part total_size)))"

section \<open>Entity tags\<close>

definition blob_etag :: "string \<Rightarrow> string" where
  "blob_etag sha256 = ''\"'' @ sha256 @ ''\"''"

definition etag_list_matches :: "string \<Rightarrow> string \<Rightarrow> bool" where
  "etag_list_matches tags etag \<longleftrightarrow>
     list_ex (\<lambda>candidate. trim candidate = ''*'' \<or> trim_start_matches ''W/'' (trim candidate) = etag)
       (split_on (CHR '','') tags)"

section \<open>Responses\<close>

type_synonym stream_body = "string + bytes"

record serve_env =
  guess_mime :: "string \<Rightarrow> string option"
  http_date :: "int \<Rightarrow> string option"
  expires_value :: string

definition cache_control_immutable :: string where
  "cache_control_immutable = ''public, max-age=31536000, immutable''"

text \<open>\<open>Response::builder()...body(b)\<close>; \<open>what\<close> heads the message of the 500 answer.\<close>

definition build_response :: "string \<Rightarrow> nat \<Rightarrow> header_map \<Rightarrow> 'b \<Rightarrow> 'b response app_result" where
  "build_response what st hs b =
     (if list_all (\<lambda>(_, v). header_value_ok v) hs
      then Inr \<lparr>status = st, rheaders = hs, body = b\<rparr>
      else Inl (InternalError (what @ '': failed to parse header value'')))"

definition check_not_modified :: "header_map \<Rightarrow> string \<Rightarrow> stream_body response option app_result" where
  "check_not_modified headers etag =
     (case hget_str headers ''if-none-match'' of
        None \<Rightarrow> Inr None
      | Some if_none_match \<Rightarrow>
          if \<not> etag_list_matches if_none_match etag then Inr None
          else and_then (build_response ''Failed to build 304 response'' 304
                  [(''etag'', etag), (''cache-control'', cache_control_immutable)] (Inr []))
                 (\<lambda>r. Inr (Some r)))"

definition build_blob_head_response :: "string option \<Rightarrow> u64 \<Rightarrow> string \<Rightarrow> stream_body response app_result" where
  "build_blob_head_response mime_type sz etag =
     build_response ''Failed to build HEAD response'' 200
       [(''content-type'', case mime_type of None \<Rightarrow> default_mime | Some m \<Rightarrow> m),
        (''content-length'', show_u64 sz), (''accept-ranges'', ''bytes''), (''etag'', etag),
        (''cache-control'', cache_control_immutable)] (Inr [])"

definition stream_buffer_size :: "u64 \<Rightarrow> u64" where
  "stream_buffer_size len = max (min len (128 * 1024)) (8 * 1024)"

text \<open>A stale \<open>If-Range\<close> validator disables the range.\<close>

definition requested_range :: "header_map \<Rightarrow> string \<Rightarrow> u64 \<Rightarrow> range_spec" where
  "requested_range headers etag total_size =
     (let honor_range = (case hget_str headers ''if-range'' of None \<Rightarrow> True | Some v \<Rightarrow> etag_list_matches v etag)
      in case (honor_range, hget_str headers ''range'') of
           (True, Some v) \<Rightarrow> parse_range_header v total_size
         | _ \<Rightarrow> Ignore)"

definition open_blob_file :: "host_env \<Rightarrow> path \<Rightarrow> fs \<Rightarrow> bytes app_result" where
  "open_blob_file h p f =
     (case io_fault h Io_Open p of
        Some e \<Rightarrow> Inl (IoError (''Failed to open file: '' @ e))
      | None \<Rightarrow>
          (case fs_data f p of
             None \<Rightarrow> Inl (NotFound (''Blob file no longer exists: '' @ io_text Io_NotFound))
           | Some d \<Rightarrow>
               (case io_fault h Io_Stat p of
                  Some e \<Rightarrow> Inl (IoError (''Failed to read file metadata: '' @ e))
                | None \<Rightarrow> Inr d)))"

definition slice :: "u64 \<Rightarrow> u64 \<Rightarrow> bytes \<Rightarrow> bytes" where
  "slice start len d = take (unat len) (drop (unat start) d)"

definition serve_file_with_range ::
  "serve_env \<Rightarrow> host_env \<Rightarrow> fs \<Rightarrow> path \<Rightarrow> string option \<Rightarrow> header_map \<Rightarrow> string \<Rightarrow>
     stream_body response app_result" where
  "serve_file_with_range se h f p mime_type headers etag =
     (let filename = (if p = [] then ''file'' else last p);
          content_type = (case mime_type of Some m \<Rightarrow> m | None \<Rightarrow> get_mime_type (guess_mime se) filename);
          content_disposition = ''inline; filename=\"'' @ filename @ ''\"''
      in and_then (open_blob_file h p f) (\<lambda>d.
         let total_size = word_of_nat (length d) in
         case requested_range headers etag total_size of
           Satisfiable start final \<Rightarrow>
             (let len = final - start + 1 in
              case io_fault h Io_Seek p of
                Some e \<Rightarrow> Inl (IoError (''Failed to seek in file: '' @ e))
              | None \<Rightarrow> build_response ''Failed to build range response'' 206
                  [(''content-type'', content_type),
                   (''content-range'', ''bytes '' @ show_u64 start @ ''-'' @ show_u64 final @ ''/'' @ show_u64 total_size),
                   (''content-length'', show_u64 len), (''accept-ranges'', ''bytes''), (''etag'', etag),
                   (''cache-control'', cache_control_immutable), (''expires'', expires_value se),
                   (''content-disposition'', content_disposition)] (Inr (slice start len d)))
         | Unsatisfiable \<Rightarrow>
             build_response ''Failed to build 416 response'' 416
               [(''content-range'', ''bytes */'' @ show_u64 total_size), (''accept-ranges'', ''bytes''),
                (''etag'', etag)] (Inr [])
         | Ignore \<Rightarrow>
             build_response ''Failed to build file response'' 200
               [(''content-type'', content_type), (''content-length'', show_u64 total_size),
                (''accept-ranges'', ''bytes''), (''etag'', etag), (''cache-control'', cache_control_immutable),
                (''expires'', expires_value se), (''content-disposition'', content_disposition)] (Inr d)))"

definition serve_s3_with_range ::
  "s3_env \<Rightarrow> s3_storage \<Rightarrow> string \<Rightarrow> string option \<Rightarrow> u64 \<Rightarrow> header_map \<Rightarrow> string \<Rightarrow>
     stream_body response app_result" where
  "serve_s3_with_range e b key mime_type total_size headers etag =
     (let content_type = (case mime_type of None \<Rightarrow> default_mime | Some m \<Rightarrow> m);
          send = (\<lambda>s3_range st content_length content_range.
            and_then (s3_get e key s3_range b) (\<lambda>output.
            and_then (build_response ''Failed to build S3 response'' st
               [(''content-type'', content_type), (''content-length'', show_u64 content_length),
                (''accept-ranges'', ''bytes''), (''etag'', etag),
                (''cache-control'', cache_control_immutable)] (so_body output)) (\<lambda>r.
            case content_range of
              None \<Rightarrow> Inr r
            | Some v \<Rightarrow> Inr (r\<lparr>rheaders := hinsert ''content-range'' v (rheaders r)\<rparr>))))
      in case requested_range headers etag total_size of
           Satisfiable start final \<Rightarrow>
             send (Some (''bytes='' @ show_u64 start @ ''-'' @ show_u64 final)) 206 (final - start + 1)
               (Some (''bytes '' @ show_u64 start @ ''-'' @ show_u64 final @ ''/'' @ show_u64 total_size))
         | Unsatisfiable \<Rightarrow>
             build_response ''Failed to build S3 range response'' 416
               [(''content-range'', ''bytes */'' @ show_u64 total_size), (''accept-ranges'', ''bytes''),
                (''etag'', etag)] (Inr [])
         | Ignore \<Rightarrow> send None 200 total_size None)"

section \<open>Ranges are within the resource\<close>

lemma u64_pred: "(n :: u64) \<noteq> 0 \<Longrightarrow> unat (n - 1) = unat n - 1"
  by (rule unat_minus_one)

lemma below_pred:
  assumes "\<not> n \<le> (a :: u64)"
  shows "a \<le> n - 1 \<and> n \<noteq> 0"
proof -
  have "unat a < unat n" using assms by (simp add: word_le_nat_alt)
  moreover from this have "n \<noteq> 0" by auto
  ultimately show ?thesis using u64_pred [of n] by (simp add: word_le_nat_alt)
qed

lemma from_range_bounds: "from_range f l n = Satisfiable s e \<Longrightarrow> s \<le> e \<and> e \<le> n - 1"
  by (auto simp: from_range_def not_less split: option.splits if_splits)

lemma parse_range_bounds:
  assumes "parse_range_header v n = Satisfiable s e"
  shows "s \<le> e \<and> e < n"
proof -
  have n: "n \<noteq> 0" and cases: "(\<exists>l. suffix_range l n = Satisfiable s e) \<or> (\<exists>f l. from_range f l n = Satisfiable s e)"
    using assms by (auto simp: parse_range_header_def Let_def split: option.splits prod.splits if_splits)
  have pred: "unat (n - 1) = unat n - 1" "0 < unat n" using n u64_pred by (auto simp: unat_gt_0)
  from cases show ?thesis
  proof
    assume "\<exists>l. suffix_range l n = Satisfiable s e"
    then obtain m where m: "m \<noteq> 0" "s = saturating_sub n m" "e = n - 1"
      by (auto simp: suffix_range_def split: option.splits if_splits)
    then have "0 < unat m" by (simp add: unat_gt_0)
    with m pred show ?thesis by (simp add: word_le_nat_alt word_less_nat_alt u64_simps)
  next
    assume "\<exists>f l. from_range f l n = Satisfiable s e"
    then have "s \<le> e \<and> e \<le> n - 1" by (auto dest: from_range_bounds)
    then show ?thesis using pred by (simp add: word_le_nat_alt word_less_nat_alt) linarith
  qed
qed

lemma requested_bounds: "requested_range headers etag n = Satisfiable s e \<Longrightarrow> s \<le> e \<and> e < n"
  by (auto simp: requested_range_def Let_def dest: parse_range_bounds split: option.splits bool.splits if_splits)

lemma slice_length:
  assumes "s \<le> e" "unat e < length d" "length d < 2 ^ 64"
  shows "length (slice s (e - s + 1) d) = unat (e - s + 1)" and "unat (e - s + 1) = unat e - unat s + 1"
proof -
  have sub: "unat (e - s) = unat e - unat s" using assms(1) by (rule unat_sub)
  have "unat (e - s) + unat (1 :: u64) < 2 ^ 64" using sub assms(2,3) by simp
  from unat_add_u64 [OF this] show len: "unat (e - s + 1) = unat e - unat s + 1" using sub by simp
  show "length (slice s (e - s + 1) d) = unat (e - s + 1)"
    using assms len by (simp add: slice_def word_le_nat_alt)
qed

section \<open>Decimal ranges\<close>

lemma digits_no_space: "list_all is_ascii_digit ds \<Longrightarrow> dropWhile is_ascii_whitespace (ds @ r) = (if ds = [] then dropWhile is_ascii_whitespace r else ds @ r)"
  by (cases ds) (auto simp: is_ascii_digit_def is_ascii_whitespace_def)

lemma trim_ends:
  assumes "s \<noteq> []" "\<not> is_ascii_whitespace (hd s)" "\<not> is_ascii_whitespace (last s)"
  shows "trim s = s"
proof -
  have "dropWhile is_ascii_whitespace s = s" using assms by (cases s) auto
  moreover have "dropWhile is_ascii_whitespace (rev s) = rev s"
    using assms by (cases "rev s") (auto simp: hd_rev [symmetric])
  ultimately show ?thesis by (simp add: trim_def)
qed

lemma digit_not_space: "is_ascii_digit c \<Longrightarrow> \<not> is_ascii_whitespace c"
  by (auto simp: is_ascii_digit_def is_ascii_whitespace_def)

lemma show_u64_ends: "is_ascii_digit (hd (show_u64 n))" "is_ascii_digit (last (show_u64 n))"
  using show_u64_digits [of n] by (auto simp: list_all_iff)

lemma trim_show [simp]: "trim (show_u64 n) = show_u64 n"
  by (intro trim_ends digit_not_space show_u64_ends) simp

lemma not_digits: "\<not> is_ascii_digit (CHR '','')" "\<not> is_ascii_digit (CHR ''-'')"
  by (simp_all add: is_ascii_digit_def byte_of_def)

lemma trim_range: "trim (''bytes='' @ show_u64 a @ ''-'' @ show_u64 b) = ''bytes='' @ show_u64 a @ ''-'' @ show_u64 b"
  "trim (show_u64 a @ ''-'' @ show_u64 b) = show_u64 a @ ''-'' @ show_u64 b"
  "trim (''bytes='' @ show_u64 a @ ''-'') = ''bytes='' @ show_u64 a @ ''-''"
  "trim (show_u64 a @ ''-'') = show_u64 a @ ''-''"
  "trim (''bytes=-'' @ show_u64 b) = ''bytes=-'' @ show_u64 b"
  "trim (''-'' @ show_u64 b) = ''-'' @ show_u64 b"
  using digit_not_space [OF show_u64_ends(1)] digit_not_space [OF show_u64_ends(2)]
  by (intro trim_ends; simp add: is_ascii_whitespace_def byte_of_def)+

lemma no_dash: "CHR ''-'' \<notin> set (show_u64 a)"
  using not_digits(2) by (rule show_u64_no_char)

lemma no_comma: "CHR '','' \<notin> set (show_u64 a)"
  using not_digits(1) by (rule show_u64_no_char)

lemma parse_range_forms:
  "parse_range_header (''bytes='' @ show_u64 a @ ''-'' @ show_u64 b) n =
     (if n = 0 then Unsatisfiable else from_range (show_u64 a) (show_u64 b) n)"
  "parse_range_header (''bytes='' @ show_u64 a @ ''-'') n =
     (if n = 0 then Unsatisfiable else from_range (show_u64 a) [] n)"
  "parse_range_header (''bytes=-'' @ show_u64 b) n =
     (if n = 0 then Unsatisfiable else suffix_range (show_u64 b) n)"
proof -
  show "parse_range_header (''bytes='' @ show_u64 a @ ''-'' @ show_u64 b) n =
     (if n = 0 then Unsatisfiable else from_range (show_u64 a) (show_u64 b) n)"
    unfolding parse_range_header_def trim_range strip_prefix_append option.case Let_def
    by (simp add: no_comma no_dash)
  show "parse_range_header (''bytes='' @ show_u64 a @ ''-'') n =
     (if n = 0 then Unsatisfiable else from_range (show_u64 a) [] n)"
    unfolding parse_range_header_def trim_range strip_prefix_append option.case Let_def
    by (simp add: no_comma no_dash trim_def [of "[]"])
  have "strip_prefix ''bytes='' (''bytes=-'' @ show_u64 b) = Some (''-'' @ show_u64 b)" by simp
  then show "parse_range_header (''bytes=-'' @ show_u64 b) n =
     (if n = 0 then Unsatisfiable else suffix_range (show_u64 b) n)"
    unfolding parse_range_header_def trim_range by (simp only: option.case Let_def trim_range)
      (simp add: no_comma no_dash trim_def [of "[]"])
qed

section \<open>Reading back response headers\<close>

text \<open>On lower-case names a lookup is \<open>map_of\<close>; the names the responses use are lower case.\<close>

definition lower_name :: "string \<Rightarrow> bool" where
  "lower_name n \<longleftrightarrow> to_lowercase n = n"

lemma hget_lower:
  assumes "lower_name n" "list_all (\<lambda>(k, _). lower_name k) hs"
  shows "hget hs n = map_of hs n"
  using assms(2) assms(1) by (induction hs) (auto simp: hget_def eq_ignore_ascii_case_def lower_name_def)

lemma lower_names [simp]:
  "lower_name ''etag''" "lower_name ''content-length''" "lower_name ''content-range''" "lower_name ''content-type''"
  "lower_name ''accept-ranges''" "lower_name ''cache-control''" "lower_name ''expires''"
  "lower_name ''content-disposition''" "lower_name ''location''" "lower_name ''sunset''" "lower_name ''vary''"
  "lower_name ''last-modified''"
  by (simp_all add: lower_name_def ascii_lower_def is_ascii_uppercase_def byte_of_def)

lemma file_answer:
  assumes "serve_file_with_range se h f p mime headers etag = Inr r"
    and "fs_data f p = Some d" and "length d < 2 ^ 64"
  shows "hget (rheaders r) ''etag'' = Some etag \<and>
    ((status r = 200 \<and> body r = Inr d \<and>
        hget (rheaders r) ''content-length'' = Some (show_nat (length d))) \<or>
     (\<exists>s e. status r = 206 \<and> unat s \<le> unat e \<and> unat e < length d \<and>
        body r = Inr (take (unat e - unat s + 1) (drop (unat s) d)) \<and>
        hget (rheaders r) ''content-length'' = Some (show_nat (unat e - unat s + 1)) \<and>
        hget (rheaders r) ''content-range'' =
          Some (''bytes '' @ show_u64 s @ ''-'' @ show_u64 e @ ''/'' @ show_nat (length d))) \<or>
     (status r = 416 \<and> body r = Inr [] \<and>
        hget (rheaders r) ''content-range'' = Some (''bytes */'' @ show_nat (length d))))"
proof -
  let ?n = "word_of_nat (length d) :: u64"
  have n: "unat ?n = length d" using assms(3) by (rule unat_of_small)
  have opened: "open_blob_file h p f = Inr d"
    using assms(1,2) by (auto simp: serve_file_with_range_def open_blob_file_def Let_def split: option.splits)
  note here = assms(1) [unfolded serve_file_with_range_def Let_def opened and_then_simps]
  show ?thesis
  proof (cases "requested_range headers etag ?n")
    case (Satisfiable s e)
    then have se: "s \<le> e" "unat e < length d"
      using requested_bounds [OF Satisfiable] n by (auto simp: word_less_nat_alt)
    have len: "unat (e - s + 1) = unat e - unat s + 1" using slice_length(2) [OF se assms(3)] .
    from here Satisfiable have "status r = 206" "body r = Inr (slice s (e - s + 1) d)"
      "hget (rheaders r) ''etag'' = Some etag" "hget (rheaders r) ''content-length'' = Some (show_u64 (e - s + 1))"
      "hget (rheaders r) ''content-range'' = Some (''bytes '' @ show_u64 s @ ''-'' @ show_u64 e @ ''/'' @ show_u64 ?n)"
      by (auto simp: build_response_def hget_lower split: option.splits if_splits)
    then show ?thesis using se len n by (auto simp: slice_def show_u64_def word_le_nat_alt)
  next
    case Unsatisfiable
    with here show ?thesis using n by (auto simp: build_response_def hget_lower show_u64_def split: if_splits)
  next
    case Ignore
    with here show ?thesis using n by (auto simp: build_response_def hget_lower show_u64_def split: if_splits)
  qed
qed

section \<open>Properties\<close>

text \<open>The three range forms mean what RFC 9110 says: a closed range is served from its start to its end
  clamped to the last byte, an open one to the last byte, a suffix range is the final bytes (all of
  them when the resource is shorter); a range that starts past the end, an empty suffix and a reversed
  range are unsatisfiable. Whatever the header says, a range that is served lies within the resource.\<close>
lemma parse_range_header_exact:
  "parse_range_header (''bytes='' @ show_u64 a @ ''-'' @ show_u64 b) n =
     (if n \<le> a \<or> b < a then Unsatisfiable else Satisfiable a (min b (n - 1))) \<and>
   parse_range_header (''bytes='' @ show_u64 a @ ''-'') n =
     (if n \<le> a then Unsatisfiable else Satisfiable a (n - 1)) \<and>
   parse_range_header (''bytes=-'' @ show_u64 b) n =
     (if n = 0 \<or> b = 0 then Unsatisfiable else Satisfiable (saturating_sub n b) (n - 1)) \<and>
   (case parse_range_header v n of Satisfiable s e \<Rightarrow> s \<le> e \<and> e < n | _ \<Rightarrow> True)"
proof (intro conjI)
  show "parse_range_header (''bytes='' @ show_u64 a @ ''-'' @ show_u64 b) n =
     (if n \<le> a \<or> b < a then Unsatisfiable else Satisfiable a (min b (n - 1)))"
  proof (cases "n \<le> a")
    case False
    then have "a \<le> n - 1" and "n \<noteq> 0" by (auto dest: below_pred)
    then have "min b (n - 1) < a \<longleftrightarrow> b < a" by (auto simp: min_less_iff_disj)
    with False \<open>n \<noteq> 0\<close> show ?thesis unfolding parse_range_forms by (simp add: from_range_def)
  qed (unfold parse_range_forms, simp add: from_range_def)
  show "parse_range_header (''bytes='' @ show_u64 a @ ''-'') n =
     (if n \<le> a then Unsatisfiable else Satisfiable a (n - 1))"
  proof (cases "n \<le> a")
    case False
    then have "a \<le> n - 1" and "n \<noteq> 0" by (auto dest: below_pred)
    with False show ?thesis unfolding parse_range_forms by (simp add: from_range_def not_less)
  qed (unfold parse_range_forms, simp add: from_range_def)
  show "parse_range_header (''bytes=-'' @ show_u64 b) n =
     (if n = 0 \<or> b = 0 then Unsatisfiable else Satisfiable (saturating_sub n b) (n - 1))"
    unfolding parse_range_forms by (simp add: suffix_range_def)
  show "case parse_range_header v n of Satisfiable s e \<Rightarrow> s \<le> e \<and> e < n | _ \<Rightarrow> True"
    using parse_range_bounds by (cases "parse_range_header v n") auto
qed

text \<open>What is sent is what the headers say: an answered GET of a local blob carries the whole file
  with its length, or exactly the announced non-empty byte range of it, or (416) nothing; the
  announced length is the length of the body and the validator is the blob's entity tag.\<close>
lemma served_bytes_exact:
  assumes "serve_file_with_range se h f p mime headers etag = Inr r"
    and "fs_data f p = Some d" and "length d < 2 ^ 64"
  shows "hget (rheaders r) ''etag'' = Some etag \<and>
    ((status r = 200 \<and> body r = Inr d \<and>
        hget (rheaders r) ''content-length'' = Some (show_nat (length d))) \<or>
     (\<exists>s e. status r = 206 \<and> unat s \<le> unat e \<and> unat e < length d \<and>
        body r = Inr (take (unat e - unat s + 1) (drop (unat s) d)) \<and>
        hget (rheaders r) ''content-length'' = Some (show_nat (unat e - unat s + 1)) \<and>
        hget (rheaders r) ''content-range'' =
          Some (''bytes '' @ show_u64 s @ ''-'' @ show_u64 e @ ''/'' @ show_nat (length d))) \<or>
     (status r = 416 \<and> body r = Inr [] \<and>
        hget (rheaders r) ''content-range'' = Some (''bytes */'' @ show_nat (length d))))"
  using assms by (rule file_answer)

definition ex_serve :: serve_env where
  "ex_serve = \<lparr>guess_mime = \<lambda>_. None, http_date = \<lambda>_. None, expires_value = ''Thu, 01 Jan 2026 00:00:00 GMT''\<rparr>"

definition fs_clip :: fs where
  "fs_clip = \<lparr>fs_files = [([''srv'', ''clip''], [1, 2, 3, 4])], fs_dirs = [[''srv'']]\<rparr>"

lemma header_value_show [simp]: "header_value_ok (show_u64 n)"
  using show_u64_digits [of n] by (auto simp: header_value_ok_def list_all_iff is_ascii_digit_def)

lemma ex_served:
  "\<exists>r. serve_file_with_range ex_serve calm_host fs_clip [''srv'', ''clip''] (Some ''video/mp4'') [] ''x'' = Inr r"
  by (simp add: serve_file_with_range_def open_blob_file_def requested_range_def hget_str_def hget_def calm_host_def
      fs_clip_def build_response_def ex_serve_def cache_control_immutable_def Let_def)
    (simp add: header_value_ok_def byte_of_def)

end
