(* ===== verification/Auth.thy ===== *)
theory Auth
  imports BlobName
begin

text \<open>
  Authorization: the BUD-11 event grammar of \<open>src/services/auth.rs\<close> and the policy of
  \<open>src/services/authorization.rs\<close>. \<open>auth_state\<close> is the part of \<open>AppState\<close> they use. Base64, UTF-8
  and JSON decoding, the Schnorr verification and the DVM relay query are the fields of \<open>nostr_env\<close>;
  the wall clock is the argument \<open>now\<close>. \<open>single_use\<close> is the contract of the replay set.
\<close>

section \<open>Events\<close>

record nostr_event =
  ev_id :: string
  ev_pubkey :: pubkey
  ev_created_at :: u64
  ev_kind :: nat
  ev_tags :: "(string \<times> string option) list"
  ev_content :: string

record nostr_env =
  b64_url_safe :: "string \<Rightarrow> string + bytes"
  b64_standard :: "string \<Rightarrow> string + bytes"
  from_utf8 :: "bytes \<Rightarrow> string + string"
  event_of_json :: "string \<Rightarrow> string + nostr_event"
  verify_sig :: "nostr_event \<Rightarrow> string option"
  kind_debug :: "nat \<Rightarrow> string"
  check_dvm_announcement :: "pubkey \<Rightarrow> string + bool"

record auth_state =
  trusted_pubkeys :: "(pubkey \<times> nat) list"
  dvm_pubkeys :: "pubkey list"
  destructive_event_replays :: "(string \<times> u64) list"

datatype auth_mode = Strict | Unrestricted | WotOnly | DvmOnly

definition map_err :: "('e \<Rightarrow> 'f) \<Rightarrow> 'e + 'a \<Rightarrow> 'f + 'a" where
  "map_err f r = (case r of Inl e \<Rightarrow> Inl (f e) | Inr x \<Rightarrow> Inr x)"

definition or_else :: "'e + 'a \<Rightarrow> ('e \<Rightarrow> 'e + 'a) \<Rightarrow> 'e + 'a" where
  "or_else r f = (case r of Inl e \<Rightarrow> f e | Inr x \<Rightarrow> Inr x)"

lemma map_err_iff [simp]: "map_err f r = Inr x \<longleftrightarrow> r = Inr x"
  by (auto simp: map_err_def split: sum.splits)

definition find_tag :: "string \<Rightarrow> nostr_event \<Rightarrow> string option option" where
  "find_tag k ev = map_option snd (find (\<lambda>(t, _). t = k) (ev_tags ev))"

definition tags_of :: "string \<Rightarrow> nostr_event \<Rightarrow> string option list" where
  "tags_of k ev = map snd (filter (\<lambda>(t, _). t = k) (ev_tags ev))"

definition parse_auth_header :: "nostr_env \<Rightarrow> string \<Rightarrow> nostr_event app_result" where
  "parse_auth_header env h =
     (if \<not> starts_with ''Nostr '' h then Inl (Unauthorized ''Invalid Authorization header prefix'')
      else let base64_str = drop 6 h in
        and_then (map_err (\<lambda>e. Unauthorized (''Failed to decode base64: '' @ e))
                   (or_else (b64_url_safe env base64_str) (\<lambda>_. b64_standard env base64_str)))
          (\<lambda>decoded_bytes.
        and_then (map_err (\<lambda>e. Unauthorized (''Failed to convert to UTF-8: '' @ e))
                   (from_utf8 env decoded_bytes))
          (\<lambda>json_str.
        map_err (\<lambda>e. Unauthorized (''Failed to parse event JSON: '' @ e)) (event_of_json env json_str))))"

definition expiration_tag :: "nostr_event \<Rightarrow> u64 option" where
  "expiration_tag ev = Option.bind (Option.bind (find_tag ''expiration'' ev) id) parse_u64"

definition verify_event :: "nostr_env \<Rightarrow> u64 \<Rightarrow> nostr_event \<Rightarrow> unit app_result" where
  "verify_event env now ev =
     (case verify_sig env ev of
        Some e \<Rightarrow> Inl (Unauthorized (''Invalid event signature: '' @ e))
      | None \<Rightarrow>
          if ev_created_at ev > now then Inl (Unauthorized ''Authorization event is in the future'')
          else and_then (ok_or (find_tag ''expiration'' ev) (Unauthorized ''Missing required expiration tag''))
            (\<lambda>expiration.
          and_then (ok_or (Option.bind expiration parse_u64) (Unauthorized ''Invalid expiration tag value''))
            (\<lambda>exp_time.
          if now \<ge> exp_time then Inl (Unauthorized ''Event expired'') else Inr ())))"

definition is_lowercase_domain :: "string \<Rightarrow> bool" where
  "is_lowercase_domain domain \<longleftrightarrow>
     domain \<noteq> [] \<and> length domain \<le> 253 \<and>
     list_all (\<lambda>label.
         label \<noteq> [] \<and> length label \<le> 63 \<and> \<not> starts_with ''-'' label \<and> \<not> ends_with ''-'' label \<and>
         list_all (\<lambda>b. is_ascii_lowercase b \<or> is_ascii_digit b \<or> b = CHR ''-'') label)
       (split_on (CHR ''.'') domain)"

definition extract_domain :: "string \<Rightarrow> string" where
  "extract_domain url =
     (let without_scheme =
        (case strip_prefix ''https://'' url of
           Some r \<Rightarrow> r
         | None \<Rightarrow> (case strip_prefix ''http://'' url of Some r \<Rightarrow> r | None \<Rightarrow> url))
      in to_lowercase (takeWhile (\<lambda>c. c \<noteq> CHR ''/'' \<and> c \<noteq> CHR '':'') without_scheme))"

text \<open>The loop over the server tags: the first offending tag decides the error.\<close>

fun check_server_domains :: "string option list \<Rightarrow> unit app_result" where
  "check_server_domains [] = Inr ()"
| "check_server_domains (None # ts) = Inl (Unauthorized ''Auth event server tag has no domain'')"
| "check_server_domains (Some d # ts) =
     (if \<not> is_lowercase_domain d
      then Inl (Unauthorized ''Auth event server tag must be a lowercase domain name'')
      else check_server_domains ts)"

definition validate_server_tags :: "nostr_event \<Rightarrow> string \<Rightarrow> unit app_result" where
  "validate_server_tags ev url =
     (let server_tags = tags_of ''server'' ev in
      if server_tags = [] then Inr ()
      else and_then (check_server_domains server_tags) (\<lambda>_.
        if Some (extract_domain url) \<notin> set server_tags
        then Inl (Unauthorized ''Auth event server tag does not match this server'')
        else Inr ()))"

definition verify_event_with_policy ::
  "app_config \<Rightarrow> nostr_env \<Rightarrow> u64 \<Rightarrow> nostr_event \<Rightarrow> u64 app_result" where
  "verify_event_with_policy c env now ev =
     and_then (verify_event env now ev) (\<lambda>_.
     and_then (ok_or (expiration_tag ev) (Unauthorized ''Invalid expiration tag value'')) (\<lambda>expiration.
       if saturating_sub expiration (ev_created_at ev) > auth_max_ttl_secs c
       then Inl (Unauthorized ''Authorization event TTL exceeds the server policy'')
       else if auth_require_server_tag c \<and> tags_of ''server'' ev = []
       then Inl (Unauthorized ''Authorization event requires a server tag'')
       else and_then (validate_server_tags ev (public_url c)) (\<lambda>_. Inr expiration)))"

definition check_pubkey_authorization ::
  "app_config \<Rightarrow> nostr_env \<Rightarrow> nostr_event \<Rightarrow> auth_mode \<Rightarrow> auth_state \<Rightarrow> unit app_result \<times> auth_state" where
  "check_pubkey_authorization c env ev mode s =
     (let whitelisted = allowed_pubkeys c \<noteq> [] \<and> ev_pubkey ev \<in> set (allowed_pubkeys c);
          not_dvm = Inl (Unauthorized ''Pubkey not a recognized DVM for allowed kinds'')
      in case mode of
        Strict \<Rightarrow>
          if allowed_pubkeys c = []
          then (Inl (Forbidden ''Operation requires ALLOWED_NPUBS to be configured''), s)
          else if ev_pubkey ev \<notin> set (allowed_pubkeys c)
          then (Inl (Unauthorized ''Pubkey not in ALLOWED_NPUBS whitelist''), s)
          else (Inr (), s)
      | Unrestricted \<Rightarrow> (Inr (), s)
      | WotOnly \<Rightarrow>
          if whitelisted then (Inr (), s)
          else if map_of (trusted_pubkeys s) (ev_pubkey ev) = None
          then (Inl (Unauthorized ''Pubkey not in Web of Trust''), s)
          else (Inr (), s)
      | DvmOnly \<Rightarrow>
          if whitelisted then (Inr (), s)
          else if ev_pubkey ev \<in> set (dvm_pubkeys s) then (Inr (), s)
          else (case check_dvm_announcement env (ev_pubkey ev) of
              Inr True \<Rightarrow> (Inr (), s\<lparr>dvm_pubkeys := List.insert (ev_pubkey ev) (dvm_pubkeys s)\<rparr>)
            | Inr False \<Rightarrow> (not_dvm, s)
            | Inl _ \<Rightarrow> (not_dvm, s)))"

definition validate_event_kind :: "nostr_env \<Rightarrow> nostr_event \<Rightarrow> nat \<Rightarrow> unit app_result" where
  "validate_event_kind env ev expected_kind =
     (if ev_kind ev \<noteq> expected_kind
      then Inl (Unauthorized (''Invalid event kind: expected '' @ show_nat expected_kind @ '', got '' @
             kind_debug env (ev_kind ev)))
      else Inr ())"

definition validate_t_tag :: "nostr_event \<Rightarrow> string \<Rightarrow> unit app_result" where
  "validate_t_tag ev expected_verb =
     (if find_tag ''t'' ev = None \<or> the (find_tag ''t'' ev) \<noteq> Some expected_verb
      then Inl (Unauthorized (''Missing or invalid 't' tag: expected '' @ [CHR 0x27] @ expected_verb @ [CHR 0x27]))
      else Inr ())"

definition validate_upload_auth :: "nostr_event \<Rightarrow> string \<Rightarrow> unit app_result" where
  "validate_upload_auth ev expected_sha256 =
     and_then (validate_t_tag ev ''upload'') (\<lambda>_.
       let x_tags = tags_of ''x'' ev in
       if x_tags = [] then Inl (Unauthorized ''No x tag found in event'')
       else if Some expected_sha256 \<notin> set x_tags
       then Inl (Unauthorized (''No matching x tag found for hash '' @ expected_sha256))
       else Inr ())"

definition validate_delete_auth :: "nostr_event \<Rightarrow> string \<Rightarrow> unit app_result" where
  "validate_delete_auth ev sha256 =
     and_then (validate_t_tag ev ''delete'') (\<lambda>_.
       let x_tags = tags_of ''x'' ev in
       if x_tags = [] then Inl (Unauthorized ''No 'x' tags found in delete authorization'')
       else if Some sha256 \<notin> set x_tags
       then Inl (Unauthorized (''No matching 'x' tag found for hash '' @ sha256))
       else Inr ())"

definition validate_chunk_upload_auth :: "nostr_event \<Rightarrow> string \<Rightarrow> unit app_result" where
  "validate_chunk_upload_auth ev sha256 =
     and_then (validate_t_tag ev ''upload'') (\<lambda>_.
       let x_tags = tags_of ''x'' ev in
       if x_tags = [] then Inl (Unauthorized ''No 'x' tags found for chunk upload'')
       else if Some sha256 \<notin> set x_tags
       then Inl (Unauthorized (''Final blob hash '' @ sha256 @ '' not found in x tags''))
       else Inr ())"

definition extract_sha256_from_event :: "nostr_event \<Rightarrow> string option" where
  "extract_sha256_from_event ev =
     Option.bind (find (\<lambda>t. case t of None \<Rightarrow> False
                          | Some content \<Rightarrow> length content = 64 \<and> list_all is_ascii_hexdigit content)
                    (tags_of ''x'' ev)) id"

definition is_pubkey_authorized :: "app_config \<Rightarrow> auth_state \<Rightarrow> pubkey \<Rightarrow> bool" where
  "is_pubkey_authorized c s pk \<longleftrightarrow>
     (allowed_pubkeys c \<noteq> [] \<and> pk \<in> set (allowed_pubkeys c)) \<or> map_of (trusted_pubkeys s) pk \<noteq> None"

section \<open>The policy\<close>

datatype operation = Op_Upload | Op_Mirror | Op_ChunkUpload | Op_Delete | Op_List

fun op_name :: "operation \<Rightarrow> string" where
  "op_name Op_Upload = ''Upload''"
| "op_name Op_ChunkUpload = ''Upload''"
| "op_name Op_Mirror = ''Mirror''"
| "op_name Op_Delete = ''Delete''"
| "op_name Op_List = ''List''"

definition is_destructive :: "operation \<Rightarrow> bool" where
  "is_destructive op \<longleftrightarrow> op = Op_Delete"

fun op_feature :: "app_config \<Rightarrow> operation \<Rightarrow> feature_mode option" where
  "op_feature c Op_Upload = Some (feature_upload_enabled c)"
| "op_feature c Op_ChunkUpload = Some (feature_upload_enabled c)"
| "op_feature c Op_Mirror = Some (feature_mirror_enabled c)"
| "op_feature c Op_Delete = None"
| "op_feature c Op_List = None"

fun mode_for :: "feature_mode \<Rightarrow> bool \<Rightarrow> auth_mode option" where
  "mode_for Off has_whitelist = None"
| "mode_for Wot has_whitelist = Some WotOnly"
| "mode_for Dvm has_whitelist = Some DvmOnly"
| "mode_for Public has_whitelist = (if has_whitelist then Some Strict else Some Unrestricted)"

record authorized =
  az_event :: nostr_event
  az_operation :: operation
  az_expiration :: u64

definition auth_mode_of :: "app_config \<Rightarrow> operation \<Rightarrow> auth_mode app_result" where
  "auth_mode_of c op =
     (case op_feature c op of
        Some feature \<Rightarrow> ok_or (mode_for feature (allowed_pubkeys c \<noteq> []))
                          (Forbidden (op_name op @ '' feature is disabled''))
      | None \<Rightarrow> Inr Strict)"

definition authorize ::
  "app_config \<Rightarrow> nostr_env \<Rightarrow> u64 \<Rightarrow> header_map \<Rightarrow> operation \<Rightarrow> auth_state \<Rightarrow>
     authorized app_result \<times> auth_state" where
  "authorize c env now headers op s =
     (case (and_then (auth_mode_of c op) (\<lambda>mode.
            and_then (ok_or (hget_str headers ''authorization'') (Unauthorized ''Missing Authorization header''))
              (\<lambda>auth_header.
            and_then (parse_auth_header env auth_header) (\<lambda>ev.
            and_then (verify_event_with_policy c env now ev) (\<lambda>expiration.
            and_then (validate_event_kind env ev 24242) (\<lambda>_. Inr (mode, ev, expiration))))))) of
        Inl e \<Rightarrow> (Inl e, s)
      | Inr (mode, ev, expiration) \<Rightarrow>
          (let (r, s') = check_pubkey_authorization c env ev mode s
           in (and_then r (\<lambda>_. Inr \<lparr>az_event = ev, az_operation = op, az_expiration = expiration\<rparr>), s')))"

definition consume_single_use ::
  "u64 \<Rightarrow> string \<Rightarrow> u64 \<Rightarrow> (string \<times> u64) list \<Rightarrow> unit app_result \<times> (string \<times> u64) list" where
  "consume_single_use now event_id expires_at replays =
     (let seen = filter (\<lambda>(_, expiry). expiry \<ge> now) replays
      in (if map_of seen event_id \<noteq> None
          then Inl (Conflict ''Authorization event was already used'') else Inr (),
          hm_insert event_id expires_at seen))"

definition bind_hash ::
  "u64 \<Rightarrow> authorized \<Rightarrow> string \<Rightarrow> auth_state \<Rightarrow> unit app_result \<times> auth_state" where
  "bind_hash now a sha256 s =
     (let verdict = (case az_operation a of
            Op_Upload \<Rightarrow> validate_upload_auth (az_event a) sha256
          | Op_Mirror \<Rightarrow> validate_upload_auth (az_event a) sha256
          | Op_ChunkUpload \<Rightarrow> validate_chunk_upload_auth (az_event a) sha256
          | Op_Delete \<Rightarrow> validate_delete_auth (az_event a) sha256
          | Op_List \<Rightarrow> Inl (InternalError ''List authorization must be bound without a blob hash''))
      in case verdict of
        Inl e \<Rightarrow> (Inl e, s)
      | Inr _ \<Rightarrow>
          if is_destructive (az_operation a)
          then (let (r, replays) = consume_single_use now (ev_id (az_event a)) (az_expiration a)
                      (destructive_event_replays s)
                in (r, s\<lparr>destructive_event_replays := replays\<rparr>))
          else (Inr (), s))"

definition bind_without_hash :: "authorized \<Rightarrow> unit app_result" where
  "bind_without_hash a =
     (if az_operation a = Op_List then validate_t_tag (az_event a) ''list''
      else Inl (InternalError ''A blob hash is required to bind this authorization''))"

section \<open>What an authorization means\<close>

text \<open>The BUD-11 conditions and the deployment's policy, read off the event.\<close>

definition event_acceptable :: "app_config \<Rightarrow> nostr_env \<Rightarrow> u64 \<Rightarrow> nostr_event \<Rightarrow> u64 \<Rightarrow> bool" where
  "event_acceptable c env now ev expiration \<longleftrightarrow>
     verify_sig env ev = None \<and> ev_kind ev = 24242 \<and> ev_created_at ev \<le> now \<and> now < expiration \<and>
     expiration_tag ev = Some expiration \<and>
     unat expiration \<le> unat (ev_created_at ev) + unat (auth_max_ttl_secs c) \<and>
     (tags_of ''server'' ev = [] \<and> \<not> auth_require_server_tag c \<or>
      Some (extract_domain (public_url c)) \<in> set (tags_of ''server'' ev) \<and>
      (\<forall>t \<in> set (tags_of ''server'' ev). \<exists>d. t = Some d \<and> is_lowercase_domain d))"

text \<open>Who may attempt what.\<close>

definition may_perform :: "app_config \<Rightarrow> nostr_env \<Rightarrow> auth_state \<Rightarrow> operation \<Rightarrow> pubkey \<Rightarrow> bool" where
  "may_perform c env s op pk \<longleftrightarrow>
     (case op_feature c op of
        None \<Rightarrow> pk \<in> set (allowed_pubkeys c)
      | Some Off \<Rightarrow> False
      | Some Public \<Rightarrow> allowed_pubkeys c = [] \<or> pk \<in> set (allowed_pubkeys c)
      | Some Wot \<Rightarrow> pk \<in> set (allowed_pubkeys c) \<or> map_of (trusted_pubkeys s) pk \<noteq> None
      | Some Dvm \<Rightarrow> pk \<in> set (allowed_pubkeys c) \<or> pk \<in> set (dvm_pubkeys s) \<or>
                    check_dvm_announcement env pk = Inr True)"

lemma check_server_domains_iff:
  "check_server_domains ts = Inr u \<longleftrightarrow> (\<forall>t \<in> set ts. \<exists>d. t = Some d \<and> is_lowercase_domain d)"
  by (induction ts rule: check_server_domains.induct) auto

lemma validate_server_tags_iff:
  "validate_server_tags ev url = Inr u \<longleftrightarrow>
     tags_of ''server'' ev = [] \<or>
     Some (extract_domain url) \<in> set (tags_of ''server'' ev) \<and>
     (\<forall>t \<in> set (tags_of ''server'' ev). \<exists>d. t = Some d \<and> is_lowercase_domain d)"
  by (auto simp: validate_server_tags_def Let_def and_then_Inr_iff check_server_domains_iff)

lemma verify_event_iff:
  "verify_event env now ev = Inr u \<longleftrightarrow>
     verify_sig env ev = None \<and> ev_created_at ev \<le> now \<and>
     (\<exists>expiration. expiration_tag ev = Some expiration \<and> now < expiration)"
  by (cases "find_tag ''expiration'' ev")
    (auto simp: verify_event_def and_then_Inr_iff expiration_tag_def not_le split: option.splits)

lemma policy_iff:
  "verify_event_with_policy c env now ev = Inr expiration \<and> validate_event_kind env ev 24242 = Inr () \<longleftrightarrow>
     event_acceptable c env now ev expiration"
proof -
  have ttl: "\<not> auth_max_ttl_secs c < saturating_sub e (ev_created_at ev) \<longleftrightarrow>
      unat e \<le> unat (ev_created_at ev) + unat (auth_max_ttl_secs c)" for e
    by (auto simp: word_less_nat_alt unat_saturating_sub)
  show ?thesis
    by (auto simp: verify_event_with_policy_def and_then_Inr_iff verify_event_iff validate_server_tags_iff
        validate_event_kind_def event_acceptable_def ttl)
qed

lemma check_pubkey_iff:
  "auth_mode_of c op = Inr mode \<Longrightarrow>
     (fst (check_pubkey_authorization c env ev mode s) = Inr u \<longleftrightarrow> may_perform c env s op (ev_pubkey ev))"
  by (auto simp: auth_mode_of_def check_pubkey_authorization_def may_perform_def Let_def
      split: option.splits feature_mode.splits sum.splits bool.splits if_splits)

lemma auth_mode_off: "auth_mode_of c op = Inl e \<Longrightarrow> \<not> may_perform c env s op pk"
  by (cases "op_feature c op")
    (auto simp: auth_mode_of_def may_perform_def ok_or_def split: option.splits feature_mode.splits if_splits)

lemma authorize_Inr:
  "fst (authorize c env now headers op s) = Inr a \<longleftrightarrow>
     (\<exists>h. hget_str headers ''authorization'' = Some h \<and> parse_auth_header env h = Inr (az_event a) \<and>
        az_operation a = op \<and> event_acceptable c env now (az_event a) (az_expiration a) \<and>
        may_perform c env s op (ev_pubkey (az_event a)))"
proof (cases "auth_mode_of c op")
  case (Inl e)
  with auth_mode_off [OF Inl] show ?thesis
    by (simp add: authorize_def)
next
  case (Inr mode)
  have a: "a = \<lparr>az_event = ev, az_operation = op, az_expiration = x\<rparr> \<longleftrightarrow>
      az_event a = ev \<and> az_operation a = op \<and> az_expiration a = x" for ev x
    by (cases a) auto
  have "fst (authorize c env now headers op s) = Inr a \<longleftrightarrow>
     (\<exists>h. hget_str headers ''authorization'' = Some h \<and> parse_auth_header env h = Inr (az_event a) \<and>
        az_operation a = op \<and>
        (verify_event_with_policy c env now (az_event a) = Inr (az_expiration a) \<and>
         validate_event_kind env (az_event a) 24242 = Inr ()) \<and>
        fst (check_pubkey_authorization c env (az_event a) mode s) = Inr ())"
    using Inr a
    by (auto simp: authorize_def and_then_Inr_iff and_then_Inl_iff split_beta split: sum.splits)
  then show ?thesis
    by (simp add: policy_iff check_pubkey_iff [OF Inr])
qed

section \<open>Single use\<close>

text \<open>
  The contract of a replay set: presenting an id is accepted unless it is remembered with an expiry
  that has not passed, and afterwards it is remembered with the presented expiry.
\<close>

fun present_run ::
  "(u64 \<Rightarrow> string \<Rightarrow> u64 \<Rightarrow> 's \<Rightarrow> bool \<times> 's) \<Rightarrow> (u64 \<times> string \<times> u64) list \<Rightarrow> 's \<Rightarrow> bool list" where
  "present_run f [] s = []"
| "present_run f ((now, i, e) # ps) s = (let (ok, s') = f now i e s in ok # present_run f ps s')"

locale single_use =
  fixes inv :: "'s \<Rightarrow> bool"
    and present :: "u64 \<Rightarrow> string \<Rightarrow> u64 \<Rightarrow> 's \<Rightarrow> bool \<times> 's"
    and remembers :: "'s \<Rightarrow> string \<Rightarrow> u64 option"
  assumes inv_present: "inv s \<Longrightarrow> inv (snd (present now i e s))"
    and accepted: "inv s \<Longrightarrow>
      fst (present now i e s) \<longleftrightarrow> \<not> (\<exists>x. remembers s i = Some x \<and> now \<le> x)"
    and remembered: "inv s \<Longrightarrow> remembers (snd (present now i e s)) j =
      (if j = i then Some e else case remembers s j of None \<Rightarrow> None
         | Some x \<Rightarrow> if now \<le> x then Some x else None)"
begin

lemma run_length: "length (present_run present ps s) = length ps"
  by (induction present ps s rule: present_run.induct) (auto split: prod.splits)

lemma remembered_rejects:
  "\<lbrakk>inv s; remembers s i = Some e; sorted (map fst ps); j < length ps; ps ! j = (t, i, e); t \<le> e;
    \<forall>(now, i', e') \<in> set ps. i' = i \<longrightarrow> e' = e\<rbrakk> \<Longrightarrow> \<not> present_run present ps s ! j"
proof (induction ps arbitrary: s j)
  case Nil
  then show ?case by simp
next
  case (Cons p ps)
  obtain now i' e' where p: "p = (now, i', e')" by (cases p) auto
  note inv = inv_present [OF Cons.prems(1), of now i' e']
  show ?case
  proof (cases j)
    case 0
    with Cons.prems p show ?thesis by (auto simp: accepted split_beta)
  next
    case (Suc k)
    then have k: "k < length ps" "ps ! k = (t, i, e)" using Cons.prems by auto
    have "t \<in> set (map fst ps)" using nth_mem [OF k(1)] k(2) by (force simp: image_iff)
    then have "now \<le> t" using Cons.prems(3) p by auto
    then have "remembers (snd (present now i' e' s)) i = Some e"
      using Cons.prems p by (auto simp: remembered)
    with Cons.IH [OF inv, of k] Cons.prems k Suc p show ?thesis
      by (auto simp: split_beta)
  qed
qed

lemma no_second_use:
  "\<lbrakk>inv s; sorted (map fst ps); j < k; k < length ps; ps ! j = (t, i, e); ps ! k = (t', i, e); t' \<le> e;
    \<forall>(now, i', e') \<in> set ps. i' = i \<longrightarrow> e' = e\<rbrakk> \<Longrightarrow> \<not> present_run present ps s ! k"
proof (induction ps arbitrary: s j k)
  case Nil
  then show ?case by simp
next
  case (Cons p ps)
  obtain now i' e' where p: "p = (now, i', e')" by (cases p) auto
  obtain k' where k': "k = Suc k'" using Cons.prems by (cases k) auto
  note inv = inv_present [OF Cons.prems(1), of now i' e']
  show ?case
  proof (cases j)
    case 0
    with Cons.prems p have "i' = i" "e' = e" by auto
    then have "remembers (snd (present now i' e' s)) i = Some e"
      using Cons.prems(1) by (simp add: remembered)
    from remembered_rejects [OF inv this, of ps k' t'] Cons.prems p k' show ?thesis
      by (auto simp: split_beta)
  next
    case (Suc j')
    with Cons.IH [OF inv, of j' k'] Cons.prems p k' show ?thesis
      by (auto simp: split_beta)
  qed
qed

end

definition present_replay :: "u64 \<Rightarrow> string \<Rightarrow> u64 \<Rightarrow> (string \<times> u64) list \<Rightarrow> bool \<times> (string \<times> u64) list" where
  "present_replay now i e replays =
     (let (r, replays') = consume_single_use now i e replays in (r = Inr (), replays'))"

interpretation replays: single_use hm_wf present_replay map_of
proof
  fix s :: "(string \<times> u64) list" and now i e j
  assume wf: "hm_wf s"
  note get = hm_get_filter [OF wf, of "\<lambda>_ expiry. now \<le> expiry"]
  show "hm_wf (snd (present_replay now i e s))"
    using wf by (simp add: present_replay_def consume_single_use_def Let_def)
  show "fst (present_replay now i e s) \<longleftrightarrow> \<not> (\<exists>x. map_of s i = Some x \<and> now \<le> x)"
    using get [of i] by (auto simp: present_replay_def consume_single_use_def Let_def split: option.splits if_splits)
  show "map_of (snd (present_replay now i e s)) j =
      (if j = i then Some e else case map_of s j of None \<Rightarrow> None
         | Some x \<Rightarrow> if now \<le> x then Some x else None)"
    using get [of j] by (simp add: present_replay_def consume_single_use_def Let_def hm_simps)
qed

lemma op_feature_skew: "op_feature (c\<lparr>auth_clock_skew_secs := skew\<rparr>) op = op_feature c op"
  by (cases op) simp_all

lemma authorize_skew:
  "authorize (c\<lparr>auth_clock_skew_secs := skew\<rparr>) env now headers op s = authorize c env now headers op s"
proof -
  have policy: "verify_event_with_policy (c\<lparr>auth_clock_skew_secs := skew\<rparr>) = verify_event_with_policy c"
    by (intro ext) (simp add: verify_event_with_policy_def cong: if_cong)
  have key: "check_pubkey_authorization (c\<lparr>auth_clock_skew_secs := skew\<rparr>) env ev mode t = check_pubkey_authorization c env ev mode t"
    for env ev mode t by (cases mode) (simp_all add: check_pubkey_authorization_def cong: if_cong)
  have mode: "auth_mode_of (c\<lparr>auth_clock_skew_secs := skew\<rparr>) = auth_mode_of c"
    by (intro ext) (simp add: auth_mode_of_def op_feature_skew cong: option.case_cong)
  show ?thesis by (simp only: authorize_def policy key mode)
qed

section \<open>Properties\<close>

text \<open>C5: Authorization is the BUD-11 rules plus the deployment's policy, on the server's own clock:
  \<open>authorize\<close> succeeds with an event precisely when the Authorization header decodes to it, it is a
  correctly signed 24242 event that is not dated after the server's clock, not expired by it, within the TTL
  and bound to this server where required, and its author may perform the operation (deletion and listing
  only for whitelisted keys, disabled features for nobody, the others by the mode of their feature). No clock
  skew is tolerated, contrary to what \<open>src/config.rs\<close>, \<open>.env.example\<close> and
  \<open>docs/configuration/environment.md\<close> say of \<open>auth_clock_skew\<close>: that setting changes no answer of
  \<open>authorize\<close>, and an event dated one second ahead is refused.\<close>
theorem authorize_exact:
  "(fst (authorize c env now headers op s) = Inr \<lparr>az_event = ev, az_operation = op', az_expiration = x\<rparr>
   \<longleftrightarrow> op' = op \<and> event_acceptable c env now ev x \<and> may_perform c env s op (ev_pubkey ev) \<and>
       (\<exists>h. hget_str headers ''authorization'' = Some h \<and> parse_auth_header env h = Inr ev)) \<and>
   authorize (c\<lparr>auth_clock_skew_secs := skew\<rparr>) env now headers op s = authorize c env now headers op s"
  by (rule conjI) (auto simp: authorize_Inr authorize_skew)

text \<open>C6: Single-use authorizations: in any sequence of presentations at non-decreasing clock
  readings, an event id presented again before its expiry has passed is rejected, whatever was
  presented in between and however the replay set started.\<close>
theorem single_use_never_twice:
  assumes "hm_wf replays" and "sorted (map fst ps)" and "j < k" and "k < length ps"
    and "ps ! j = (t, i, e)" and "ps ! k = (t', i, e)" and "t' \<le> e"
    and "\<forall>(now, i', e') \<in> set ps. i' = i \<longrightarrow> e' = e"
  shows "\<not> present_run present_replay ps replays ! k"
  using assms by (rule replays.no_second_use)

theorem single_use_never_twice_witness:
  "\<not> present_run present_replay [(1, ''a'', 9), (3, ''b'', 4), (7, ''a'', 9)] [] ! 2"
  using single_use_never_twice [of "[]" "[(1, ''a'', 9), (3, ''b'', 4), (7, ''a'', 9)]" 0 2 1 "''a''" 9 7]
  by simp

end
