(* ===== verification/Cashu.thy ===== *)
theory Cashu
  imports Models
begin

text \<open>
  Payment, \<open>src/services/cashu.rs\<close> (built with the \<open>cashu\<close> feature): prices, quotes, token checks and
  settlement. The Cashu token parser and the CDK wallet are the fields of \<open>cashu_env\<close>; the wallet's
  answer may depend on everything it has received so far, the ledger the model threads.
\<close>

datatype paid_operation = Paid_Upload | Paid_Mirror | Paid_Download

fun is_paid :: "app_config \<Rightarrow> paid_operation \<Rightarrow> bool" where
  "is_paid c Paid_Upload = feature_paid_upload c"
| "is_paid c Paid_Mirror = feature_paid_mirror c"
| "is_paid c Paid_Download = feature_paid_download c"

record quote =
  q_amount_sats :: u64
  q_unit :: string
  q_mints :: "string list"

record cashu_token =
  tk_mint_url :: "string + string"
  tk_value :: "string + u64"
  tk_text :: string

type_synonym ledger = "(string \<times> u64) list"

record cashu_env =
  token_from_str :: "string \<Rightarrow> string + cashu_token"
  cashu_wallet :: bool
  wallet_receive :: "ledger \<Rightarrow> string \<Rightarrow> string + u64"
  mints_debug :: "string list \<Rightarrow> string"

definition div_ceil :: "u64 \<Rightarrow> u64 \<Rightarrow> u64" where
  "div_ceil a b = (let d = a div b in if a mod b > 0 \<and> b > 0 then d + 1 else d)"

definition calculate_price :: "u64 \<Rightarrow> u64 \<Rightarrow> u64" where
  "calculate_price size_bytes price_per_mb =
     (let size_mb = div_ceil size_bytes (1024 * 1024) in max 1 (saturating_mul size_mb price_per_mb))"

definition mk_quote :: "u64 \<Rightarrow> string list \<Rightarrow> u64 \<Rightarrow> quote" where
  "mk_quote price_per_mb mint_list size_bytes =
     \<lparr>q_amount_sats = calculate_price size_bytes price_per_mb, q_unit = ''sat'', q_mints = mint_list\<rparr>"

definition payment_required :: "quote \<Rightarrow> app_error" where
  "payment_required q = PaymentRequired (q_amount_sats q) (q_unit q) (q_mints q)"

definition extract_cashu_header :: "header_map \<Rightarrow> string option" where
  "extract_cashu_header headers =
     Option.bind (case hget headers ''X-Cashu'' of Some v \<Rightarrow> Some v | None \<Rightarrow> hget headers ''x-cashu'')
       to_str"

definition parse_token :: "cashu_env \<Rightarrow> string \<Rightarrow> cashu_token app_result" where
  "parse_token env s =
     (let token_str = trim s in
      if \<not> starts_with ''cashuA'' token_str \<and> \<not> starts_with ''cashuB'' token_str
      then Inl (BadRequest ''Invalid token format: must start with cashuA or cashuB'')
      else (case token_from_str env token_str of
          Inl e \<Rightarrow> Inl (BadRequest (''Invalid Cashu token: '' @ e))
        | Inr t \<Rightarrow> Inr t))"

definition mint_matches :: "string \<Rightarrow> string \<Rightarrow> bool" where
  "mint_matches mint acc \<longleftrightarrow>
     eq_ignore_ascii_case (trim_end_matches (CHR ''/'') mint) (trim_end_matches (CHR ''/'') acc)"

definition verify_token_basics ::
  "cashu_env \<Rightarrow> cashu_token \<Rightarrow> u64 \<Rightarrow> string list \<Rightarrow> unit app_result" where
  "verify_token_basics env token required_amount accepted_mints =
     (case tk_mint_url token of
        Inl e \<Rightarrow> Inl (BadRequest (''Invalid token: could not extract mint URL: '' @ e))
      | Inr mint \<Rightarrow>
          if \<not> list_ex (mint_matches mint) accepted_mints
          then Inl (BadRequest (''Mint '' @ mint @ '' is not accepted. Accepted mints: '' @
                 mints_debug env accepted_mints))
          else (case tk_value token of
              Inl e \<Rightarrow> Inl (BadRequest (''Invalid token: could not calculate value: '' @ e))
            | Inr token_sats \<Rightarrow>
                if token_sats < required_amount
                then Inl (BadRequest (''Insufficient payment: token contains '' @ show_u64 token_sats @
                       '' sats but '' @ show_u64 required_amount @ '' sats required''))
                else Inr ()))"

definition receive_token :: "cashu_env \<Rightarrow> cashu_token \<Rightarrow> ledger \<Rightarrow> u64 app_result \<times> ledger" where
  "receive_token env token led =
     (case wallet_receive env led (tk_text token) of
        Inl _ \<Rightarrow> (Inl (BadGateway ''Cashu wallet settlement failed''), led)
      | Inr amount \<Rightarrow> (Inr amount, led @ [(tk_text token, amount)]))"

definition settle ::
  "app_config \<Rightarrow> cashu_env \<Rightarrow> string \<Rightarrow> quote \<Rightarrow> ledger \<Rightarrow> unit app_result \<times> ledger" where
  "settle c env token_str quoted led =
     (case and_then (parse_token env token_str) (\<lambda>token.
           and_then (verify_token_basics env token (q_amount_sats quoted) (cashu_accepted_mints c)) (\<lambda>_.
           Inr token)) of
        Inl e \<Rightarrow> (Inl e, led)
      | Inr token \<Rightarrow>
          if \<not> cashu_wallet env
          then (Inl (ServiceUnavailable ''Payment service is not initialized''), led)
          else (let (r, led') = receive_token env token led
                in (and_then r (\<lambda>received_sats.
                      if received_sats < q_amount_sats quoted then Inl (payment_required quoted)
                      else Inr ()), led')))"

definition charge ::
  "app_config \<Rightarrow> cashu_env \<Rightarrow> header_map \<Rightarrow> paid_operation \<Rightarrow> u64 \<Rightarrow> ledger \<Rightarrow> unit app_result \<times> ledger" where
  "charge c env headers op size_bytes led =
     (if \<not> is_paid c op then (Inr (), led)
      else let quoted = mk_quote (cashu_price_per_mb c) (cashu_accepted_mints c) size_bytes
        in case extract_cashu_header headers of
          None \<Rightarrow> (Inl (payment_required quoted), led)
        | Some token_str \<Rightarrow> settle c env token_str quoted led)"

definition get_token_amount :: "cashu_token \<Rightarrow> u64 app_result" where
  "get_token_amount token =
     (case tk_value token of
        Inl e \<Rightarrow> Inl (BadRequest (''Invalid token: could not calculate value: '' @ e))
      | Inr a \<Rightarrow> Inr a)"

definition get_token_mint :: "cashu_token \<Rightarrow> string app_result" where
  "get_token_mint token =
     (case tk_mint_url token of
        Inl e \<Rightarrow> Inl (BadRequest (''Invalid token: could not extract mint URL: '' @ e))
      | Inr m \<Rightarrow> Inr m)"

section \<open>Lemmas\<close>

lemma unat_div_ceil:
  assumes "1 < unat b"
  shows "unat (div_ceil a b) = (unat a + unat b - 1) div unat b"
proof -
  have q: "unat a div unat b + 1 \<le> unat a + 1" by (simp add: div_le_dividend)
  have "unat a div unat b < unat a \<or> unat a = 0"
    using assms by (cases "unat a = 0") auto
  then have "unat a div unat b + 1 < 2 ^ 64"
    using unat_u64_bound [of a] by (elim disjE) (linarith, simp)
  then have small: "unat (a div b) + unat (1 :: u64) < 2 ^ 64"
    by (simp add: unat_div)
  have split: "(unat a + unat b - 1) div unat b =
      unat a div unat b + (if 0 < unat a mod unat b then 1 else 0)"
  proof (cases "unat a mod unat b = 0")
    case True
    then obtain q where q: "unat a = unat b * q" by auto
    have "unat a + unat b - 1 = (unat b - 1) + unat b * q" using assms q by simp
    then have "(unat a + unat b - 1) div unat b = ((unat b - 1) + unat b * q) div unat b" by (rule arg_cong)
    also have "\<dots> = q + (unat b - 1) div unat b" using assms by (intro div_mult_self2) simp
    also have "(unat b - 1) div unat b = 0" using assms by (intro div_less) simp
    finally show ?thesis using q assms True by simp
  next
    case False
    define r where "r = unat a mod unat b"
    have r: "0 < r" "r < unat b" using False assms by (simp_all add: r_def)
    have "unat a = unat b * (unat a div unat b) + r" by (simp add: r_def)
    then have "(unat a + unat b - 1) div unat b = ((r - 1) + unat b * (unat a div unat b + 1)) div unat b"
      using r by (simp add: algebra_simps)
    also have "\<dots> = unat a div unat b + 1" using r by (simp only: div_mult_self2) simp
    finally show ?thesis using r by (simp add: r_def)
  qed
  have pos: "0 < a mod b \<and> 0 < b \<longleftrightarrow> 0 < unat a mod unat b"
    using assms by (simp add: word_less_nat_alt unat_mod)
  show ?thesis
    using small split pos unat_add_u64 [OF small]
    by (simp add: div_ceil_def Let_def unat_div)
qed

lemma price_exact:
  "unat (calculate_price size_bytes price) =
     max 1 (min ((unat size_bytes + 1048575) div 1048576 * unat price) (2 ^ 64 - 1))"
proof -
  have "unat (div_ceil size_bytes (1024 * 1024)) = (unat size_bytes + 1048575) div 1048576"
    using unat_div_ceil [of "1024 * 1024" size_bytes] by simp
  then show ?thesis
    by (auto simp: calculate_price_def Let_def max_def word_le_nat_alt unat_saturating_mul)
qed

lemma settle_Inr:
  "settle c env t q led = (Inr (), led') \<longleftrightarrow>
     (\<exists>token amount. parse_token env t = Inr token \<and>
        verify_token_basics env token (q_amount_sats q) (cashu_accepted_mints c) = Inr () \<and>
        cashu_wallet env \<and> wallet_receive env led (tk_text token) = Inr amount \<and>
        q_amount_sats q \<le> amount \<and> led' = led @ [(tk_text token, amount)])"
  by (auto simp: settle_def receive_token_def and_then_Inr_iff and_then_Inl_iff not_less
      split: sum.splits if_splits)

lemma settle_Inl_ledger:
  "settle c env t q led = (Inl e, led') \<Longrightarrow>
     led' = led \<or> (\<exists>text amount. led' = led @ [(text, amount)] \<and> amount < q_amount_sats q \<and>
       e = payment_required q)"
  by (auto simp: settle_def receive_token_def split: sum.splits if_splits)

section \<open>Properties\<close>

text \<open>C7: No paid operation is free: \<open>charge\<close> succeeds exactly when the operation is not paid (and then
  moves no money), or when the wallet has just received, for a token of an accepted mint carrying
  the quoted amount, at least the price of the blob; that receipt is the only change to the ledger.
  The price is the quoted one.\<close>
theorem charge_exact:
  "charge c env headers op size_bytes led = (Inr (), led') \<longleftrightarrow>
     (\<not> is_paid c op \<and> led' = led) \<or>
     (is_paid c op \<and> (\<exists>t token mint worth amount.
        extract_cashu_header headers = Some t \<and> parse_token env t = Inr token \<and>
        tk_mint_url token = Inr mint \<and> (\<exists>a \<in> set (cashu_accepted_mints c). mint_matches mint a) \<and>
        tk_value token = Inr worth \<and> calculate_price size_bytes (cashu_price_per_mb c) \<le> worth \<and>
        cashu_wallet env \<and> wallet_receive env led (tk_text token) = Inr amount \<and>
        calculate_price size_bytes (cashu_price_per_mb c) \<le> amount \<and>
        led' = led @ [(tk_text token, amount)]))"
proof -
  have basics: "verify_token_basics env token n ms = Inr () \<longleftrightarrow>
      (\<exists>mint worth. tk_mint_url token = Inr mint \<and> (\<exists>a \<in> set ms. mint_matches mint a) \<and>
         tk_value token = Inr worth \<and> n \<le> worth)" for token n ms
    by (auto simp: verify_token_basics_def list_ex_iff not_less split: sum.splits if_splits)
  show ?thesis
    by (cases "is_paid c op"; cases "extract_cashu_header headers")
      (auto simp: charge_def Let_def settle_Inr basics mk_quote_def)
qed

end
