(* ===== verification/ChunkSessions.thy ===== *)
theory ChunkSessions
  imports Models "HOL-Library.Multiset"
begin

text \<open>
  The resumable-upload registry, \<open>src/services/chunk_sessions.rs\<close>: reservations, the commit of a
  chunk, restoring a payment-rejected upload, and eviction; with the coverage check of
  \<open>reconstruct_blob\<close> (\<open>src/handlers/upload.rs\<close>). \<open>session_reach\<close> is the protocol the handlers
  follow: tickets in flight and sessions restored are part of the reached state. The clock reading
  \<open>Instant::now()\<close> is the argument \<open>now\<close>.
\<close>

section \<open>State and operations\<close>

record session_params =
  sp_sha256 :: string
  sp_owner :: pubkey
  sp_upload_type :: string
  sp_upload_length :: u64
  sp_expiration :: "u64 option"

record session_limits =
  max_sessions :: nat
  max_sessions_per_pubkey :: nat

datatype reservation = Granted chunk_upload_key | GlobalLimit | PerPubkeyLimit

datatype commit_result = Incomplete | Completed chunk_upload | Overlap | ParamMismatch

record session_state =
  ss_uploads :: "(chunk_upload_key \<times> chunk_upload) list"
  ss_pending :: "(chunk_upload_key \<times> nat) list"

definition sessions_new :: session_state where
  "sessions_new = \<lparr>ss_uploads = [], ss_pending = []\<rparr>"

abbreviation hm_contains :: "('k \<times> 'v) list \<Rightarrow> 'k \<Rightarrow> bool" where
  "hm_contains m k \<equiv> map_of m k \<noteq> None"

definition pending_without_upload :: "session_state \<Rightarrow> chunk_upload_key list" where
  "pending_without_upload st =
     filter (\<lambda>k. \<not> hm_contains (ss_uploads st) k) (map fst (ss_pending st))"

definition session_keys :: "session_state \<Rightarrow> chunk_upload_key list" where
  "session_keys st = map fst (ss_uploads st) @ pending_without_upload st"

definition reserve ::
  "session_limits \<Rightarrow> chunk_upload_key \<Rightarrow> session_state \<Rightarrow> session_state \<times> reservation" where
  "reserve limits key st =
     (if hm_contains (ss_uploads st) key \<or> hm_contains (ss_pending st) key
      then (let n = (case map_of (ss_pending st) key of None \<Rightarrow> 0 | Some c \<Rightarrow> c)
            in (st\<lparr>ss_pending := hm_insert key (n + 1) (ss_pending st)\<rparr>, Granted key))
      else if length (ss_uploads st) + length (pending_without_upload st) \<ge> max_sessions limits
      then (st, GlobalLimit)
      else if length (filter (\<lambda>k. ck_pubkey k = ck_pubkey key) (session_keys st))
                \<ge> max_sessions_per_pubkey limits
      then (st, PerPubkeyLimit)
      else (st\<lparr>ss_pending := hm_insert key 1 (ss_pending st)\<rparr>, Granted key))"

definition consume_reservation :: "chunk_upload_key \<Rightarrow> session_state \<Rightarrow> session_state \<times> bool" where
  "consume_reservation key st =
     (case map_of (ss_pending st) key of
        None \<Rightarrow> (st, False)
      | Some n \<Rightarrow>
          if n = 1 then (st\<lparr>ss_pending := hm_remove key (ss_pending st)\<rparr>, True)
          else (st\<lparr>ss_pending := hm_insert key (n - 1) (ss_pending st)\<rparr>, True))"

definition release :: "chunk_upload_key \<Rightarrow> session_state \<Rightarrow> session_state" where
  "release ticket st = fst (consume_reservation ticket st)"

definition chunk_overlaps :: "chunk_info \<Rightarrow> chunk_info \<Rightarrow> bool" where
  "chunk_overlaps chunk ex \<longleftrightarrow>
     ch_offset chunk < saturating_add (ch_offset ex) (ch_length ex) \<and>
     ch_offset ex < saturating_add (ch_offset chunk) (ch_length chunk)"

definition checked_sum :: "u64 list \<Rightarrow> u64 option" where
  "checked_sum ls = foldl (\<lambda>acc l. Option.bind acc (\<lambda>t. checked_add t l)) (Some 0) ls"

definition commit ::
  "instant \<Rightarrow> chunk_upload_key \<Rightarrow> session_params \<Rightarrow> chunk_info \<Rightarrow> session_state \<Rightarrow>
     session_state \<times> commit_result" where
  "commit now ticket params chunk st =
     (let (st1, held) = consume_reservation ticket st in
      if \<not> held then (st1, ParamMismatch)
      else
        let upload = (case map_of (ss_uploads st1) ticket of
               Some u \<Rightarrow> u
             | None \<Rightarrow> \<lparr>cu_sha256 = sp_sha256 params, cu_owner = sp_owner params,
                 cu_upload_type = sp_upload_type params, cu_upload_length = sp_upload_length params,
                 cu_chunks = [], cu_created_at = now, cu_expiration = sp_expiration params\<rparr>);
            st2 = st1\<lparr>ss_uploads := hm_insert ticket upload (ss_uploads st1)\<rparr>
        in if cu_upload_type upload \<noteq> sp_upload_type params \<or>
              cu_upload_length upload \<noteq> sp_upload_length params
           then (st2, ParamMismatch)
           else if \<exists>ex \<in> set (cu_chunks upload). chunk_overlaps chunk ex then (st2, Overlap)
           else case Option.bind (checked_sum (map ch_length (cu_chunks upload)))
                       (\<lambda>total. checked_add total (ch_length chunk)) of
             None \<Rightarrow> (st2, ParamMismatch)
           | Some new_total \<Rightarrow>
               let upload' = upload\<lparr>cu_chunks := cu_chunks upload @ [chunk]\<rparr>
               in if new_total = cu_upload_length upload
                  then (st2\<lparr>ss_uploads := hm_remove ticket (ss_uploads st2)\<rparr>, Completed upload')
                  else (st2\<lparr>ss_uploads := hm_insert ticket upload' (ss_uploads st2)\<rparr>, Incomplete))"

definition restore ::
  "chunk_upload_key \<Rightarrow> chunk_upload \<Rightarrow> session_state \<Rightarrow> session_state \<times> bool" where
  "restore key upload st =
     (if hm_contains (ss_uploads st) key \<or> hm_contains (ss_pending st) key then (st, False)
      else (st\<lparr>ss_uploads := hm_insert key upload (ss_uploads st)\<rparr>, True))"

definition keep_session :: "instant \<Rightarrow> nat \<Rightarrow> session_state \<Rightarrow> chunk_upload_key \<times> chunk_upload \<Rightarrow> bool" where
  "keep_session now age st = (\<lambda>(key, upload).
     hm_contains (ss_pending st) key \<or> now - cu_created_at upload < age)"

definition evict_older_than ::
  "instant \<Rightarrow> nat \<Rightarrow> session_state \<Rightarrow> session_state \<times> chunk_upload list" where
  "evict_older_than now age st =
     (st\<lparr>ss_uploads := filter (keep_session now age st) (ss_uploads st)\<rparr>,
      map snd (filter (\<lambda>e. \<not> keep_session now age st e) (ss_uploads st)))"

text \<open>The gap check at the head of \<open>reconstruct_blob\<close>, on the chunks sorted by offset.\<close>

fun coverage_loop :: "u64 \<Rightarrow> chunk_info list \<Rightarrow> u64 app_result" where
  "coverage_loop expected [] = Inr expected"
| "coverage_loop expected (c # cs) =
     (if ch_offset c \<noteq> expected
      then Inl (BadRequest ''Chunk coverage has a gap or overlap'')
      else and_then (ok_or (checked_add expected (ch_length c)) (BadRequest ''Chunk length overflows''))
             (\<lambda>next'. coverage_loop next' cs))"

definition chunk_coverage :: "chunk_upload \<Rightarrow> chunk_info list app_result" where
  "chunk_coverage u =
     (let chunks = sort_key ch_offset (cu_chunks u)
      in and_then (coverage_loop 0 chunks) (\<lambda>expected_offset.
           if expected_offset \<noteq> cu_upload_length u
           then Inl (BadRequest ''Chunks do not cover the declared upload length'')
           else Inr chunks))"

section \<open>Chunks that tile the upload\<close>

definition chunk_end :: "chunk_info \<Rightarrow> nat" where
  "chunk_end c = unat (ch_offset c) + unat (ch_length c)"

definition chunk_in_bounds :: "u64 \<Rightarrow> chunk_info \<Rightarrow> bool" where
  "chunk_in_bounds len c \<longleftrightarrow> 0 < unat (ch_length c) \<and> chunk_end c \<le> unat len"

definition apart :: "chunk_info \<Rightarrow> chunk_info \<Rightarrow> bool" where
  "apart a b \<longleftrightarrow> chunk_end a \<le> unat (ch_offset b) \<or> chunk_end b \<le> unat (ch_offset a)"

definition bytes_of :: "chunk_info list \<Rightarrow> nat" where
  "bytes_of cs = (\<Sum>c \<leftarrow> cs. unat (ch_length c))"

lemma not_overlaps_apart:
  assumes "chunk_end a < 2 ^ 64" "chunk_end b < 2 ^ 64"
  shows "\<not> chunk_overlaps a b \<longleftrightarrow> apart a b"
  using assms
  by (auto simp: chunk_overlaps_def apart_def chunk_end_def word_less_nat_alt unat_saturating_add)

lemma in_bounds_end: "chunk_in_bounds len c \<Longrightarrow> chunk_end c < 2 ^ 64"
  using unat_u64_bound [of len] unfolding chunk_in_bounds_def by linarith

lemma checked_sum_foldl:
  "foldl (\<lambda>acc l. Option.bind acc (\<lambda>t. checked_add t l)) None ls = None"
  by (induction ls) auto

lemma checked_sum_from:
  "foldl (\<lambda>acc l. Option.bind acc (\<lambda>t. checked_add t l)) (Some a) ls = Some t \<longleftrightarrow>
     unat a + sum_list (map unat ls) = unat t"
proof (induction ls arbitrary: a)
  case Nil
  then show ?case by (auto intro: u64_eqI)
next
  case (Cons l ls)
  show ?case
  proof (cases "checked_add a l")
    case None
    then have "2 ^ 64 \<le> unat a + unat l" by (simp only: checked_add_None_iff)
    then have "unat a + unat l + sum_list (map unat ls) \<noteq> unat t"
      using unat_u64_bound [of t] by linarith
    with None show ?thesis by (simp add: checked_sum_foldl)
  next
    case (Some b)
    then have "unat a + unat l = unat b" by (simp only: checked_add_Some_iff)
    with Some Cons.IH [of b] show ?thesis by (simp add: add.assoc [symmetric])
  qed
qed

lemma checked_sum_iff: "checked_sum ls = Some t \<longleftrightarrow> sum_list (map unat ls) = unat t"
  unfolding checked_sum_def by (simp add: checked_sum_from)

text \<open>
  Sorted, separated chunks inside \<open>[a, b)\<close> hold at most \<open>b - a\<close> bytes; if they hold exactly that
  many, each starts where the previous one ends.
\<close>

lemma separated_bytes:
  assumes "sorted_wrt (\<lambda>x y. chunk_end x \<le> unat (ch_offset y)) cs"
    and "\<forall>c \<in> set cs. chunk_end c \<le> b" and "\<forall>c \<in> set cs. a \<le> unat (ch_offset c)" and "a \<le> b"
  shows "a + bytes_of cs \<le> b"
  using assms
proof (induction cs arbitrary: a)
  case Nil
  then show ?case by (simp add: bytes_of_def)
next
  case (Cons c cs)
  have "chunk_end c + bytes_of cs \<le> b"
    using Cons.prems by (intro Cons.IH) auto
  then show ?case
    using Cons.prems by (simp add: bytes_of_def chunk_end_def)
qed

lemma separated_cover:
  assumes "sorted_wrt (\<lambda>x y. chunk_end x \<le> unat (ch_offset y)) cs"
    and "\<forall>c \<in> set cs. chunk_end c \<le> unat b" and "\<forall>c \<in> set cs. unat a \<le> unat (ch_offset c)"
    and "unat a + bytes_of cs = unat b"
  shows "coverage_loop a cs = Inr b"
  using assms
proof (induction cs arbitrary: a)
  case Nil
  then show ?case by (auto simp: bytes_of_def intro: u64_eqI)
next
  case (Cons c cs)
  have "chunk_end c + bytes_of cs \<le> unat b"
    using Cons.prems by (intro separated_bytes) auto
  then have start: "ch_offset c = a"
    using Cons.prems by (intro u64_eqI) (simp add: bytes_of_def chunk_end_def)
  then have fits: "unat a + unat (ch_length c) < 2 ^ 64"
    using Cons.prems(2) unat_u64_bound [of b] by (auto simp: chunk_end_def intro: le_less_trans)
  have "coverage_loop (a + ch_length c) cs = Inr b"
    using Cons.prems start
    by (intro Cons.IH) (simp_all add: unat_add_u64 [OF fits] chunk_end_def bytes_of_def)
  with start fits show ?case by (simp add: checked_add_def)
qed

lemma apart_sym: "apart a b \<longleftrightarrow> apart b a"
  by (auto simp: apart_def)

lemma sort_separated:
  assumes bounds: "\<forall>c \<in> set cs. chunk_in_bounds len c"
    and dist: "distinct cs" and apart: "\<forall>a \<in> set cs. \<forall>b \<in> set cs. a \<noteq> b \<longrightarrow> apart a b"
  shows "sorted_wrt (\<lambda>x y. chunk_end x \<le> unat (ch_offset y)) (sort_key ch_offset cs)"
proof -
  have d: "distinct (sort_key ch_offset cs)" using dist by simp
  have s: "sorted_wrt (\<lambda>x y. ch_offset x \<le> ch_offset y) (sort_key ch_offset cs)"
    using sorted_sort_key [of ch_offset cs] by (simp add: sorted_map)
  have "sorted_wrt (\<lambda>x y. chunk_end x \<le> unat (ch_offset y)) xs"
    if "set xs \<subseteq> set cs" "distinct xs" "sorted_wrt (\<lambda>x y. ch_offset x \<le> ch_offset y) xs" for xs
    using that
  proof (induction xs)
    case Nil
    then show ?case by simp
  next
    case (Cons x xs)
    have "chunk_end x \<le> unat (ch_offset y)" if y: "y \<in> set xs" for y
    proof -
      have "apart x y" "0 < unat (ch_length y)" "unat (ch_offset x) \<le> unat (ch_offset y)"
        using Cons.prems y apart [rule_format, of x y] bounds
        by (auto simp: chunk_in_bounds_def word_le_nat_alt)
      then show ?thesis by (auto simp: apart_def chunk_end_def)
    qed
    with Cons show ?case by simp
  qed
  with d s show ?thesis by simp
qed

lemma bytes_of_sort: "bytes_of (sort_key f cs) = bytes_of cs"
proof -
  have "mset (map (\<lambda>c. unat (ch_length c)) (sort_key f cs)) = mset (map (\<lambda>c. unat (ch_length c)) cs)"
    by simp
  then show ?thesis
    unfolding bytes_of_def by (metis sum_mset_sum_list)
qed

section \<open>What every stored session satisfies\<close>

definition upload_ok :: "chunk_upload \<Rightarrow> bool" where
  "upload_ok u \<longleftrightarrow>
     (\<forall>c \<in> set (cu_chunks u). chunk_in_bounds (cu_upload_length u) c) \<and> distinct (cu_chunks u) \<and>
     (\<forall>a \<in> set (cu_chunks u). \<forall>b \<in> set (cu_chunks u). a \<noteq> b \<longrightarrow> apart a b)"

lemma upload_ok_bytes: "upload_ok u \<Longrightarrow> bytes_of (cu_chunks u) \<le> unat (cu_upload_length u)"
  using separated_bytes [OF sort_separated [of "cu_chunks u" "cu_upload_length u"],
      of "unat (cu_upload_length u)" 0]
  by (auto simp: upload_ok_def bytes_of_sort chunk_in_bounds_def)

lemma upload_ok_coverage:
  assumes "upload_ok u" "bytes_of (cu_chunks u) = unat (cu_upload_length u)"
  shows "chunk_coverage u = Inr (sort_key ch_offset (cu_chunks u))"
proof -
  have "coverage_loop 0 (sort_key ch_offset (cu_chunks u)) = Inr (cu_upload_length u)"
    using assms sort_separated [of "cu_chunks u" "cu_upload_length u"]
    by (intro separated_cover) (auto simp: upload_ok_def chunk_in_bounds_def bytes_of_sort)
  then show ?thesis by (simp add: chunk_coverage_def)
qed

lemma upload_ok_snoc:
  assumes ok: "upload_ok u" and b: "chunk_in_bounds (cu_upload_length u) c"
    and no: "\<not> (\<exists>ex \<in> set (cu_chunks u). chunk_overlaps c ex)"
  shows "upload_ok (u\<lparr>cu_chunks := cu_chunks u @ [c]\<rparr>)"
proof -
  have ap: "apart c ex" if "ex \<in> set (cu_chunks u)" for ex
    using not_overlaps_apart [of c ex] that no b ok in_bounds_end
    by (auto simp: upload_ok_def)
  moreover have "\<not> apart c c"
    using b by (auto simp: apart_def chunk_end_def chunk_in_bounds_def)
  ultimately show ?thesis
    using ok b by (auto simp: upload_ok_def apart_sym)
qed

lemma upload_ok_butlast: "upload_ok u \<Longrightarrow> upload_ok (u\<lparr>cu_chunks := butlast (cu_chunks u)\<rparr>)"
  by (auto simp: upload_ok_def dest: in_set_butlastD intro: distinct_butlast)

definition params_ok :: "session_params \<Rightarrow> chunk_info \<Rightarrow> bool" where
  "params_ok params c \<longleftrightarrow> chunk_in_bounds (sp_upload_length params) c"

definition sessions_ok :: "session_state \<Rightarrow> bool" where
  "sessions_ok st \<longleftrightarrow> hm_wf (ss_uploads st) \<and> hm_wf (ss_pending st) \<and>
     (\<forall>k u. map_of (ss_uploads st) k = Some u \<longrightarrow> upload_ok u)"

definition pending_of :: "session_state \<Rightarrow> chunk_upload_key \<Rightarrow> nat" where
  "pending_of st k = (case map_of (ss_pending st) k of None \<Rightarrow> 0 | Some n \<Rightarrow> n)"

text \<open>Every pending counter is the number of tickets in flight for its key.\<close>

definition tickets_ok :: "session_state \<Rightarrow> chunk_upload_key list \<Rightarrow> bool" where
  "tickets_ok st ts \<longleftrightarrow> (\<forall>k. pending_of st k = count_list ts k \<and>
     (map_of (ss_pending st) k = None \<or> 0 < pending_of st k))"

lemma tickets_cong: "ss_pending st' = ss_pending st \<Longrightarrow> tickets_ok st' ts = tickets_ok st ts"
  by (simp add: tickets_ok_def pending_of_def)

definition slots :: "session_state \<Rightarrow> chunk_upload_key set" where
  "slots st = {k. hm_contains (ss_uploads st) k \<or> hm_contains (ss_pending st) k}"

lemma hm_contains_iff: "hm_contains m k \<longleftrightarrow> k \<in> set (map fst m)"
  by (simp add: map_of_eq_None_iff)

lemma slots_set: "slots st = set (session_keys st)"
  unfolding slots_def session_keys_def pending_without_upload_def hm_contains_iff by auto

lemma session_keys_distinct:
  "hm_wf (ss_uploads st) \<Longrightarrow> hm_wf (ss_pending st) \<Longrightarrow> distinct (session_keys st)"
  by (auto simp: session_keys_def pending_without_upload_def hm_contains_iff)

lemma card_slots:
  assumes "sessions_ok st"
  shows "card (slots st) = length (ss_uploads st) + length (pending_without_upload st)"
    and "card {k \<in> slots st. P k} = length (filter P (session_keys st))"
proof -
  have d: "distinct (session_keys st)"
    using assms session_keys_distinct by (simp add: sessions_ok_def)
  show "card (slots st) = length (ss_uploads st) + length (pending_without_upload st)"
    using distinct_card [OF d] by (simp add: slots_set session_keys_def)
  show "card {k \<in> slots st. P k} = length (filter P (session_keys st))"
    using distinct_card [OF distinct_filter [OF d, of P]] by (simp add: slots_set)
qed

subsection \<open>Reservations\<close>

lemma consume_frame [simp]:
  "ss_uploads (fst (consume_reservation k st)) = ss_uploads st"
  by (auto simp: consume_reservation_def split: option.splits)

lemma consume_pending:
  assumes "tickets_ok st ts" "k \<in> set ts"
  shows "snd (consume_reservation k st)" "tickets_ok (fst (consume_reservation k st)) (remove1 k ts)"
proof -
  have "count_list ts k \<noteq> 0" using assms(2) by (simp add: count_list_0_iff)
  then obtain n where n: "map_of (ss_pending st) k = Some n"
    using assms(1) unfolding tickets_ok_def pending_of_def by (metis option.case_eq_if option.collapse)
  then show "snd (consume_reservation k st)" by (simp add: consume_reservation_def)
  have c: "count_list (remove1 k ts) j = (if j = k then count_list ts k - 1 else count_list ts j)" for j
    by (induction ts) (auto simp: count_list_0_iff)
  have "n = count_list ts k" using assms(1) n unfolding tickets_ok_def pending_of_def
    by (metis option.simps(5))
  with assms(1) n c \<open>count_list ts k \<noteq> 0\<close>
  show "tickets_ok (fst (consume_reservation k st)) (remove1 k ts)"
    by (auto simp: tickets_ok_def consume_reservation_def pending_of_def hm_simps)
qed

lemma consume_slots: "slots (fst (consume_reservation k st)) \<subseteq> slots st"
  by (auto simp: slots_def consume_reservation_def hm_simps split: option.splits if_splits)

lemma consume_ok: "sessions_ok st \<Longrightarrow> sessions_ok (fst (consume_reservation k st))"
  by (auto simp: sessions_ok_def consume_reservation_def split: option.splits)

lemma consume_held: "snd (consume_reservation k st) \<longleftrightarrow> hm_contains (ss_pending st) k"
  by (auto simp: consume_reservation_def split: option.splits)

lemma reserve_granted:
  assumes "reserve limits key st = (st', Granted t)"
  shows "t = key" "ss_uploads st' = ss_uploads st" "slots st' = insert key (slots st)"
    "\<And>k. pending_of st' k = pending_of st k + (if k = key then 1 else 0)"
    "hm_wf (ss_pending st) \<Longrightarrow> hm_wf (ss_pending st')"
  using assms by (auto simp: reserve_def Let_def slots_def pending_of_def hm_simps split: if_splits option.splits)

lemma reserve_other:
  "reserve limits key st = (st', Granted t) \<Longrightarrow> j \<noteq> key \<Longrightarrow>
     map_of (ss_pending st') j = map_of (ss_pending st) j"
  by (auto simp: reserve_def Let_def hm_simps split: if_splits)

lemma reserve_room:
  assumes "sessions_ok st" "reserve limits key st = (st', Granted t)" "key \<notin> slots st"
  shows "card (slots st) < max_sessions limits"
    "card {k \<in> slots st. ck_pubkey k = ck_pubkey key} < max_sessions_per_pubkey limits"
  using assms card_slots [OF assms(1)]
  by (auto simp: reserve_def slots_def Let_def split: if_splits)

subsection \<open>Commits\<close>

definition session_for ::
  "instant \<Rightarrow> chunk_upload_key \<Rightarrow> session_params \<Rightarrow> session_state \<Rightarrow> chunk_upload" where
  "session_for now ticket params st = (case map_of (ss_uploads st) ticket of
       Some u \<Rightarrow> u
     | None \<Rightarrow> \<lparr>cu_sha256 = sp_sha256 params, cu_owner = sp_owner params,
         cu_upload_type = sp_upload_type params, cu_upload_length = sp_upload_length params,
         cu_chunks = [], cu_created_at = now, cu_expiration = sp_expiration params\<rparr>)"

lemma session_for_ok: "sessions_ok st \<Longrightarrow> upload_ok (session_for now k params st)"
  by (auto simp: session_for_def sessions_ok_def upload_ok_def split: option.splits)

lemma sessions_ok_put:
  "sessions_ok st \<Longrightarrow> upload_ok u \<Longrightarrow> sessions_ok (st\<lparr>ss_uploads := hm_insert k u (ss_uploads st)\<rparr>)"
  by (auto simp: sessions_ok_def hm_get_insert)

lemma sessions_ok_drop:
  "sessions_ok st \<Longrightarrow> sessions_ok (st\<lparr>ss_uploads := hm_remove k (ss_uploads st)\<rparr>)"
  by (auto simp: sessions_ok_def hm_get_remove split: if_splits)

text \<open>The five ways a commit can end, over the session it finds or creates.\<close>

lemma commit_cases:
  assumes "commit now k params chunk st = (st', r)"
  obtains (lost) "\<not> snd (consume_reservation k st)" "r = ParamMismatch"
      "st' = fst (consume_reservation k st)"
  | (refused) u st1 where "u = session_for now k params st" "st1 = fst (consume_reservation k st)"
      "snd (consume_reservation k st)" "r = ParamMismatch \<or> r = Overlap"
      "st' = st1\<lparr>ss_uploads := hm_insert k u (ss_uploads st1)\<rparr>"
  | (stored) u u' st1 where "u = session_for now k params st" "st1 = fst (consume_reservation k st)"
      "snd (consume_reservation k st)" "r = Incomplete" "u' = u\<lparr>cu_chunks := cu_chunks u @ [chunk]\<rparr>"
      "cu_upload_length u = sp_upload_length params"
      "\<not> (\<exists>ex \<in> set (cu_chunks u). chunk_overlaps chunk ex)"
      "st' = st1\<lparr>ss_uploads := hm_insert k u' (hm_insert k u (ss_uploads st1))\<rparr>"
  | (completed) u u' st1 where "u = session_for now k params st" "st1 = fst (consume_reservation k st)"
      "snd (consume_reservation k st)" "r = Completed u'" "u' = u\<lparr>cu_chunks := cu_chunks u @ [chunk]\<rparr>"
      "cu_upload_length u = sp_upload_length params" "cu_upload_type u = sp_upload_type params"
      "\<not> (\<exists>ex \<in> set (cu_chunks u). chunk_overlaps chunk ex)"
      "bytes_of (cu_chunks u') = unat (cu_upload_length u)"
      "st' = st1\<lparr>ss_uploads := hm_remove k (hm_insert k u (ss_uploads st1))\<rparr>"
proof -
  obtain st1 held where c: "consume_reservation k st = (st1, held)" by (cases "consume_reservation k st")
  have frame: "ss_uploads st1 = ss_uploads st" using consume_frame [of k st] c by simp
  define u where "u = session_for now k params st"
  have total: "bytes_of (cu_chunks u @ [chunk]) = unat t"
    if "Option.bind (checked_sum (map ch_length (cu_chunks u))) (\<lambda>total. checked_add total (ch_length chunk)) = Some t" for t
    using that by (auto simp: bind_eq_Some_conv checked_sum_iff checked_add_Some_iff bytes_of_def comp_def)
  show thesis
    using assms c frame u_def total lost refused stored completed
    unfolding commit_def session_for_def
    by (auto simp: Let_def u_def session_for_def split: if_splits option.splits)
qed

lemma commit_uploads:
  assumes ok: "sessions_ok st" and b: "params_ok params chunk"
    and c: "commit now k params chunk st = (st', r)"
  shows "sessions_ok st'" and "slots st' \<subseteq> slots st"
    and "ss_pending st' = ss_pending (fst (consume_reservation k st))"
    and "\<And>u. r = Completed u \<Longrightarrow> upload_ok u \<and> bytes_of (cu_chunks u) = unat (cu_upload_length u) \<and>
           last (cu_chunks u) = chunk \<and> cu_upload_length u = sp_upload_length params \<and>
           map_of (ss_uploads st') k = None"
proof -
  show "sessions_ok st'"
    using c
  proof (cases rule: commit_cases)
    case lost
    with ok show ?thesis by (simp add: consume_ok)
  next
    case (refused u st1)
    with ok show ?thesis by (simp only: sessions_ok_put consume_ok session_for_ok)
  next
    case (stored u u' st1)
    have "upload_ok u'"
      unfolding stored(5) using stored ok b
      by (intro upload_ok_snoc) (simp_all add: session_for_ok params_ok_def)
    moreover have "st' = (st1\<lparr>ss_uploads := hm_insert k u (ss_uploads st1)\<rparr>)
        \<lparr>ss_uploads := hm_insert k u' (ss_uploads (st1\<lparr>ss_uploads := hm_insert k u (ss_uploads st1)\<rparr>))\<rparr>"
      using stored by simp
    ultimately show ?thesis
      using stored ok by (simp only: sessions_ok_put consume_ok session_for_ok)
  next
    case (completed u u' st1)
    have "st' = (st1\<lparr>ss_uploads := hm_insert k u (ss_uploads st1)\<rparr>)
        \<lparr>ss_uploads := hm_remove k (ss_uploads (st1\<lparr>ss_uploads := hm_insert k u (ss_uploads st1)\<rparr>))\<rparr>"
      using completed by simp
    then show ?thesis
      using completed ok by (simp only: sessions_ok_drop sessions_ok_put consume_ok session_for_ok)
  qed
  show "ss_pending st' = ss_pending (fst (consume_reservation k st))"
    using c by (cases rule: commit_cases) simp_all
  have k: "k \<in> slots st" if "snd (consume_reservation k st)"
    using that by (auto simp: consume_held slots_def)
  show "slots st' \<subseteq> slots st"
    using c
  proof (cases rule: commit_cases)
    case lost
    then show ?thesis using consume_slots by simp
  next
    case (refused u st1)
    then show ?thesis using k consume_slots [of k st] by (auto simp: slots_def hm_simps)
  next
    case (stored u u' st1)
    then show ?thesis using k consume_slots [of k st] by (auto simp: slots_def hm_simps split: if_splits)
  next
    case (completed u u' st1)
    then show ?thesis using k consume_slots [of k st] by (auto simp: slots_def hm_simps split: if_splits)
  qed
  fix v
  assume v: "r = Completed v"
  from c show "upload_ok v \<and> bytes_of (cu_chunks v) = unat (cu_upload_length v) \<and>
      last (cu_chunks v) = chunk \<and> cu_upload_length v = sp_upload_length params \<and>
      map_of (ss_uploads st') k = None"
  proof (cases rule: commit_cases)
    case (completed u u' st1)
    have "upload_ok u'"
      unfolding completed(5) using completed ok b
      by (intro upload_ok_snoc) (simp_all add: session_for_ok params_ok_def)
    with completed v show ?thesis by (simp add: hm_simps)
  qed (use v in auto)
qed

subsection \<open>Restore and eviction\<close>

lemma restore_ok:
  assumes "sessions_ok st" "upload_ok u" "restore k u st = (st', True)"
  shows "sessions_ok st'" "slots st' = insert k (slots st)" "ss_pending st' = ss_pending st"
  using assms by (auto simp: restore_def sessions_ok_put slots_def hm_simps split: if_splits)

lemma evict_ok:
  assumes "sessions_ok st"
  shows "sessions_ok (fst (evict_older_than now age st))"
    and "slots (fst (evict_older_than now age st)) \<subseteq> slots st"
    and "ss_pending (fst (evict_older_than now age st)) = ss_pending st"
proof -
  have sub: "map_of (filter (keep_session now age st) (ss_uploads st)) k = Some u \<Longrightarrow>
      map_of (ss_uploads st) k = Some u" for k u
    using assms by (auto simp: sessions_ok_def)
  show "sessions_ok (fst (evict_older_than now age st))"
    using assms sub by (auto simp: sessions_ok_def evict_older_than_def)
  show "slots (fst (evict_older_than now age st)) \<subseteq> slots st"
    using sub by (auto simp: slots_def evict_older_than_def)
  show "ss_pending (fst (evict_older_than now age st)) = ss_pending st"
    by (simp add: evict_older_than_def)
qed

section \<open>The protocol\<close>

text \<open>
  \<open>session_reach limits st tickets restored\<close>: the handlers reserve, then release or commit each
  granted ticket once; chunks come with the bounds \<open>patch_upload\<close> checked; a payment-rejected
  completion may be restored without its last chunk; the cleanup job evicts.
\<close>

inductive session_reach ::
  "session_limits \<Rightarrow> session_state \<Rightarrow> chunk_upload_key list \<Rightarrow> chunk_upload_key list \<Rightarrow> bool"
  for limits where
  reach_new: "session_reach limits sessions_new [] []"
| reach_reserve: "session_reach limits st ts rs \<Longrightarrow> reserve limits k st = (st', Granted t) \<Longrightarrow>
    session_reach limits st' (t # ts) rs"
| reach_release: "session_reach limits st ts rs \<Longrightarrow> k \<in> set ts \<Longrightarrow>
    session_reach limits (release k st) (remove1 k ts) rs"
| reach_commit: "session_reach limits st ts rs \<Longrightarrow> k \<in> set ts \<Longrightarrow> params_ok params c \<Longrightarrow>
    commit now k params c st = (st', r) \<Longrightarrow> session_reach limits st' (remove1 k ts) rs"
| reach_restore: "session_reach limits st ts rs \<Longrightarrow> upload_ok u \<Longrightarrow>
    restore k (u\<lparr>cu_chunks := butlast (cu_chunks u)\<rparr>) st = (st', True) \<Longrightarrow>
    session_reach limits st' ts (k # rs)"
| reach_evict: "session_reach limits st ts rs \<Longrightarrow>
    session_reach limits (fst (evict_older_than now age st)) ts rs"

definition capacity_ok :: "session_limits \<Rightarrow> session_state \<Rightarrow> chunk_upload_key list \<Rightarrow> bool" where
  "capacity_ok limits st rs \<longleftrightarrow> card (slots st) \<le> max_sessions limits + length rs \<and>
     (\<forall>p. card {k \<in> slots st. ck_pubkey k = p} \<le>
        max_sessions_per_pubkey limits + length (filter (\<lambda>k. ck_pubkey k = p) rs))"

lemma finite_slots [simp]: "finite (slots st)"
  by (simp add: slots_set)

lemma capacity_shrink:
  assumes "capacity_ok limits st rs" "slots st' \<subseteq> slots st"
  shows "capacity_ok limits st' rs"
proof -
  have "card {k \<in> slots st'. P k} \<le> card {k \<in> slots st. P k}" for P
    using assms(2) by (intro card_mono) auto
  moreover have "card (slots st') \<le> card (slots st)"
    using assms(2) by (intro card_mono) auto
  ultimately show ?thesis
    using assms(1) unfolding capacity_ok_def by (meson le_trans)
qed

lemma card_insert_filter:
  assumes "finite S"
  shows "card {x \<in> insert k S. P x} \<le> card {x \<in> S. P x} + (if P k then 1 else 0)"
proof -
  have "{x \<in> insert k S. P x} = (if P k then insert k {x \<in> S. P x} else {x \<in> S. P x})" by auto
  then show ?thesis using assms by (simp add: card_insert_if)
qed

lemma capacity_restored:
  assumes "capacity_ok limits st rs" "slots st' = insert k (slots st)"
  shows "capacity_ok limits st' (k # rs)"
proof -
  have "card (insert k (slots st)) \<le> card (slots st) + 1" by (simp add: card_insert_if)
  moreover have "card {x \<in> insert k (slots st). ck_pubkey x = p} \<le>
      card {x \<in> slots st. ck_pubkey x = p} + (if ck_pubkey k = p then 1 else 0)" for p
    by (rule card_insert_filter) simp
  moreover have "card (slots st) \<le> max_sessions limits + length rs"
    "card {x \<in> slots st. ck_pubkey x = p} \<le>
       max_sessions_per_pubkey limits + length (filter (\<lambda>k. ck_pubkey k = p) rs)" for p
    using assms(1) by (simp_all add: capacity_ok_def)
  ultimately have
    "card (insert k (slots st)) \<le> max_sessions limits + length (k # rs)"
    "card {x \<in> insert k (slots st). ck_pubkey x = p} \<le>
       max_sessions_per_pubkey limits + length (filter (\<lambda>k. ck_pubkey k = p) (k # rs))" for p
    by (force intro: le_trans)+
  then show ?thesis
    unfolding capacity_ok_def assms(2) by blast
qed

lemma capacity_reserved:
  assumes ok: "sessions_ok st" and cap: "capacity_ok limits st rs"
    and r: "reserve limits k st = (st', Granted t)"
  shows "capacity_ok limits st' rs"
proof (cases "k \<in> slots st")
  case True
  then show ?thesis
    using capacity_shrink [OF cap] reserve_granted(3) [OF r] by auto
next
  case False
  note room = reserve_room [OF ok r False]
  have step: "card {x \<in> insert k (slots st). ck_pubkey x = p} \<le>
      card {x \<in> slots st. ck_pubkey x = p} + (if ck_pubkey k = p then 1 else 0)" for p
    by (rule card_insert_filter) simp
  have per: "card {x \<in> insert k (slots st). ck_pubkey x = p} \<le>
      max_sessions_per_pubkey limits + length (filter (\<lambda>k. ck_pubkey k = p) rs)" for p
  proof (cases "ck_pubkey k = p")
    case True
    with step [of p] room(2) show ?thesis by simp
  next
    case False
    have "card {x \<in> slots st. ck_pubkey x = p} \<le>
        max_sessions_per_pubkey limits + length (filter (\<lambda>k. ck_pubkey k = p) rs)"
      using cap by (simp add: capacity_ok_def)
    with step [of p] False show ?thesis by simp
  qed
  with room(1) False show ?thesis
    by (simp add: capacity_ok_def reserve_granted(3) [OF r])
qed

lemma reach_inv:
  "session_reach limits st ts rs \<Longrightarrow>
     sessions_ok st \<and> tickets_ok st ts \<and> capacity_ok limits st rs"
proof (induction rule: session_reach.induct)
  case reach_new
  then show ?case
    by (simp add: sessions_ok_def sessions_new_def tickets_ok_def pending_of_def capacity_ok_def slots_def)
next
  case (reach_reserve st ts rs k st' t)
  note g = reserve_granted [OF reach_reserve.hyps(2)]
  have zero: "map_of (ss_pending st') j = None \<or> 0 < pending_of st' j" for j
  proof (cases "j = k")
    case True
    then show ?thesis using g(4) [of j] by simp
  next
    case False
    have "tickets_ok st ts" using reach_reserve.IH by simp
    then have "map_of (ss_pending st) j = None \<or> 0 < pending_of st j"
      unfolding tickets_ok_def by (elim allE [of _ j] conjE)
    moreover have "pending_of st' j = pending_of st j"
      using g(4) [of j] False by simp
    ultimately show ?thesis
      unfolding reserve_other [OF reach_reserve.hyps(2) False] by simp
  qed
  have "tickets_ok st' (t # ts)"
    using reach_reserve.IH g(1,4) zero by (simp add: tickets_ok_def)
  moreover have "sessions_ok st'"
    using reach_reserve.IH g(2,5) unfolding sessions_ok_def by metis
  moreover have "capacity_ok limits st' rs"
    using reach_reserve.IH capacity_reserved [OF _ _ reach_reserve.hyps(2)] by blast
  ultimately show ?case by blast
next
  case (reach_release st ts rs k)
  then show ?case
    using consume_pending consume_ok consume_slots capacity_shrink by (auto simp: release_def)
next
  case (reach_commit st ts rs k params c now st' r)
  have ok: "sessions_ok st" using reach_commit by simp
  note cu = commit_uploads [OF ok reach_commit.hyps(3,4)]
  have "tickets_ok st' (remove1 k ts)"
    using consume_pending(2) [of st ts k] reach_commit.IH reach_commit.hyps(2) tickets_cong [OF cu(3)]
    by blast
  moreover have "capacity_ok limits st' rs"
    using reach_commit.IH capacity_shrink cu(2) by blast
  ultimately show ?case using cu(1) by blast
next
  case (reach_restore st ts rs u k st')
  have ok: "sessions_ok st" using reach_restore by simp
  note r = restore_ok [OF ok upload_ok_butlast [OF reach_restore.hyps(2)] reach_restore.hyps(3)]
  show ?case
    using reach_restore.IH r(1) tickets_cong [OF r(3)] capacity_restored [OF _ r(2)] by blast
next
  case (reach_evict st ts rs now age)
  then show ?case
    using evict_ok [of st now age] capacity_shrink
      tickets_cong [of "fst (evict_older_than now age st)" st ts] by blast
qed

section \<open>Properties\<close>

definition ex_key :: chunk_upload_key where
  "ex_key = \<lparr>ck_pubkey = ''p'', ck_sha256 = ''h''\<rparr>"

definition ex_limits :: session_limits where
  "ex_limits = \<lparr>max_sessions = 2, max_sessions_per_pubkey = 1\<rparr>"

definition ex_params :: session_params where
  "ex_params = \<lparr>sp_sha256 = ''h'', sp_owner = ''p'', sp_upload_type = ''t'', sp_upload_length = 4,
     sp_expiration = None\<rparr>"

definition ex_chunk :: chunk_info where
  "ex_chunk = \<lparr>ch_offset = 0, ch_length = 4, ch_path = [''c'']\<rparr>"

lemma ex_reach:
  "session_reach ex_limits (fst (reserve ex_limits ex_key sessions_new)) [ex_key] []"
  by (rule reach_reserve [OF reach_new, of _ ex_key])
    (simp add: reserve_def sessions_new_def pending_without_upload_def session_keys_def ex_limits_def)

text \<open>C3: In every reachable state of the registry the live sessions and the reservations in flight
  together stay within the global and the per-owner limits (up to the sessions a rejected payment put
  back), and the pending counters are exactly the tickets the requests hold, so a registry with no
  request in flight holds no reservation.\<close>
theorem session_capacity:
  assumes "session_reach limits st tickets restored"
  shows "length (ss_uploads st) + length (pending_without_upload st)
           \<le> max_sessions limits + length restored \<and>
     length (filter (\<lambda>k. ck_pubkey k = p) (session_keys st))
           \<le> max_sessions_per_pubkey limits + length (filter (\<lambda>k. ck_pubkey k = p) restored) \<and>
     (\<forall>k. pending_of st k = count_list tickets k) \<and>
     (ss_pending st = [] \<longleftrightarrow> tickets = [])"
proof -
  note inv = reach_inv [OF assms]
  have ok: "sessions_ok st" and tk: "tickets_ok st tickets" and cap: "capacity_ok limits st restored"
    using inv by auto
  have "ss_pending st = [] \<longleftrightarrow> (\<forall>k. map_of (ss_pending st) k = None)"
    by (cases "ss_pending st") auto
  also have "\<dots> \<longleftrightarrow> (\<forall>k. count_list tickets k = 0)"
    using tk by (auto simp: tickets_ok_def pending_of_def split: option.splits)
  also have "\<dots> \<longleftrightarrow> tickets = []"
    by (metis count_list_0_iff ex_in_conv set_empty count_list.simps(1))
  finally show ?thesis
    using cap tk card_slots [OF ok] by (simp add: capacity_ok_def tickets_ok_def)
qed

theorem session_capacity_witness:
  "length (session_keys (fst (reserve ex_limits ex_key sessions_new))) \<le> 2 \<and>
   pending_of (fst (reserve ex_limits ex_key sessions_new)) ex_key = 1"
  using session_capacity [OF ex_reach] by (simp add: session_keys_def ex_limits_def)

text \<open>C4: A completed chunked upload tiles its declared length: when a commit in any reachable state
  reports completion, the session has left the registry (no second finisher can see it), its chunks
  carry exactly the declared number of bytes, and the coverage check of the reconstruction accepts
  them in offset order.\<close>
theorem completed_upload_tiles:
  assumes "session_reach limits st tickets restored"
    and "ticket \<in> set tickets"
    and "0 < ch_length chunk"
    and "unat (ch_offset chunk) + unat (ch_length chunk) \<le> unat (sp_upload_length params)"
    and "commit now ticket params chunk st = (st', Completed u)"
  shows "map_of (ss_uploads st') ticket = None \<and> cu_upload_length u = sp_upload_length params \<and>
     (\<Sum>c \<leftarrow> cu_chunks u. unat (ch_length c)) = unat (cu_upload_length u) \<and>
     chunk_coverage u = Inr (sort_key ch_offset (cu_chunks u))"
proof -
  have "sessions_ok st" using reach_inv [OF assms(1)] by simp
  moreover have "params_ok params chunk"
    using assms(3,4) by (simp add: params_ok_def chunk_in_bounds_def chunk_end_def unat_gt_0 word_gt_0)
  ultimately have "upload_ok u \<and> bytes_of (cu_chunks u) = unat (cu_upload_length u) \<and>
      cu_upload_length u = sp_upload_length params \<and> map_of (ss_uploads st') ticket = None"
    using commit_uploads(4) [OF _ _ assms(5)] by blast
  then show ?thesis
    using upload_ok_coverage [of u] by (simp add: bytes_of_def)
qed

theorem completed_upload_tiles_witness:
  "\<exists>st' u. commit 0 ex_key ex_params ex_chunk (fst (reserve ex_limits ex_key sessions_new))
       = (st', Completed u) \<and> chunk_coverage u = Inr (sort_key ch_offset (cu_chunks u))"
proof -
  obtain st' u where c: "commit 0 ex_key ex_params ex_chunk (fst (reserve ex_limits ex_key sessions_new))
      = (st', Completed u)"
    by (simp add: commit_def consume_reservation_def reserve_def sessions_new_def ex_params_def
        ex_chunk_def ex_limits_def pending_without_upload_def session_keys_def checked_sum_def
        checked_add_def)
  then show ?thesis
    using completed_upload_tiles [OF ex_reach _ _ _ c]
    by (simp add: ex_chunk_def ex_params_def)
qed

end
