(* ===== verification/World.thy ===== *)
theory World
  imports Serving Auth Cashu ChunkSessions
begin

text \<open>
  The mutable part of \<open>AppState\<close> (\<open>src/models.rs\<close>), put together from the components that own it, and
  the environment its handlers run in.

  A download handle is shared (\<open>Arc<DownloadHandle>\<close>) and changes while followers hold it, so handles
  live in a store of their own and the maps hold their addresses; \<open>Arc::ptr_eq\<close> is equality of
  addresses. A task the code spawns is appended to \<open>w_spawned\<close>: it runs later, as a step of its own.
\<close>

record download_handle =
  dh_temp_path :: path
  dh_content_type :: string
  dh_total_len :: "u64 option"
  dh_progress :: download_progress
  dh_final_path :: "path option"

record hls_reference =
  hr_sha256 :: string
  hr_extension :: "string option"

datatype job =
    Run_Download string upstream_response string nat bool
  | Redirect_Download string string string
  | Mirror_References string "hls_reference list"
  | Remove_Negotiation string nat
  | Remove_Handle string nat

record cached_filter =
  cf_generation :: u64
  cf_fp_rate_bits :: u64
  cf_body :: bytes
  cf_etag :: string

record world =
  w_store :: store
  w_auth :: auth_state
  w_sessions :: session_state
  w_ledger :: ledger
  w_net :: net_log
  w_failed :: "(string \<times> instant) list"
  w_serve_files :: "(string \<times> serve_file_metadata) list"
  w_lists :: "(pubkey \<times> string list \<times> instant) list"
  w_next :: nat
  w_handles :: "(nat \<times> download_handle) list"
  w_ongoing :: "(string \<times> nat) list"
  w_phases :: "(nat \<times> negotiation_phase) list"
  w_negotiations :: "(string \<times> nat) list"
  w_filter :: "cached_filter option"
  w_spawned :: "job list"

text \<open>
  What the handlers rely on outside the repository: the file system and bucket, Nostr events, the
  wallet, the network, \<open>mime_guess\<close>, dates, SHA-256, relays and JSON.
\<close>

record app_env =
  ae_storage :: storage_env
  ae_nostr :: nostr_env
  ae_cashu :: cashu_env
  ae_net :: net_env
  ae_serve :: serve_env
  ae_sha :: "bytes \<Rightarrow> string"
  ae_instant :: instant
  ae_extensions :: "string \<Rightarrow> string option"
  ae_bech32 :: "string \<Rightarrow> pubkey option"
  ae_hex_key :: "string \<Rightarrow> pubkey option"
  ae_relays :: "pubkey \<Rightarrow> string + nostr_event list"
  ae_upstream :: "net_log \<Rightarrow> string \<Rightarrow> string \<Rightarrow> header_map \<Rightarrow> string + upstream_response"
  ae_content_length :: "upstream_response \<Rightarrow> u64 option"
  ae_descriptor_json :: "blob_descriptor \<Rightarrow> string"
  ae_mirror_url :: "bytes \<Rightarrow> string + string option"
  ae_word :: "string \<Rightarrow> bool"
  ae_completion :: "nat \<Rightarrow> hls_reference list \<Rightarrow> hls_reference list"

abbreviation env_host :: "app_env \<Rightarrow> host_env" where
  "env_host e \<equiv> host (ae_storage e)"

abbreviation env_now :: "app_env \<Rightarrow> u64" where
  "env_now e \<equiv> now_secs (env_host e)"

section \<open>Running a component inside the world\<close>

definition in_store :: "'a op \<Rightarrow> world \<Rightarrow> 'a app_result \<times> world" where
  "in_store g w = (let (r, s) = g (w_store w) in (r, w\<lparr>w_store := s\<rparr>))"

definition in_auth :: "(auth_state \<Rightarrow> ('e + 'a) \<times> auth_state) \<Rightarrow> world \<Rightarrow> ('e + 'a) \<times> world" where
  "in_auth g w = (let (r, s) = g (w_auth w) in (r, w\<lparr>w_auth := s\<rparr>))"

definition in_ledger :: "(ledger \<Rightarrow> ('e + 'a) \<times> ledger) \<Rightarrow> world \<Rightarrow> ('e + 'a) \<times> world" where
  "in_ledger g w = (let (r, l) = g (w_ledger w) in (r, w\<lparr>w_ledger := l\<rparr>))"

definition in_net :: "(net_log \<Rightarrow> ('e + 'a) \<times> net_log) \<Rightarrow> world \<Rightarrow> ('e + 'a) \<times> world" where
  "in_net g w = (let (r, l) = g (w_net w) in (r, w\<lparr>w_net := l\<rparr>))"

definition in_files :: "(fs \<Rightarrow> ('e + 'a) \<times> fs) \<Rightarrow> world \<Rightarrow> ('e + 'a) \<times> world" where
  "in_files g w = (let (r, s) = on_fs g (w_store w) in (r, w\<lparr>w_store := s\<rparr>))"

definition in_sessions :: "(session_state \<Rightarrow> session_state \<times> 'a) \<Rightarrow> world \<Rightarrow> 'a \<times> world" where
  "in_sessions g w = (let (st, r) = g (w_sessions w) in (r, w\<lparr>w_sessions := st\<rparr>))"

definition unlink_temp :: "app_env \<Rightarrow> path \<Rightarrow> world \<Rightarrow> world" where
  "unlink_temp e p w = w\<lparr>w_store := drop_temp (env_host e) p (w_store w)\<rparr>"

text \<open>A \<open>TempBlob\<close> in scope: an error drops it and so unlinks its file.\<close>

definition with_temp :: "app_env \<Rightarrow> path \<Rightarrow> ('e + 'a) \<times> world \<Rightarrow> ('e + 'a) \<times> world" where
  "with_temp e p rw = (case rw of (Inl err, w) \<Rightarrow> (Inl err, unlink_temp e p w) | (Inr x, w) \<Rightarrow> (Inr x, w))"

lemma with_temp_simps [simp]:
  "with_temp e p (Inl err, w) = (Inl err, unlink_temp e p w)" "with_temp e p (Inr x, w) = (Inr x, w)"
  by (simp_all add: with_temp_def)

end
