(* ===== verification/Integrity.thy ===== *)
theory Integrity
  imports World
begin

text \<open>
  The safety invariant of the whole server and the lemmas by which every handler keeps it:
  \<open>blob_safe\<close> says that each catalogued local blob is a file of its own hash, in the root of its origin,
  whose bytes hash to that name and have the recorded size. A handler touches files only below the
  temporary root until it publishes or removes through the storage layer.
\<close>

definition blob_safe :: "app_env \<Rightarrow> app_config \<Rightarrow> world \<Rightarrow> bool" where
  "blob_safe e c w \<longleftrightarrow> store_inv c (integrity (ae_sha e)) (w_store w)"

lemma blob_safe_store: "w_store w' = w_store w \<Longrightarrow> blob_safe e c w \<Longrightarrow> blob_safe e c w'"
  by (simp add: blob_safe_def)

section \<open>Only temporary files change\<close>

lemma store_inv_only_file:
  assumes "layout_ok c" "is_temp_path c p" "store_inv c Q s"
    and "st_index s' = st_index s" "\<forall>q. q \<noteq> p \<longrightarrow> fs_data (st_fs s') q = fs_data (st_fs s) q"
  shows "store_inv c Q s'"
proof (rule store_inv_same [OF assms(3,4)])
  fix k m q
  assume m: "index_get (st_index s) k = Some m" "md_location m = Local q"
  then have "located c Q (st_fs s) k m" using assms(3) by (simp add: store_inv_def)
  then have "q \<noteq> p" using located_not_temp [OF _ assms(1,2)] m(2) by blast
  then show "fs_data (st_fs s') q = fs_data (st_fs s) q" using assms(5) by simp
qed

lemma in_store_fst: "in_store g w = (r, w') \<longleftrightarrow> g (w_store w) = (r, w_store w') \<and> w' = w\<lparr>w_store := w_store w'\<rparr>"
  by (auto simp: in_store_def split: prod.splits)

lemma in_auth_store: "in_auth g w = (r, w') \<Longrightarrow> w_store w' = w_store w"
  by (auto simp: in_auth_def split: prod.splits)

lemma in_ledger_store: "in_ledger g w = (r, w') \<Longrightarrow> w_store w' = w_store w"
  by (auto simp: in_ledger_def split: prod.splits)

lemma in_net_store: "in_net g w = (r, w') \<Longrightarrow> w_store w' = w_store w"
  by (auto simp: in_net_def split: prod.splits)

lemmas in_other_store = in_auth_store in_ledger_store in_net_store

lemma in_files_cases:
  assumes "in_files g w = (r, w')"
  obtains f' where "g (st_fs (w_store w)) = (r, f')" "w_store w' = (w_store w)\<lparr>st_fs := f'\<rparr>"
  using assms by (auto simp: in_files_def on_fs_def split: prod.splits)

lemma in_files_safe:
  assumes "layout_ok c" "is_temp_path c p" "blob_safe e c w" "in_files g w = (r, w')"
    and only: "\<And>f r f'. g f = (r, f') \<Longrightarrow> only_file p f f'"
  shows "blob_safe e c w'"
proof -
  obtain f' where g: "g (st_fs (w_store w)) = (r, f')" and w': "w_store w' = (w_store w)\<lparr>st_fs := f'\<rparr>"
    using assms(4) by (rule in_files_cases)
  show ?thesis
    unfolding blob_safe_def
    by (rule store_inv_only_file [OF assms(1,2) assms(3) [unfolded blob_safe_def]])
      (use only [OF g] w' in \<open>simp_all add: only_file_def\<close>)
qed

lemma unlink_temp_safe:
  "layout_ok c \<Longrightarrow> is_temp_path c p \<Longrightarrow> blob_safe e c w \<Longrightarrow> blob_safe e c (unlink_temp e p w)"
  using drop_temp_inv(1) by (simp add: blob_safe_def unlink_temp_def)

lemma temp_reserve_is_temp [simp]: "is_temp_path c (temp_reserve c h pre ext)"
  by (simp add: is_temp_path_def temp_reserve_def split: option.split)

lemma ensure_temp_dir_files:
  "ensure_temp_dir c h s = (r, s') \<Longrightarrow> st_index s' = st_index s \<and> fs_files (st_fs s') = fs_files (st_fs s)"
  using create_dir_keeps [of h "temp (storage c)" "st_fs s"]
  by (auto simp: ensure_temp_dir_def on_fs_def err_st_def bind_st_def split: prod.splits sum.splits)

lemma store_inv_files:
  "store_inv c Q s \<Longrightarrow> st_index s' = st_index s \<Longrightarrow> fs_files (st_fs s') = fs_files (st_fs s) \<Longrightarrow> store_inv c Q s'"
  by (rule store_inv_same) auto

lemma ensure_temp_dir_safe:
  assumes "blob_safe e c w" "in_store (ensure_temp_dir c h) w = (r, w')"
  shows "blob_safe e c w'"
proof -
  have "ensure_temp_dir c h (w_store w) = (r, w_store w')" using assms(2) by (simp add: in_store_fst)
  from ensure_temp_dir_files [OF this] show ?thesis
    using store_inv_files [OF assms(1) [unfolded blob_safe_def]] by (simp add: blob_safe_def)
qed

section \<open>What the streams leave behind\<close>

definition chunks_fit :: "upstream_response \<Rightarrow> bool" where
  "chunks_fit response \<longleftrightarrow> (\<forall>b. Inr b \<in> set (ur_stream response) \<longrightarrow> length b < 2 ^ 64)"

lemma download_loop_only: "download_loop h p mx items st f = (r, f') \<Longrightarrow> only_file p f f'"
proof (induction h p mx items st f arbitrary: r f' rule: download_loop.induct)
  case (3 h p mx chunk items hashed body_size f)
  obtain ra fa where a: "fs_append h p chunk f = (ra, fa)" by fastforce
  show ?case
    using 3 a append_only [OF a] by (cases ra) (auto split: option.splits if_splits intro: only_file_trans)
qed (auto split: if_splits)

lemma download_loop_ok:
  "download_loop h p mx items st f = (Inr st', f') \<Longrightarrow> stream_state p mx d st f \<Longrightarrow>
     \<forall>b. Inr b \<in> set items \<longrightarrow> length b < 2 ^ 64 \<Longrightarrow>
     \<exists>ds. items = map Inr ds \<and> stream_state p mx (d @ concat ds) st' f'"
proof (induction h p mx items st f arbitrary: d rule: download_loop.induct)
  case (1 h p mx st f)
  then show ?case by (intro exI [of _ "[]"]) simp
next
  case (3 h p mx chunk items hashed body_size f)
  obtain ra fa where a: "fs_append h p chunk f = (ra, fa)" by fastforce
  from 3(2) a obtain nt where nt: "checked_add body_size (word_of_nat (length chunk)) = Some nt" "nt \<le> mx"
    and ok: "ra = Inr ()"
    and rest: "download_loop h p mx items (hashed @ chunk, body_size + word_of_nat (length chunk)) fa = (Inr st', f')"
    by (cases ra) (auto split: option.splits if_splits)
  have len: "unat (word_of_nat (length chunk) :: u64) = length chunk"
    using 3(4) by (intro unat_of_small) auto
  have sum: "unat nt = unat body_size + length chunk" using nt(1) len by (simp add: checked_add_Some_iff)
  then have "body_size + word_of_nat (length chunk) = nt"
    using nt(1) by (simp add: checked_add_def split: if_splits)
  then have "stream_state p mx (d @ chunk) (hashed @ chunk, body_size + word_of_nat (length chunk)) fa"
    using 3(3) nt(2) sum append_file_cases [OF a] ok by (auto simp: stream_state_def hm_simps)
  then have "\<exists>ds. items = map Inr ds \<and> stream_state p mx ((d @ chunk) @ concat ds) st' f'"
    using 3(1) [OF nt(1) _ rest, of "d @ chunk"] 3(4) nt(2) by auto
  then obtain ds where "items = map Inr ds" "stream_state p mx (d @ chunk @ concat ds) st' f'" by auto
  then show ?case by (intro exI [of _ "chunk # ds"]) simp
qed (auto split: if_splits)

lemma create_state:
  "fs_create h p f = (Inr u, f') \<Longrightarrow> stream_state p mx [] ([], 0) f'"
  by (auto simp: stream_state_def fs_create_def hm_simps split: option.splits if_splits)

text \<open>After a successful stream: the file, its hash and its size.\<close>

definition staged :: "(bytes \<Rightarrow> string) \<Rightarrow> path \<Rightarrow> string \<Rightarrow> u64 \<Rightarrow> fs \<Rightarrow> bool" where
  "staged sha p hash n f \<longleftrightarrow> (\<exists>d. fs_data f p = Some d \<and> sha d = hash \<and> unat n = length d)"

lemma finish_stream_cases:
  "finish_stream h sha p st f = (r, f') \<Longrightarrow> f' = f \<and> (\<forall>x. r = Inr x \<longrightarrow> x = (sha (fst st), snd st))"
  by (auto simp: finish_stream_def split: prod.splits sum.splits)

lemma stream_response_contents:
  assumes "stream_response_to_temp_file h sha response p mx f = (Inr (hash, n), f')" and "chunks_fit response"
  shows "\<exists>ds. ur_stream response = map Inr ds \<and> fs_data f' p = Some (concat ds) \<and> hash = sha (concat ds) \<and>
     unat n = length (concat ds) \<and> n \<le> mx"
proof -
  obtain rc f1 where c: "fs_create h p f = (rc, f1)" by fastforce
  obtain rd f2 where d: "download_loop h p mx (ur_stream response) ([], 0) f1 = (rd, f2)" by fastforce
  obtain st where rc: "rc = Inr ()" and rd: "rd = Inr st" and fin: "finish_stream h sha p st f2 = (Inr (hash, n), f')"
    using assms(1) c d by (cases rc; cases rd) (auto simp: stream_response_to_temp_file_def)
  obtain ds where "ur_stream response = map Inr ds" "stream_state p mx (concat ds) st f2"
    using download_loop_ok [OF d [unfolded rd] create_state [OF c [unfolded rc]]] assms(2) by (auto simp: chunks_fit_def)
  then show ?thesis using finish_stream_cases [OF fin] by (auto simp: stream_state_def)
qed

lemma stream_response_spec:
  assumes "stream_response_to_temp_file h sha response p mx f = (r, f')"
  shows "only_file p f f'"
    and "chunks_fit response \<Longrightarrow> r = Inr (hash, n) \<Longrightarrow> staged sha p hash n f' \<and> n \<le> mx"
proof -
  obtain rc f1 where c: "fs_create h p f = (rc, f1)" by fastforce
  obtain rd f2 where d: "download_loop h p mx (ur_stream response) ([], 0) f1 = (rd, f2)" by fastforce
  show "only_file p f f'"
  proof (cases rc)
    case (Inr u)
    then have "f' = f2"
      using assms c d by (cases rd) (auto simp: stream_response_to_temp_file_def dest!: finish_stream_cases)
    then show ?thesis using only_file_trans [OF create_only [OF c] download_loop_only [OF d]] by simp
  qed (use assms c create_only [OF c] in \<open>auto simp: stream_response_to_temp_file_def\<close>)
  assume fit: "chunks_fit response" and r: "r = Inr (hash, n)"
  show "staged sha p hash n f' \<and> n \<le> mx"
    using stream_response_contents [OF assms [unfolded r] fit] by (auto simp: staged_def)
qed

lemma stream_upload_spec:
  assumes "stream_to_temp_file h sha items p mx f = (r, f')"
  shows "only_file p f f'" and "r = Inr (hash, n) \<Longrightarrow> staged sha p hash n f' \<and> n \<le> mx"
proof -
  obtain rc f1 where c: "fs_create h p f = (rc, f1)" by fastforce
  obtain rd f2 where d: "upload_loop h p mx items ([], 0) f1 = (rd, f2)" by fastforce
  show "only_file p f f'"
  proof (cases rc)
    case (Inr u)
    then have "f' = f2"
      using assms c d by (cases rd) (auto simp: stream_to_temp_file_def dest!: finish_stream_cases)
    then show ?thesis using only_file_trans [OF create_only [OF c] upload_loop_only [OF d]] by simp
  qed (use assms c create_only [OF c] in \<open>auto simp: stream_to_temp_file_def\<close>)
  assume r: "r = Inr (hash, n)"
  obtain st where rc: "rc = Inr ()" and rd: "rd = Inr st" and fin: "finish_stream h sha p st f2 = (r, f')"
    using assms c d r by (cases rc; cases rd) (auto simp: stream_to_temp_file_def)
  obtain ds where "stream_state p mx (concat ds) st f2"
    using upload_loop_ok [OF d [unfolded rd] create_state [OF c [unfolded rc]]] by auto
  then show "staged sha p hash n f' \<and> n \<le> mx"
    using finish_stream_cases [OF fin] r by (auto simp: staged_def stream_state_def)
qed

section \<open>Publishing and removing inside the world\<close>

lemma publish_safe:
  assumes "layout_ok c" "is_temp_path c p" "blob_safe e c w"
    and staged: "staged (ae_sha e) p (bp_sha256 pub) (bp_size pub) (st_fs (w_store w))"
    and pub: "in_store (publish_blob c (ae_storage e) p pub) w = (r, w')"
  shows "blob_safe e c w'"
    and "r = Inr b \<Longrightarrow> index_get (st_index (w_store w')) (bp_sha256 pub) = Some (sb_metadata b) \<and>
       is_valid_hash (bp_sha256 pub)"
    and "k \<noteq> bp_sha256 pub \<Longrightarrow> index_get (st_index (w_store w')) k = index_get (st_index (w_store w)) k"
proof -
  have "publish_blob c (ae_storage e) p pub (w_store w) = (r, w_store w')" using pub by (simp add: in_store_fst)
  moreover have "content_ok (integrity (ae_sha e)) (env_now e) pub (w_store w) p"
    using staged by (auto simp: staged_def content_ok_def integrity_def publication_metadata_def)
  ultimately have spec: "store_inv c (integrity (ae_sha e)) (w_store w') \<and>
      (\<forall>b. r = Inr b \<longrightarrow> is_valid_hash (bp_sha256 pub) \<and>
         index_get (st_index (w_store w')) = (index_get (st_index (w_store w)))(bp_sha256 pub \<mapsto> sb_metadata b)) \<and>
      (\<forall>err. r = Inl err \<longrightarrow> st_index (w_store w') = st_index (w_store w))"
    using publish_blob_spec [OF assms(1,2) assms(3) [unfolded blob_safe_def]] by blast
  then show "blob_safe e c w'" by (simp add: blob_safe_def)
  show "r = Inr b \<Longrightarrow> index_get (st_index (w_store w')) (bp_sha256 pub) = Some (sb_metadata b) \<and>
       is_valid_hash (bp_sha256 pub)"
    using spec by simp
  show "k \<noteq> bp_sha256 pub \<Longrightarrow> index_get (st_index (w_store w')) k = index_get (st_index (w_store w)) k"
    using spec by (cases r) auto
qed

text \<open>
  A removal that reports success; one that fails may have unlinked the file before the bucket refused.
\<close>

lemma remove_safe:
  assumes "layout_ok c" "blob_safe e c w"
    and "in_store (remove_indexed_blob c (ae_storage e) sha removal expected) w = (Inr removed, w')"
  shows "blob_safe e c w'"
  using remove_indexed_spec(1) [OF assms(1) assms(2) [unfolded blob_safe_def]] assms(3)
  by (auto simp: in_store_fst blob_safe_def)

section \<open>Handlers step by step\<close>

text \<open>
  A handler is a chain of \<open>bind_st\<close>; these rules take its end state apart, one step after the other. A
  step of another component leaves the store alone.
\<close>

named_theorems safe_step

lemma safe_bind [safe_step]:
  assumes "blob_safe e c (snd m)"
    and "\<And>x w'. m = (Inr x, w') \<Longrightarrow> blob_safe e c w' \<Longrightarrow> blob_safe e c (snd (k x w'))"
  shows "blob_safe e c (snd (bind_st m k))"
  using assms by (cases m; cases "fst m") auto

lemma safe_err [safe_step]: "blob_safe e c (snd m) \<Longrightarrow> blob_safe e c (snd (err_st g m))"
  by (cases m; cases "fst m") auto

lemma safe_pure [safe_step]: "blob_safe e c w \<Longrightarrow> blob_safe e c (snd (pure_st r w))"
  by (simp add: pure_st_def)

lemma safe_pair [safe_step]: "blob_safe e c w \<Longrightarrow> blob_safe e c (snd (r, w))"
  by simp

lemma safe_auth [safe_step]: "blob_safe e c w \<Longrightarrow> blob_safe e c (snd (in_auth g w))"
  by (simp add: blob_safe_def in_auth_def split_beta Let_def)

lemma safe_ledger [safe_step]: "blob_safe e c w \<Longrightarrow> blob_safe e c (snd (in_ledger g w))"
  by (simp add: blob_safe_def in_ledger_def split_beta Let_def)

lemma safe_net [safe_step]: "blob_safe e c w \<Longrightarrow> blob_safe e c (snd (in_net g w))"
  by (simp add: blob_safe_def in_net_def split_beta Let_def)

lemma safe_temp_dir [safe_step]: "blob_safe e c w \<Longrightarrow> blob_safe e c (snd (in_store (ensure_temp_dir c h) w))"
  using ensure_temp_dir_safe [of e c w h] by (cases "in_store (ensure_temp_dir c h) w") auto

lemma safe_with_temp:
  "layout_ok c \<Longrightarrow> is_temp_path c p \<Longrightarrow> blob_safe e c (snd m) \<Longrightarrow> blob_safe e c (snd (with_temp e p m))"
  using unlink_temp_safe by (cases m; cases "fst m") auto

lemma with_temp_Inr [simp]: "with_temp e p m = (Inr x, w) \<longleftrightarrow> m = (Inr x, w)"
  by (cases m; cases "fst m") auto

lemma pure_st_Inr [simp]: "pure_st r s = (Inr x, s') \<longleftrightarrow> r = Inr x \<and> s' = s"
  by (auto simp: pure_st_def)

lemma safe_stream_response:
  assumes "layout_ok c" "is_temp_path c p" "blob_safe e c w"
  shows "blob_safe e c (snd (in_files (stream_response_to_temp_file h (ae_sha e) response p mx) w))"
  using in_files_safe [OF assms, of "stream_response_to_temp_file h (ae_sha e) response p mx"]
    stream_response_spec(1) by (metis prod.collapse)

lemma safe_stream_upload:
  assumes "layout_ok c" "is_temp_path c p" "blob_safe e c w"
  shows "blob_safe e c (snd (in_files (stream_to_temp_file h (ae_sha e) items p mx) w))"
  using in_files_safe [OF assms, of "stream_to_temp_file h (ae_sha e) items p mx"]
    stream_upload_spec(1) by (metis prod.collapse)

lemma staged_response:
  assumes "in_files (stream_response_to_temp_file h (ae_sha e) response p mx) w = (Inr (hash, n), w')" "chunks_fit response"
  shows "staged (ae_sha e) p hash n (st_fs (w_store w'))" "n \<le> mx"
    "\<exists>ds. ur_stream response = map Inr ds \<and> fs_data (st_fs (w_store w')) p = Some (concat ds) \<and>
       hash = ae_sha e (concat ds) \<and> unat n = length (concat ds)"
proof -
  obtain f' where "stream_response_to_temp_file h (ae_sha e) response p mx (st_fs (w_store w)) = (Inr (hash, n), f')"
    "w_store w' = (w_store w)\<lparr>st_fs := f'\<rparr>" using assms(1) by (rule in_files_cases)
  then show "staged (ae_sha e) p hash n (st_fs (w_store w'))" "n \<le> mx"
    "\<exists>ds. ur_stream response = map Inr ds \<and> fs_data (st_fs (w_store w')) p = Some (concat ds) \<and>
       hash = ae_sha e (concat ds) \<and> unat n = length (concat ds)"
    using stream_response_spec(2) [OF _ assms(2) refl] stream_response_contents [OF _ assms(2)] by auto
qed

lemma staged_upload:
  assumes "in_files (stream_to_temp_file h (ae_sha e) items p mx) w = (Inr (hash, n), w')"
  shows "staged (ae_sha e) p hash n (st_fs (w_store w'))" "n \<le> mx"
proof -
  obtain f' where "stream_to_temp_file h (ae_sha e) items p mx (st_fs (w_store w)) = (Inr (hash, n), f')"
    "w_store w' = (w_store w)\<lparr>st_fs := f'\<rparr>" using assms by (rule in_files_cases)
  then show "staged (ae_sha e) p hash n (st_fs (w_store w'))" "n \<le> mx"
    by (auto dest: stream_upload_spec(2) [OF _ refl])
qed

lemma finalize_safe:
  assumes "layout_ok c" "is_temp_path c p" "blob_safe e c w"
    and staged: "staged (ae_sha e) p k n (st_fs (w_store w))"
  shows "blob_safe e c (snd (in_store (finalize_upload c (ae_storage e) p k n extension mime expiration) w))"
proof -
  let ?pub = "\<lparr>bp_sha256 = k, bp_origin = Upload, bp_extension = extension, bp_mime_type = mime,
    bp_size = n, bp_expiration = expiration\<rparr>"
  have "in_store (publish_blob c (ae_storage e) p ?pub) w =
      (fst (in_store (publish_blob c (ae_storage e) p ?pub) w), snd (in_store (publish_blob c (ae_storage e) p ?pub) w))"
    by simp
  from publish_safe(1) [OF assms(1-3) _ this] staged show ?thesis
    by (simp add: finalize_upload_def accept_def)
qed

text \<open>What the catalogue says of a hash that has just been stored.\<close>

lemma finalize_indexed:
  assumes "layout_ok c" "is_temp_path c p" "blob_safe e c w"
    and staged: "staged (ae_sha e) p k n (st_fs (w_store w))"
    and "in_store (finalize_upload c (ae_storage e) p k n extension mime expiration) w = (Inr b, w')"
  shows "index_get (st_index (w_store w')) k = Some (sb_metadata b)" "is_valid_hash k"
  using publish_safe(2) [OF assms(1-3), of "\<lparr>bp_sha256 = k, bp_origin = Upload, bp_extension = extension,
      bp_mime_type = mime, bp_size = n, bp_expiration = expiration\<rparr>"] assms(4,5)
  by (auto simp: finalize_upload_def accept_def)

section \<open>A sample environment\<close>

text \<open>Nothing is signed, reachable or stored: for witnesses.\<close>

definition sample_net :: net_env where
  "sample_net = \<lparr>url_parse = \<lambda>_. None, url_join = \<lambda>_ _. None, dns_lookup = \<lambda>_ _ _. Dns_Failed,
     client_fault = \<lambda>_. None, http_send = \<lambda>_ _ _. Inl Send_Failed, status_text = \<lambda>_. []\<rparr>"

definition sample_nostr :: nostr_env where
  "sample_nostr = \<lparr>b64_url_safe = \<lambda>_. Inl [], b64_standard = \<lambda>_. Inl [], from_utf8 = \<lambda>_. Inl [],
     event_of_json = \<lambda>_. Inl [], verify_sig = \<lambda>_. None, kind_debug = \<lambda>_. [],
     check_dvm_announcement = \<lambda>_. Inr False\<rparr>"

definition sample_cashu :: cashu_env where
  "sample_cashu = \<lparr>token_from_str = \<lambda>_. Inl [], cashu_wallet = False, wallet_receive = \<lambda>_ _. Inl [],
     mints_debug = \<lambda>_. []\<rparr>"

definition sample_env :: app_env where
  "sample_env = \<lparr>ae_storage = calm_env, ae_nostr = sample_nostr, ae_cashu = sample_cashu, ae_net = sample_net,
     ae_serve = ex_serve, ae_sha = \<lambda>_. hash_a, ae_instant = 0, ae_extensions = \<lambda>_. None,
     ae_bech32 = \<lambda>_. None, ae_hex_key = \<lambda>_. None, ae_relays = \<lambda>_. Inr [],
     ae_upstream = \<lambda>_ _ _ _. Inl [], ae_content_length = \<lambda>_. None, ae_descriptor_json = \<lambda>_. [],
     ae_mirror_url = \<lambda>_. Inl [], ae_word = \<lambda>_. True, ae_completion = \<lambda>_ rs. rs\<rparr>"

definition empty_world :: "store \<Rightarrow> world" where
  "empty_world s = \<lparr>w_store = s, w_auth = \<lparr>trusted_pubkeys = [], dvm_pubkeys = [], destructive_event_replays = []\<rparr>,
     w_sessions = sessions_new, w_ledger = [], w_net = [], w_failed = [], w_serve_files = [], w_lists = [],
     w_next = 0, w_handles = [], w_ongoing = [], w_phases = [], w_negotiations = [], w_filter = None,
     w_spawned = []\<rparr>"

end
