(* ===== verification/ServeFiles.thy ===== *)
theory ServeFiles
  imports Startup Integrity
begin

text \<open>
  \<open>src/services/serve_files.rs\<close>: the index of a directory of static files served by their hash, rebuilt on
  start and periodically, with a \<open>shasum\<close> manifest written beside the files or to a fallback directory.
\<close>

section \<open>Collecting the files\<close>

definition visible_subdirs :: "fs \<Rightarrow> path \<Rightarrow> path list" where
  "visible_subdirs f d = filter (\<lambda>p. last p \<noteq> ''.git'') (subdirs f d)"

definition listed_files :: "fs \<Rightarrow> string \<Rightarrow> path \<Rightarrow> string list \<Rightarrow> path list" where
  "listed_files f manifest_name d names =
     filter (\<lambda>p. p \<notin> set (fs_dirs f) \<and> fs_data f p \<noteq> None \<and> last p \<noteq> manifest_name) (map (\<lambda>nm. d @ [nm]) names)"

lemma visible_weight:
  "d \<in> set (fs_dirs f) \<Longrightarrow> sum_list (map (dir_weight f) (visible_subdirs f d)) < dir_weight f d"
  by (rule children_weight) (auto simp: visible_subdirs_def subdirs_def)

function collect_stack ::
  "host_env \<Rightarrow> fs \<Rightarrow> string \<Rightarrow> path list \<Rightarrow> path list \<Rightarrow> io_error + path list" where
  "collect_stack h f manifest_name stack files =
     (if stack = [] then Inr files
      else let d = last stack in
        case fs_read_dir h d f of
          Inl err \<Rightarrow> Inl err
        | Inr names \<Rightarrow>
            collect_stack h f manifest_name (butlast stack @ visible_subdirs f d) (files @ listed_files f manifest_name d names))"
  by pat_completeness auto

termination collect_stack
proof (relation "measure (\<lambda>(h, f, mn, stack, files). sum_list (map (dir_weight f) stack))")
  show "wf (measure (\<lambda>(h :: host_env, f, mn :: string, stack, files :: path list). sum_list (map (dir_weight f) stack)))"
    by simp
next
  fix h :: host_env and f and mn :: string and stack files :: "path list" and d names
  assume stack: "stack \<noteq> []" and d: "d = last stack" and names: "fs_read_dir h d f = Inr names"
  have "sum_list (map (dir_weight f) (visible_subdirs f d)) < dir_weight f d"
    using read_dir_listed [OF names] visible_weight by blast
  moreover obtain rest where rest: "stack = rest @ [d]" using stack d by (metis append_butlast_last_id)
  then have "sum_list (map (dir_weight f) stack) = sum_list (map (dir_weight f) (butlast stack)) + dir_weight f d" by simp
  ultimately show "((h, f, mn, butlast stack @ visible_subdirs f d, files @ listed_files f mn d names), h, f, mn, stack, files)
      \<in> measure (\<lambda>(h, f, mn, stack, files). sum_list (map (dir_weight f) stack))"
    by simp
qed

declare collect_stack.simps [simp del]

definition collect_files :: "host_env \<Rightarrow> fs \<Rightarrow> path \<Rightarrow> string \<Rightarrow> io_error + path list" where
  "collect_files h f root_dir manifest_name = collect_stack h f manifest_name [root_dir] []"

section \<open>The index and the manifest\<close>

definition sha256_file :: "host_env \<Rightarrow> (bytes \<Rightarrow> string) \<Rightarrow> fs \<Rightarrow> path \<Rightarrow> io_error + string" where
  "sha256_file h sha f p = (case fs_read h p f of Inl err \<Rightarrow> Inl err | Inr d \<Rightarrow> Inr (sha d))"

definition manifest_relative_path :: "path \<Rightarrow> path \<Rightarrow> string" where
  "manifest_relative_path root_dir p =
     ''./'' @ join_with ''/'' (if below root_dir p then drop (length root_dir) p else p)"

text \<open>The loop over the files: manifest entries (hash, relative path) and the next index.\<close>

fun index_files ::
  "host_env \<Rightarrow> (bytes \<Rightarrow> string) \<Rightarrow> (string \<Rightarrow> string option) \<Rightarrow> fs \<Rightarrow> path \<Rightarrow> path list \<Rightarrow>
     (string \<times> string) list \<times> (string \<times> serve_file_metadata) list \<Rightarrow>
     io_error + (string \<times> string) list \<times> (string \<times> serve_file_metadata) list" where
  "index_files h sha mime f root_dir [] acc = Inr acc"
| "index_files h sha mime f root_dir (p # ps) acc =
     and_then (sha256_file h sha f p) (\<lambda>sha256.
     and_then (case io_fault h Io_Stat p of Some err \<Rightarrow> Inl (Io_Other err) | None \<Rightarrow>
                 (case fs_data f p of None \<Rightarrow> Inl Io_NotFound | Some d \<Rightarrow> Inr (word_of_nat (length d)))) (\<lambda>len.
     index_files h sha mime f root_dir ps
       (fst acc @ [(sha256, manifest_relative_path root_dir p)],
        hm_insert sha256 \<lparr>sf_path = p, sf_extension = path_extension (last p), sf_mime_type = mime (last p), sf_size = len\<rparr>
          (snd acc))))"

fun write_lines :: "host_env \<Rightarrow> path \<Rightarrow> (string \<times> string) list \<Rightarrow> fs \<Rightarrow> (io_error + unit) \<times> fs" where
  "write_lines h p [] f = (case io_fault h Io_Flush p of Some err \<Rightarrow> (Inl (Io_Other err), f) | None \<Rightarrow> (Inr (), f))"
| "write_lines h p ((sha256, rel) # es) f =
     bind_st (fs_append h p (map (\<lambda>c. word_of_nat (byte_of c)) (sha256 @ ''  '' @ rel @ [CHR 0x0A])) f) (\<lambda>_. write_lines h p es)"

definition write_manifest :: "host_env \<Rightarrow> path \<Rightarrow> (string \<times> string) list \<Rightarrow> fs \<Rightarrow> (io_error + unit) \<times> fs" where
  "write_manifest h p es f = bind_st (fs_create h p f) (\<lambda>_. write_lines h p es)"

text \<open>The second manifest is tried only after the first failed; its failure is a warning.\<close>

definition write_manifests :: "host_env \<Rightarrow> path \<Rightarrow> path \<Rightarrow> (string \<times> string) list \<Rightarrow> fs \<Rightarrow> fs" where
  "write_manifests h primary fallback es f =
     (case write_manifest h primary es f of
        (Inr _, f') \<Rightarrow> f'
      | (Inl _, f') \<Rightarrow> snd (write_manifest h fallback es f'))"

definition refresh_serve_file_index ::
  "app_env \<Rightarrow> path \<Rightarrow> string \<Rightarrow> path \<Rightarrow> world \<Rightarrow> (io_error + unit) \<times> world" where
  "refresh_serve_file_index e root_dir manifest_name fallback_dir w =
     (let h = env_host e; f = st_fs (w_store w) in
      case and_then (collect_files h f root_dir manifest_name) (\<lambda>files.
             index_files h (ae_sha e) (guess_mime (ae_serve e)) f root_dir files ([], [])) of
        Inl err \<Rightarrow> (Inl err, w)
      | Inr (es, next_index) \<Rightarrow>
          (Inr (),
           w\<lparr>w_store := (w_store w)\<lparr>st_fs := write_manifests h (root_dir @ [manifest_name]) (fallback_dir @ [manifest_name])
                                              (sort_key snd es) f\<rparr>,
             w_serve_files := next_index\<rparr>))"

section \<open>What is served\<close>

text \<open>The files a visitor of the directory sees: no \<open>.git\<close> directory is entered, the manifest left out.\<close>

inductive shown :: "fs \<Rightarrow> string \<Rightarrow> path \<Rightarrow> path \<Rightarrow> bool" for f manifest_name where
  here: "d \<in> set (fs_dirs f) \<Longrightarrow> fs_data f (d @ [nm]) \<noteq> None \<Longrightarrow> d @ [nm] \<notin> set (fs_dirs f) \<Longrightarrow> nm \<noteq> manifest_name \<Longrightarrow>
     shown f manifest_name d (d @ [nm])"
| deeper: "d \<in> set (fs_dirs f) \<Longrightarrow> d @ [x] \<in> set (fs_dirs f) \<Longrightarrow> x \<noteq> ''.git'' \<Longrightarrow> shown f manifest_name (d @ [x]) p \<Longrightarrow>
     shown f manifest_name d p"

inductive_cases shown_elim: "shown f manifest_name d p"

lemma dir_names_mem: "nm \<in> set (dir_names f d) \<longleftrightarrow> fs_data f (d @ [nm]) \<noteq> None \<or> d @ [nm] \<in> set (fs_dirs f)"
proof -
  let ?L = "set (map fst (fs_files f) @ fs_dirs f)"
  have q: "q \<noteq> [] \<and> butlast q = d \<and> last q = nm \<longleftrightarrow> q = d @ [nm]" for q by (cases q rule: rev_cases) auto
  have "nm \<in> set (dir_names f d) \<longleftrightarrow> (\<exists>q \<in> ?L. q \<noteq> [] \<and> butlast q = d \<and> last q = nm)"
    unfolding dir_names_def by auto
  then have "nm \<in> set (dir_names f d) \<longleftrightarrow> d @ [nm] \<in> ?L" unfolding q by simp
  then show ?thesis by (auto simp: map_of_eq_None_iff)
qed

lemma listed_mem:
  "p \<in> set (listed_files f mn d (dir_names f d)) \<longleftrightarrow>
     (\<exists>nm. p = d @ [nm] \<and> fs_data f p \<noteq> None \<and> p \<notin> set (fs_dirs f) \<and> nm \<noteq> mn)"
  by (auto simp: listed_files_def dir_names_mem)

lemma visible_mem: "p \<in> set (visible_subdirs f d) \<longleftrightarrow> (\<exists>x. p = d @ [x] \<and> p \<in> set (fs_dirs f) \<and> x \<noteq> ''.git'')"
  by (auto simp: visible_subdirs_def subdirs_def dir_names_mem)

lemma shown_iff:
  assumes "d \<in> set (fs_dirs f)"
  shows "shown f mn d p \<longleftrightarrow> p \<in> set (listed_files f mn d (dir_names f d)) \<or> (\<exists>q \<in> set (visible_subdirs f d). shown f mn q p)"
proof
  assume "shown f mn d p"
  then show "p \<in> set (listed_files f mn d (dir_names f d)) \<or> (\<exists>q \<in> set (visible_subdirs f d). shown f mn q p)"
    by cases (auto simp: listed_mem visible_mem)
next
  assume "p \<in> set (listed_files f mn d (dir_names f d)) \<or> (\<exists>q \<in> set (visible_subdirs f d). shown f mn q p)"
  then show "shown f mn d p"
    by (auto simp: listed_mem visible_mem intro: shown.here [OF assms] shown.deeper [OF assms])
qed

lemma collect_stack_set:
  "collect_stack h f mn stack files = Inr out \<Longrightarrow> set out = set files \<union> {p. \<exists>d \<in> set stack. shown f mn d p}"
proof (induction h f mn stack files arbitrary: out rule: collect_stack.induct)
  case (1 h f mn stack files)
  show ?case
  proof (cases "stack = []")
    case True
    then show ?thesis using "1.prems" by (simp add: collect_stack.simps)
  next
    case False
    define d where "d = last stack"
    obtain rest where st: "stack = rest @ [d]" using False unfolding d_def by (metis append_butlast_last_id)
    obtain names where names: "fs_read_dir h d f = Inr names"
      using "1.prems" False unfolding d_def by (subst (asm) collect_stack.simps) (auto simp: Let_def split: sum.splits)
    have "collect_stack h f mn (butlast stack @ visible_subdirs f d) (files @ listed_files f mn d names) = Inr out"
      using "1.prems" False names unfolding d_def by (subst (asm) collect_stack.simps) (simp add: Let_def)
    from "1.IH" [OF False d_def names this]
    have out: "set out = set (files @ listed_files f mn d names) \<union> {p. \<exists>q \<in> set (butlast stack @ visible_subdirs f d). shown f mn q p}" .
    have "d \<in> set (fs_dirs f)" "names = dir_names f d" using read_dir_listed [OF names] by auto
    then show ?thesis using out shown_iff [of d f mn] st by auto
  qed
qed

lemma index_files_exact:
  assumes "index_files h sha mime f root_dir files acc = Inr (es, ix)"
  shows "(\<forall>p \<in> set files. \<exists>d. fs_data f p = Some d \<and> map_of ix (sha d) \<noteq> None) \<and>
    (\<forall>k. map_of (snd acc) k \<noteq> None \<longrightarrow> map_of ix k \<noteq> None) \<and>
    (\<forall>k m. map_of ix k = Some m \<longrightarrow> map_of (snd acc) k = Some m \<or>
       (\<exists>d. sf_path m \<in> set files \<and> fs_data f (sf_path m) = Some d \<and> sha d = k \<and> sf_size m = word_of_nat (length d)))"
  using assms
proof (induction files arbitrary: acc)
  case Nil
  then show ?case by simp
next
  case (Cons p ps)
  obtain d where d: "fs_data f p = Some d" "sha256_file h sha f p = Inr (sha d)"
    using Cons.prems by (auto simp: and_then_Inr_iff sha256_file_def fs_read_def split: sum.splits option.splits)
  define m where "m = \<lparr>sf_path = p, sf_extension = path_extension (last p), sf_mime_type = mime (last p), sf_size = word_of_nat (length d)\<rparr>"
  have rest: "index_files h sha mime f root_dir ps
      (fst acc @ [(sha d, manifest_relative_path root_dir p)], hm_insert (sha d) m (snd acc)) = Inr (es, ix)"
    using Cons.prems d by (auto simp: m_def and_then_Inr_iff split: option.splits)
  note ih = Cons.IH [OF rest, unfolded snd_conv hm_simps]
  have "map_of ix (sha d) \<noteq> None" using ih by auto
  moreover have "map_of ix k \<noteq> None" if "map_of (snd acc) k \<noteq> None" for k using ih that by auto
  moreover have "map_of (snd acc) k = Some x \<or>
      (\<exists>b. sf_path x \<in> set (p # ps) \<and> fs_data f (sf_path x) = Some b \<and> sha b = k \<and> sf_size x = word_of_nat (length b))"
    if "map_of ix k = Some x" for k x
  proof -
    have "((map_of (snd acc))(sha d \<mapsto> m)) k = Some x \<or>
      (\<exists>b. sf_path x \<in> set ps \<and> fs_data f (sf_path x) = Some b \<and> sha b = k \<and> sf_size x = word_of_nat (length b))"
      using ih that by blast
    then show ?thesis using d(1) by (cases "k = sha d") (auto simp: m_def)
  qed
  ultimately show ?case using ih d(1) by auto
qed

lemma write_lines_only: "p \<noteq> q \<Longrightarrow> fs_data (snd (write_lines h q es f)) p = fs_data f p"
proof (induction h q es f rule: write_lines.induct)
  case (2 h q sha256 rel es f)
  then show ?case
    by (cases "fs_append h q (map (\<lambda>c. word_of_nat (byte_of c)) (sha256 @ ''  '' @ rel @ [CHR 0x0A])) f")
      (auto simp: bind_st_def fs_append_def hm_simps split: sum.splits option.splits)
qed (auto split: option.splits)

lemma write_manifest_only: "p \<noteq> q \<Longrightarrow> fs_data (snd (write_manifest h q es f)) p = fs_data f p"
  using write_lines_only [of p q h es]
  by (auto simp: write_manifest_def bind_st_def fs_create_def hm_simps split: sum.splits option.splits prod.splits)

lemma write_manifests_only:
  "p \<noteq> a \<Longrightarrow> p \<noteq> b \<Longrightarrow> fs_data (write_manifests h a b es f) p = fs_data f p"
  using write_manifest_only [of p a h es f] write_manifest_only [of p b h es "snd (write_manifest h a es f)"]
  by (auto simp: write_manifests_def split: prod.splits sum.splits)

text \<open>C39: The served directory is indexed exactly. After a successful refresh a hash is served precisely
  when some file shown in the directory (reached without entering \<open>.git\<close>, the manifest left out) had that
  content, and what is recorded with it is such a file, of that content and length. The refresh writes no
  file but the manifests and touches neither the catalogue nor anything else of the state; a failed refresh
  changes nothing, so the old index goes on being served.\<close>
theorem serve_index_exact:
  assumes "refresh_serve_file_index e root_dir manifest_name fallback_dir w = (r, w')"
  defines "f \<equiv> st_fs (w_store w)"
  shows "(\<forall>err. r = Inl err \<longrightarrow> w' = w) \<and>
    (r = Inr () \<longrightarrow>
      (\<forall>k. map_of (w_serve_files w') k \<noteq> None \<longleftrightarrow>
         (\<exists>p d. shown f manifest_name root_dir p \<and> fs_data f p = Some d \<and> ae_sha e d = k)) \<and>
      (\<forall>k m. map_of (w_serve_files w') k = Some m \<longrightarrow>
         (\<exists>d. shown f manifest_name root_dir (sf_path m) \<and> fs_data f (sf_path m) = Some d \<and> ae_sha e d = k \<and>
              sf_size m = word_of_nat (length d))) \<and>
      (\<forall>p. p \<notin> {root_dir @ [manifest_name], fallback_dir @ [manifest_name]} \<longrightarrow>
         fs_data (st_fs (w_store w')) p = fs_data f p) \<and>
      w' = w\<lparr>w_store := (w_store w)\<lparr>st_fs := st_fs (w_store w')\<rparr>, w_serve_files := w_serve_files w'\<rparr>)"
proof (intro conjI impI allI)
  show "w' = w" if "r = Inl err" for err
    using assms(1) that by (auto simp: refresh_serve_file_index_def Let_def split: sum.splits)
next
  assume ok: "r = Inr ()"
  obtain files es ix where col: "collect_files (env_host e) f root_dir manifest_name = Inr files"
    and idx: "index_files (env_host e) (ae_sha e) (guess_mime (ae_serve e)) f root_dir files ([], []) = Inr (es, ix)"
    and w': "w' = w\<lparr>w_store := (w_store w)\<lparr>st_fs := write_manifests (env_host e) (root_dir @ [manifest_name])
       (fallback_dir @ [manifest_name]) (sort_key snd es) f\<rparr>, w_serve_files := ix\<rparr>"
    using assms(1) ok unfolding f_def [symmetric]
    by (auto simp: refresh_serve_file_index_def Let_def and_then_Inr_iff f_def split: sum.splits)
  have files: "p \<in> set files \<longleftrightarrow> shown f manifest_name root_dir p" for p
    using collect_stack_set [OF col [unfolded collect_files_def]] by auto
  note x = index_files_exact [OF idx, unfolded files snd_conv]
  have w'x: "w_serve_files w' = ix" by (simp add: w')
  show rec: "\<exists>d. shown f manifest_name root_dir (sf_path m) \<and> fs_data f (sf_path m) = Some d \<and> ae_sha e d = k \<and>
      sf_size m = word_of_nat (length d)" if "map_of (w_serve_files w') k = Some m" for k m
    using x that unfolding w'x by auto
  show "map_of (w_serve_files w') k \<noteq> None \<longleftrightarrow>
      (\<exists>p d. shown f manifest_name root_dir p \<and> fs_data f p = Some d \<and> ae_sha e d = k)" for k
  proof
    assume "map_of (w_serve_files w') k \<noteq> None"
    then show "\<exists>p d. shown f manifest_name root_dir p \<and> fs_data f p = Some d \<and> ae_sha e d = k" using rec by blast
  next
    assume "\<exists>p d. shown f manifest_name root_dir p \<and> fs_data f p = Some d \<and> ae_sha e d = k"
    then obtain p d where "p \<in> set files" "fs_data f p = Some d" "ae_sha e d = k" using files by blast
    then show "map_of (w_serve_files w') k \<noteq> None" using index_files_exact [OF idx] unfolding w'x by fastforce
  qed
  show "fs_data (st_fs (w_store w')) p = fs_data f p" if "p \<notin> {root_dir @ [manifest_name], fallback_dir @ [manifest_name]}" for p
    using that write_manifests_only by (simp add: w')
  show "w' = w\<lparr>w_store := (w_store w)\<lparr>st_fs := st_fs (w_store w')\<rparr>, w_serve_files := w_serve_files w'\<rparr>"
    by (simp add: w')
qed

theorem serve_index_exact_witness:
  "\<exists>w w'. refresh_serve_file_index sample_env [''www''] ''m'' [''tmp''] w = (Inr (), w') \<and>
     map_of (w_serve_files w) hash_a = None \<and> map_of (w_serve_files w') hash_a \<noteq> None"
proof -
  let ?f = "\<lparr>fs_files = [([''www'', ''a''], [1 :: 8 word])], fs_dirs = [[''www'']]\<rparr>"
  let ?w = "empty_world (store_a\<lparr>st_fs := ?f\<rparr>)"
  have f: "st_fs (w_store ?w) = ?f" by (simp add: empty_world_def)
  have col: "collect_files calm_host ?f [''www''] ''m'' = Inr [[''www'', ''a'']]"
    by (simp add: collect_files_def collect_stack.simps fs_read_dir_def calm_host_def visible_subdirs_def subdirs_def
        dir_names_def listed_files_def)
  have host: "env_host sample_env = calm_host" by (simp add: sample_env_def calm_env_def)
  obtain x where ix: "index_files calm_host (ae_sha sample_env) (guess_mime (ae_serve sample_env)) ?f [''www''] [[''www'', ''a'']] ([], []) = Inr x"
    by (simp add: sha256_file_def fs_read_def calm_host_def)
  have "\<exists>w'. refresh_serve_file_index sample_env [''www''] ''m'' [''tmp''] ?w = (Inr (), w')"
    unfolding refresh_serve_file_index_def Let_def f host col and_then_simps ix by (cases x) simp
  then obtain w' where w': "refresh_serve_file_index sample_env [''www''] ''m'' [''tmp''] ?w = (Inr (), w')" by blast
  have "shown ?f ''m'' [''www''] ([''www''] @ [''a''])" by (rule shown.here) simp_all
  then have "\<exists>p d. shown ?f ''m'' [''www''] p \<and> fs_data ?f p = Some d \<and> ae_sha sample_env d = hash_a"
    by (intro exI [of _ "[''www''] @ [''a'']"] exI [of _ "[1]"]) (simp add: sample_env_def)
  then have "map_of (w_serve_files w') hash_a \<noteq> None"
    using conjunct1 [OF mp [OF conjunct2 [OF serve_index_exact [OF w']] refl], unfolded f] by (metis (no_types))
  moreover have "map_of (w_serve_files ?w) hash_a = None" by (simp add: empty_world_def)
  ultimately show ?thesis using w' by blast
qed

end
