(* ===== verification/Migration.thy ===== *)
theory Migration
  imports Startup
begin

text \<open>
  What \<open>build_state\<close> does to the storage root before it scans it: \<open>clear_temp_directory\<close> of \<open>src/lib.rs\<close>
  and the legacy migration of \<open>src/utils.rs\<close>, which moves \<open><hex>/<hex>/blob\<close> trees below \<open>uploads/\<close>.

  The migration changes the tree it walks, so its loop has fuel; \<open>merge_stack_enough\<close> gives enough of it,
  because no directory it creates lies below one it has yet to read. \<open>dir_len\<close> is the length the file
  system reports for a directory.
\<close>

section \<open>The temporary directory\<close>

definition fs_remove_dir_all :: "host_env \<Rightarrow> path \<Rightarrow> fs \<Rightarrow> (io_error + unit) \<times> fs" where
  "fs_remove_dir_all h d f =
     (case io_fault h Io_Remove d of
        Some e \<Rightarrow> (Inl (Io_Other e), f)
      | None \<Rightarrow> (Inr (), f\<lparr>fs_files := filter (\<lambda>(p, _). \<not> below d p) (fs_files f),
                          fs_dirs := filter (\<lambda>q. \<not> below d q) (fs_dirs f)\<rparr>))"

fun clear_entries :: "host_env \<Rightarrow> path \<Rightarrow> string list \<Rightarrow> fs \<Rightarrow> (io_error + unit) \<times> fs" where
  "clear_entries h d [] f = (Inr (), f)"
| "clear_entries h d (nm # nms) f =
     (let p = d @ [nm] in
      bind_st (if p \<in> set (fs_dirs f) then fs_remove_dir_all h p f
               else if fs_data f p \<noteq> None then fs_remove_file h p f else (Inr (), f))
        (\<lambda>_. clear_entries h d nms))"

definition clear_temp_directory :: "host_env \<Rightarrow> path \<Rightarrow> fs \<Rightarrow> (io_error + unit) \<times> fs" where
  "clear_temp_directory h temp_dir f =
     (if temp_dir \<notin> set (fs_dirs f) then (Inr (), f)
      else case fs_read_dir h temp_dir f of
        Inl e \<Rightarrow> (Inl e, f)
      | Inr names \<Rightarrow> clear_entries h temp_dir names f)"

section \<open>The legacy tree\<close>

definition migration_failed :: "string \<Rightarrow> string \<Rightarrow> app_error" where
  "migration_failed what err = IoError (''Failed to '' @ what @ '': '' @ err)"

definition fs_len :: "host_env \<Rightarrow> (path \<Rightarrow> nat) \<Rightarrow> path \<Rightarrow> fs \<Rightarrow> io_error + nat" where
  "fs_len h dir_len p f =
     (case io_fault h Io_Stat p of
        Some e \<Rightarrow> Inl (Io_Other e)
      | None \<Rightarrow> if p \<in> set (fs_dirs f) then Inr (dir_len p)
                else (case fs_data f p of None \<Rightarrow> Inl Io_NotFound | Some d \<Rightarrow> Inr (length d)))"

text \<open>One regular file: an equal-sized duplicate is dropped, a different one stops the migration.\<close>

definition merge_file :: "host_env \<Rightarrow> (path \<Rightarrow> nat) \<Rightarrow> path \<Rightarrow> path \<Rightarrow> fs \<Rightarrow> unit app_result \<times> fs" where
  "merge_file h dir_len sp dp f =
     bind_st (pure_st (app_err (\<lambda>e. migration_failed (''inspect migration destination '' @ display_path dp) (io_text e))
                (fs_try_exists h dp f)) f) (\<lambda>present f.
     if present then
       bind_st (pure_st (app_err (\<lambda>e. migration_failed (''inspect migration source '' @ display_path sp) (io_text e))
                  (fs_len h dir_len sp f)) f) (\<lambda>source_size f.
       bind_st (pure_st (app_err (\<lambda>e. migration_failed (''inspect migration destination '' @ display_path dp) (io_text e))
                  (fs_len h dir_len dp f)) f) (\<lambda>destination_size f.
       if source_size \<noteq> destination_size
       then (Inl (IoError (''Conflicting legacy migration files: '' @ display_path sp @ '' and '' @ display_path dp)), f)
       else err_st (\<lambda>e. migration_failed (''remove migrated duplicate '' @ display_path sp) (io_text e)) (fs_remove_file h sp f)))
     else err_st (\<lambda>e. migration_failed (''migrate '' @ display_path sp @ '' to '' @ display_path dp) (io_text e))
            (fs_rename h sp dp f))"

text \<open>One directory's entries; its subdirectories, to be visited, in order.\<close>

fun merge_entries ::
  "host_env \<Rightarrow> (path \<Rightarrow> nat) \<Rightarrow> path \<Rightarrow> path \<Rightarrow> string list \<Rightarrow> fs \<Rightarrow> (path \<times> path) list app_result \<times> fs" where
  "merge_entries h dir_len s d [] f = (Inr [], f)"
| "merge_entries h dir_len s d (nm # nms) f =
     (let sp = s @ [nm]; dp = d @ [nm] in
      bind_st (pure_st (case io_fault h Io_Stat sp of
                 Some e \<Rightarrow> Inl (migration_failed (''inspect migration source '' @ display_path sp) e) | None \<Rightarrow> Inr ()) f) (\<lambda>_ f.
      if sp \<in> set (fs_dirs f)
      then bind_st (merge_entries h dir_len s d nms f) (\<lambda>ps f. (Inr ((sp, dp) # ps), f))
      else if fs_data f sp = None then merge_entries h dir_len s d nms f
      else bind_st (merge_file h dir_len sp dp f) (\<lambda>_. merge_entries h dir_len s d nms)))"

definition merge_directory ::
  "host_env \<Rightarrow> (path \<Rightarrow> nat) \<Rightarrow> path \<times> path \<Rightarrow> fs \<Rightarrow> (path \<times> path) list app_result \<times> fs" where
  "merge_directory h dir_len sd f =
     bind_st (err_st (\<lambda>e. migration_failed (''create migration destination '' @ display_path (snd sd)) (io_text e))
                (fs_create_dir_all h (snd sd) f)) (\<lambda>_ f.
     bind_st (pure_st (app_err (\<lambda>e. migration_failed (''read migration source '' @ display_path (fst sd)) (io_text e))
                (fs_read_dir h (fst sd) f)) f) (\<lambda>names f.
     merge_entries h dir_len (fst sd) (snd sd) (remdups names) f))"

fun merge_stack ::
  "nat \<Rightarrow> host_env \<Rightarrow> (path \<Rightarrow> nat) \<Rightarrow> (path \<times> path) list \<Rightarrow> fs \<Rightarrow> (unit app_result \<times> fs) option" where
  "merge_stack 0 h dir_len stack f = None"
| "merge_stack (Suc n) h dir_len stack f =
     (if stack = [] then Some (Inr (), f)
      else case merge_directory h dir_len (last stack) f of
        (Inl err, f') \<Rightarrow> Some (Inl err, f')
      | (Inr pushed, f') \<Rightarrow> merge_stack n h dir_len (butlast stack @ pushed) f')"

definition merge_legacy_tree ::
  "nat \<Rightarrow> host_env \<Rightarrow> (path \<Rightarrow> nat) \<Rightarrow> path \<Rightarrow> path \<Rightarrow> fs \<Rightarrow> (unit app_result \<times> fs) option" where
  "merge_legacy_tree n h dir_len source_root destination_root f =
     merge_stack n h dir_len [(source_root, destination_root)] f"

definition is_legacy_name :: "string \<Rightarrow> bool" where
  "is_legacy_name nm \<longleftrightarrow> length nm = 1 \<and> list_all is_ascii_hexdigit nm"

fun migrate_entries ::
  "nat \<Rightarrow> host_env \<Rightarrow> (path \<Rightarrow> nat) \<Rightarrow> storage_layout \<Rightarrow> string list \<Rightarrow> fs \<Rightarrow> (unit app_result \<times> fs) option" where
  "migrate_entries n h dir_len l [] f = Some (Inr (), f)"
| "migrate_entries n h dir_len l (nm # nms) f =
     (if \<not> is_legacy_name nm then migrate_entries n h dir_len l nms f
      else case io_fault h Io_Stat (root l @ [nm]) of
        Some e \<Rightarrow> Some (Inl (migration_failed (''inspect legacy entry '' @ display_path (root l @ [nm])) e), f)
      | None \<Rightarrow>
          if root l @ [nm] \<notin> set (fs_dirs f) then migrate_entries n h dir_len l nms f
          else (case merge_legacy_tree n h dir_len (root l @ [nm]) (uploads l @ [nm]) f of
              None \<Rightarrow> None
            | Some (Inl err, f') \<Rightarrow> Some (Inl err, f')
            | Some (Inr _, f') \<Rightarrow> migrate_entries n h dir_len l nms f'))"

definition migrate_legacy_blobs ::
  "nat \<Rightarrow> host_env \<Rightarrow> (path \<Rightarrow> nat) \<Rightarrow> storage_layout \<Rightarrow> fs \<Rightarrow> (unit app_result \<times> fs) option" where
  "migrate_legacy_blobs n h dir_len l f =
     (case fs_read_dir h (root l) f of
        Inl e \<Rightarrow> Some (Inl (migration_failed (''read storage root '' @ display_path (root l)) (io_text e)), f)
      | Inr names \<Rightarrow> migrate_entries n h dir_len l (remdups names) f)"

section \<open>Nothing is lost\<close>

text \<open>The same contents under the same names, perhaps elsewhere.\<close>

definition kept :: "fs \<Rightarrow> fs \<Rightarrow> bool" where
  "kept f f' \<longleftrightarrow> (\<forall>p d. fs_data f p = Some d \<longrightarrow> (\<exists>q. fs_data f' q = Some d \<and> last q = last p)) \<and>
     (\<forall>q d. fs_data f' q = Some d \<longrightarrow> (\<exists>p. fs_data f p = Some d \<and> last p = last q))"

text \<open>Files of one name and length have one content, and no directory reports the length of a file.\<close>

definition mergeable :: "(path \<Rightarrow> nat) \<Rightarrow> fs \<Rightarrow> bool" where
  "mergeable dir_len f \<longleftrightarrow>
     (\<forall>p q d d'. fs_data f p = Some d \<longrightarrow> fs_data f q = Some d' \<longrightarrow> last p = last q \<longrightarrow> length d = length d' \<longrightarrow> d = d') \<and>
     (\<forall>p q d. fs_data f p = Some d \<longrightarrow> dir_len q \<noteq> length d)"

text \<open>A migration step of the tree below \<open>s\<close>.\<close>

definition merged :: "path \<Rightarrow> (path \<Rightarrow> nat) \<Rightarrow> fs \<Rightarrow> fs \<Rightarrow> bool" where
  "merged s dir_len f f' \<longleftrightarrow> (mergeable dir_len f \<longrightarrow> kept f f') \<and>
     (\<forall>p d. fs_data f p = Some d \<longrightarrow> \<not> below s p \<longrightarrow> fs_data f' p = Some d)"

lemma kept_same_files: "fs_files f' = fs_files f \<Longrightarrow> kept f f'"
  by (auto simp: kept_def)

lemma kept_forward: "kept f f' \<Longrightarrow> fs_data f p = Some d \<Longrightarrow> \<exists>q. fs_data f' q = Some d \<and> last q = last p"
  and kept_back: "kept f f' \<Longrightarrow> fs_data f' p = Some d \<Longrightarrow> \<exists>q. fs_data f q = Some d \<and> last q = last p"
  by (auto simp: kept_def)

lemma kept_trans:
  assumes "kept f g" "kept g k"
  shows "kept f k"
proof -
  have "\<exists>q. fs_data k q = Some d \<and> last q = last p" if "fs_data f p = Some d" for p d
    using kept_forward [OF assms(1) that] kept_forward [OF assms(2)] by metis
  moreover have "\<exists>q. fs_data f q = Some d \<and> last q = last p" if "fs_data k p = Some d" for p d
    using kept_back [OF assms(2) that] kept_back [OF assms(1)] by metis
  ultimately show ?thesis unfolding kept_def by blast
qed

lemma mergeable_kept:
  assumes "mergeable dir_len f" "kept f g"
  shows "mergeable dir_len g"
proof -
  have "d = d'" if g: "fs_data g p = Some d" "fs_data g q = Some d'" "last p = last q" "length d = length d'" for p q d d'
  proof -
    obtain p0 q0 where "fs_data f p0 = Some d" "fs_data f q0 = Some d'" "last p0 = last q0"
      using kept_back [OF assms(2) g(1)] kept_back [OF assms(2) g(2)] g(3) by metis
    then show ?thesis using assms(1) g(4) unfolding mergeable_def by blast
  qed
  moreover have "dir_len q \<noteq> length d" if "fs_data g p = Some d" for p q d
    using kept_back [OF assms(2) that] assms(1) unfolding mergeable_def by blast
  ultimately show ?thesis unfolding mergeable_def by blast
qed

lemma merged_refl: "fs_files f' = fs_files f \<Longrightarrow> merged s dir_len f f'"
  by (simp add: merged_def kept_same_files)

lemma merged_trans: "merged s dir_len f g \<Longrightarrow> merged s dir_len g k \<Longrightarrow> merged s dir_len f k"
  unfolding merged_def using kept_trans mergeable_kept by blast

lemma merge_file_dirs: "fs_dirs (snd (merge_file h dir_len sp dp f)) = fs_dirs f"
  by (auto simp: merge_file_def bind_st_def err_st_def pure_st_def fs_remove_file_def fs_rename_def
      split: sum.splits option.splits prod.splits if_splits)

lemma merge_file_effect:
  obtains (unchanged) "snd (merge_file h dir_len sp dp f) = f"
  | (moved) d where "fs_try_exists h dp f = Inr False" "fs_data f sp = Some d"
      "snd (merge_file h dir_len sp dp f) = f\<lparr>fs_files := hm_insert dp d (hm_remove sp (fs_files f))\<rparr>"
  | (dropped) n where "fs_len h dir_len sp f = Inr n" "fs_len h dir_len dp f = Inr n"
      "snd (merge_file h dir_len sp dp f) = f\<lparr>fs_files := hm_remove sp (fs_files f)\<rparr>"
proof (cases "fs_try_exists h dp f")
  case (Inl err)
  then show thesis using unchanged by (simp add: merge_file_def pure_st_def)
next
  case (Inr present)
  show thesis
  proof (cases present)
    case False
    obtain r g where g: "fs_rename h sp dp f = (r, g)" by fastforce
    show thesis using rename_cases [OF g] Inr False g unchanged moved
      by (auto simp: merge_file_def pure_st_def err_st_def)
  next
    case True
    show thesis
    proof (cases "fs_len h dir_len sp f")
      case (Inl err)
      then show thesis using Inr True unchanged by (simp add: merge_file_def pure_st_def)
    next
      case n: (Inr n)
      show thesis
      proof (cases "fs_len h dir_len dp f = Inr n")
        case False
        then show thesis using Inr True n unchanged
          by (cases "fs_len h dir_len dp f") (auto simp: merge_file_def pure_st_def)
      next
        case eq: True
        obtain r g where g: "fs_remove_file h sp f = (r, g)" by fastforce
        show thesis using remove_file_cases [OF g] Inr True n eq g unchanged dropped
          by (auto simp: merge_file_def pure_st_def err_st_def)
      qed
    qed
  qed
qed

lemma merge_file_merged:
  assumes "below s sp" "last sp = last dp" "sp \<noteq> dp" "fs_data f sp \<noteq> None" "sp \<notin> set (fs_dirs f)"
  shows "merged s dir_len f (snd (merge_file h dir_len sp dp f))"
proof -
  define f' where "f' = snd (merge_file h dir_len sp dp f)"
  obtain d where d: "fs_data f sp = Some d" using assms(4) by auto
  consider "f' = f"
    | "fs_data f dp = None" "f' = f\<lparr>fs_files := hm_insert dp d (hm_remove sp (fs_files f))\<rparr>"
    | "fs_data f dp = Some d" "f' = f\<lparr>fs_files := hm_remove sp (fs_files f)\<rparr>"
    | "\<not> mergeable dir_len f" "f' = f\<lparr>fs_files := hm_remove sp (fs_files f)\<rparr>"
  proof (cases rule: merge_file_effect [of h dir_len sp dp f])
    case unchanged
    then show thesis using that(1) f'_def by simp
  next
    case (moved d')
    then have "fs_data f dp = None" by (auto simp: fs_try_exists_def split: option.splits)
    then show thesis using moved d that(2) f'_def by simp
  next
    case (dropped n)
    have n: "n = length d" using dropped(1) d assms(5) by (auto simp: fs_len_def split: option.splits if_splits)
    have "\<not> mergeable dir_len f \<or> fs_data f dp = Some d"
      using dropped(2) d assms(2) unfolding n fs_len_def mergeable_def
      by (auto split: option.splits if_splits) metis
    then show thesis using dropped(3) that(3,4) unfolding f'_def by blast
  qed
  then have "merged s dir_len f f'"
  proof cases
    case 1
    then show ?thesis by (simp add: merged_refl)
  next
    case 2
    have look: "fs_data f' p = (if p = dp then Some d else if p = sp then None else fs_data f p)" for p
      by (simp add: 2(2) hm_simps)
    have "\<exists>q. fs_data f' q = Some e \<and> last q = last p" if "fs_data f p = Some e" for p e
      using that d assms(2) 2(1) look by (cases "p = sp") (fastforce, metis option.distinct(1))
    moreover have "\<exists>p. fs_data f p = Some e \<and> last p = last q" if "fs_data f' q = Some e" for q e
      using that d assms(2) look by (cases "q = dp") (auto split: if_splits)
    ultimately have "kept f f'" unfolding kept_def by blast
    then show ?thesis using assms(1) 2(1) by (auto simp: merged_def look)
  next
    case 3
    have look: "fs_data f' p = (if p = sp then None else fs_data f p)" for p
      by (simp add: 3(2) hm_simps)
    have "\<exists>q. fs_data f' q = Some e \<and> last q = last p" if "fs_data f p = Some e" for p e
    proof (cases "p = sp")
      case True
      then have "fs_data f' dp = Some e \<and> last dp = last p" using that d assms(2,3) 3(1) by (simp add: look)
      then show ?thesis by blast
    next
      case False
      then show ?thesis using that look by auto
    qed
    then have "kept f f'" unfolding kept_def look by (auto split: if_splits)
    then show ?thesis using assms(1) by (auto simp: merged_def look)
  next
    case 4
    then show ?thesis using assms(1) by (auto simp: merged_def hm_simps)
  qed
  then show ?thesis unfolding f'_def .
qed

lemma merge_entries_keeps:
  assumes "merge_entries h dir_len s d names f = (r, f')" "distinct names" "s \<noteq> d"
  shows "fs_dirs f' = fs_dirs f \<and> merged s dir_len f f' \<and>
    (\<forall>ps. r = Inr ps \<longrightarrow> distinct (map fst ps) \<and> (\<forall>(sp, dp) \<in> set ps. \<exists>nm \<in> set names. sp = s @ [nm] \<and> dp = d @ [nm]))"
  using assms(1,2)
proof (induction names arbitrary: f r f')
  case Nil
  then show ?case by (auto simp: merged_refl)
next
  case (Cons nm nms)
  let ?sp = "s @ [nm]" and ?dp = "d @ [nm]"
  note IH = Cons.IH [OF _ distinct.simps(2) [THEN iffD1, THEN conjunct2, OF Cons.prems(2)]]
  show ?case
  proof (cases "io_fault h Io_Stat ?sp")
    case (Some e)
    then have "r = Inl (migration_failed (''inspect migration source '' @ display_path ?sp) e)" "f' = f"
      using Cons.prems(1) by (simp_all add: pure_st_def Let_def)
    then show ?thesis by (simp add: merged_refl)
  next
    case None
    consider "?sp \<in> set (fs_dirs f)" | "?sp \<notin> set (fs_dirs f)" "fs_data f ?sp = None"
      | "?sp \<notin> set (fs_dirs f)" "fs_data f ?sp \<noteq> None" by blast
    then show ?thesis
    proof cases
      case 1
      obtain r1 f1 where m: "merge_entries h dir_len s d nms f = (r1, f1)" by fastforce
      note ih = IH [OF m]
      show ?thesis
      proof (cases r1)
        case (Inl err)
        then show ?thesis using Cons.prems(1) None 1 m ih by (auto simp: pure_st_def Let_def)
      next
        case (Inr ps)
        then have r: "r = Inr ((?sp, ?dp) # ps)" "f' = f1" using Cons.prems(1) None 1 m by (auto simp: pure_st_def Let_def)
        have "?sp \<notin> fst ` set ps" using ih Inr Cons.prems(2) by fastforce
        then show ?thesis using ih Inr r by auto
      qed
    next
      case 2
      then have "merge_entries h dir_len s d nms f = (r, f')" using Cons.prems(1) None by (simp add: pure_st_def Let_def)
      from IH [OF this] show ?thesis by fastforce
    next
      case 3
      obtain r1 f1 where m: "merge_file h dir_len ?sp ?dp f = (r1, f1)" by fastforce
      have k: "merged s dir_len f f1" "fs_dirs f1 = fs_dirs f"
        using merge_file_merged [of s ?sp ?dp f dir_len h] merge_file_dirs [of h dir_len ?sp ?dp f] 3 assms(3) m
        by (simp_all add: below_def)
      show ?thesis
      proof (cases r1)
        case (Inl err)
        then show ?thesis using Cons.prems(1) None 3 m k by (auto simp: pure_st_def Let_def)
      next
        case (Inr u)
        then have "merge_entries h dir_len s d nms f1 = (r, f')" using Cons.prems(1) None 3 m by (auto simp: pure_st_def Let_def)
        from IH [OF this] show ?thesis using k merged_trans by fastforce
      qed
    qed
  qed
qed

text \<open>No directory the migration into \<open>dst\<close> creates lies at or below \<open>q\<close>.\<close>

definition apart :: "path \<Rightarrow> path \<Rightarrow> bool" where
  "apart q dst \<longleftrightarrow> (\<forall>t p u. dst @ t = p @ u \<longrightarrow> \<not> below q p)"

definition paired :: "path \<Rightarrow> path \<Rightarrow> path \<times> path \<Rightarrow> bool" where
  "paired src dst sd \<longleftrightarrow> (\<exists>t. sd = (src @ t, dst @ t))"

lemma below_prefix:
  assumes "below (q @ t) p"
  shows "below q p"
proof -
  have "take (length q) (take (length (q @ t)) p) = q" using assms by (simp add: below_def)
  then show ?thesis by (simp add: below_def)
qed

lemma apart_below: "apart q dst \<Longrightarrow> apart (q @ t) dst"
  unfolding apart_def using below_prefix by blast

lemma apart_neq: "apart src dst \<Longrightarrow> src @ t \<noteq> dst @ t"
  unfolding apart_def by (metis append.right_neutral append_same_eq below_self)

lemma weight_insert_dirs:
  assumes "\<forall>p \<in> set ps. \<not> below q p"
  shows "dir_weight (f\<lparr>fs_dirs := fold List.insert ps (fs_dirs f)\<rparr>) q = dir_weight f q"
proof -
  have "filter (below q) (fold List.insert ps xs) = filter (below q) xs" for xs
    using assms by (induction ps arbitrary: xs) (auto simp: List.insert_def)
  then show ?thesis by (simp add: dir_weight_def)
qed

lemma weight_create:
  assumes "fs_create_dir_all h d f = (r, f')" "apart q dst" "d = dst @ t"
  shows "dir_weight f' q = dir_weight f q"
proof -
  have "\<forall>p \<in> set (path_prefixes d). \<not> below q p"
    using assms(2,3) by (auto simp: path_prefixes_set apart_def)
  then show ?thesis
    using assms(1) weight_insert_dirs by (auto simp: fs_create_dir_all_def split: option.splits if_splits)
qed

lemma weight_dirs: "fs_dirs f' = fs_dirs f \<Longrightarrow> dir_weight f' q = dir_weight f q"
  by (simp add: dir_weight_def)

lemma merge_directory_keeps:
  assumes "merge_directory h dir_len sd f = (r, f')" "paired src dst sd" "apart src dst"
  shows "merged src dir_len f f' \<and> (\<forall>q. apart q dst \<longrightarrow> dir_weight f' q = dir_weight f q) \<and>
    (\<forall>ps. r = Inr ps \<longrightarrow> (\<forall>p \<in> set ps. paired src dst p) \<and>
       sum_list (map (dir_weight f \<circ> fst) ps) < dir_weight f (fst sd))"
proof -
  obtain t where sd: "sd = (src @ t, dst @ t)" using assms(2) by (auto simp: paired_def)
  obtain r1 f1 where c: "fs_create_dir_all h (dst @ t) f = (r1, f1)" by fastforce
  have files: "fs_files f1 = fs_files f" by (rule create_dir_keeps [OF c])
  have w1: "dir_weight f1 q = dir_weight f q" if "apart q dst" for q by (rule weight_create [OF c that refl])
  show ?thesis
  proof (cases r1)
    case (Inl err)
    then show ?thesis using assms(1) c files w1 by (auto simp: merge_directory_def sd merged_refl)
  next
    case (Inr u)
    show ?thesis
    proof (cases "fs_read_dir h (src @ t) f1")
      case e: (Inl err)
      then show ?thesis using assms(1) c Inr files w1 by (auto simp: merge_directory_def sd merged_refl pure_st_def)
    next
      case names: (Inr names)
      have m: "merge_entries h dir_len (src @ t) (dst @ t) (remdups names) f1 = (r, f')"
        using assms(1) c Inr names by (simp add: merge_directory_def sd pure_st_def)
      note k = merge_entries_keeps [OF m distinct_remdups apart_neq [OF assms(3)]]
      have "merged src dir_len f1 f'"
        using k below_prefix unfolding merged_def by blast
      then have mg: "merged src dir_len f f'" using merged_trans [OF merged_refl [OF files]] by blast
      have w: "dir_weight f' q = dir_weight f q" if "apart q dst" for q
        using k w1 [OF that] weight_dirs [of f' f1 q] by simp
      have "(\<forall>p \<in> set ps. paired src dst p) \<and> sum_list (map (dir_weight f \<circ> fst) ps) < dir_weight f (src @ t)"
        if "r = Inr ps" for ps
      proof -
        have ps: "distinct (map fst ps)" "\<forall>(sp, dp) \<in> set ps. \<exists>nm \<in> set (remdups names). sp = (src @ t) @ [nm] \<and> dp = (dst @ t) @ [nm]"
          using k that by auto
        have "src @ t \<in> set (fs_dirs f1)" using read_dir_listed [OF names] by simp
        from children_weight [OF this ps(1)] have "sum_list (map (dir_weight f1) (map fst ps)) < dir_weight f1 (src @ t)"
          using ps(2) by (auto simp: split_beta)
        moreover have "map (dir_weight f1) (map fst ps) = map (dir_weight f \<circ> fst) ps"
        proof -
          have "dir_weight f1 (fst p) = dir_weight f (fst p)" if "p \<in> set ps" for p
          proof -
            have "\<exists>nm. fst p = src @ (t @ [nm])" using bspec [OF ps(2) that] by (auto simp: split_beta)
            then obtain nm where p: "fst p = src @ (t @ [nm])" by blast
            show ?thesis unfolding p by (rule w1 [OF apart_below [OF assms(3)]])
          qed
          then show ?thesis by (simp add: map_eq_conv)
        qed
        moreover have "dir_weight f1 (src @ t) = dir_weight f (src @ t)" by (rule w1 [OF apart_below [OF assms(3)]])
        moreover have "paired src dst p" if "p \<in> set ps" for p
        proof -
          have "\<exists>nm. fst p = src @ (t @ [nm]) \<and> snd p = dst @ (t @ [nm])" using bspec [OF ps(2) that] by (auto simp: split_beta)
          then show ?thesis unfolding paired_def by (metis prod.collapse)
        qed
        ultimately show ?thesis by (simp only: simp_thms) blast
      qed
      then show ?thesis using mg w sd by auto
    qed
  qed
qed

text \<open>Fuel above the number of directories still to be read is enough.\<close>

lemma merge_stack_enough:
  assumes "apart src dst" "\<forall>sd \<in> set stack. paired src dst sd" "sum_list (map (dir_weight f \<circ> fst) stack) < n"
  shows "\<exists>r f'. merge_stack n h dir_len stack f = Some (r, f') \<and> merged src dir_len f f' \<and>
    (\<forall>q. apart q dst \<longrightarrow> dir_weight f' q = dir_weight f q)"
  using assms(2,3)
proof (induction n arbitrary: stack f)
  case 0
  then show ?case by simp
next
  case (Suc n)
  show ?case
  proof (cases "stack = []")
    case True
    then show ?thesis by (auto simp: merged_refl)
  next
    case False
    obtain rest sd where st: "stack = rest @ [sd]" using False by (metis append_butlast_last_id)
    obtain r1 f1 where m: "merge_directory h dir_len sd f = (r1, f1)" by fastforce
    have k: "merged src dir_len f f1" "\<forall>q. apart q dst \<longrightarrow> dir_weight f1 q = dir_weight f q"
      "\<And>ps. r1 = Inr ps \<Longrightarrow> (\<forall>p \<in> set ps. paired src dst p) \<and> sum_list (map (dir_weight f \<circ> fst) ps) < dir_weight f (fst sd)"
      using merge_directory_keeps [OF m _ assms(1)] Suc.prems(1) st by auto
    show ?thesis
    proof (cases r1)
      case (Inl err)
      then show ?thesis using m st k by auto
    next
      case (Inr ps)
      have pw: "\<forall>p \<in> set (rest @ ps). paired src dst p" using k(3) [OF Inr] Suc.prems(1) st by auto
      have weights: "map (dir_weight f1 \<circ> fst) (rest @ ps) = map (dir_weight f \<circ> fst) (rest @ ps)"
      proof (rule map_cong [OF refl])
        fix p assume "p \<in> set (rest @ ps)"
        then obtain t where "fst p = src @ t" using pw by (fastforce simp: paired_def)
        then show "(dir_weight f1 \<circ> fst) p = (dir_weight f \<circ> fst) p"
          using k(2) apart_below [OF assms(1), of t] by simp
      qed
      have "sum_list (map (dir_weight f1 \<circ> fst) (rest @ ps)) < n"
        unfolding weights using k(3) [OF Inr] Suc.prems(2) st by (simp add: comp_def)
      from Suc.IH [OF pw this] obtain r f' where "merge_stack n h dir_len (rest @ ps) f1 = Some (r, f')"
        "merged src dir_len f1 f'" "\<forall>q. apart q dst \<longrightarrow> dir_weight f' q = dir_weight f1 q" by blast
      then show ?thesis using m st Inr k(1,2) merged_trans by (auto simp: st)
    qed
  qed
qed

definition in_legacy :: "path \<Rightarrow> path \<Rightarrow> bool" where
  "in_legacy r p \<longleftrightarrow> (\<exists>x. is_legacy_name x \<and> below (r @ [x]) p)"

lemma legacy_apart:
  assumes "is_legacy_name y"
  shows "apart (r @ [y]) (r @ [''uploads'', x])"
  unfolding apart_def
proof (intro allI impI notI)
  fix t p u assume p: "(r @ [''uploads'', x]) @ t = p @ u" and b: "below (r @ [y]) p"
  have "p = (r @ [y]) @ drop (length (r @ [y])) p" using b unfolding below_def by (metis append_take_drop_id)
  then have "(r @ [''uploads'', x]) @ t = (r @ [y]) @ (drop (length (r @ [y])) p @ u)" using p by (metis append_assoc)
  then have "y = ''uploads''" by simp
  then show False using assms by (simp add: is_legacy_name_def)
qed

lemma migrate_entries_keeps:
  assumes "l = storage_layout_new r" "\<forall>y. is_legacy_name y \<longrightarrow> dir_weight f (r @ [y]) < n"
  shows "\<exists>res f'. migrate_entries n h dir_len l names f = Some (res, f') \<and> (mergeable dir_len f \<longrightarrow> kept f f') \<and>
    (\<forall>p d. fs_data f p = Some d \<longrightarrow> \<not> in_legacy r p \<longrightarrow> fs_data f' p = Some d)"
  using assms(2)
proof (induction names arbitrary: f)
  case Nil
  then show ?case by (simp add: kept_same_files)
next
  case (Cons nm nms)
  have l: "root l = r" "uploads l = r @ [''uploads'']" using assms(1) by (simp_all add: storage_layout_new_def)
  show ?case
  proof (cases "is_legacy_name nm \<and> io_fault h Io_Stat (r @ [nm]) = None \<and> r @ [nm] \<in> set (fs_dirs f)")
    case False
    then show ?thesis using Cons.IH [OF Cons.prems] by (auto simp: l kept_same_files split: option.splits)
  next
    case True
    have ap: "apart (r @ [y]) (r @ [''uploads'', nm])" if "is_legacy_name y" for y by (rule legacy_apart [OF that])
    have "\<exists>res g. merge_stack n h dir_len [(r @ [nm], r @ [''uploads'', nm])] f = Some (res, g) \<and>
        merged (r @ [nm]) dir_len f g \<and> (\<forall>q. apart q (r @ [''uploads'', nm]) \<longrightarrow> dir_weight g q = dir_weight f q)"
      by (rule merge_stack_enough) (use ap True Cons.prems in \<open>auto simp: paired_def\<close>)
    then obtain res g where g: "merge_legacy_tree n h dir_len (r @ [nm]) (r @ [''uploads'', nm]) f = Some (res, g)"
      "merged (r @ [nm]) dir_len f g" "\<And>q. apart q (r @ [''uploads'', nm]) \<Longrightarrow> dir_weight g q = dir_weight f q"
      unfolding merge_legacy_tree_def by blast
    have stay: "fs_data g p = Some d" if "fs_data f p = Some d" "\<not> in_legacy r p" for p d
      using g(2) that True unfolding merged_def in_legacy_def by blast
    have kept_g: "mergeable dir_len f \<Longrightarrow> kept f g" using g(2) by (simp add: merged_def)
    show ?thesis
    proof (cases res)
      case (Inl err)
      then show ?thesis using True g(1) stay kept_g by (auto simp: l)
    next
      case (Inr u)
      have "\<forall>y. is_legacy_name y \<longrightarrow> dir_weight g (r @ [y]) < n" using Cons.prems g(3) ap by simp
      from Cons.IH [OF this] obtain res' f' where "migrate_entries n h dir_len l nms g = Some (res', f')"
        "mergeable dir_len g \<longrightarrow> kept g f'" "\<forall>p d. fs_data g p = Some d \<longrightarrow> \<not> in_legacy r p \<longrightarrow> fs_data f' p = Some d" by blast
      then show ?thesis using True g(1) Inr stay kept_g kept_trans mergeable_kept by (auto simp: l)
    qed
  qed
qed

text \<open>C38: The legacy migration terminates and loses nothing, also when it is stopped by an error half-way.
  With fuel for every directory there is, it returns; every content that was in the storage root is still
  there under its file name, none is invented, and a file outside the one-digit directories stays where it is.
  That nothing is lost is proved under two assumptions (\<open>mergeable\<close>), for the migration drops a legacy copy
  when something with its name is in place already, after comparing reported lengths only: that files of equal
  name and length have equal contents (blobs are named by their hash), and that no directory reports the length
  of a file. Without the second the code does lose data (\<open>src/utils.rs\<close>, line 135): a legacy blob whose
  destination is a directory of equal reported length is removed. That the migration returns, and the last
  clause, need neither.\<close>
theorem migration_loses_nothing:
  assumes "l = storage_layout_new r" "length (fs_dirs f) < n"
  shows "\<exists>res f'. migrate_legacy_blobs n h dir_len l f = Some (res, f') \<and> (mergeable dir_len f \<longrightarrow> kept f f') \<and>
    (\<forall>p d. fs_data f p = Some d \<longrightarrow> \<not> in_legacy r p \<longrightarrow> fs_data f' p = Some d)"
proof (cases "fs_read_dir h (root l) f")
  case (Inl err)
  then show ?thesis by (simp add: migrate_legacy_blobs_def kept_same_files)
next
  case (Inr names)
  have "dir_weight f q < n" for q using assms(2) le_less_trans [OF length_filter_le] by (auto simp: dir_weight_def)
  then show ?thesis using migrate_entries_keeps [OF assms(1), of f n h dir_len "remdups names"] Inr
    by (simp add: migrate_legacy_blobs_def)
qed

text \<open>One legacy blob, moved below \<open>uploads\<close>.\<close>

theorem migration_loses_nothing_witness:
  "\<exists>res f' q. migrate_legacy_blobs 4 calm_host (\<lambda>_. 4096) (storage_layout_new [''srv''])
       \<lparr>fs_files = [([''srv'', ''a'', hash_a], [1, 2])], fs_dirs = [[], [''srv''], [''srv'', ''a'']]\<rparr> = Some (res, f') \<and>
     fs_data f' q = Some [1, 2] \<and> last q = hash_a"
proof -
  let ?f = "\<lparr>fs_files = [([''srv'', ''a'', hash_a], [1, 2 :: 8 word])], fs_dirs = [[], [''srv''], [''srv'', ''a'']]\<rparr>"
  have "mergeable (\<lambda>_. 4096) ?f" by (auto simp: mergeable_def split: if_splits)
  moreover obtain res f' where m: "migrate_legacy_blobs 4 calm_host (\<lambda>_. 4096) (storage_layout_new [''srv'']) ?f = Some (res, f')"
      "mergeable (\<lambda>_. 4096) ?f \<longrightarrow> kept ?f f'"
    using migration_loses_nothing [OF refl, of ?f 4 calm_host "\<lambda>_. 4096" "[''srv'']"] by auto
  ultimately have "kept ?f f'" by blast
  from kept_forward [OF this, of "[''srv'', ''a'', hash_a]"] show ?thesis using m(1) by auto
qed

end
