(* ===== verification/Hls.thy ===== *)
theory Hls
  imports Integrity
begin

text \<open>
  Playlists (\<open>src/services/hls.rs\<close>): what a playlist references, and the background task that mirrors
  the references round by round. The task runs up to \<open>concurrency\<close> fetches at a time and handles their
  results in completion order, which \<open>ae_completion\<close> chooses for every round; each fetch is one step.
  \<open>ae_word\<close> is the class \<open>\w+\<close> of the regular expression.
\<close>

definition is_hls_playlist :: "string \<Rightarrow> bool" where
  "is_hls_playlist mime_type \<longleftrightarrow>
     trim (hd (split_on (CHR '';'') mime_type)) \<in>
       {''application/vnd.apple.mpegurl'', ''application/x-mpegurl'', ''audio/mpegurl'', ''audio/x-mpegurl''}"

text \<open>\<open>HLS_REF_RE\<close>: 64 hexadecimal digits, then nothing or a dot and a word.\<close>

definition parse_reference :: "(string \<Rightarrow> bool) \<Rightarrow> string \<Rightarrow> hls_reference option" where
  "parse_reference is_word line =
     (let h = take 64 line; rest = drop 64 line in
      if length h \<noteq> 64 \<or> \<not> list_all is_ascii_hexdigit h then None
      else if rest = [] then Some \<lparr>hr_sha256 = to_lowercase h, hr_extension = None\<rparr>
      else case strip_prefix ''.'' rest of
        None \<Rightarrow> None
      | Some ext \<Rightarrow> if is_word ext then Some \<lparr>hr_sha256 = to_lowercase h, hr_extension = Some ext\<rparr> else None)"

definition parse_playlist_references :: "(string \<Rightarrow> bool) \<Rightarrow> string \<Rightarrow> hls_reference list" where
  "parse_playlist_references is_word content =
     List.map_filter (parse_reference is_word)
       (filter (\<lambda>line. line \<noteq> [] \<and> \<not> starts_with ''#'' line) (map trim (split_on (char_of (10 :: nat)) content)))"

definition extract_origin_base_url :: "net_env \<Rightarrow> string \<Rightarrow> string option" where
  "extract_origin_base_url env u =
     Option.bind (url_parse env u) (\<lambda>parsed.
     Option.bind (u_host parsed) (\<lambda>h.
       Some (case u_explicit_port parsed of
          Some port \<Rightarrow> u_scheme parsed @ ''://'' @ h @ '':'' @ show_nat port
        | None \<Rightarrow> u_scheme parsed @ ''://'' @ h)))"

section \<open>Mirroring\<close>

definition collect_playlist_references :: "app_env \<Rightarrow> world \<Rightarrow> string \<Rightarrow> hls_reference list" where
  "collect_playlist_references e w sha256 =
     (case get_file_metadata (w_store w) sha256 of
        None \<Rightarrow> []
      | Some m \<Rightarrow>
          (case read_text (ae_storage e) (w_store w) m of
             Inr content \<Rightarrow> parse_playlist_references (ae_word e) content
           | Inl _ \<Rightarrow> []))"

definition mirror_single_reference ::
  "app_env \<Rightarrow> app_config \<Rightarrow> string \<Rightarrow> hls_reference \<Rightarrow> world \<Rightarrow> (string + bool) \<times> world" where
  "mirror_single_reference e c origin_base_url r w =
     (if index_contains (st_index (w_store w)) (hr_sha256 r) then (Inr False, w)
      else
        let fetch_url = (case hr_extension r of
               Some ext \<Rightarrow> origin_base_url @ ''/'' @ hr_sha256 r @ ''.'' @ ext
             | None \<Rightarrow> origin_base_url @ ''/'' @ hr_sha256 r);
            h = env_host e
        in bind_st (err_st (\<lambda>err. ''Failed to fetch segment: '' @ error_display err)
               (in_net (fetch_from_url (ae_net e) fetch_url) w)) (\<lambda>response w1.
           let content_type = extract_content_type_from_response (ur_headers response);
               extension = get_extension_from_mime (ae_extensions e) content_type;
               max_size_bytes = size_limit c UpstreamFetch;
               announced = (case ae_content_length e response of None \<Rightarrow> max_size_bytes | Some n \<Rightarrow> n)
           in bind_st (err_st (\<lambda>err. ''Insufficient storage for segment: '' @ error_display err)
                (pure_st (ensure_storage_capacity c h (w_store w1) announced) w1)) (\<lambda>_ w1.
              bind_st (err_st (\<lambda>err. ''Failed to ensure temp dir: '' @ error_display err)
                (in_store (ensure_temp_dir c h) w1)) (\<lambda>_ w2.
              let tmp = temp_reserve c h ''hls_segment'' extension in
              bind_st (with_temp e tmp
                (bind_st (err_st (\<lambda>err. ''Failed to stream segment: '' @ error_display err)
                   (in_files (stream_response_to_temp_file h (ae_sha e) response tmp max_size_bytes) w2))
                 (\<lambda>(calculated_sha256, body_size) w3.
                    if calculated_sha256 \<noteq> hr_sha256 r
                    then (Inl (''SHA256 mismatch for segment '' @ hr_sha256 r), w3)
                    else (Inr body_size, w3)))) (\<lambda>body_size w3.
              bind_st (err_st (\<lambda>err. ''Failed to finalize '' @ hr_sha256 r @ '': '' @ error_display err)
                (in_store (finalize_upload c (ae_storage e) tmp (hr_sha256 r) body_size extension
                   (Some content_type) None) w3)) (\<lambda>_ w4.
              (Inr True, w4)))))))"

text \<open>The children of one mirrored playlist that have not been seen, up to the total limit.\<close>

fun queue_children ::
  "hls_reference list \<Rightarrow> string list \<Rightarrow> hls_reference list \<Rightarrow> string list \<times> hls_reference list" where
  "queue_children [] seen next_round = (seen, next_round)"
| "queue_children (child # children) seen next_round =
     (if length seen \<ge> 1024 then (seen, next_round)
      else if hr_sha256 child \<in> set seen then queue_children children seen next_round
      else queue_children children (seen @ [hr_sha256 child]) (next_round @ [child]))"

fun handle_results ::
  "app_env \<Rightarrow> world \<Rightarrow> (hls_reference \<times> (string + bool)) list \<Rightarrow> string list \<Rightarrow> hls_reference list \<Rightarrow>
     string list \<times> hls_reference list" where
  "handle_results e w [] seen next_round = (seen, next_round)"
| "handle_results e w ((r, Inl _) # results) seen next_round = handle_results e w results seen next_round"
| "handle_results e w ((r, Inr _) # results) seen next_round =
     (let (seen', next') =
        (if hr_extension r = Some ''m3u8''
         then queue_children (collect_playlist_references e w (hr_sha256 r)) seen next_round
         else (seen, next_round))
      in handle_results e w results seen' next')"

text \<open>One round: the fetches, with the references attempted so far in \<open>attempts\<close>.\<close>

fun mirror_all ::
  "app_env \<Rightarrow> app_config \<Rightarrow> string \<Rightarrow> hls_reference list \<Rightarrow> world \<Rightarrow>
     (hls_reference \<times> (string + bool)) list \<times> world" where
  "mirror_all e c origin_base_url [] w = ([], w)"
| "mirror_all e c origin_base_url (r # rs) w =
     (let (result, w1) = mirror_single_reference e c origin_base_url r w;
          (results, w2) = mirror_all e c origin_base_url rs w1
      in ((r, result) # results, w2))"

primrec mirror_rounds ::
  "app_env \<Rightarrow> app_config \<Rightarrow> string \<Rightarrow> nat \<Rightarrow> hls_reference list \<Rightarrow> string list \<Rightarrow> world \<Rightarrow>
     hls_reference list \<times> world" where
  "mirror_rounds e c origin_base_url 0 refs seen w = ([], w)"
| "mirror_rounds e c origin_base_url (Suc rounds) refs seen w =
     (if refs = [] \<or> length seen > 1024 then ([], w)
      else let batch = ae_completion e rounds (take 128 refs);
               (results, w1) = mirror_all e c origin_base_url batch w;
               (seen', next_round) = handle_results e w1 results seen [];
               (later, w2) = mirror_rounds e c origin_base_url rounds next_round seen' w1
           in (batch @ later, w2))"

fun retain_new :: "hls_reference list \<Rightarrow> string list \<Rightarrow> hls_reference list \<times> string list" where
  "retain_new [] seen = ([], seen)"
| "retain_new (r # rs) seen =
     (if hr_sha256 r \<in> set seen then retain_new rs seen
      else let (kept, seen') = retain_new rs (seen @ [hr_sha256 r]) in (r # kept, seen'))"

text \<open>The first component of the result lists the references the task tried, in order.\<close>

definition mirror_hls_references ::
  "app_env \<Rightarrow> app_config \<Rightarrow> string \<Rightarrow> hls_reference list \<Rightarrow> world \<Rightarrow> hls_reference list \<times> world" where
  "mirror_hls_references e c origin_base_url refs w =
     (let (kept, seen) = retain_new refs []
      in mirror_rounds e c origin_base_url 10 (take 128 kept) seen w)"

section \<open>The references a task tries\<close>

lemma queue_children_new:
  assumes "queue_children cs seen next_round = (seen', next')" "distinct seen"
  shows "\<exists>new. next' = next_round @ new \<and> seen' = seen @ map hr_sha256 new \<and> distinct seen'"
  using assms
proof (induction cs arbitrary: seen next_round)
  case (Cons child cs)
  show ?case
  proof (cases "length seen \<ge> 1024 \<or> hr_sha256 child \<in> set seen")
    case True
    then show ?thesis using Cons by (auto split: if_splits)
  next
    case False
    then have "queue_children cs (seen @ [hr_sha256 child]) (next_round @ [child]) = (seen', next')"
      "distinct (seen @ [hr_sha256 child])"
      using Cons.prems by auto
    from Cons.IH [OF this] obtain new where "next' = next_round @ (child # new)"
      "seen' = seen @ map hr_sha256 (child # new)" "distinct seen'" by auto
    then show ?thesis by blast
  qed
qed auto

lemma handle_results_new:
  assumes "handle_results e w results seen next_round = (seen', next')" "distinct seen"
  shows "\<exists>new. next' = next_round @ new \<and> seen' = seen @ map hr_sha256 new \<and> distinct seen'"
  using assms
proof (induction e w results seen next_round rule: handle_results.induct)
  case (3 e w r x results seen next_round)
  obtain s1 n1 where one: "(if hr_extension r = Some ''m3u8''
         then queue_children (collect_playlist_references e w (hr_sha256 r)) seen next_round
         else (seen, next_round)) = (s1, n1)" by fastforce
  have new: "\<exists>new. n1 = next_round @ new \<and> s1 = seen @ map hr_sha256 new \<and> distinct s1"
    using one queue_children_new 3(3) by (auto split: if_splits)
  then obtain new where new: "n1 = next_round @ new" "s1 = seen @ map hr_sha256 new" "distinct s1" by blast
  have rest: "handle_results e w results s1 n1 = (seen', next')" using 3(2) one by simp
  from 3(1) [OF one [symmetric] refl rest new(3)] obtain new'
    where "next' = n1 @ new'" "seen' = s1 @ map hr_sha256 new'" "distinct seen'" by blast
  then show ?case using new(1,2) by (intro exI [of _ "new @ new'"]) simp
qed auto

text \<open>Rounds and their batches: everything tried later is new.\<close>

lemma mirror_rounds_new:
  assumes "\<And>k rs. mset (ae_completion e k rs) = mset rs"
    and "distinct seen" "distinct (map hr_sha256 refs)" "hr_sha256 ` set refs \<subseteq> set seen"
    and "mirror_rounds e c base n refs seen w = (tried, w')"
  shows "distinct (map hr_sha256 tried) \<and> length tried \<le> 128 * n \<and>
    (\<forall>r \<in> set tried. r \<in> set refs \<or> hr_sha256 r \<notin> set seen)"
  using assms(2-)
proof (induction n arbitrary: refs seen w tried w')
  case (Suc n)
  show ?case
  proof (cases "refs = [] \<or> length seen > 1024")
    case False
    let ?batch = "ae_completion e n (take 128 refs)"
    obtain results w1 where m: "mirror_all e c base ?batch w = (results, w1)" by fastforce
    obtain seen' next_round where hr: "handle_results e w1 results seen [] = (seen', next_round)" by fastforce
    obtain later w2 where l: "mirror_rounds e c base n next_round seen' w1 = (later, w2)" by fastforce
    have tried: "tried = ?batch @ later" using Suc.prems(4) False m hr l by (simp add: Let_def)
    obtain new where new: "next_round = new" "seen' = seen @ map hr_sha256 new" "distinct seen'"
      using handle_results_new [OF hr Suc.prems(1)] by auto
    have ih: "distinct (map hr_sha256 later) \<and> length later \<le> 128 * n \<and>
        (\<forall>r \<in> set later. r \<in> set next_round \<or> hr_sha256 r \<notin> set seen')"
      using new by (intro Suc.IH [OF _ _ _ l]) auto
    have fresh: "hr_sha256 r \<notin> set seen" if "r \<in> set later" for r
      using ih that new by auto
    have perm: "mset ?batch = mset (take 128 refs)" using assms(1) .
    then have batch: "set ?batch = set (take 128 refs)" "length ?batch \<le> 128"
      using mset_eq_setD [OF perm] mset_eq_length [OF perm] by auto
    have "mset (map hr_sha256 ?batch) = mset (map hr_sha256 (take 128 refs))" using perm by simp
    moreover have "distinct (map hr_sha256 (take 128 refs))"
      using Suc.prems(2) by (metis distinct_take take_map)
    ultimately have "distinct (map hr_sha256 ?batch)" by (metis mset_eq_imp_distinct_iff)
    moreover have "hr_sha256 ` set ?batch \<subseteq> set seen"
      using Suc.prems(3) batch(1) set_take_subset [of 128 refs] by blast
    ultimately show ?thesis
      using ih fresh batch set_take_subset [of 128 refs] unfolding tried by auto
  qed (use Suc.prems in auto)
qed auto

lemma retain_new_spec:
  assumes "retain_new rs seen = (kept, seen')" "distinct seen"
  shows "seen' = seen @ map hr_sha256 kept \<and> distinct seen' \<and> kept = first_by hr_sha256 (set seen) rs"
  using assms
proof (induction rs seen arbitrary: kept seen' rule: retain_new.induct)
  case (2 r rs seen)
  show ?case
  proof (cases "hr_sha256 r \<in> set seen")
    case True
    have "retain_new rs seen = (kept, seen')" using 2(3) True by simp
    moreover have "first_by hr_sha256 (set seen) (r # rs) = first_by hr_sha256 (set seen) rs" using True by simp
    ultimately show ?thesis using 2(1) [OF True _ 2(4)] by (simp only:)
  next
    case False
    obtain kept1 where one: "retain_new rs (seen @ [hr_sha256 r]) = (kept1, seen')" "kept = r # kept1"
      using 2(3) False by (auto split: prod.splits)
    have "distinct (seen @ [hr_sha256 r])" using 2(4) False by simp
    from 2(2) [OF False one(1) this] have new: "seen' = (seen @ [hr_sha256 r]) @ map hr_sha256 kept1" "distinct seen'"
      "kept1 = first_by hr_sha256 (set (seen @ [hr_sha256 r])) rs" by blast+
    then have "kept = first_by hr_sha256 (set seen) (r # rs)" "seen' = seen @ map hr_sha256 kept"
      using one(2) False by simp_all
    with new(2) show ?thesis by blast
  qed
qed auto

section \<open>Mirroring keeps the invariant\<close>

definition bodies_fit :: "net_env \<Rightarrow> bool" where
  "bodies_fit env \<longleftrightarrow> (\<forall>lg u a response. http_send env lg u a = Inr response \<longrightarrow> chunks_fit response)"

lemma fetched_fits:
  assumes "bodies_fit env" "fetch_from_url env u lg = (Inr response, lg')"
  shows "chunks_fit response"
  using fetch_loop_log [OF assms(2) [unfolded fetch_from_url_def]] assms(1)
  by (auto simp: final_answer_def bodies_fit_def split: net_event.splits)

lemma in_net_fetched:
  "bodies_fit (ae_net e) \<Longrightarrow> in_net (fetch_from_url (ae_net e) u) w = (Inr response, w') \<Longrightarrow> chunks_fit response"
  using fetched_fits by (fastforce simp: in_net_def split: prod.splits)

lemma mirror_single_safe:
  assumes lay: "layout_ok c" and safe: "blob_safe e c w" and fit: "bodies_fit (ae_net e)"
  shows "blob_safe e c (snd (mirror_single_reference e c base r w))"
  unfolding mirror_single_reference_def Let_def
  by (auto intro!: safe_step safe safe_with_temp lay safe_stream_response finalize_safe
      dest!: in_net_fetched [OF fit] dest: staged_response(1) simp: bind_st_Inr_iff split: if_splits)

lemma mirror_all_safe:
  assumes lay: "layout_ok c" and fit: "bodies_fit (ae_net e)" and safe: "blob_safe e c w"
  shows "blob_safe e c (snd (mirror_all e c base rs w))"
  using safe
proof (induction rs arbitrary: w)
  case (Cons r rs)
  from Cons.IH [OF mirror_single_safe [OF lay Cons.prems fit]] show ?case by (simp add: split_beta Let_def)
qed simp

lemma mirror_rounds_safe:
  assumes lay: "layout_ok c" and fit: "bodies_fit (ae_net e)" and safe: "blob_safe e c w"
  shows "blob_safe e c (snd (mirror_rounds e c base n refs seen w))"
  using safe
proof (induction n arbitrary: refs seen w)
  case (Suc n)
  have "blob_safe e c (snd (mirror_rounds e c base n a b (snd (mirror_all e c base rs w))))" for a b rs
    by (rule Suc.IH [OF mirror_all_safe [OF lay fit Suc.prems]])
  then show ?case using Suc.prems by (simp add: split_beta Let_def)
qed simp

lemma mirror_hls_safe:
  assumes "layout_ok c" "bodies_fit (ae_net e)" "blob_safe e c w"
  shows "blob_safe e c (snd (mirror_hls_references e c base refs w))"
  using mirror_rounds_safe [OF assms] by (simp add: mirror_hls_references_def split_beta)

section \<open>Properties\<close>

text \<open>C14: Recursive mirroring is bounded: whatever the playlists refer to, themselves included, and in
  whatever order the fetches complete, a task tries every hash at most once and at most 1280
  references in all (10 rounds of 128), tries the first 128 distinct references of its playlist first
  unless they are more than 1024, and keeps the catalogue true to the files.\<close>
theorem mirror_hls_bounded:
  assumes "\<And>k rs. mset (ae_completion e k rs) = mset rs"
    and "layout_ok c" and "bodies_fit (ae_net e)" and "blob_safe e c w"
    and "mirror_hls_references e c base refs w = (tried, w')"
  shows "distinct (map hr_sha256 tried) \<and> length tried \<le> 1280 \<and> blob_safe e c w' \<and>
    (let wanted = first_by hr_sha256 {} refs
     in if length wanted > 1024 then tried = [] else mset (take (min 128 (length wanted)) tried) = mset (take 128 wanted))"
proof -
  let ?wanted = "first_by hr_sha256 {} refs"
  obtain kept seen where r: "retain_new refs [] = (kept, seen)" by fastforce
  from retain_new_spec [OF r] have kept: "kept = ?wanted" and seen: "seen = map hr_sha256 kept" and d: "distinct seen"
    by auto
  have run: "mirror_rounds e c base 10 (take 128 kept) seen w = (tried, w')"
    using assms(5) r by (simp add: mirror_hls_references_def)
  have "distinct (map hr_sha256 (take 128 kept))" using d seen by (metis distinct_take take_map)
  moreover have "hr_sha256 ` set (take 128 kept) \<subseteq> set seen"
    using seen set_take_subset [of 128 kept] by auto
  ultimately have new: "distinct (map hr_sha256 tried)" "length tried \<le> 1280"
    using mirror_rounds_new [OF assms(1) d _ _ run] by auto
  have safe: "blob_safe e c w'"
    using mirror_hls_safe [OF assms(2-4), of base refs] assms(5) by simp
  have len: "length seen = length ?wanted" using seen kept by simp
  have first: "if length ?wanted > 1024 then tried = []
      else mset (take (min 128 (length ?wanted)) tried) = mset (take 128 ?wanted)"
  proof (cases "length ?wanted > 1024 \<or> ?wanted = []")
    case True
    with run len kept show ?thesis by (auto simp: numeral_eq_Suc [of "num.Bit0 _"] eval_nat_numeral)
  next
    case False
    let ?batch = "ae_completion e 9 (take 128 ?wanted)"
    note ten = mirror_rounds.simps(2) [of e c base 9 "take 128 ?wanted" seen w, unfolded Suc_numeral, simplified]
    obtain later where "tried = ?batch @ later"
      using run False kept len by (auto simp: ten split_beta Let_def)
    moreover have perm: "mset ?batch = mset (take 128 ?wanted)" using assms(1) .
    moreover have "length ?batch = min 128 (length ?wanted)" using mset_eq_length [OF perm] by simp
    ultimately show ?thesis using False by simp
  qed
  show ?thesis unfolding Let_def using new safe first by blast
qed

definition ex_reference :: hls_reference where
  "ex_reference = \<lparr>hr_sha256 = ''ab'', hr_extension = None\<rparr>"

theorem mirror_hls_bounded_witness:
  "\<exists>tried w'. mirror_hls_references sample_env sample_config ''https://a'' [ex_reference] (empty_world store_a) = (tried, w') \<and>
     mset (take 1 tried) = {#ex_reference#} \<and> distinct (map hr_sha256 tried)"
proof -
  obtain tried w' where r: "mirror_hls_references sample_env sample_config ''https://a'' [ex_reference] (empty_world store_a) = (tried, w')"
    by fastforce
  have "blob_safe sample_env sample_config (empty_world store_a)"
    using store_a_inv [of "integrity (\<lambda>_. hash_a)"]
    by (simp add: blob_safe_def empty_world_def sample_env_def integrity_def md_a_def)
  moreover have "bodies_fit (ae_net sample_env)" by (simp add: bodies_fit_def sample_env_def sample_net_def)
  moreover have "mset (ae_completion sample_env k rs) = mset rs" for k rs by (simp add: sample_env_def)
  ultimately show ?thesis
    using mirror_hls_bounded [OF _ layout_sample _ _ r] r by auto
qed

end
