(* ===== verification/UploadHandlers.thy ===== *)
theory UploadHandlers
  imports Hls
begin

text \<open>
  The upload handlers (\<open>src/handlers/upload.rs\<close>) and the upload preflight (\<open>head_upload\<close> in \<open>src/lib.rs\<close>).
  Each is one function from the request and the world to the answer and the world afterwards; an error
  is a value, so the effects before it are kept. The request body is what the connection delivers. JSON
  is written by \<open>ae_descriptor_json\<close> and read by \<open>ae_mirror_url\<close>; the metric counters are left out.
\<close>

definition descriptor_response :: "app_env \<Rightarrow> app_config \<Rightarrow> nat \<Rightarrow> string \<Rightarrow> file_metadata \<Rightarrow> string response" where
  "descriptor_response e c st sha256 m =
     \<lparr>status = st, rheaders = [(''content-type'', ''application/json'')],
      body = ae_descriptor_json e (create_blob_descriptor c sha256 m)\<rparr>"

definition created_status :: "stored_blob \<Rightarrow> nat" where
  "created_status stored = (if sb_created stored then 201 else 200)"

definition no_content :: "string response" where
  "no_content = \<lparr>status = 204, rheaders = [], body = []\<rparr>"

section \<open>Plain uploads\<close>

definition extract_declared_upload_hash :: "header_map \<Rightarrow> string app_result" where
  "extract_declared_upload_hash headers =
     and_then (ok_or (hget headers ''X-SHA-256'') (BadRequest ''Missing X-SHA-256 header'')) (\<lambda>v.
     and_then (ok_or (to_str v) (BadRequest ''X-SHA-256 header must be ASCII'')) (\<lambda>sha256.
     and_then (validate_sha256_format sha256) (\<lambda>_. Inr sha256)))"

definition ensure_upload_hash_matches :: "string \<Rightarrow> string \<Rightarrow> unit app_result" where
  "ensure_upload_hash_matches declared_sha256 calculated_sha256 =
     (if declared_sha256 \<noteq> calculated_sha256 then Inl (Conflict ''Uploaded blob does not match X-SHA-256'')
      else Inr ())"

text \<open>The handler up to the point where the body is hashed, admitted and paid for.\<close>

definition receive_upload ::
  "app_env \<Rightarrow> app_config \<Rightarrow> header_map \<Rightarrow> (string + bytes) list \<Rightarrow> path \<Rightarrow> authorized \<Rightarrow> string \<Rightarrow> world \<Rightarrow>
     (string \<times> u64) app_result \<times> world" where
  "receive_upload e c headers items tmp a declared_sha256 w =
     with_temp e tmp
       (bind_st (in_files (stream_to_temp_file (env_host e) (ae_sha e) items tmp (size_limit c ClientUpload)) w)
          (\<lambda>(sha256, total_bytes) w1.
        bind_st (pure_st (ensure_upload_hash_matches declared_sha256 sha256) w1) (\<lambda>_ w1.
        bind_st (in_auth (bind_hash (env_now e) a declared_sha256) w1) (\<lambda>_ w2.
        bind_st (pure_st (ensure_not_quarantined c (env_host e) (w_store w2) sha256) w2) (\<lambda>_ w2.
        bind_st (in_ledger (charge c (ae_cashu e) headers Paid_Upload total_bytes) w2) (\<lambda>_ w3.
        (Inr (sha256, total_bytes), w3)))))))"

definition upload_file ::
  "app_env \<Rightarrow> app_config \<Rightarrow> header_map \<Rightarrow> (string + bytes) list \<Rightarrow> world \<Rightarrow> string response app_result \<times> world" where
  "upload_file e c headers items w =
     bind_st (in_auth (authorize c (ae_nostr e) (env_now e) headers Op_Upload) w) (\<lambda>a w1.
     bind_st (pure_st (extract_declared_upload_hash headers) w1) (\<lambda>declared_sha256 w1.
     bind_st (pure_st (validate_upload_auth (az_event a) declared_sha256) w1) (\<lambda>_ w1.
     let content_type = extract_content_type headers;
         extension = get_extension_from_mime (ae_extensions e) content_type
     in bind_st (pure_st (extract_expiration (env_now e) headers) w1) (\<lambda>expiration w1.
     let declared_size = (case Option.bind (hget_str headers ''content-length'') parse_u64 of
            None \<Rightarrow> max_blob_size_bytes c | Some n \<Rightarrow> n)
     in bind_st (pure_st (ensure_storage_capacity c (env_host e) (w_store w1) declared_size) w1) (\<lambda>_ w1.
     bind_st (in_store (ensure_temp_dir c (env_host e)) w1) (\<lambda>_ w2.
     let tmp = temp_reserve c (env_host e) ''upload'' None
     in bind_st (receive_upload e c headers items tmp a declared_sha256 w2) (\<lambda>(sha256, total_bytes) w3.
     bind_st (in_store (finalize_upload c (ae_storage e) tmp sha256 total_bytes extension (Some content_type)
                expiration) w3) (\<lambda>stored w4.
     (Inr (descriptor_response e c (created_status stored) sha256 (sb_metadata stored)), w4)))))))))"

section \<open>Mirroring\<close>

text \<open>\<open>axum::body::to_bytes\<close>: a stream error and an overlong body are one error.\<close>

fun collect_body :: "nat \<Rightarrow> bytes \<Rightarrow> (string + bytes) list \<Rightarrow> bytes option" where
  "collect_body limit got [] = Some got"
| "collect_body limit got (Inl _ # items) = None"
| "collect_body limit got (Inr d # items) =
     (if length (got @ d) > limit then None else collect_body limit (got @ d) items)"

definition mirror_target :: "app_env \<Rightarrow> (string + bytes) list \<Rightarrow> string app_result" where
  "mirror_target e items =
     and_then (ok_or (collect_body (64 * 1024) [] items) (PayloadTooLarge ''Mirror request body exceeds 64 KiB''))
       (\<lambda>body_bytes.
     and_then (map_err (\<lambda>err. BadRequest (''JSON error: '' @ err)) (ae_mirror_url e body_bytes)) (\<lambda>u.
     ok_or u (BadRequest ''Missing 'url' field in request body'')))"

definition receive_mirror ::
  "app_env \<Rightarrow> app_config \<Rightarrow> header_map \<Rightarrow> upstream_response \<Rightarrow> path \<Rightarrow> string \<Rightarrow> world \<Rightarrow> u64 app_result \<times> world" where
  "receive_mirror e c headers response tmp expected_sha256 w =
     with_temp e tmp
       (bind_st (in_files (stream_response_to_temp_file (env_host e) (ae_sha e) response tmp (size_limit c UpstreamFetch)) w)
          (\<lambda>(calculated_sha256, body_size) w1.
        if calculated_sha256 \<noteq> expected_sha256
        then (Inl (Conflict (''SHA256 hash mismatch: expected '' @ expected_sha256 @ '', got '' @ calculated_sha256)), w1)
        else
        bind_st (pure_st (ensure_not_quarantined c (env_host e) (w_store w1) expected_sha256) w1) (\<lambda>_ w1.
        bind_st (in_ledger (charge c (ae_cashu e) headers Paid_Mirror body_size) w1) (\<lambda>_ w2.
        (Inr body_size, w2)))))"

text \<open>A mirrored playlist spawns the task that mirrors its references.\<close>

definition spawn_hls :: "app_env \<Rightarrow> string \<Rightarrow> string \<Rightarrow> string \<Rightarrow> world \<Rightarrow> world" where
  "spawn_hls e content_type u sha256 w =
     (if is_hls_playlist content_type
      then case extract_origin_base_url (ae_net e) u of
             None \<Rightarrow> w
           | Some origin_base_url \<Rightarrow>
               (let references = collect_playlist_references e w sha256
                in if references = [] then w
                   else w\<lparr>w_spawned := w_spawned w @ [Mirror_References origin_base_url references]\<rparr>)
      else w)"

definition mirror_blob ::
  "app_env \<Rightarrow> app_config \<Rightarrow> header_map \<Rightarrow> (string + bytes) list \<Rightarrow> world \<Rightarrow> string response app_result \<times> world" where
  "mirror_blob e c headers items w =
     bind_st (in_auth (authorize c (ae_nostr e) (env_now e) headers Op_Mirror) w) (\<lambda>a w1.
     bind_st (pure_st (validate_t_tag (az_event a) ''upload'') w1) (\<lambda>_ w1.
     bind_st (pure_st (ok_or (extract_sha256_from_event (az_event a))
                (Unauthorized ''No valid SHA-256 hash found in auth event'')) w1) (\<lambda>expected_sha256 w1.
     bind_st (pure_st (extract_expiration (env_now e) headers) w1) (\<lambda>expiration w1.
     bind_st (pure_st (mirror_target e items) w1) (\<lambda>u w1.
     bind_st (in_net (fetch_from_url (ae_net e) u) w1) (\<lambda>response w2.
     let content_type = extract_content_type_from_response (ur_headers response)
     in bind_st (pure_st (check_size_limit (ae_content_length e response) (size_limit c UpstreamFetch)) w2) (\<lambda>_ w2.
     bind_st (in_store (ensure_temp_dir c (env_host e)) w2) (\<lambda>_ w3.
     let extension = get_extension_from_mime (ae_extensions e) content_type;
         tmp = temp_reserve c (env_host e) ''mirror'' extension
     in bind_st (receive_mirror e c headers response tmp expected_sha256 w3) (\<lambda>body_size w4.
     bind_st (in_store (finalize_upload c (ae_storage e) tmp expected_sha256 body_size extension (Some content_type)
                expiration) w4) (\<lambda>stored w5.
     (Inr (descriptor_response e c (created_status stored) expected_sha256 (sb_metadata stored)),
      spawn_hls e content_type u expected_sha256 w5)))))))))))"

section \<open>Chunked uploads\<close>

record chunk_request =
  cr_sha256 :: string
  cr_upload_type :: string
  cr_upload_length :: u64
  cr_content_length :: u64
  cr_upload_offset :: u64

definition parse_header :: "header_map \<Rightarrow> string \<Rightarrow> u64 app_result" where
  "parse_header headers nm =
     ok_or (Option.bind (hget_str headers nm) parse_u64) (BadRequest (''Missing or invalid '' @ nm @ '' header''))"

text \<open>The checks on the headers, before anything else is looked at.\<close>

definition check_chunk_bounds :: "app_config \<Rightarrow> header_map \<Rightarrow> u64 \<Rightarrow> u64 \<Rightarrow> u64 \<Rightarrow> unit app_result" where
  "check_chunk_bounds c headers upload_length content_length upload_offset =
     (if content_length = 0 then Inl (BadRequest ''Empty chunks are not accepted'')
      else if upload_length = 0 \<or> upload_length > max_blob_size_bytes c
      then Inl (PayloadTooLarge ''Upload-Length exceeds the configured blob limit'')
      else if content_length > max_chunk_size_bytes c
      then Inl (PayloadTooLarge ''Chunk exceeds the configured chunk limit'')
      else and_then (ok_or (checked_add upload_offset content_length) (BadRequest ''Upload-Offset overflows''))
             (\<lambda>chunk_end.
               if chunk_end > upload_length then Inl (BadRequest ''Chunk exceeds Upload-Length'')
               else if extract_content_type headers \<noteq> ''application/octet-stream''
               then Inl (BadRequest ''Chunk Content-Type must be application/octet-stream'')
               else Inr ()))"

definition parse_chunk_request :: "app_config \<Rightarrow> header_map \<Rightarrow> chunk_request app_result" where
  "parse_chunk_request c headers =
     and_then (ok_or (hget_str headers ''X-SHA-256'') (BadRequest ''Missing X-SHA-256 header'')) (\<lambda>sha256.
     and_then (validate_sha256_format sha256) (\<lambda>_.
     and_then (ok_or (hget_str headers ''Upload-Type'') (BadRequest ''Missing Upload-Type header'')) (\<lambda>upload_type.
     and_then (parse_header headers ''Upload-Length'') (\<lambda>upload_length.
     and_then (parse_header headers ''content-length'') (\<lambda>content_length.
     and_then (parse_header headers ''Upload-Offset'') (\<lambda>upload_offset.
     and_then (check_chunk_bounds c headers upload_length content_length upload_offset) (\<lambda>_.
     Inr \<lparr>cr_sha256 = sha256, cr_upload_type = upload_type, cr_upload_length = upload_length,
          cr_content_length = content_length, cr_upload_offset = upload_offset\<rparr>)))))))"

definition session_limits_of :: "app_config \<Rightarrow> session_limits" where
  "session_limits_of c = \<lparr>max_sessions = max_chunk_upload_sessions c,
     max_sessions_per_pubkey = max_chunk_upload_sessions_per_pubkey c\<rparr>"

definition chunks_dir :: "app_config \<Rightarrow> path" where
  "chunks_dir c = temp (storage c) @ [''chunks'']"

definition chunk_path :: "app_config \<Rightarrow> host_env \<Rightarrow> chunk_request \<Rightarrow> path" where
  "chunk_path c h cr =
     chunks_dir c @ [''chunk_'' @ cr_sha256 cr @ ''_'' @ show_u64 (cr_upload_offset cr) @ ''_'' @ fresh_uuid h]"

definition chunk_params :: "chunk_request \<Rightarrow> pubkey \<Rightarrow> u64 option \<Rightarrow> session_params" where
  "chunk_params cr owner expiration =
     \<lparr>sp_sha256 = cr_sha256 cr, sp_owner = owner, sp_upload_type = cr_upload_type cr,
      sp_upload_length = cr_upload_length cr, sp_expiration = expiration\<rparr>"

text \<open>Everything between the reservation and the commit; an error releases the ticket.\<close>

definition write_chunk ::
  "app_env \<Rightarrow> app_config \<Rightarrow> chunk_request \<Rightarrow> (string + bytes) list \<Rightarrow> world \<Rightarrow> unit app_result \<times> world" where
  "write_chunk e c cr items w =
     (let h = env_host e; p = chunk_path c h cr in
      bind_st (pure_st (ensure_storage_capacity c h (w_store w) (cr_content_length cr)) w) (\<lambda>_ w.
      bind_st (in_store (ensure_temp_dir c h) w) (\<lambda>_ w1.
      bind_st (err_st (\<lambda>err. IoError (''Failed to create chunk directory: '' @ io_text err))
                 (in_files (fs_create_dir_all h (chunks_dir c)) w1)) (\<lambda>_ w2.
      with_temp e p
        (bind_st (in_files (stream_to_temp_file h (ae_sha e) items p (cr_content_length cr)) w2) (\<lambda>(_, written) w3.
         if written \<noteq> cr_content_length cr
         then (Inl (BadRequest ''Chunk body does not match Content-Length''), w3)
         else (Inr (), w3)))))))"

definition release_on_error ::
  "chunk_upload_key \<Rightarrow> 'a app_result \<times> world \<Rightarrow> 'a app_result \<times> world" where
  "release_on_error ticket rw =
     (case rw of
        (Inl err, w) \<Rightarrow> (Inl err, w\<lparr>w_sessions := release ticket (w_sessions w)\<rparr>)
      | (Inr x, w) \<Rightarrow> (Inr x, w))"

definition discard_chunk_files :: "app_env \<Rightarrow> chunk_info list \<Rightarrow> world \<Rightarrow> world" where
  "discard_chunk_files e chunks w = fold (\<lambda>ch w. unlink_temp e (ch_path ch) w) chunks w"

section \<open>Reconstruction\<close>

text \<open>
  One chunk file into the target, in pieces of 64 KiB: \<open>source\<close> is what is left of the open file,
  \<open>remaining\<close> what the chunk announced.
\<close>

definition next_piece :: "u64 \<Rightarrow> bytes \<Rightarrow> bytes" where
  "next_piece remaining source = take (min (unat remaining) (64 * 1024)) source"

definition write_piece ::
  "host_env \<Rightarrow> path \<Rightarrow> bytes \<Rightarrow> bytes \<times> u64 \<Rightarrow> fs \<Rightarrow> (bytes \<times> u64) app_result \<times> fs" where
  "write_piece h dst piece = (\<lambda>(hashed, total_written) f.
     bind_st (err_st (\<lambda>err. IoError (''Failed to write reconstruction: '' @ io_text err))
                (fs_append h dst piece f)) (\<lambda>_ f1.
     case checked_add total_written (word_of_nat (length piece)) of
       None \<Rightarrow> (Inl (BadRequest ''Reconstruction size overflows''), f1)
     | Some total' \<Rightarrow> (Inr (hashed @ piece, total'), f1)))"

function copy_pieces ::
  "host_env \<Rightarrow> path \<Rightarrow> path \<Rightarrow> bytes \<Rightarrow> u64 \<Rightarrow> bytes \<times> u64 \<Rightarrow> fs \<Rightarrow> (bytes \<times> bytes \<times> u64) app_result \<times> fs" where
  "copy_pieces h src dst source remaining st f =
     (if remaining = 0 then (Inr (source, st), f)
      else case io_fault h Io_Read src of
        Some err \<Rightarrow> (Inl (IoError (''Failed to read chunk: '' @ err)), f)
      | None \<Rightarrow>
          (let piece = next_piece remaining source in
           if piece = [] then (Inl (BadRequest ''Chunk file is shorter than declared''), f)
           else bind_st (write_piece h dst piece st f) (\<lambda>st' f1.
                copy_pieces h src dst (drop (length piece) source) (remaining - word_of_nat (length piece)) st' f1)))"
  by pat_completeness auto
termination by (relation "measure (\<lambda>(h, src, dst, source, remaining, st, f). length source)") (auto simp: next_piece_def)

declare copy_pieces.simps [simp del]

definition copy_chunk ::
  "host_env \<Rightarrow> path \<Rightarrow> chunk_info \<Rightarrow> bytes \<times> u64 \<Rightarrow> fs \<Rightarrow> (bytes \<times> u64) app_result \<times> fs" where
  "copy_chunk h dst ch st f =
     bind_st (err_st (\<lambda>err. IoError (''Failed to open chunk file: '' @ io_text err))
                (pure_st (case io_fault h Io_Open (ch_path ch) of
                     Some err \<Rightarrow> Inl (Io_Other err)
                   | None \<Rightarrow> ok_or (fs_data f (ch_path ch)) Io_NotFound) f)) (\<lambda>source f.
     bind_st (copy_pieces h (ch_path ch) dst source (ch_length ch) st f) (\<lambda>(rest, st') f1.
       case io_fault h Io_Read (ch_path ch) of
         Some err \<Rightarrow> (Inl (IoError (''Failed to validate chunk size: '' @ err)), f1)
       | None \<Rightarrow> if rest \<noteq> [] then (Inl (BadRequest ''Chunk file is longer than declared''), f1)
                 else (Inr st', f1)))"

fun copy_chunks ::
  "host_env \<Rightarrow> path \<Rightarrow> chunk_info list \<Rightarrow> bytes \<times> u64 \<Rightarrow> fs \<Rightarrow> (bytes \<times> u64) app_result \<times> fs" where
  "copy_chunks h dst [] st f = (Inr st, f)"
| "copy_chunks h dst (ch # chs) st f =
     bind_st (copy_chunk h dst ch st f) (\<lambda>st' f'. copy_chunks h dst chs st' f')"

text \<open>The target file: created, filled, compared with the announced length and hash, synced.\<close>

definition reassemble ::
  "app_env \<Rightarrow> path \<Rightarrow> chunk_info list \<Rightarrow> u64 \<Rightarrow> string \<Rightarrow> fs \<Rightarrow> u64 app_result \<times> fs" where
  "reassemble e dst chunks upload_length expected_sha256 f =
     (let h = env_host e in
      bind_st (err_st (\<lambda>err. IoError (''Failed to create reconstruction file: '' @ io_text err))
                 (fs_create h dst f)) (\<lambda>_ f1.
      bind_st (copy_chunks h dst chunks ([], 0) f1) (\<lambda>(hashed, total_written) f2.
      if total_written \<noteq> upload_length \<or> ae_sha e hashed \<noteq> expected_sha256
      then (Inl (Unauthorized ''Reconstructed blob does not match claimed SHA-256''), f2)
      else bind_st (err_st (\<lambda>err. IoError (''Failed to sync reconstruction: '' @ io_text err))
                      (pure_st (fs_sync h dst f2) f2)) (\<lambda>_ f2.
           (Inr total_written, f2)))))"

definition discards_on_gap :: "app_error \<Rightarrow> bool" where
  "discards_on_gap err \<longleftrightarrow> err \<noteq> BadRequest ''Chunk length overflows''"

definition reconstruct_blob ::
  "app_env \<Rightarrow> app_config \<Rightarrow> chunk_upload \<Rightarrow> string \<Rightarrow> world \<Rightarrow> blob_descriptor app_result \<times> world" where
  "reconstruct_blob e c up expected_sha256 w =
     (case chunk_coverage up of
        Inl err \<Rightarrow>
          (Inl err, if discards_on_gap err
                    then discard_chunk_files e (sort_key ch_offset (cu_chunks up)) w else w)
      | Inr chunks \<Rightarrow>
          bind_st (in_store (ensure_temp_dir c (env_host e)) w) (\<lambda>_ w1.
          let tmp = temp_reserve c (env_host e) ''reconstruct'' None;
              (r, w2) =
                bind_st (with_temp e tmp
                    (in_files (reassemble e tmp chunks (cu_upload_length up) expected_sha256) w1))
                  (\<lambda>total_written w2.
                bind_st (in_store (finalize_upload c (ae_storage e) tmp expected_sha256 total_written
                       (get_extension_from_mime (ae_extensions e) (cu_upload_type up)) (Some (cu_upload_type up))
                       (cu_expiration up)) w2) (\<lambda>stored w3.
                (Inr (create_blob_descriptor c expected_sha256 (sb_metadata stored)), w3)))
          in (r, discard_chunk_files e chunks w2)))"

text \<open>After the completing commit: payment, or putting the other chunks back, then reconstruction.\<close>

definition finish_chunked ::
  "app_env \<Rightarrow> app_config \<Rightarrow> header_map \<Rightarrow> chunk_upload_key \<Rightarrow> chunk_request \<Rightarrow> path \<Rightarrow> chunk_upload \<Rightarrow> world \<Rightarrow>
     string response app_result \<times> world" where
  "finish_chunked e c headers key cr p up w =
     (case in_ledger (charge c (ae_cashu e) headers Paid_Upload (cr_upload_length cr)) w of
        (Inl payment_error, w1) \<Rightarrow>
          (let restored = up\<lparr>cu_chunks := butlast (cu_chunks up)\<rparr>;
               (ok, w2) = in_sessions (restore key restored) w1
           in (Inl payment_error, if ok then unlink_temp e p w2 else discard_chunk_files e (cu_chunks up) w2))
      | (Inr _, w1) \<Rightarrow>
          if length (cu_chunks up) = 1 \<and> ch_length (hd (cu_chunks up)) \<noteq> cr_upload_length cr
          then (Inr no_content, w1)
          else if sum_list (map ch_length (cu_chunks up)) \<noteq> cr_upload_length cr then (Inr no_content, w1)
          else bind_st (reconstruct_blob e c up (cr_sha256 cr) w1) (\<lambda>descriptor w2.
            (Inr \<lparr>status = 200, rheaders = [(''content-type'', ''application/json'')],
                  body = ae_descriptor_json e descriptor\<rparr>, w2)))"

definition patch_upload ::
  "app_env \<Rightarrow> app_config \<Rightarrow> header_map \<Rightarrow> (string + bytes) list \<Rightarrow> world \<Rightarrow> string response app_result \<times> world" where
  "patch_upload e c headers items w =
     bind_st (pure_st (parse_chunk_request c headers) w) (\<lambda>cr w.
     bind_st (in_auth (authorize c (ae_nostr e) (env_now e) headers Op_ChunkUpload) w) (\<lambda>a w1.
     bind_st (in_auth (bind_hash (env_now e) a (cr_sha256 cr)) w1) (\<lambda>_ w2.
     bind_st (pure_st (ensure_not_quarantined c (env_host e) (w_store w2) (cr_sha256 cr)) w2) (\<lambda>_ w2.
     bind_st (pure_st (extract_expiration (env_now e) headers) w2) (\<lambda>expiration w2.
     let owner = ev_pubkey (az_event a);
         key = \<lparr>ck_pubkey = owner, ck_sha256 = cr_sha256 cr\<rparr>;
         (reservation, w3) = in_sessions (reserve (session_limits_of c) key) w2
     in case reservation of
          GlobalLimit \<Rightarrow> (Inl (Conflict ''Session capacity exhausted''), w3)
        | PerPubkeyLimit \<Rightarrow> (Inl (Conflict ''Session capacity exhausted''), w3)
        | Granted ticket \<Rightarrow>
            bind_st (release_on_error ticket (write_chunk e c cr items w3)) (\<lambda>_ w4.
            let p = chunk_path c (env_host e) cr;
                chunk = \<lparr>ch_offset = cr_upload_offset cr, ch_length = cr_content_length cr, ch_path = p\<rparr>;
                (committed, w5) =
                  in_sessions (commit (ae_instant e) ticket (chunk_params cr owner expiration) chunk) w4
            in case committed of
                 Incomplete \<Rightarrow> (Inr no_content, w5)
               | Overlap \<Rightarrow> (Inl (Conflict ''Chunk conflicts with an existing session''), unlink_temp e p w5)
               | ParamMismatch \<Rightarrow> (Inl (Conflict ''Chunk conflicts with an existing session''), unlink_temp e p w5)
               | Completed up \<Rightarrow> finish_chunked e c headers key cr p up w5))))))"

section \<open>The preflight\<close>

text \<open>\<open>None\<close> is a panic: a mint URL that is not a legal header value.\<close>

definition quoted_response ::
  "(u64 \<Rightarrow> string \<Rightarrow> string list \<Rightarrow> string) \<Rightarrow> quote \<Rightarrow> string response option" where
  "quoted_response enc q =
     Option.bind (into_response enc (payment_required q)) (\<lambda>r.
       let ms = join_with '','' (q_mints q) in
       if header_value_ok ms
       then Some (r\<lparr>rheaders := hinsert ''X-Accepted-Mints'' ms (hinsert ''X-Price-Unit'' (q_unit q)
                     (hinsert ''X-Price-Per-MB'' (show_u64 (q_amount_sats q)) (rheaders r)))\<rparr>)
       else None)"

definition preflight_size :: "header_map \<Rightarrow> u64 app_result" where
  "preflight_size headers =
     and_then (ok_or (Option.bind (hget_str headers ''X-Content-Type'')
                        (\<lambda>v. if trim v = [] then None else Some v)) (BadRequest ''Missing X-Content-Type header''))
       (\<lambda>_.
     and_then (ok_or (hget_str headers ''X-Content-Length'') (LengthRequired ''Missing X-Content-Length header''))
       (\<lambda>v. ok_or (parse_u64 v) (BadRequest ''Invalid X-Content-Length header'')))"

definition head_upload ::
  "(u64 \<Rightarrow> string \<Rightarrow> string list \<Rightarrow> string) \<Rightarrow> app_env \<Rightarrow> app_config \<Rightarrow> header_map \<Rightarrow> world \<Rightarrow>
     string response option app_result \<times> world" where
  "head_upload enc e c headers w =
     bind_st (pure_st (ok_or (hget_str headers ''X-SHA-256'') (BadRequest ''Missing X-SHA-256 header'')) w) (\<lambda>sha256 w.
     bind_st (pure_st (validate_sha256_format sha256) w) (\<lambda>_ w.
     bind_st (pure_st (preflight_size headers) w) (\<lambda>declared_size w.
     bind_st (in_auth (authorize c (ae_nostr e) (env_now e) headers Op_Upload) w) (\<lambda>a w1.
     bind_st (in_auth (bind_hash (env_now e) a sha256) w1) (\<lambda>_ w2.
     let max_size = size_limit c ClientUpload in
     if declared_size > max_size
     then (Inl (PayloadTooLarge (''Blob size '' @ show_u64 declared_size @ '' exceeds the '' @ show_u64 max_size @
             ''-byte limit'')), w2)
     else
     bind_st (pure_st (ensure_storage_capacity c (env_host e) (w_store w2) declared_size) w2) (\<lambda>_ w2.
     (Inr (if feature_paid_upload c
           then quoted_response enc (mk_quote (cashu_price_per_mb c) (cashu_accepted_mints c) declared_size)
           else Some \<lparr>status = 200, rheaders = [], body = []\<rparr>), w2)))))))"

section \<open>What a reconstruction contains\<close>

text \<open>What has been hashed is what the target holds, counted exactly.\<close>

definition copy_state :: "path \<Rightarrow> bytes \<Rightarrow> bytes \<times> u64 \<Rightarrow> fs \<Rightarrow> bool" where
  "copy_state dst d st f \<longleftrightarrow> fst st = d \<and> unat (snd st) = length d \<and> fs_data f dst = Some d"

lemma write_piece_only: "write_piece h dst piece st f = (r, f') \<Longrightarrow> only_file dst f f'"
  using append_only [of h dst piece f]
  by (cases st; cases "fs_append h dst piece f"; cases "fst (fs_append h dst piece f)")
    (auto simp: write_piece_def split: option.splits)

lemma write_piece_ok:
  assumes "write_piece h dst piece st f = (Inr st', f')" "copy_state dst d st f" "length piece < 2 ^ 64"
  shows "copy_state dst (d @ piece) st' f'"
proof -
  obtain hashed total where st: "st = (hashed, total)" by fastforce
  obtain ra fa where a: "fs_append h dst piece f = (ra, fa)" by fastforce
  from assms(1) a obtain t where t: "checked_add total (word_of_nat (length piece)) = Some t"
    and st': "st' = (hashed @ piece, t)" and ok: "ra = Inr ()" "f' = fa"
    by (cases ra) (auto simp: write_piece_def st split: option.splits)
  have "unat t = unat total + length piece"
    using t unat_of_small [OF assms(3)] by (simp add: checked_add_Some_iff)
  then show ?thesis
    using assms(2) append_file_cases [OF a] ok st st' by (auto simp: copy_state_def hm_simps)
qed

lemma next_piece_props:
  "next_piece n src @ drop (length (next_piece n src)) src = src"
  "length (next_piece n src) \<le> unat n" "length (next_piece n src) < 2 ^ 64"
  by (auto simp: next_piece_def min_def)

lemma copy_pieces_step:
  "remaining \<noteq> 0 \<Longrightarrow> copy_pieces h src dst source remaining st f =
     (case io_fault h Io_Read src of
        Some err \<Rightarrow> (Inl (IoError (''Failed to read chunk: '' @ err)), f)
      | None \<Rightarrow>
          (if next_piece remaining source = [] then (Inl (BadRequest ''Chunk file is shorter than declared''), f)
           else bind_st (write_piece h dst (next_piece remaining source) st f) (\<lambda>st' f1.
                copy_pieces h src dst (drop (length (next_piece remaining source)) source)
                  (remaining - word_of_nat (length (next_piece remaining source))) st' f1)))"
  by (subst copy_pieces.simps) (simp add: Let_def split: option.split)

lemma copy_pieces_only:
  "copy_pieces h src dst source remaining st f = (r, f') \<Longrightarrow> only_file dst f f'"
proof (induction h src dst source remaining st f arbitrary: r f' rule: copy_pieces.induct)
  case (1 h src dst source remaining st f)
  obtain rw fw where w: "write_piece h dst (next_piece remaining source) st f = (rw, fw)" by fastforce
  show ?case
  proof (cases "remaining \<noteq> 0 \<and> io_fault h Io_Read src = None \<and> next_piece remaining source \<noteq> [] \<and> (\<exists>st'. rw = Inr st')")
    case True
    then obtain st' where ok: "rw = Inr st'" by blast
    have "copy_pieces h src dst (drop (length (next_piece remaining source)) source)
        (remaining - word_of_nat (length (next_piece remaining source))) st' fw = (r, f')"
      using 1(2) True w ok by (simp add: copy_pieces_step)
    then have "only_file dst fw f'" using 1(1) [OF _ _ refl] True by blast
    then show ?thesis using only_file_trans [OF write_piece_only [OF w]] by blast
  next
    case False
    then show ?thesis
      using 1(2) w write_piece_only [OF w] copy_pieces.simps [of h src dst source 0 st f]
      by (cases "remaining = 0"; cases rw) (auto simp: copy_pieces_step split: option.splits if_splits)
  qed
qed

lemma copy_pieces_ok:
  "copy_pieces h src dst source remaining st f = (Inr (rest, st'), f') \<Longrightarrow> copy_state dst d st f \<Longrightarrow>
     \<exists>got. source = got @ rest \<and> length got = unat remaining \<and> copy_state dst (d @ got) st' f'"
proof (induction h src dst source remaining st f arbitrary: d rule: copy_pieces.induct)
  case (1 h src dst source remaining st f)
  show ?case
  proof (cases "remaining = 0")
    case True
    then show ?thesis using 1(2,3) copy_pieces.simps [of h src dst source 0 st f] by auto
  next
    case False
    let ?piece = "next_piece remaining source"
    obtain rw fw where w: "write_piece h dst ?piece st f = (rw, fw)" by fastforce
    have "\<exists>st1. io_fault h Io_Read src = None \<and> ?piece \<noteq> [] \<and> rw = Inr st1 \<and>
        copy_pieces h src dst (drop (length ?piece) source) (remaining - word_of_nat (length ?piece)) st1 fw
          = (Inr (rest, st'), f')"
      using 1(2) w False by (cases rw) (auto simp: copy_pieces_step split: option.splits if_splits)
    then obtain st1 where calm: "io_fault h Io_Read src = None" and ne: "?piece \<noteq> []" and ok: "rw = Inr st1"
      and rec: "copy_pieces h src dst (drop (length ?piece) source) (remaining - word_of_nat (length ?piece)) st1 fw
          = (Inr (rest, st'), f')" by blast
    have "copy_state dst (d @ ?piece) st1 fw"
      by (rule write_piece_ok [OF w [unfolded ok] 1(3) next_piece_props(3)])
    from 1(1) [OF False calm refl ne rec this] obtain got where
      got: "drop (length ?piece) source = got @ rest" "length got = unat (remaining - word_of_nat (length ?piece))"
        "copy_state dst ((d @ ?piece) @ got) st' f'" by blast
    have u: "unat (word_of_nat (length ?piece) :: u64) = length ?piece"
      by (rule unat_of_small [OF next_piece_props(3)])
    have "unat (remaining - word_of_nat (length ?piece)) = unat remaining - length ?piece"
      using next_piece_props(2) [of remaining source] u by (simp add: unat_sub word_le_nat_alt)
    then have "length (?piece @ got) = unat remaining"
      using got(2) next_piece_props(2) [of remaining source] by simp
    moreover have "source = (?piece @ got) @ rest"
      using next_piece_props(1) [of remaining source] got(1) by simp
    ultimately show ?thesis using got(3) by (intro exI [of _ "?piece @ got"]) simp
  qed
qed

lemma copy_chunk_spec:
  assumes "copy_chunk h dst ch st f = (r, f')"
  shows "only_file dst f f'"
    and "r = Inr st' \<Longrightarrow> copy_state dst d st f \<Longrightarrow>
      \<exists>got. fs_data f (ch_path ch) = Some got \<and> length got = unat (ch_length ch) \<and> copy_state dst (d @ got) st' f'"
proof -
  obtain rp fp where p: "\<And>source. copy_pieces h (ch_path ch) dst source (ch_length ch) st f = (rp source, fp source)"
    by (rule that [of "\<lambda>s. fst (copy_pieces h (ch_path ch) dst s (ch_length ch) st f)"
          "\<lambda>s. snd (copy_pieces h (ch_path ch) dst s (ch_length ch) st f)"]) simp
  show "only_file dst f f'"
    using assms copy_pieces_only [OF p]
    by (cases "fs_data f (ch_path ch)"; cases "rp (the (fs_data f (ch_path ch)))")
      (auto simp: copy_chunk_def pure_st_def p split: option.splits if_splits)
  assume r: "r = Inr st'" and st: "copy_state dst d st f"
  from assms r obtain source where src: "fs_data f (ch_path ch) = Some source"
    and ok: "copy_pieces h (ch_path ch) dst source (ch_length ch) st f = (Inr ([], st'), f')"
    by (cases "fs_data f (ch_path ch)"; cases "rp (the (fs_data f (ch_path ch)))")
      (auto simp: copy_chunk_def pure_st_def p split: option.splits if_splits)
  from copy_pieces_ok [OF ok st] src show "\<exists>got. fs_data f (ch_path ch) = Some got \<and>
      length got = unat (ch_length ch) \<and> copy_state dst (d @ got) st' f'" by auto
qed

lemma copy_chunks_spec:
  "copy_chunks h dst chunks st f = (r, f') \<Longrightarrow> only_file dst f f' \<and>
     (\<forall>st' d. r = Inr st' \<longrightarrow> copy_state dst d st f \<longrightarrow> dst \<notin> ch_path ` set chunks \<longrightarrow>
        (\<exists>ds. map (fs_data f \<circ> ch_path) chunks = map Some ds \<and> map length ds = map (unat \<circ> ch_length) chunks \<and>
           copy_state dst (d @ concat ds) st' f'))"
proof (induction h dst chunks st f arbitrary: r f' rule: copy_chunks.induct)
  case (2 h dst ch chs st f)
  obtain r1 f1 where one: "copy_chunk h dst ch st f = (r1, f1)" by fastforce
  note c = copy_chunk_spec [OF one]
  show ?case
  proof (cases r1)
    case (Inl err)
    then show ?thesis using 2(2) one c(1) by auto
  next
    case (Inr st1)
    then have rest: "copy_chunks h dst chs st1 f1 = (r, f')" using 2(2) one by simp
    note ih = 2(1) [OF rest]
    have same: "fs_data f1 (ch_path x) = fs_data f (ch_path x)" if "dst \<notin> ch_path ` set chs" "x \<in> set chs" for x
      using c(1) that by (auto simp: only_file_def image_iff)
    have "\<exists>ds. map (fs_data f \<circ> ch_path) (ch # chs) = map Some ds \<and> map length ds = map (unat \<circ> ch_length) (ch # chs) \<and>
        copy_state dst (d @ concat ds) st' f'"
      if r: "r = Inr st'" and st: "copy_state dst d st f" and dst: "dst \<notin> ch_path ` set (ch # chs)" for st' d
    proof -
      from c(2) [OF Inr st] obtain got where got: "fs_data f (ch_path ch) = Some got"
        "length got = unat (ch_length ch)" "copy_state dst (d @ got) st1 f1" by blast
      have "dst \<notin> ch_path ` set chs" using dst by simp
      with ih r got(3) obtain ds where "map (fs_data f1 \<circ> ch_path) chs = map Some ds"
        "map length ds = map (unat \<circ> ch_length) chs" "copy_state dst ((d @ got) @ concat ds) st' f'" by blast
      moreover have "map (fs_data f1 \<circ> ch_path) chs = map (fs_data f \<circ> ch_path) chs" using same dst by simp
      ultimately show ?thesis using got by (intro exI [of _ "got # ds"]) simp
    qed
    then show ?thesis using ih c(1) only_file_trans by blast
  qed
qed auto

lemma reassemble_only: "reassemble e dst chunks n k f = (r, f') \<Longrightarrow> only_file dst f f'"
proof -
  assume res: "reassemble e dst chunks n k f = (r, f')"
  obtain rc f1 where c: "fs_create (env_host e) dst f = (rc, f1)" by fastforce
  obtain rd f2 where d: "copy_chunks (env_host e) dst chunks ([], 0) f1 = (rd, f2)" by fastforce
  show ?thesis
  proof (cases rc)
    case (Inr u)
    then have "f' = f2"
      using res c d by (cases rd) (auto simp: reassemble_def Let_def pure_st_def fs_sync_def split: if_splits option.splits)
    then show ?thesis
      using only_file_trans [OF create_only [OF c]] copy_chunks_spec [OF d] by blast
  qed (use res c create_only [OF c] in \<open>auto simp: reassemble_def\<close>)
qed

lemma reassemble_spec:
  assumes "reassemble e dst chunks n k f = (Inr m, f')" "dst \<notin> ch_path ` set chunks"
  shows "\<exists>ds. map (fs_data f \<circ> ch_path) chunks = map Some ds \<and> map length ds = map (unat \<circ> ch_length) chunks \<and>
    fs_data f' dst = Some (concat ds) \<and> ae_sha e (concat ds) = k \<and> m = n \<and> unat n = length (concat ds)"
proof -
  obtain rc f1 where c: "fs_create (env_host e) dst f = (rc, f1)" by fastforce
  obtain rd f2 where d: "copy_chunks (env_host e) dst chunks ([], 0) f1 = (rd, f2)" by fastforce
  from assms(1) c d obtain hashed t where ok: "rc = Inr ()" "rd = Inr (hashed, t)"
    and fin: "t = n" "ae_sha e hashed = k" "m = t" "f' = f2"
    by (cases rc; cases rd) (auto simp: reassemble_def Let_def pure_st_def fs_sync_def split: if_splits option.splits)
  have "copy_state dst [] ([], 0) f1"
    using c ok by (auto simp: copy_state_def fs_create_def hm_simps split: option.splits if_splits)
  then obtain ds where ds: "map (fs_data f1 \<circ> ch_path) chunks = map Some ds"
    "map length ds = map (unat \<circ> ch_length) chunks" "copy_state dst (concat ds) (hashed, t) f2"
    using copy_chunks_spec [OF d] ok assms(2) by fastforce
  have "map (fs_data f1 \<circ> ch_path) chunks = map (fs_data f \<circ> ch_path) chunks"
    using create_only [OF c] assms(2) by (auto simp: only_file_def image_iff)
  then show ?thesis using ds fin by (intro exI [of _ ds]) (auto simp: copy_state_def)
qed

section \<open>The handlers keep the invariant\<close>

text \<open>Chunk files live in their own directory below the temporary root.\<close>

definition is_chunk_path :: "app_config \<Rightarrow> path \<Rightarrow> bool" where
  "is_chunk_path c p \<longleftrightarrow> (\<exists>x. p = chunks_dir c @ [x])"

definition chunks_staged :: "app_config \<Rightarrow> session_state \<Rightarrow> bool" where
  "chunks_staged c st \<longleftrightarrow> (\<forall>k u. map_of (ss_uploads st) k = Some u \<longrightarrow>
     (\<forall>ch \<in> set (cu_chunks u). is_chunk_path c (ch_path ch)))"

definition world_ok :: "app_env \<Rightarrow> app_config \<Rightarrow> world \<Rightarrow> bool" where
  "world_ok e c w \<longleftrightarrow> blob_safe e c w \<and> sessions_ok (w_sessions w) \<and> chunks_staged c (w_sessions w)"

lemma chunk_path_temp: "is_chunk_path c p \<Longrightarrow> is_temp_path c p"
  by (auto simp: is_chunk_path_def is_temp_path_def chunks_dir_def)

lemma chunk_path_is: "is_chunk_path c (chunk_path c h cr)"
  by (auto simp: is_chunk_path_def chunk_path_def)

lemma temp_not_chunk: "\<not> is_chunk_path c (temp_reserve c h pre ext)"
  by (auto simp: is_chunk_path_def chunks_dir_def temp_reserve_def)

lemma unlink_sessions [simp]: "w_sessions (unlink_temp e p w) = w_sessions w"
  by (simp add: unlink_temp_def)

lemma safe_sessions [safe_step]: "blob_safe e c w \<Longrightarrow> blob_safe e c (snd (in_sessions g w))"
  by (simp add: blob_safe_def in_sessions_def split_beta Let_def)

lemma safe_discard:
  assumes "layout_ok c" "\<forall>ch \<in> set chunks. is_chunk_path c (ch_path ch)" "blob_safe e c w"
  shows "blob_safe e c (discard_chunk_files e chunks w)"
  using assms(2,3) unfolding discard_chunk_files_def
  by (induction chunks arbitrary: w) (auto intro!: unlink_temp_safe [OF assms(1)] chunk_path_temp)

lemma discard_sessions [simp]: "w_sessions (discard_chunk_files e chunks w) = w_sessions w"
  unfolding discard_chunk_files_def by (induction chunks arbitrary: w) auto

lemma safe_release: "blob_safe e c (snd rw) \<Longrightarrow> blob_safe e c (snd (release_on_error t rw))"
  by (cases rw; cases "fst rw") (auto simp: release_on_error_def blob_safe_def)

lemma release_on_error_Inr [simp]: "release_on_error t rw = (Inr x, w) \<longleftrightarrow> rw = (Inr x, w)"
  by (cases rw; cases "fst rw") (auto simp: release_on_error_def)

lemma safe_create_dir: "blob_safe e c w \<Longrightarrow> blob_safe e c (snd (in_files (fs_create_dir_all h d) w))"
  unfolding blob_safe_def
  by (rule store_inv_files) (auto simp: in_files_def on_fs_def split_beta Let_def)

lemma receive_upload_safe:
  assumes "layout_ok c" "is_temp_path c tmp" "blob_safe e c w"
  shows "blob_safe e c (snd (receive_upload e c headers items tmp a k w))"
  unfolding receive_upload_def
  by (auto intro!: safe_step assms safe_with_temp safe_stream_upload)

lemma receive_mirror_safe:
  assumes "layout_ok c" "is_temp_path c tmp" "blob_safe e c w"
  shows "blob_safe e c (snd (receive_mirror e c headers response tmp k w))"
  unfolding receive_mirror_def
  by (auto intro!: safe_step assms safe_with_temp safe_stream_response)

text \<open>Later steps leave the staged file alone.\<close>

lemma receive_upload_staged:
  assumes "receive_upload e c headers items tmp a k w = (Inr (sha256, n), w')"
  shows "staged (ae_sha e) tmp sha256 n (st_fs (w_store w'))" "sha256 = k"
  using assms staged_upload(1)
  by (auto simp: receive_upload_def bind_st_Inr_iff ensure_upload_hash_matches_def dest!: in_auth_store in_ledger_store
      split: if_splits)

lemma receive_mirror_staged:
  assumes "receive_mirror e c headers response tmp k w = (Inr n, w')" "chunks_fit response"
  shows "staged (ae_sha e) tmp k n (st_fs (w_store w'))"
  using assms staged_response(1)
  by (auto simp: receive_mirror_def bind_st_Inr_iff dest!: in_ledger_store split: if_splits)

section \<open>Sessions through the handlers\<close>

lemma keep_bind:
  assumes "w_sessions (snd m) = S" "\<And>x w'. m = (Inr x, w') \<Longrightarrow> w_sessions w' = S \<Longrightarrow> w_sessions (snd (k x w')) = S"
  shows "w_sessions (snd (bind_st m k)) = S"
  using assms by (cases m; cases "fst m") auto

lemma keep_sessions [simp]:
  "w_sessions (snd (in_auth g w)) = w_sessions w" "w_sessions (snd (in_ledger l w)) = w_sessions w"
  "w_sessions (snd (in_net n w)) = w_sessions w" "w_sessions (snd (in_files f w)) = w_sessions w"
  "w_sessions (snd (in_store s w)) = w_sessions w" "w_sessions (snd (pure_st r w)) = w_sessions w"
  "w_sessions (snd (err_st h m)) = w_sessions (snd m)" "w_sessions (snd (with_temp e p m)) = w_sessions (snd m)"
  by (cases m; cases "fst m";
      auto simp: in_auth_def in_ledger_def in_net_def in_files_def in_store_def pure_st_def split_beta Let_def)+

lemma write_chunk_sessions: "w_sessions (snd (write_chunk e c cr items w)) = w_sessions w"
  unfolding write_chunk_def Let_def by (auto intro!: keep_bind)

lemma receive_sessions:
  "w_sessions (snd (receive_upload e c headers items tmp a k w)) = w_sessions w"
  "w_sessions (snd (receive_mirror e c headers response tmp k w)) = w_sessions w"
  unfolding receive_upload_def receive_mirror_def by (auto intro!: keep_bind)

lemma spawn_hls_same [simp]: "w_sessions (spawn_hls e t u k w) = w_sessions w" "w_store (spawn_hls e t u k w) = w_store w"
  "w_ledger (spawn_hls e t u k w) = w_ledger w" "w_net (spawn_hls e t u k w) = w_net w"
  by (auto simp: spawn_hls_def Let_def split: option.splits)

lemma upload_file_sessions: "w_sessions (snd (upload_file e c headers items w)) = w_sessions w"
  unfolding upload_file_def Let_def by (auto intro!: keep_bind simp: receive_sessions)

lemma mirror_blob_sessions: "w_sessions (snd (mirror_blob e c headers items w)) = w_sessions w"
  unfolding mirror_blob_def Let_def by (auto intro!: keep_bind simp: receive_sessions)

lemma head_upload_sessions: "w_sessions (snd (head_upload enc e c headers w)) = w_sessions w"
  unfolding head_upload_def Let_def by (auto intro!: keep_bind)

lemma reconstruct_sessions: "w_sessions (snd (reconstruct_blob e c up k w)) = w_sessions w"
  unfolding reconstruct_blob_def Let_def
  by (cases "chunk_coverage up") (auto intro!: keep_bind simp: split_beta)

lemma consume_pending_of:
  "pending_of (fst (consume_reservation k st)) j = pending_of st j - (if j = k then 1 else 0)"
  by (auto simp: consume_reservation_def pending_of_def hm_simps split: option.splits)


lemma session_for_staged:
  "chunks_staged c st \<Longrightarrow> ch \<in> set (cu_chunks (session_for now k params st)) \<Longrightarrow> is_chunk_path c (ch_path ch)"
  by (auto simp: session_for_def chunks_staged_def split: option.splits)

lemma commit_staged:
  assumes "chunks_staged c st" "is_chunk_path c (ch_path chunk)" "commit now k params chunk st = (st', r)"
  shows "chunks_staged c st'" "r = Completed u \<Longrightarrow> ch \<in> set (cu_chunks u) \<Longrightarrow> is_chunk_path c (ch_path ch)"
proof -
  note new = session_for_staged [OF assms(1)]
  from assms(3) show "chunks_staged c st'"
    by (cases rule: commit_cases) (use assms(1,2) new in \<open>auto simp: chunks_staged_def hm_simps split: if_splits\<close>)
  from assms(3) show "is_chunk_path c (ch_path ch)" if "r = Completed u" "ch \<in> set (cu_chunks u)"
    by (cases rule: commit_cases) (use that assms(2) new in auto)
qed

lemma restore_sessions:
  assumes "restore k u st = (st', ok)" "sessions_ok st" "chunks_staged c st" "upload_ok u"
    "\<forall>ch \<in> set (cu_chunks u). is_chunk_path c (ch_path ch)"
  shows "sessions_ok st' \<and> chunks_staged c st' \<and> ss_pending st' = ss_pending st"
  using assms by (auto simp: restore_def chunks_staged_def sessions_ok_put hm_simps split: if_splits)

lemma finish_chunked_sessions:
  assumes "upload_ok up" "\<forall>ch \<in> set (cu_chunks up). is_chunk_path c (ch_path ch)"
    "sessions_ok (w_sessions w)" "chunks_staged c (w_sessions w)"
  shows "sessions_ok (w_sessions (snd (finish_chunked e c headers key cr p up w))) \<and>
    chunks_staged c (w_sessions (snd (finish_chunked e c headers key cr p up w))) \<and>
    ss_pending (w_sessions (snd (finish_chunked e c headers key cr p up w))) = ss_pending (w_sessions w)"
proof -
  obtain rl w1 where l: "in_ledger (charge c (ae_cashu e) headers Paid_Upload (cr_upload_length cr)) w = (rl, w1)"
    by fastforce
  then have same: "w_sessions w1 = w_sessions w"
    using keep_sessions(2) by (metis snd_conv)
  show ?thesis
  proof (cases rl)
    case (Inl err)
    obtain st' ok where r: "restore key (up\<lparr>cu_chunks := butlast (cu_chunks up)\<rparr>) (w_sessions w) = (st', ok)"
      by fastforce
    have "\<forall>ch \<in> set (butlast (cu_chunks up)). is_chunk_path c (ch_path ch)"
      using assms(2) by (auto dest: in_set_butlastD)
    then show ?thesis
      using restore_sessions [OF r assms(3,4) upload_ok_butlast [OF assms(1)]] l Inl same r
      by (auto simp: finish_chunked_def in_sessions_def)
  next
    case (Inr u)
    have "w_sessions (snd (bind_st (reconstruct_blob e c up (cr_sha256 cr) w1) (\<lambda>descriptor w2.
            (Inr \<lparr>status = 200, rheaders = [(''content-type'', ''application/json'')],
                  body = ae_descriptor_json e descriptor\<rparr>, w2)))) = w_sessions w"
      by (rule keep_bind) (simp_all add: reconstruct_sessions same)
    then show ?thesis using l Inr same assms(3,4) by (simp add: finish_chunked_def)
  qed
qed

section \<open>The handlers keep the invariant (continued)\<close>

lemma write_chunk_safe:
  assumes "layout_ok c" "blob_safe e c w"
  shows "blob_safe e c (snd (write_chunk e c cr items w))"
  unfolding write_chunk_def Let_def
  by (auto intro!: safe_step safe_with_temp safe_create_dir safe_stream_upload chunk_path_temp chunk_path_is assms)

lemma reassemble_safe:
  assumes "layout_ok c" "is_temp_path c p" "blob_safe e c w"
  shows "blob_safe e c (snd (in_files (reassemble e p chunks n k) w))"
  using in_files_safe [OF assms, of "reassemble e p chunks n k"] reassemble_only by (metis prod.collapse)

lemma reassemble_staged:
  assumes "in_files (reassemble e p chunks n k) w = (Inr m, w')" "p \<notin> ch_path ` set chunks"
  shows "staged (ae_sha e) p k m (st_fs (w_store w')) \<and>
    (\<exists>ds. map (fs_data (st_fs (w_store w)) \<circ> ch_path) chunks = map Some ds \<and>
       map length ds = map (unat \<circ> ch_length) chunks \<and> ae_sha e (concat ds) = k \<and> unat n = length (concat ds))"
proof -
  obtain f' where "reassemble e p chunks n k (st_fs (w_store w)) = (Inr m, f')"
    "w_store w' = (w_store w)\<lparr>st_fs := f'\<rparr>" using assms(1) by (rule in_files_cases)
  with reassemble_spec [OF this(1) assms(2)] show ?thesis by (auto simp: staged_def)
qed

lemma fresh_target: "\<forall>ch \<in> set chunks. is_chunk_path c (ch_path ch) \<Longrightarrow> temp_reserve c h pre ext \<notin> ch_path ` set chunks"
  using temp_not_chunk by (metis imageE)

lemma coverage_set: "chunk_coverage up = Inr chunks \<Longrightarrow> chunks = sort_key ch_offset (cu_chunks up)"
  by (auto simp: chunk_coverage_def Let_def and_then_Inr_iff split: if_splits)

lemma reconstruct_safe:
  assumes lay: "layout_ok c" and paths: "\<forall>ch \<in> set (cu_chunks up). is_chunk_path c (ch_path ch)"
    and safe: "blob_safe e c w"
  shows "blob_safe e c (snd (reconstruct_blob e c up k w))"
proof (cases "chunk_coverage up")
  case (Inl err)
  then show ?thesis using safe_discard [OF lay _ safe] paths safe by (auto simp: reconstruct_blob_def)
next
  case (Inr chunks)
  then have ch: "\<forall>ch \<in> set chunks. is_chunk_path c (ch_path ch)" using coverage_set [OF Inr] paths by simp
  note fresh = fresh_target [OF ch]
  show ?thesis
    unfolding reconstruct_blob_def Inr Let_def split_beta sum.case
    by (auto intro!: safe_step safe safe_discard [OF lay ch] safe_with_temp lay reassemble_safe finalize_safe
        dest: reassemble_staged [OF _ fresh])
qed

lemma finish_chunked_safe:
  assumes lay: "layout_ok c" and paths: "\<forall>ch \<in> set (cu_chunks up). is_chunk_path c (ch_path ch)"
    and p: "is_chunk_path c p" and safe: "blob_safe e c w"
  shows "blob_safe e c (snd (finish_chunked e c headers key cr p up w))"
proof (cases "in_ledger (charge c (ae_cashu e) headers Paid_Upload (cr_upload_length cr)) w")
  case (Pair r w1)
  then have s1: "blob_safe e c w1" using safe_ledger [OF safe] by (metis snd_conv)
  show ?thesis
  proof (cases r)
    case (Inl err)
    have "blob_safe e c (snd (in_sessions (restore key (up\<lparr>cu_chunks := butlast (cu_chunks up)\<rparr>)) w1))"
      by (rule safe_sessions [OF s1])
    then show ?thesis
      using Pair Inl safe_discard [OF lay paths] unlink_temp_safe [OF lay chunk_path_temp [OF p]]
      by (auto simp: finish_chunked_def split_beta Let_def)
  next
    case (Inr u)
    have "blob_safe e c (snd (bind_st (reconstruct_blob e c up (cr_sha256 cr) w1) (\<lambda>descriptor w2.
            (Inr \<lparr>status = 200, rheaders = [(''content-type'', ''application/json'')],
                  body = ae_descriptor_json e descriptor\<rparr>, w2))))"
      by (intro safe_step reconstruct_safe lay paths s1)
    then show ?thesis using Pair Inr s1 by (simp add: finish_chunked_def)
  qed
qed

lemma upload_file_safe:
  assumes lay: "layout_ok c" and safe: "blob_safe e c w"
  shows "blob_safe e c (snd (upload_file e c headers items w))"
  unfolding upload_file_def Let_def
  by (auto intro!: safe_step safe lay receive_upload_safe finalize_safe dest: receive_upload_staged(1))

lemma mirror_blob_safe:
  assumes lay: "layout_ok c" and safe: "blob_safe e c w" and fit: "bodies_fit (ae_net e)"
  shows "blob_safe e c (snd (mirror_blob e c headers items w))"
proof -
  have spawn: "blob_safe e c w \<Longrightarrow> blob_safe e c (spawn_hls e t u k w)" for t u k w
    by (simp add: blob_safe_def)
  show ?thesis
    unfolding mirror_blob_def Let_def
    by (auto intro!: safe_step safe lay receive_mirror_safe finalize_safe spawn
        dest!: in_net_fetched [OF fit] dest: receive_mirror_staged)
qed

lemma head_upload_safe: "blob_safe e c w \<Longrightarrow> blob_safe e c (snd (head_upload enc e c headers w))"
  unfolding head_upload_def Let_def by (auto intro!: safe_step)

text \<open>What a chunk request owes the registry: the invariant, and no ticket left behind.\<close>

definition balanced :: "(world \<Rightarrow> bool) \<Rightarrow> app_config \<Rightarrow> session_state \<Rightarrow> world \<Rightarrow> bool" where
  "balanced S c st w \<longleftrightarrow> S w \<and> sessions_ok (w_sessions w) \<and> chunks_staged c (w_sessions w) \<and>
     (\<forall>k. pending_of (w_sessions w) k = pending_of st k)"

lemma balanced_bind:
  assumes "balanced S c st (snd m)" "\<And>x w'. m = (Inr x, w') \<Longrightarrow> balanced S c st w' \<Longrightarrow> balanced S c st (snd (k x w'))"
  shows "balanced S c st (snd (bind_st m k))"
  using assms by (cases m; cases "fst m") auto

lemma balanced_pure: "balanced S c st w \<Longrightarrow> balanced S c st (snd (pure_st r w))"
  by (simp add: pure_st_def)

lemma pending_cong: "ss_pending st' = ss_pending st \<Longrightarrow> pending_of st' k = pending_of st k"
  by (simp add: pending_of_def)

lemma reserved_ok:
  assumes "reserve limits key st = (st', Granted t)" "sessions_ok st" "chunks_staged c st"
  shows "sessions_ok st'" "chunks_staged c st'" "t = key"
    "\<And>k. pending_of st' k = pending_of st k + (if k = key then 1 else 0)"
  using reserve_granted [OF assms(1)] assms(2,3) by (auto simp: sessions_ok_def chunks_staged_def)

lemma refused_same: "reserve limits key st = (st', res) \<Longrightarrow> (\<forall>t. res \<noteq> Granted t) \<Longrightarrow> st' = st"
  by (auto simp: reserve_def Let_def split: if_splits)

lemma chunk_checks:
  "parse_chunk_request c headers = Inr cr \<Longrightarrow>
     0 < unat (cr_content_length cr) \<and>
     unat (cr_upload_offset cr) + unat (cr_content_length cr) \<le> unat (cr_upload_length cr) \<and>
     cr_upload_length cr \<le> max_blob_size_bytes c \<and> is_valid_hash (cr_sha256 cr) \<and>
     hget_str headers ''X-SHA-256'' = Some (cr_sha256 cr)"
  by (auto simp: parse_chunk_request_def check_chunk_bounds_def and_then_Inr_iff checked_add_Some_iff word_less_nat_alt
      word_le_nat_alt unat_gt_0 not_less split: if_splits)

text \<open>
  What the steps of a chunk request ask of an invariant \<open>S\<close> of the stored blobs for the request to keep it;
  the invariant may speak of the files and the catalogue, not of the sessions.
\<close>

locale chunk_invariant =
  fixes e :: app_env and c :: app_config and S :: "world \<Rightarrow> bool"
  assumes sessions: "S w \<Longrightarrow> S (w\<lparr>w_sessions := st\<rparr>)"
    and auth: "S w \<Longrightarrow> S (w\<lparr>w_auth := a\<rparr>)"
    and chunk_written: "S w \<Longrightarrow> S (snd (write_chunk e c cr items w))"
    and finished: "S w \<Longrightarrow> \<forall>ch \<in> set (cu_chunks up). is_chunk_path c (ch_path ch) \<Longrightarrow> is_chunk_path c p \<Longrightarrow>
       S (snd (finish_chunked e c headers key cr p up w))"
    and unlink: "S w \<Longrightarrow> is_chunk_path c p \<Longrightarrow> S (unlink_temp e p w)"
begin

lemma balanced_auth: "balanced S c st w \<Longrightarrow> balanced S c st (snd (in_auth g w))"
  by (simp add: balanced_def in_auth_def split_beta Let_def auth)

text \<open>The steps after the reservation: the ticket is given back or consumed on every path.\<close>

lemma chunk_committed:
  assumes safe: "S w" and ok: "sessions_ok (w_sessions w)" "chunks_staged c (w_sessions w)"
    and params: "params_ok params chunk" and p: "is_chunk_path c (ch_path chunk)"
    and com: "in_sessions (commit now ticket params chunk) w = (r, w')"
  shows "S w'" "sessions_ok (w_sessions w')" "chunks_staged c (w_sessions w')"
    "\<And>k. pending_of (w_sessions w') k = pending_of (w_sessions w) k - (if k = ticket then 1 else 0)"
    "\<And>u. r = Completed u \<Longrightarrow> upload_ok u \<and> (\<forall>ch \<in> set (cu_chunks u). is_chunk_path c (ch_path ch))"
proof -
  from com obtain st' where c: "commit now ticket params chunk (w_sessions w) = (st', r)" and w': "w' = w\<lparr>w_sessions := st'\<rparr>"
    by (auto simp: in_sessions_def split: prod.splits)
  note u = commit_uploads [OF ok(1) params c]
  show "S w'" using safe w' by (simp add: sessions)
  show "sessions_ok (w_sessions w')" using u(1) w' by simp
  show "chunks_staged c (w_sessions w')" using commit_staged(1) [OF ok(2) p c] w' by simp
  show "pending_of (w_sessions w') k = pending_of (w_sessions w) k - (if k = ticket then 1 else 0)" for k
    using pending_cong [OF u(3)] consume_pending_of w' by simp
  show "upload_ok v \<and> (\<forall>ch \<in> set (cu_chunks v). is_chunk_path c (ch_path ch))" if "r = Completed v" for v
    using u(4) [OF that] commit_staged(2) [OF ok(2) p c that] by blast
qed

lemma chunk_step_balanced:
  assumes bal: "balanced S c st w" and cr: "parse_chunk_request c headers = Inr cr"
    and key: "key = \<lparr>ck_pubkey = owner, ck_sha256 = cr_sha256 cr\<rparr>"
    and res: "in_sessions (reserve limits key) w = (Granted ticket, w3)"
  shows "balanced S c st (snd (bind_st (release_on_error ticket (write_chunk e c cr items w3)) (\<lambda>_ w4.
            let p = chunk_path c (env_host e) cr;
                chunk = \<lparr>ch_offset = cr_upload_offset cr, ch_length = cr_content_length cr, ch_path = p\<rparr>;
                (committed, w5) =
                  in_sessions (commit (ae_instant e) ticket (chunk_params cr owner expiration) chunk) w4
            in case committed of
                 Incomplete \<Rightarrow> (Inr no_content, w5)
               | Overlap \<Rightarrow> (Inl (Conflict ''Chunk conflicts with an existing session''), unlink_temp e p w5)
               | ParamMismatch \<Rightarrow> (Inl (Conflict ''Chunk conflicts with an existing session''), unlink_temp e p w5)
               | Completed up \<Rightarrow> finish_chunked e c headers key cr p up w5)))"
proof -
  let ?p = "chunk_path c (env_host e) cr"
  let ?chunk = "\<lparr>ch_offset = cr_upload_offset cr, ch_length = cr_content_length cr, ch_path = ?p\<rparr>"
  let ?params = "chunk_params cr owner expiration"
  have ok: "S w" "sessions_ok (w_sessions w)" "chunks_staged c (w_sessions w)"
    and pend: "\<And>k. pending_of (w_sessions w) k = pending_of st k"
    using bal by (simp_all add: balanced_def)
  from res obtain st3 where r: "reserve limits key (w_sessions w) = (st3, Granted ticket)"
    and w3: "w3 = w\<lparr>w_sessions := st3\<rparr>" by (auto simp: in_sessions_def split: prod.splits)
  note rs = reserved_ok [OF r ok(2,3)]
  have safe3: "S w3" using ok(1) w3 by (simp add: sessions)
  obtain rw w4 where wr: "write_chunk e c cr items w3 = (rw, w4)" by fastforce
  have safe4: "S w4" using chunk_written [OF safe3] wr by (metis snd_conv)
  have s4: "w_sessions w4 = st3" using write_chunk_sessions [of e c cr items w3] wr w3 by simp
  show ?thesis
  proof (cases rw)
    case (Inl err)
    have "sessions_ok (release ticket st3)" using consume_ok [OF rs(1)] by (simp add: release_def)
    moreover have "chunks_staged c (release ticket st3)" using rs(2) by (simp add: release_def chunks_staged_def)
    moreover have "pending_of (release ticket st3) k = pending_of st k" for k
      using consume_pending_of [of ticket st3 k] rs(3,4) pend by (simp add: release_def)
    ultimately show ?thesis
      using Inl wr s4 sessions [OF safe4] by (simp add: release_on_error_def balanced_def)
  next
    case (Inr u)
    obtain com w5 where c5: "in_sessions (commit (ae_instant e) ticket ?params ?chunk) w4 = (com, w5)" by fastforce
    have params: "params_ok ?params ?chunk"
      using chunk_checks [OF cr] by (simp add: params_ok_def chunk_in_bounds_def chunk_end_def chunk_params_def)
    note after = chunk_committed [OF safe4 _ _ params _ c5, unfolded s4, OF rs(1,2)]
    have p: "is_chunk_path c ?p" by (rule chunk_path_is)
    have pend5: "pending_of (w_sessions w5) k = pending_of st k" for k
      using after(4) rs(3,4) pend p by simp
    have bal5: "balanced S c st w5" using after(1-3) p pend5 by (simp add: balanced_def)
    have drop5: "balanced S c st (unlink_temp e ?p w5)"
      using bal5 unlink [OF _ p] by (simp add: balanced_def)
    have done5: "balanced S c st (snd (finish_chunked e c headers key cr ?p up w5))" if "com = Completed up" for up
    proof -
      have up: "upload_ok up" "\<forall>ch \<in> set (cu_chunks up). is_chunk_path c (ch_path ch)"
        using after(5) [OF _ that] p by simp_all
      have "sessions_ok (w_sessions w5)" "chunks_staged c (w_sessions w5)" "S w5"
        using bal5 by (simp_all add: balanced_def)
      from finish_chunked_sessions [OF up this(1,2), of e headers key cr ?p] finished [OF this(3) up(2) p, of headers key cr]
      show ?thesis
        unfolding balanced_def using pend5 by (metis pending_cong)
    qed
    show ?thesis
      using Inr wr c5 bal5 drop5 done5 by (simp add: release_on_error_def Let_def split: commit_result.split)
  qed
qed

lemma chunk_reserved:
  assumes bal: "balanced S c st w" and cr: "pure_st (parse_chunk_request c headers) wa = (Inr cr, wb)"
  shows "balanced S c st (snd (let owner = ev_pubkey (az_event a);
         key = \<lparr>ck_pubkey = owner, ck_sha256 = cr_sha256 cr\<rparr>;
         (reservation, w3) = in_sessions (reserve (session_limits_of c) key) w
     in case reservation of
          GlobalLimit \<Rightarrow> (Inl (Conflict ''Session capacity exhausted''), w3)
        | PerPubkeyLimit \<Rightarrow> (Inl (Conflict ''Session capacity exhausted''), w3)
        | Granted ticket \<Rightarrow>
            bind_st (release_on_error ticket (write_chunk e c cr items w3)) (\<lambda>_ w4.
            let p = chunk_path c (env_host e) cr;
                chunk = \<lparr>ch_offset = cr_upload_offset cr, ch_length = cr_content_length cr, ch_path = p\<rparr>;
                (committed, w5) =
                  in_sessions (commit (ae_instant e) ticket (chunk_params cr owner expiration) chunk) w4
            in case committed of
                 Incomplete \<Rightarrow> (Inr no_content, w5)
               | Overlap \<Rightarrow> (Inl (Conflict ''Chunk conflicts with an existing session''), unlink_temp e p w5)
               | ParamMismatch \<Rightarrow> (Inl (Conflict ''Chunk conflicts with an existing session''), unlink_temp e p w5)
               | Completed up \<Rightarrow> finish_chunked e c headers key cr p up w5)))"
proof -
  let ?key = "\<lparr>ck_pubkey = ev_pubkey (az_event a), ck_sha256 = cr_sha256 cr\<rparr>"
  obtain st3 res where r: "reserve (session_limits_of c) ?key (w_sessions w) = (st3, res)" by fastforce
  then have i: "in_sessions (reserve (session_limits_of c) ?key) w = (res, w\<lparr>w_sessions := st3\<rparr>)"
    by (simp add: in_sessions_def)
  have parsed: "parse_chunk_request c headers = Inr cr" using cr by simp
  show ?thesis
  proof (cases res)
    case (Granted ticket)
    show ?thesis
      using chunk_step_balanced [OF bal parsed refl i [unfolded Granted], of items expiration] i Granted
      by (simp only: Let_def prod.case reservation.case)
  qed (use i bal refused_same [OF r] in \<open>auto simp: Let_def\<close>)
qed

lemma patch_upload_balanced:
  assumes "S w" "sessions_ok (w_sessions w)" "chunks_staged c (w_sessions w)"
  shows "balanced S c (w_sessions w) (snd (patch_upload e c headers items w))"
proof -
  have start: "balanced S c (w_sessions w) w" using assms by (simp add: balanced_def)
  show ?thesis
    unfolding patch_upload_def
    apply (rule balanced_bind [OF balanced_pure [OF start]])
    apply (rule balanced_bind [OF balanced_auth], assumption)
    apply (rule balanced_bind [OF balanced_auth], assumption)
    apply (rule balanced_bind [OF balanced_pure], assumption)
    apply (rule balanced_bind [OF balanced_pure], assumption)
    apply (rule chunk_reserved)
     apply assumption+
    done
qed

end

text \<open>The strong invariant is one of them.\<close>

interpretation safe_chunks: chunk_invariant e c "\<lambda>w. layout_ok c \<and> blob_safe e c w" for e c
  by unfold_locales
    (auto simp: blob_safe_def [of e c "_\<lparr>w_sessions := _\<rparr>"] blob_safe_def [of e c "_\<lparr>w_auth := _\<rparr>"] blob_safe_def [symmetric]
      intro: write_chunk_safe finish_chunked_safe unlink_temp_safe chunk_path_temp)

section \<open>What an answered upload means\<close>

lemma charge_paid:
  assumes "charge c env headers op n led = (Inr (), led')" "is_paid c op"
  shows "\<exists>t a. led' = led @ [(t, a)] \<and> calculate_price n (cashu_price_per_mb c) \<le> a"
  using assms by (auto simp: charge_def Let_def settle_Inr mk_quote_def split: option.splits)

lemma in_auth_parts:
  "in_auth g w = (r, w') \<Longrightarrow> g (w_auth w) = (r, w_auth w') \<and> w_store w' = w_store w \<and> w_ledger w' = w_ledger w"
  by (auto simp: in_auth_def split: prod.splits)

lemma in_ledger_parts:
  "in_ledger g w = (r, w') \<Longrightarrow> g (w_ledger w) = (r, w_ledger w') \<and> w_store w' = w_store w \<and> w_auth w' = w_auth w"
  by (auto simp: in_ledger_def split: prod.splits)

lemma in_files_parts: "in_files g w = (r, w') \<Longrightarrow>
    st_index (w_store w') = st_index (w_store w) \<and> w_ledger w' = w_ledger w \<and> w_auth w' = w_auth w"
  by (auto simp: in_files_def on_fs_def split: prod.splits)

lemma in_store_parts: "in_store g w = (r, w') \<Longrightarrow> w_ledger w' = w_ledger w \<and> w_auth w' = w_auth w"
  by (auto simp: in_store_def split: prod.splits)

lemma temp_dir_index: "in_store (ensure_temp_dir c h) w = (r, w') \<Longrightarrow> st_index (w_store w') = st_index (w_store w)"
  using ensure_temp_dir_files by (auto simp: in_store_fst)

lemma finalize_index:
  assumes "layout_ok c" "is_temp_path c p" "blob_safe e c w" "staged (ae_sha e) p k n (st_fs (w_store w))"
    and fin: "in_store (finalize_upload c (ae_storage e) p k n extension mime expiration) w = (Inr b, w')"
  shows "index_get (st_index (w_store w')) = (index_get (st_index (w_store w)))(k \<mapsto> sb_metadata b) \<and>
    is_valid_hash k \<and> blob_safe e c w'"
proof -
  have pub: "in_store (publish_blob c (ae_storage e) p \<lparr>bp_sha256 = k, bp_origin = Upload, bp_extension = extension,
      bp_mime_type = mime, bp_size = n, bp_expiration = expiration\<rparr>) w = (Inr b, w')"
    using fin by (simp add: finalize_upload_def accept_def)
  note spec = publish_safe [OF assms(1-3) _ pub, simplified, OF assms(4)]
  show ?thesis using spec(1,2) spec(3) by (auto simp: fun_eq_iff)
qed

text \<open>A new local entry has exactly the bytes of the temporary file.\<close>

lemma finalize_stored:
  assumes "layout_ok c" "is_temp_path c p" "blob_safe e c w" "fs_data (st_fs (w_store w)) p = Some d"
    and fin: "in_store (finalize_upload c (ae_storage e) p k n extension mime expiration) w = (Inr b, w')"
    and new: "index_get (st_index (w_store w)) k \<noteq> Some (sb_metadata b)" and at: "md_location (sb_metadata b) = Local q"
  shows "fs_data (st_fs (w_store w')) q = Some d"
proof -
  let ?old = "index_get (st_index (w_store w))"
  let ?Q = "\<lambda>j m d'. j = k \<and> ?old j \<noteq> Some m \<longrightarrow> d' = d"
  let ?pub = "\<lparr>bp_sha256 = k, bp_origin = Upload, bp_extension = extension,
      bp_mime_type = mime, bp_size = n, bp_expiration = expiration\<rparr>"
  have pub: "publish_blob c (ae_storage e) p ?pub (w_store w) = (Inr b, w_store w')"
    using fin by (simp add: finalize_upload_def accept_def in_store_fst)
  have "located c ?Q f j m" if "located c (integrity (ae_sha e)) f j m" "?old j = Some m" for f j m
    using that by (auto simp: located_def split: file_location.splits)
  then have inv: "store_inv c ?Q (w_store w)" using assms(3) by (auto simp: blob_safe_def store_inv_def)
  have ok: "content_ok ?Q (now_secs (host (ae_storage e))) ?pub (w_store w) p"
    using assms(4) by (simp add: content_ok_def)
  from publish_blob_spec [OF assms(1,2) inv ok pub]
  have "store_inv c ?Q (w_store w')" "index_get (st_index (w_store w')) k = Some (sb_metadata b)" by auto
  then have "located c ?Q (st_fs (w_store w')) k (sb_metadata b)" by (simp add: store_inv_def)
  then show ?thesis using new at by (auto simp: located_def)
qed

lemma receive_upload_spec:
  assumes "receive_upload e c headers items tmp a k w = (Inr (sha256, n), w')"
  shows "\<exists>ds. items = map Inr ds \<and> sha256 = k \<and> k = ae_sha e (concat ds) \<and> unat n = length (concat ds) \<and>
      n \<le> size_limit c ClientUpload" "st_index (w_store w') = st_index (w_store w)"
    "is_paid c Paid_Upload \<Longrightarrow> \<exists>t amount. w_ledger w' = w_ledger w @ [(t, amount)] \<and>
       calculate_price n (cashu_price_per_mb c) \<le> amount"
    "\<not> is_paid c Paid_Upload \<Longrightarrow> w_ledger w' = w_ledger w"
proof -
  from assms obtain w1 w2 where s: "in_files (stream_to_temp_file (env_host e) (ae_sha e) items tmp (size_limit c ClientUpload)) w = (Inr (sha256, n), w1)"
    and k: "k = sha256" and a2: "in_auth (bind_hash (env_now e) a k) w1 = (Inr (), w2)"
    and ch: "in_ledger (charge c (ae_cashu e) headers Paid_Upload n) w2 = (Inr (), w')"
    by (auto simp: receive_upload_def bind_st_Inr_iff ensure_upload_hash_matches_def split: if_splits)
  obtain f' where f: "stream_to_temp_file (env_host e) (ae_sha e) items tmp (size_limit c ClientUpload) (st_fs (w_store w)) = (Inr (sha256, n), f')"
    using s by (rule in_files_cases)
  from upload_stream_contents [OF f] k
  show "\<exists>ds. items = map Inr ds \<and> sha256 = k \<and> k = ae_sha e (concat ds) \<and> unat n = length (concat ds) \<and>
      n \<le> size_limit c ClientUpload" by auto
  note parts = in_files_parts [OF s] in_auth_parts [OF a2] in_ledger_parts [OF ch]
  then show "st_index (w_store w') = st_index (w_store w)" by simp
  show "\<exists>t amount. w_ledger w' = w_ledger w @ [(t, amount)] \<and> calculate_price n (cashu_price_per_mb c) \<le> amount"
    if "is_paid c Paid_Upload"
    using charge_paid [OF _ that] parts by auto
  show "w_ledger w' = w_ledger w" if "\<not> is_paid c Paid_Upload"
    using that parts by (auto simp: charge_def)
qed

section \<open>Properties\<close>

text \<open>C15: An answered upload is authorized, intact and paid for. When \<open>PUT /upload\<close> answers with a
  descriptor, the bytes of the body hash to the declared name and respect the size limit; an
  acceptable event of a permitted author names that hash; if uploads are paid, the wallet has received
  exactly one token worth at least the price of those bytes, otherwise nothing; the catalogue has
  changed at that hash only, to the metadata the answer describes; and every catalogued local blob,
  the new one included, has the content of its hash.\<close>
theorem upload_file_sound:
  assumes "layout_ok c" and "blob_safe e c w" and "upload_file e c headers items w = (Inr r, w')"
  shows "\<exists>ds ev x m. let d = concat ds; k = ae_sha e d in
     items = map Inr ds \<and> hget_str headers ''X-SHA-256'' = Some k \<and> is_valid_hash k \<and>
     length d \<le> unat (max_blob_size_bytes c) \<and>
     event_acceptable c (ae_nostr e) (env_now e) ev x \<and> Some k \<in> set (tags_of ''x'' ev) \<and>
     may_perform c (ae_nostr e) (w_auth w) Op_Upload (ev_pubkey ev) \<and>
     (if is_paid c Paid_Upload
      then \<exists>t amount. w_ledger w' = w_ledger w @ [(t, amount)] \<and>
             calculate_price (word_of_nat (length d)) (cashu_price_per_mb c) \<le> amount
      else w_ledger w' = w_ledger w) \<and>
     index_get (st_index (w_store w')) = (index_get (st_index (w_store w)))(k \<mapsto> m) \<and>
     r = descriptor_response e c (status r) k m \<and> blob_safe e c w'"
proof -
  let ?h = "env_host e" and ?tmp = "temp_reserve c (env_host e) ''upload'' None"
  from assms(3) obtain a w1 k expiration w2 sha256 n w3 stored ext mime where
    au: "in_auth (authorize c (ae_nostr e) (env_now e) headers Op_Upload) w = (Inr a, w1)"
    and dk: "extract_declared_upload_hash headers = Inr k"
    and va: "validate_upload_auth (az_event a) k = Inr ()"
    and td: "\<exists>p. in_store (ensure_temp_dir c ?h) w1 = (Inr p, w2)"
    and ru: "receive_upload e c headers items ?tmp a k w2 = (Inr (sha256, n), w3)"
    and fin: "in_store (finalize_upload c (ae_storage e) ?tmp sha256 n ext mime expiration) w3 = (Inr stored, w')"
    and r: "r = descriptor_response e c (created_status stored) sha256 (sb_metadata stored)"
    by (auto simp: upload_file_def Let_def bind_st_Inr_iff)
  note lay = assms(1)
  have s1: "blob_safe e c w1" using safe_auth [OF assms(2)] au by (metis snd_conv)
  obtain p where td: "in_store (ensure_temp_dir c ?h) w1 = (Inr p, w2)" using td by blast
  have s2: "blob_safe e c w2" using ensure_temp_dir_safe [OF s1 td] .
  have s3: "blob_safe e c w3" using receive_upload_safe [OF lay temp_reserve_is_temp s2] ru by (metis snd_conv)
  note got = receive_upload_spec [OF ru]
  from got(1) obtain ds where ds: "items = map Inr ds" "sha256 = k" "k = ae_sha e (concat ds)"
    "unat n = length (concat ds)" "n \<le> size_limit c ClientUpload" by blast
  have n: "n = word_of_nat (length (concat ds))" by (simp flip: ds(4))
  note fi = finalize_index [OF lay temp_reserve_is_temp s3 receive_upload_staged(1) [OF ru] fin]
  have index: "st_index (w_store w3) = st_index (w_store w)"
    using got(2) temp_dir_index [OF td] in_auth_parts [OF au] by simp
  have ledger: "w_ledger w' = w_ledger w3" "w_ledger w2 = w_ledger w"
    using in_store_parts [OF fin] in_store_parts [OF td] in_auth_parts [OF au] by simp_all
  have "fst (authorize c (ae_nostr e) (env_now e) headers Op_Upload (w_auth w)) = Inr a"
    using in_auth_parts [OF au] by simp
  then have event: "event_acceptable c (ae_nostr e) (env_now e) (az_event a) (az_expiration a)"
    "may_perform c (ae_nostr e) (w_auth w) Op_Upload (ev_pubkey (az_event a))"
    by (auto simp: authorize_Inr)
  have tags: "Some k \<in> set (tags_of ''x'' (az_event a))"
    using va by (auto simp: validate_upload_auth_def and_then_Inr_iff Let_def split: if_splits)
  have header: "hget_str headers ''X-SHA-256'' = Some k"
    using dk by (auto simp: extract_declared_upload_hash_def and_then_Inr_iff hget_str_def)
  have size: "length (concat ds) \<le> unat (max_blob_size_bytes c)"
    using ds(4,5) by (simp add: size_limit_def resolve_limit_def word_le_nat_alt)
  have paid: "if is_paid c Paid_Upload
      then \<exists>t amount. w_ledger w' = w_ledger w @ [(t, amount)] \<and>
             calculate_price (word_of_nat (length (concat ds))) (cashu_price_per_mb c) \<le> amount
      else w_ledger w' = w_ledger w"
    using got(3,4) ledger n by (cases "is_paid c Paid_Upload") simp_all
  have answer: "r = descriptor_response e c (status r) sha256 (sb_metadata stored)"
    using r by (simp add: descriptor_response_def)
  show ?thesis
    unfolding Let_def
    by (intro exI [of _ ds] exI [of _ "az_event a"] exI [of _ "az_expiration a"] exI [of _ "sb_metadata stored"] conjI)
      (use ds header fi index event tags size paid answer in simp_all)
qed

definition upload_event :: nostr_event where
  "upload_event = \<lparr>ev_id = ''e'', ev_pubkey = ''alice'', ev_created_at = 50, ev_kind = 24242,
     ev_tags = [(''t'', Some ''upload''), (''x'', Some hash_a), (''expiration'', Some (show_u64 200))],
     ev_content = []\<rparr>"

definition upload_env :: app_env where
  "upload_env = sample_env\<lparr>ae_nostr := sample_nostr\<lparr>b64_url_safe := \<lambda>_. Inr [], from_utf8 := \<lambda>_. Inr [],
     event_of_json := \<lambda>_. Inr upload_event\<rparr>\<rparr>"

definition upload_headers :: header_map where
  "upload_headers = [(''authorization'', ''Nostr x''), (''X-SHA-256'', hash_a)]"

lemma upload_authorized:
  "authorize sample_config (ae_nostr upload_env) 100 upload_headers Op_Upload st =
     (Inr \<lparr>az_event = upload_event, az_operation = Op_Upload, az_expiration = 200\<rparr>, st)"
  by (simp add: authorize_def auth_mode_of_def sample_config_def upload_headers_def upload_env_def hget_str_def hget_def
      parse_auth_header_def or_else_def map_err_def verify_event_with_policy_def verify_event_def expiration_tag_def
      find_tag_def upload_event_def sample_nostr_def saturating_sub_def validate_server_tags_def tags_of_def
      validate_event_kind_def check_pubkey_authorization_def to_str_def
      visible_ascii_def byte_of_def starts_with_def)

lemma hash_a_visible: "to_str hash_a = Some hash_a" "hash_a \<noteq> []"
  by (simp_all add: to_str_def hash_a_def visible_ascii_def byte_of_def list_all_iff)

lemma upload_answered:
  "\<exists>r w'. upload_file upload_env sample_config upload_headers [Inr [1], Inr [2]] (empty_world store_a) = (Inr r, w')"
proof -
  have host: "env_host upload_env = calm_host" "env_now upload_env = 100" "now_secs calm_host = 100"
    by (simp_all add: upload_env_def sample_env_def calm_env_def calm_host_def)
  have au: "in_auth (authorize sample_config (ae_nostr upload_env) (env_now upload_env) upload_headers Op_Upload) w =
      (Inr \<lparr>az_event = upload_event, az_operation = Op_Upload, az_expiration = 200\<rparr>, w)" for w
    using upload_authorized [of "w_auth w"] host by (simp add: in_auth_def)
  have declared: "extract_declared_upload_hash upload_headers = Inr hash_a"
    using hash_a_visible hash_a_valid
    by (simp add: extract_declared_upload_hash_def upload_headers_def hget_def eq_ignore_ascii_case_def and_then_Inr_iff)
  have va: "validate_upload_auth upload_event hash_a = Inr ()"
    by (simp add: validate_upload_auth_def validate_t_tag_def find_tag_def tags_of_def upload_event_def)
  have no_expiry: "extract_expiration 100 upload_headers = Inr None"
    by (simp add: extract_expiration_def hget_def upload_headers_def eq_ignore_ascii_case_def resolve_expiration_def)
  have size: "(case Option.bind (hget_str upload_headers ''content-length'') parse_u64 of
      None \<Rightarrow> max_blob_size_bytes sample_config | Some n \<Rightarrow> n) = 1000"
    by (simp add: hget_str_def hget_def upload_headers_def eq_ignore_ascii_case_def sample_config_def)
  have capacity: "ensure_storage_capacity sample_config calm_host store_a 1000 = Inr ()"
    by (simp add: ensure_storage_capacity_def sample_config_def Let_def calm_host_def saturating_add_def u64_max_def)
  define store_b where "store_b = store_a\<lparr>st_fs := (st_fs store_a)\<lparr>fs_dirs := [[''srv''], [], [''srv'', ''temp'']]\<rparr>\<rparr>"
  have temp: "in_store (ensure_temp_dir sample_config calm_host) (empty_world store_a) =
      (Inr [''srv'', ''temp''], empty_world store_b)"
    by (simp add: in_store_def ensure_temp_dir_def on_fs_def fs_create_dir_all_def calm_host_def sample_config_def
        storage_layout_new_def store_a_def path_a_def store_b_def empty_world_def)
  let ?tmp = "temp_reserve sample_config calm_host ''upload'' None"
  have "\<exists>f'. stream_to_temp_file calm_host (\<lambda>_. hash_a) [Inr [1], Inr [2] :: string + bytes] ?tmp 1000 (st_fs store_b) =
      (Inr (hash_a, 2), f') \<and> fs_dirs f' = [[''srv''], [], [''srv'', ''temp'']]"
    by (simp add: stream_to_temp_file_def fs_create_def fs_append_def fs_sync_def calm_host_def store_b_def store_a_def
        chunks_of.simps finish_stream_def checked_add_def sample_config_def storage_layout_new_def temp_reserve_def path_a_def)
  then obtain f' where f': "stream_to_temp_file calm_host (\<lambda>_. hash_a) [Inr [1], Inr [2] :: string + bytes] ?tmp 1000
      (st_fs store_b) = (Inr (hash_a, 2), f')" "fs_dirs f' = [[''srv''], [], [''srv'', ''temp'']]" by blast
  define w3 where "w3 = (empty_world store_b)\<lparr>w_store := store_b\<lparr>st_fs := f'\<rparr>\<rparr>"
  have limit: "size_limit sample_config ClientUpload = 1000"
    by (simp add: size_limit_def resolve_limit_def sample_config_def)
  have streamed: "in_files (stream_to_temp_file calm_host (ae_sha upload_env) [Inr [1], Inr [2] :: string + bytes] ?tmp 1000) (empty_world store_b) =
      (Inr (hash_a, 2), w3)"
    using f'(1) by (simp add: in_files_def on_fs_def w3_def empty_world_def upload_env_def sample_env_def)
  have bound: "in_auth (bind_hash 100 \<lparr>az_event = upload_event, az_operation = Op_Upload, az_expiration = 200\<rparr> hash_a) w =
      (Inr (), w)" for w
    by (simp add: in_auth_def bind_hash_def va is_destructive_def)
  have clean: "ensure_not_quarantined sample_config calm_host (w_store w3) hash_a = Inr ()"
    using f'(2) hash_a_valid
    by (simp add: ensure_not_quarantined_def validate_sha256_format_def fs_read_dir_def calm_host_def w3_def
        sample_config_def storage_layout_new_def Let_def)
  have free: "in_ledger (charge sample_config cenv headers Paid_Upload n) w = (Inr (), w)" for cenv headers n w
    by (simp add: in_ledger_def charge_def sample_config_def)
  have received: "receive_upload upload_env sample_config upload_headers [Inr [1], Inr [2]] ?tmp
      \<lparr>az_event = upload_event, az_operation = Op_Upload, az_expiration = 200\<rparr> hash_a (empty_world store_b) =
        (Inr (hash_a, 2), w3)"
    by (simp add: receive_upload_def host limit streamed bound clean free ensure_upload_hash_matches_def pure_st_def)
  have index: "st_index (w_store w3) = st_index store_a" by (simp add: w3_def store_b_def)
  have "\<exists>stored w4. in_store (finalize_upload sample_config (ae_storage upload_env) ?tmp hash_a 2 ext mime None) w3 =
      (Inr stored, w4)" for ext mime
    using clean index_get_a hash_a_valid
    by (simp add: in_store_def finalize_upload_def accept_def publish_blob_def host(1) index store_a_def md_a_def
        validate_sha256_format_def)
  then obtain stored w4 where fin: "in_store (finalize_upload sample_config (ae_storage upload_env) ?tmp hash_a 2
      (get_extension_from_mime (ae_extensions upload_env) (extract_content_type upload_headers))
      (Some (extract_content_type upload_headers)) None) w3 = (Inr stored, w4)" by blast
  have st: "w_store (empty_world store_a) = store_a" by (simp add: empty_world_def)
  show ?thesis
    unfolding upload_file_def Let_def au
    by (simp add: declared va pure_st_def no_expiry size capacity temp received fin host st)
qed

theorem upload_file_sound_witness:
  "\<exists>r w'. upload_file upload_env sample_config upload_headers [Inr [1], Inr [2]] (empty_world store_a) = (Inr r, w') \<and>
     blob_safe upload_env sample_config w'"
proof -
  obtain r w' where up: "upload_file upload_env sample_config upload_headers [Inr [1], Inr [2]] (empty_world store_a) = (Inr r, w')"
    using upload_answered by blast
  have "blob_safe upload_env sample_config (empty_world store_a)"
    using store_a_inv [of "integrity (\<lambda>_. hash_a)"]
    by (simp add: blob_safe_def empty_world_def upload_env_def sample_env_def integrity_def md_a_def)
  from upload_file_sound [OF layout_sample this up] up show ?thesis by (auto simp: Let_def)
qed

text \<open>C17: A chunk request keeps the books whatever happens to it: from any world whose catalogue, files
  and sessions are consistent, \<open>PATCH /upload\<close> leads to such a world again, and on every path (rejected
  headers, refused reservation, broken body, conflict, rejected payment, failed reconstruction,
  success) it gives back or consumes exactly the reservation it took.\<close>
theorem patch_upload_keeps_books:
  assumes "layout_ok c" and "world_ok e c w" and "patch_upload e c headers items w = (r, w')"
  shows "world_ok e c w' \<and> pending_of (w_sessions w') = pending_of (w_sessions w)"
  using safe_chunks.patch_upload_balanced [of c e w headers items] assms
  by (simp add: balanced_def world_ok_def fun_eq_iff)

lemma sample_world_ok: "world_ok upload_env sample_config (empty_world store_a)"
  using store_a_inv [of "integrity (\<lambda>_. hash_a)"]
  by (simp add: world_ok_def blob_safe_def empty_world_def upload_env_def sample_env_def integrity_def md_a_def
      sessions_ok_def sessions_new_def chunks_staged_def)

theorem patch_upload_keeps_books_witness:
  "world_ok upload_env sample_config (snd (patch_upload upload_env sample_config upload_headers [] (empty_world store_a)))"
  using patch_upload_keeps_books [OF layout_sample sample_world_ok] by (metis prod.collapse)

lemma pair_post: "(case m of (r, w2) \<Rightarrow> (r, g w2)) = (x, w') \<longleftrightarrow> (\<exists>w2. m = (x, w2) \<and> w' = g w2)"
  by (cases m) auto

lemma discard_index [simp]: "st_index (w_store (discard_chunk_files e chunks w)) = st_index (w_store w)"
  unfolding discard_chunk_files_def
  by (induction chunks arbitrary: w) (simp_all add: unlink_temp_def drop_temp_effect(1))

text \<open>C18: A completed chunked upload becomes the blob its chunks spell: when the reconstruction succeeds,
  every chunk file had exactly its announced length, the blob stored is their concatenation in offset
  order, its hash is the claimed one and its length the announced one, the catalogue has changed at
  that hash only, and the invariant holds.\<close>
theorem reconstruct_blob_exact:
  assumes "layout_ok c" and "blob_safe e c w"
    and "list_all (\<lambda>ch. is_chunk_path c (ch_path ch)) (cu_chunks up)"
    and "reconstruct_blob e c up k w = (Inr d, w')"
  shows "\<exists>ds m. let chunks = sort_key ch_offset (cu_chunks up) in
     map (fs_data (st_fs (w_store w)) \<circ> ch_path) chunks = map Some ds \<and>
     map length ds = map (unat \<circ> ch_length) chunks \<and>
     ae_sha e (concat ds) = k \<and> length (concat ds) = unat (cu_upload_length up) \<and>
     index_get (st_index (w_store w')) = (index_get (st_index (w_store w)))(k \<mapsto> m) \<and>
     d = create_blob_descriptor c k m \<and> blob_safe e c w'"
proof -
  let ?tmp = "temp_reserve c (env_host e) ''reconstruct'' None"
  obtain chunks where cov: "chunk_coverage up = Inr chunks"
    using assms(4) by (cases "chunk_coverage up") (auto simp: reconstruct_blob_def)
  have paths: "\<forall>ch \<in> set (cu_chunks up). is_chunk_path c (ch_path ch)" using assms(3) by (simp add: list_all_iff)
  have ch: "\<forall>ch \<in> set chunks. is_chunk_path c (ch_path ch)" using coverage_set [OF cov] paths by simp
  from assms(4) obtain p w1 m w2 stored w3 where
    td: "in_store (ensure_temp_dir c (env_host e)) w = (Inr p, w1)"
    and re: "in_files (reassemble e ?tmp chunks (cu_upload_length up) k) w1 = (Inr m, w2)"
    and fin: "in_store (finalize_upload c (ae_storage e) ?tmp k m
                       (get_extension_from_mime (ae_extensions e) (cu_upload_type up)) (Some (cu_upload_type up))
                       (cu_expiration up)) w2 = (Inr stored, w3)"
    and d: "d = create_blob_descriptor c k (sb_metadata stored)" and w': "w' = discard_chunk_files e chunks w3"
    by (auto simp: reconstruct_blob_def cov Let_def bind_st_Inr_iff pair_post)
  have s1: "blob_safe e c w1" using ensure_temp_dir_safe [OF assms(2) td] .
  have s2: "blob_safe e c w2" using reassemble_safe [OF assms(1) temp_reserve_is_temp s1] re by (metis snd_conv)
  note rs = reassemble_staged [OF re fresh_target [OF ch]]
  have files: "fs_files (st_fs (w_store w1)) = fs_files (st_fs (w_store w))"
    using ensure_temp_dir_files td by (auto simp: in_store_fst)
  note fi = finalize_index [OF assms(1) temp_reserve_is_temp s2 conjunct1 [OF rs] fin]
  have index: "st_index (w_store w2) = st_index (w_store w)"
    using in_files_parts [OF re] temp_dir_index [OF td] by simp
  have "blob_safe e c w'" using safe_discard [OF assms(1) ch] fi w' by blast
  then show ?thesis
    using rs fi index files d w' coverage_set [OF cov] by (auto simp: Let_def)
qed

definition chunk_file :: path where
  "chunk_file = [''srv'', ''temp'', ''chunks'', ''c'']"

definition store_chunk :: store where
  "store_chunk = store_a\<lparr>st_fs := \<lparr>fs_files = [(path_a, [1, 2]), (chunk_file, [5, 6])], fs_dirs = [[''srv''], [], [''srv'', ''temp'']]\<rparr>\<rparr>"

definition ex_upload :: chunk_upload where
  "ex_upload = \<lparr>cu_sha256 = hash_a, cu_owner = ''alice'', cu_upload_type = ''video/mp4'', cu_upload_length = 2,
     cu_chunks = [\<lparr>ch_offset = 0, ch_length = 2, ch_path = chunk_file\<rparr>], cu_created_at = 0, cu_expiration = None\<rparr>"

lemma reassembled_example:
  "\<exists>f'. reassemble sample_env [''srv'', ''temp'', ''reconstruct_u''] (cu_chunks ex_upload) 2 hash_a (st_fs store_chunk) =
     (Inr 2, f') \<and> fs_dirs f' = [[''srv''], [], [''srv'', ''temp'']]"
  by (simp add: reassemble_def sample_env_def calm_env_def calm_host_def fs_create_def store_chunk_def store_a_def
      ex_upload_def chunk_file_def path_a_def copy_chunk_def copy_pieces.simps next_piece_def write_piece_def fs_append_def
      checked_add_def fs_sync_def pure_st_def Let_def)

lemma reconstructed_example:
  "\<exists>d w'. reconstruct_blob sample_env sample_config ex_upload hash_a (empty_world store_chunk) = (Inr d, w')"
proof -
  have host: "env_host sample_env = calm_host" by (simp add: sample_env_def calm_env_def)
  have cov: "chunk_coverage ex_upload = Inr (cu_chunks ex_upload)"
    by (simp add: chunk_coverage_def ex_upload_def checked_add_def)
  have tmp: "temp_reserve sample_config calm_host ''reconstruct'' None = [''srv'', ''temp'', ''reconstruct_u'']"
    by (simp add: temp_reserve_def sample_config_def storage_layout_new_def calm_host_def)
  have temp: "in_store (ensure_temp_dir sample_config calm_host) (empty_world store_chunk) =
      (Inr [''srv'', ''temp''], empty_world store_chunk)"
    by (simp add: in_store_def ensure_temp_dir_def on_fs_def fs_create_dir_all_def calm_host_def sample_config_def
        storage_layout_new_def store_chunk_def store_a_def path_a_def chunk_file_def empty_world_def)
  obtain f' where f': "reassemble sample_env [''srv'', ''temp'', ''reconstruct_u''] (cu_chunks ex_upload) 2 hash_a (st_fs store_chunk) =
     (Inr 2, f')" "fs_dirs f' = [[''srv''], [], [''srv'', ''temp'']]" using reassembled_example by blast
  define w2 where "w2 = (empty_world store_chunk)\<lparr>w_store := store_chunk\<lparr>st_fs := f'\<rparr>\<rparr>"
  have re: "in_files (reassemble sample_env [''srv'', ''temp'', ''reconstruct_u''] (cu_chunks ex_upload) 2 hash_a)
      (empty_world store_chunk) = (Inr 2, w2)"
    using f'(1) by (simp add: in_files_def on_fs_def w2_def empty_world_def)
  have clean: "ensure_not_quarantined sample_config calm_host (w_store w2) hash_a = Inr ()"
    using f'(2) hash_a_valid
    by (simp add: ensure_not_quarantined_def validate_sha256_format_def fs_read_dir_def calm_host_def w2_def
        sample_config_def storage_layout_new_def Let_def)
  have "\<exists>stored w4. in_store (finalize_upload sample_config (ae_storage sample_env) [''srv'', ''temp'', ''reconstruct_u'']
      hash_a 2 ext mime None) w2 = (Inr stored, w4)" for ext mime
    using clean index_get_a hash_a_valid host
    by (simp add: in_store_def finalize_upload_def accept_def publish_blob_def w2_def store_chunk_def store_a_def md_a_def
        validate_sha256_format_def)
  then obtain stored w4 where fin: "in_store (finalize_upload sample_config (ae_storage sample_env)
      [''srv'', ''temp'', ''reconstruct_u''] hash_a 2
      (get_extension_from_mime (ae_extensions sample_env) (cu_upload_type ex_upload)) (Some (cu_upload_type ex_upload)) None) w2 =
      (Inr stored, w4)" by blast
  have up: "cu_upload_length ex_upload = 2" "cu_expiration ex_upload = None" by (simp_all add: ex_upload_def)
  show ?thesis
    unfolding reconstruct_blob_def cov host sum.case Let_def tmp up
    by (simp add: temp re fin)
qed

theorem reconstruct_blob_exact_witness:
  "\<exists>d w' m. reconstruct_blob sample_env sample_config ex_upload hash_a (empty_world store_chunk) = (Inr d, w') \<and>
     index_get (st_index (w_store w')) hash_a = Some m"
proof -
  obtain d w' where r: "reconstruct_blob sample_env sample_config ex_upload hash_a (empty_world store_chunk) = (Inr d, w')"
    using reconstructed_example by blast
  have a: "store_inv sample_config (integrity (\<lambda>_. hash_a)) store_a"
    by (rule store_a_inv) (simp add: integrity_def md_a_def)
  have "store_inv sample_config (integrity (\<lambda>_. hash_a)) store_chunk"
    by (rule store_inv_same [OF a])
      (auto simp: store_chunk_def store_a_def chunk_file_def path_a_def md_a_def
        index_get_a [unfolded md_a_def path_a_def] split: if_splits)
  then have "blob_safe sample_env sample_config (empty_world store_chunk)"
    by (simp add: blob_safe_def empty_world_def sample_env_def)
  moreover have "list_all (\<lambda>ch. is_chunk_path sample_config (ch_path ch)) (cu_chunks ex_upload)"
    by (simp add: ex_upload_def is_chunk_path_def chunks_dir_def chunk_file_def sample_config_def storage_layout_new_def)
  ultimately show ?thesis
    using reconstruct_blob_exact [OF layout_sample _ _ r] r by (auto simp: Let_def)
qed

lemma net_untouched:
  "in_auth g w = (ra, wa) \<Longrightarrow> w_net wa = w_net w" "in_ledger gl w = (rl, wl) \<Longrightarrow> w_net wl = w_net w"
  "in_files gf w = (rf, wg) \<Longrightarrow> w_net wg = w_net w" "in_store gs w = (rs, ws) \<Longrightarrow> w_net ws = w_net w"
  by (auto simp: in_auth_def in_ledger_def in_files_def in_store_def split: prod.splits)

lemma in_net_parts:
  "in_net g w = (r, w') \<Longrightarrow> g (w_net w) = (r, w_net w') \<and> w_store w' = w_store w \<and> w_ledger w' = w_ledger w"
  by (auto simp: in_net_def split: prod.splits)

lemma receive_mirror_spec:
  assumes "receive_mirror e c headers response tmp k w = (Inr n, w')" "chunks_fit response"
  shows "\<exists>ds. ur_stream response = map Inr ds \<and> ae_sha e (concat ds) = k \<and> unat n = length (concat ds) \<and>
      n \<le> size_limit c UpstreamFetch \<and> fs_data (st_fs (w_store w')) tmp = Some (concat ds)"
    "st_index (w_store w') = st_index (w_store w)" "w_net w' = w_net w"
    "if is_paid c Paid_Mirror
     then \<exists>t amount. w_ledger w' = w_ledger w @ [(t, amount)] \<and> calculate_price n (cashu_price_per_mb c) \<le> amount
     else w_ledger w' = w_ledger w"
proof -
  from assms(1) obtain w1 where s: "in_files (stream_response_to_temp_file (env_host e) (ae_sha e) response tmp (size_limit c UpstreamFetch)) w = (Inr (k, n), w1)"
    and ch: "in_ledger (charge c (ae_cashu e) headers Paid_Mirror n) w1 = (Inr (), w')"
    by (auto simp: receive_mirror_def bind_st_Inr_iff split: if_splits)
  have "w_store w' = w_store w1" using in_ledger_parts [OF ch] by simp
  then show "\<exists>ds. ur_stream response = map Inr ds \<and> ae_sha e (concat ds) = k \<and> unat n = length (concat ds) \<and>
      n \<le> size_limit c UpstreamFetch \<and> fs_data (st_fs (w_store w')) tmp = Some (concat ds)"
    using staged_response(2,3) [OF s assms(2)] by auto
  note parts = in_files_parts [OF s] in_ledger_parts [OF ch]
  show "st_index (w_store w') = st_index (w_store w)" using parts by simp
  show "w_net w' = w_net w" using net_untouched(2) [OF ch] net_untouched(3) [OF s] by simp
  show "if is_paid c Paid_Mirror
     then \<exists>t amount. w_ledger w' = w_ledger w @ [(t, amount)] \<and> calculate_price n (cashu_price_per_mb c) \<le> amount
     else w_ledger w' = w_ledger w"
  proof (cases "is_paid c Paid_Mirror")
    case True
    then show ?thesis using charge_paid [of c "ae_cashu e" headers Paid_Mirror n "w_ledger w" "w_ledger w'"] parts by simp
  next
    case False
    then show ?thesis using parts by (simp add: charge_def)
  qed
qed

lemma fetch_log_safe:
  assumes "fetch_from_url env u lg = (r, lg')"
  shows "\<exists>new. lg' = lg @ new \<and> list_all event_safe new \<and>
     (case r of Inl _ \<Rightarrow> True | Inr response \<Rightarrow> final_answer env lg' response)"
  using fetch_loop_log [OF assms [unfolded fetch_from_url_def]] by (auto split: sum.splits)

text \<open>C16: A mirrored blob is what the signature asked for: when \<open>PUT /mirror\<close> answers with a descriptor, an
  acceptable event of a permitted author names the hash; the stream of the response to the last request
  sent ended cleanly, and the bytes it delivered hash to that name and respect the limit for fetched
  blobs; the mirror fee for them has been received where it is due; every request sent on the way was
  pinned to addresses the policy admits; the catalogue has changed at that hash only; and unless it had
  that very entry before, a local blob's file holds exactly the bytes delivered.\<close>
theorem mirror_blob_sound:
  assumes "layout_ok c" and "blob_safe e c w" and "bodies_fit (ae_net e)"
    and "mirror_blob e c headers items w = (Inr r, w')"
  shows "\<exists>ev x k response ds m new. event_acceptable c (ae_nostr e) (env_now e) ev x \<and>
     may_perform c (ae_nostr e) (w_auth w) Op_Mirror (ev_pubkey ev) \<and> extract_sha256_from_event ev = Some k \<and>
     w_net w' = w_net w @ new \<and> list_all event_safe new \<and> final_answer (ae_net e) (w_net w') response \<and>
     ur_stream response = map Inr ds \<and> ae_sha e (concat ds) = k \<and>
     length (concat ds) \<le> unat (size_limit c UpstreamFetch) \<and>
     (if is_paid c Paid_Mirror
      then \<exists>t amount. w_ledger w' = w_ledger w @ [(t, amount)] \<and>
             calculate_price (word_of_nat (length (concat ds))) (cashu_price_per_mb c) \<le> amount
      else w_ledger w' = w_ledger w) \<and>
     index_get (st_index (w_store w')) = (index_get (st_index (w_store w)))(k \<mapsto> m) \<and>
     (index_get (st_index (w_store w)) k = Some m \<or>
        (\<forall>p. md_location m = Local p \<longrightarrow> fs_data (st_fs (w_store w')) p = Some (concat ds))) \<and>
     r = descriptor_response e c (status r) k m \<and> blob_safe e c w'"
proof -
  let ?h = "env_host e"
  from assms(4) obtain a w1 k expiration u response w2 w3 p ext n w4 stored w5 mime pre where
    au: "in_auth (authorize c (ae_nostr e) (env_now e) headers Op_Mirror) w = (Inr a, w1)"
    and k: "extract_sha256_from_event (az_event a) = Some k"
    and fe: "in_net (fetch_from_url (ae_net e) u) w1 = (Inr response, w2)"
    and td: "in_store (ensure_temp_dir c ?h) w2 = (Inr p, w3)"
    and rm: "receive_mirror e c headers response (temp_reserve c ?h pre ext) k w3 = (Inr n, w4)"
    and fin: "in_store (finalize_upload c (ae_storage e) (temp_reserve c ?h pre ext) k n ext (Some mime) expiration) w4 = (Inr stored, w5)"
    and r: "r = descriptor_response e c (created_status stored) k (sb_metadata stored)"
    and w': "w' = spawn_hls e mime u k w5"
    by (auto simp: mirror_blob_def Let_def bind_st_Inr_iff)
  note lay = assms(1) and fit = in_net_fetched [OF assms(3) fe]
  have s1: "blob_safe e c w1" using safe_auth [OF assms(2)] au by (metis snd_conv)
  have s2: "blob_safe e c w2" using safe_net [OF s1] fe by (metis snd_conv)
  have s3: "blob_safe e c w3" using ensure_temp_dir_safe [OF s2 td] .
  have s4: "blob_safe e c w4" using receive_mirror_safe [OF lay temp_reserve_is_temp s3] rm by (metis snd_conv)
  note got = receive_mirror_spec [OF rm fit]
  note fi = finalize_index [OF lay temp_reserve_is_temp s4 receive_mirror_staged [OF rm fit] fin]
  from got(1) obtain ds where d: "ae_sha e (concat ds) = k" "unat n = length (concat ds)" "n \<le> size_limit c UpstreamFetch"
    and ds: "ur_stream response = map Inr ds" "fs_data (st_fs (w_store w4)) (temp_reserve c ?h pre ext) = Some (concat ds)"
    by blast
  have n: "n = word_of_nat (length (concat ds))" by (simp flip: d(2))
  from fetch_log_safe [OF conjunct1 [OF in_net_parts [OF fe]]] obtain new
    where new: "w_net w2 = w_net w1 @ new" "list_all event_safe new" and last: "final_answer (ae_net e) (w_net w2) response"
    by auto
  have net: "w_net w' = w_net w @ new"
    using new(1) got(3) net_untouched(1) [OF au] net_untouched(4) [OF td] net_untouched(4) [OF fin] w' by simp
  have index: "st_index (w_store w4) = st_index (w_store w)"
    using got(2) temp_dir_index [OF td] in_net_parts [OF fe] in_auth_parts [OF au] by simp
  have ledger: "w_ledger w' = w_ledger w4" "w_ledger w3 = w_ledger w"
    using in_store_parts [OF fin] in_store_parts [OF td] in_net_parts [OF fe] in_auth_parts [OF au] w' by simp_all
  have "fst (authorize c (ae_nostr e) (env_now e) headers Op_Mirror (w_auth w)) = Inr a"
    using in_auth_parts [OF au] by simp
  then have event: "event_acceptable c (ae_nostr e) (env_now e) (az_event a) (az_expiration a)"
    "may_perform c (ae_nostr e) (w_auth w) Op_Mirror (ev_pubkey (az_event a))"
    by (auto simp: authorize_Inr)
  have safe: "blob_safe e c w'" using fi w' by (simp add: blob_safe_def)
  have "w_net w' = w_net w2" using net new(1) net_untouched(1) [OF au] by simp
  with last have last: "final_answer (ae_net e) (w_net w') response" by simp
  have stored: "index_get (st_index (w_store w)) k = Some (sb_metadata stored) \<or>
      (\<forall>q. md_location (sb_metadata stored) = Local q \<longrightarrow> fs_data (st_fs (w_store w')) q = Some (concat ds))"
    using finalize_stored [OF lay temp_reserve_is_temp s4 ds(2) fin] index w' by auto
  show ?thesis
    by (intro exI [of _ "az_event a"] exI [of _ "az_expiration a"] exI [of _ k] exI [of _ response] exI [of _ ds]
        exI [of _ "sb_metadata stored"] exI [of _ new] conjI)
      (use event k d ds(1) last stored got(4) ledger n net new(2) index fi r w' safe in
        \<open>auto simp: descriptor_response_def word_le_nat_alt\<close>)
qed

definition origin_answer :: upstream_response where
  "origin_answer = \<lparr>ur_status = 200, ur_headers = [], ur_stream = [Inr [1, 2]]\<rparr>"

definition mirror_env :: app_env where
  "mirror_env = upload_env\<lparr>
     ae_net := sample_net\<lparr>
       url_parse := \<lambda>u. Some \<lparr>u_text = u, u_scheme = ''https'', u_host = Some ''origin.example'', u_port = None, u_explicit_port = None\<rparr>,
       dns_lookup := \<lambda>_ _ p. Dns_Addresses [\<lparr>sa_ip = V4 8 8 8 8, sa_port = p\<rparr>],
       http_send := \<lambda>_ _ _. Inr origin_answer\<rparr>,
     ae_mirror_url := \<lambda>_. Inr (Some ''https://origin.example/a'')\<rparr>"

lemma fetch_loop_answered:
  "fetch_hop env u lg = (Inr (Hop_Done response), lg') \<Longrightarrow> fetch_loop env n u lg = (Inr response, lg')"
  by (cases n) simp_all

lemma mirror_fetched:
  "\<exists>lg'. fetch_from_url (ae_net mirror_env) u lg = (Inr origin_answer, lg')"
proof -
  have "\<not> is_private_ip (V4 8 8 8 8)" by (simp add: is_private_v4_def)
  then have "\<exists>lg'. fetch_hop (ae_net mirror_env) u lg = (Inr (Hop_Done origin_answer), lg')"
    by (simp add: fetch_hop_def resolve_public_target_def mirror_env_def sample_net_def address_allowed_def Let_def
        is_success_def origin_answer_def)
  then show ?thesis unfolding fetch_from_url_def using fetch_loop_answered by blast
qed

lemma mirror_streamed:
  "\<exists>f'. stream_response_to_temp_file calm_host (\<lambda>_. hash_a) origin_answer
        (temp_reserve sample_config calm_host ''mirror'' ext) 500
        \<lparr>fs_files = fs_files (st_fs store_a), fs_dirs = [[''srv''], [], [''srv'', ''temp'']]\<rparr> = (Inr (hash_a, 2), f') \<and>
     fs_dirs f' = [[''srv''], [], [''srv'', ''temp'']]"
  by (simp add: stream_response_to_temp_file_def origin_answer_def fs_create_def fs_append_def fs_sync_def calm_host_def
      store_a_def chunks_of.simps finish_stream_def checked_add_def sample_config_def storage_layout_new_def
      temp_reserve_def path_a_def)

lemma mirror_answered:
  "\<exists>r w'. mirror_blob mirror_env sample_config upload_headers [Inr [1]] (empty_world store_a) = (Inr r, w')"
proof -
  let ?az = "\<lparr>az_event = upload_event, az_operation = Op_Mirror, az_expiration = 200\<rparr>"
  have host: "env_host mirror_env = calm_host" "env_now mirror_env = 100" "now_secs calm_host = 100"
    by (simp_all add: mirror_env_def upload_env_def sample_env_def calm_env_def calm_host_def)
  have env: "ae_nostr mirror_env = ae_nostr upload_env" "ae_sha mirror_env = (\<lambda>_. hash_a)"
    "ae_content_length mirror_env = (\<lambda>_. None)" "ae_extensions mirror_env = (\<lambda>_. None)"
    by (simp_all add: mirror_env_def upload_env_def sample_env_def)
  have "authorize sample_config (ae_nostr upload_env) 100 upload_headers Op_Mirror st = (Inr ?az, st)" for st
    by (simp add: authorize_def auth_mode_of_def sample_config_def upload_headers_def upload_env_def hget_str_def hget_def
      parse_auth_header_def or_else_def map_err_def verify_event_with_policy_def verify_event_def expiration_tag_def
      find_tag_def upload_event_def sample_nostr_def saturating_sub_def validate_server_tags_def tags_of_def
      validate_event_kind_def check_pubkey_authorization_def to_str_def
      visible_ascii_def byte_of_def starts_with_def)
  then have au: "in_auth (authorize sample_config (ae_nostr mirror_env) (env_now mirror_env) upload_headers Op_Mirror) w =
      (Inr ?az, w)" for w
    by (simp add: in_auth_def host env)
  have tag: "validate_t_tag upload_event ''upload'' = Inr ()"
    by (simp add: validate_t_tag_def find_tag_def tags_of_def upload_event_def)
  have k: "extract_sha256_from_event upload_event = Some hash_a"
    using hash_a_valid
    by (auto simp: extract_sha256_from_event_def tags_of_def upload_event_def is_valid_hash_def list_all_iff
        is_lower_hex_def is_ascii_hexdigit_def)
  have no_expiry: "extract_expiration 100 upload_headers = Inr None"
    by (simp add: extract_expiration_def hget_def upload_headers_def eq_ignore_ascii_case_def resolve_expiration_def)
  have target: "mirror_target mirror_env [Inr [1]] = Inr ''https://origin.example/a''"
    by (simp add: mirror_target_def mirror_env_def map_err_def)
  obtain lg' where lg': "fetch_from_url (ae_net mirror_env) ''https://origin.example/a'' [] = (Inr origin_answer, lg')"
    using mirror_fetched by blast
  define w2 where "w2 = (empty_world store_a)\<lparr>w_net := lg'\<rparr>"
  have fe: "in_net (fetch_from_url (ae_net mirror_env) ''https://origin.example/a'') (empty_world store_a) = (Inr origin_answer, w2)"
    using lg' by (simp add: in_net_def w2_def empty_world_def)
  define store_b where "store_b = store_a\<lparr>st_fs := (st_fs store_a)\<lparr>fs_dirs := [[''srv''], [], [''srv'', ''temp'']]\<rparr>\<rparr>"
  define w3 where "w3 = w2\<lparr>w_store := store_b\<rparr>"
  have temp: "in_store (ensure_temp_dir sample_config calm_host) w2 = (Inr [''srv'', ''temp''], w3)"
    by (simp add: in_store_def ensure_temp_dir_def on_fs_def fs_create_dir_all_def calm_host_def sample_config_def
        storage_layout_new_def store_a_def path_a_def store_b_def empty_world_def w2_def w3_def)
  let ?ext = "get_extension_from_mime (\<lambda>_. None) default_mime"
  let ?tmp = "temp_reserve sample_config calm_host ''mirror'' ?ext"
  have fsb: "st_fs store_b = \<lparr>fs_files = fs_files (st_fs store_a), fs_dirs = [[''srv''], [], [''srv'', ''temp'']]\<rparr>"
    by (simp add: store_b_def)
  obtain f' where f': "stream_response_to_temp_file calm_host (\<lambda>_. hash_a) origin_answer ?tmp 500 (st_fs store_b) =
      (Inr (hash_a, 2), f')" "fs_dirs f' = [[''srv''], [], [''srv'', ''temp'']]"
    using mirror_streamed unfolding fsb by blast
  define w4 where "w4 = w3\<lparr>w_store := store_b\<lparr>st_fs := f'\<rparr>\<rparr>"
  have limit: "size_limit sample_config UpstreamFetch = 500"
    by (simp add: size_limit_def resolve_limit_def sample_config_def)
  have streamed: "in_files (stream_response_to_temp_file calm_host (\<lambda>_. hash_a) origin_answer ?tmp 500) w3 = (Inr (hash_a, 2), w4)"
    using f'(1) by (simp add: in_files_def on_fs_def w4_def w3_def)
  have clean: "ensure_not_quarantined sample_config calm_host (w_store w4) hash_a = Inr ()"
    using f'(2) hash_a_valid
    by (simp add: ensure_not_quarantined_def validate_sha256_format_def fs_read_dir_def calm_host_def w4_def
        sample_config_def storage_layout_new_def Let_def)
  have free: "in_ledger (charge sample_config cenv headers Paid_Mirror n) w = (Inr (), w)" for cenv headers n w
    by (simp add: in_ledger_def charge_def sample_config_def)
  have received: "receive_mirror mirror_env sample_config upload_headers origin_answer ?tmp hash_a w3 = (Inr 2, w4)"
    by (simp add: receive_mirror_def host env limit streamed clean free pure_st_def)
  have index: "st_index (w_store w4) = st_index store_a" by (simp add: w4_def store_b_def)
  have st: "ae_storage mirror_env = ae_storage upload_env" by (simp add: mirror_env_def)
  have "\<exists>stored w5. in_store (finalize_upload sample_config (ae_storage mirror_env) ?tmp hash_a 2 ext mime None) w4 =
      (Inr stored, w5)" for ext mime
    using clean index_get_a hash_a_valid
    by (simp add: in_store_def finalize_upload_def accept_def publish_blob_def host(1) index store_a_def md_a_def
        validate_sha256_format_def)
  then obtain stored w5 where fin: "in_store (finalize_upload sample_config (ae_storage mirror_env) ?tmp hash_a 2
      ?ext (Some default_mime) None) w4 = (Inr stored, w5)" by blast
  have mime: "extract_content_type_from_response (ur_headers origin_answer) = default_mime"
    by (simp add: extract_content_type_from_response_def origin_answer_def hget_str_def hget_def)
  show ?thesis
    unfolding mirror_blob_def Let_def au
    by (simp add: tag k pure_st_def no_expiry target fe check_size_limit_def temp mime received fin host env)
qed

theorem mirror_blob_sound_witness:
  "\<exists>r w' response ds. mirror_blob mirror_env sample_config upload_headers [Inr [1]] (empty_world store_a) = (Inr r, w') \<and>
     blob_safe mirror_env sample_config w' \<and> list_all event_safe (w_net w') \<and>
     final_answer (ae_net mirror_env) (w_net w') response \<and> ur_stream response = map Inr ds \<and> ae_sha mirror_env (concat ds) = hash_a"
proof -
  obtain r w' where mi: "mirror_blob mirror_env sample_config upload_headers [Inr [1]] (empty_world store_a) = (Inr r, w')"
    using mirror_answered by blast
  have "blob_safe mirror_env sample_config (empty_world store_a)"
    using store_a_inv [of "integrity (\<lambda>_. hash_a)"]
    by (simp add: blob_safe_def empty_world_def mirror_env_def upload_env_def sample_env_def integrity_def md_a_def)
  moreover have "bodies_fit (ae_net mirror_env)"
    by (simp add: bodies_fit_def mirror_env_def sample_net_def origin_answer_def chunks_fit_def)
  moreover have "ae_sha mirror_env d = hash_a" for d by (simp add: mirror_env_def upload_env_def sample_env_def)
  ultimately show ?thesis using mirror_blob_sound [OF layout_sample _ _ mi] mi by (auto simp: empty_world_def)
qed

end
