(* ===== verification/Candidates.thy ===== *)
theory Candidates
  imports UploadHandlers
begin

text \<open>
  Which upstream server is asked next: the tiers of \<open>src/services/upstream_candidates.rs\<close> and the
  author's server list of \<open>src/services/blossom_servers.rs\<close> with its cache. The relay pool is outside
  the repository: \<open>ae_relays\<close> is what a query for kind 10063 events returns, newest first.
\<close>

section \<open>Author server lists\<close>

definition parse_pubkey :: "app_env \<Rightarrow> string \<Rightarrow> string + pubkey" where
  "parse_pubkey e pubkey_str =
     (let s = trim pubkey_str in
      case ae_bech32 e s of
        Some pk \<Rightarrow> Inr pk
      | None \<Rightarrow> (case ae_hex_key e s of
                   Some pk \<Rightarrow> Inr pk
                 | None \<Rightarrow> Inl (''Invalid pubkey format: '' @ s)))"

definition server_tags :: "nostr_event \<Rightarrow> string list" where
  "server_tags ev =
     filter (\<lambda>u. starts_with ''http://'' u \<or> starts_with ''https://'' u) (concat (map (\<lambda>t. case t of None \<Rightarrow> [] | Some u \<Rightarrow> [u]) (tags_of ''server'' ev)))"

definition cached_list :: "app_env \<Rightarrow> app_config \<Rightarrow> pubkey \<Rightarrow> world \<Rightarrow> string list option" where
  "cached_list e c pk w =
     (case map_of (w_lists w) pk of
        None \<Rightarrow> None
      | Some (servers, cached_at) \<Rightarrow>
          if ae_instant e - cached_at < blossom_server_list_cache_ttl c then Some servers else None)"

definition fetch_user_server_list ::
  "app_env \<Rightarrow> app_config \<Rightarrow> pubkey \<Rightarrow> world \<Rightarrow> (string + string list) \<times> world" where
  "fetch_user_server_list e c pk w =
     (case cached_list e c pk w of
        Some servers \<Rightarrow> (Inr servers, w)
      | None \<Rightarrow>
          (case ae_relays e pk of
             Inl err \<Rightarrow> (Inl err, w)
           | Inr events \<Rightarrow>
               (let servers = (case events of [] \<Rightarrow> [] | ev # _ \<Rightarrow> server_tags ev)
                in (Inr servers, w\<lparr>w_lists := hm_insert pk (servers, ae_instant e) (w_lists w)\<rparr>))))"

section \<open>Tiers\<close>

datatype tier = CustomOrigin | XsServer | Configured | UserServer

fun tier_label :: "tier \<Rightarrow> string" where
  "tier_label CustomOrigin = ''custom origin''"
| "tier_label XsServer = ''xs server''"
| "tier_label Configured = ''configured upstream''"
| "tier_label UserServer = ''user server''"

record candidate =
  cd_tier :: tier
  cd_base :: string
  cd_url :: string

text \<open>The closure \<open>push\<close>: \<open>seen\<close> is the dedup set, \<open>planned\<close> the plan so far.\<close>

fun push_candidates :: "tier \<Rightarrow> string list \<Rightarrow> (tier \<times> string) list \<times> string set \<Rightarrow> (tier \<times> string) list \<times> string set" where
  "push_candidates t [] acc = acc"
| "push_candidates t (u # us) (planned, seen) =
     push_candidates t us (if u \<in> seen then (planned, seen) else (planned @ [(t, u)], insert u seen))"

definition push_hint :: "tier \<Rightarrow> string \<Rightarrow> (tier \<times> string) list \<times> string set \<Rightarrow> (tier \<times> string) list \<times> string set" where
  "push_hint t hint acc = push_candidates t (server_url_candidates hint) acc"

definition plan :: "string option \<Rightarrow> string list option \<Rightarrow> string list \<Rightarrow> (tier \<times> string) list" where
  "plan custom_origin xs_servers configured =
     (let s0 = ([], {});
          s1 = (case custom_origin of None \<Rightarrow> s0 | Some origin \<Rightarrow> push_hint CustomOrigin origin s0);
          s2 = fold (push_hint XsServer) (case xs_servers of None \<Rightarrow> [] | Some xs \<Rightarrow> xs) s1;
          s3 = fold (push_hint Configured) configured s2
      in fst s3)"

section \<open>The walk\<close>

record walk =
  wk_filename :: string
  wk_author :: "pubkey option"
  wk_pending :: "(tier \<times> string) list"
  wk_tried :: "string set"
  wk_user_servers_pending :: bool

definition walk_new ::
  "app_config \<Rightarrow> string \<Rightarrow> string option \<Rightarrow> string list option \<Rightarrow> pubkey option \<Rightarrow> walk" where
  "walk_new c filename custom_origin xs_servers author =
     \<lparr>wk_filename = filename, wk_author = author,
      wk_pending = plan custom_origin xs_servers (upstream_servers c), wk_tried = {},
      wk_user_servers_pending = (author \<noteq> None)\<rparr>"

text \<open>\<open>take_user_servers\<close>: at most once per walk; the flag says whether something was appended.\<close>

definition take_user_servers :: "app_env \<Rightarrow> app_config \<Rightarrow> walk \<Rightarrow> world \<Rightarrow> (bool \<times> walk) \<times> world" where
  "take_user_servers e c wk w =
     (if \<not> wk_user_servers_pending wk then ((False, wk), w)
      else let wk1 = wk\<lparr>wk_user_servers_pending := False\<rparr> in
        case wk_author wk of
          None \<Rightarrow> ((False, wk1), w)
        | Some pk \<Rightarrow>
            (case fetch_user_server_list e c pk w of
               (Inl _, w1) \<Rightarrow> ((False, wk1), w1)
             | (Inr servers, w1) \<Rightarrow>
                 if servers = [] then ((False, wk1), w1)
                 else ((True, wk1\<lparr>wk_pending := wk_pending wk1 @
                          map (Pair UserServer) (concat (map server_url_candidates servers))\<rparr>), w1)))"

definition candidate_url :: "string \<Rightarrow> string \<Rightarrow> string" where
  "candidate_url base filename = trim_end_matches (CHR ''/'') base @ ''/'' @ filename"

function walk_next :: "app_env \<Rightarrow> app_config \<Rightarrow> walk \<Rightarrow> world \<Rightarrow> (candidate option \<times> walk) \<times> world" where
  "walk_next e c wk w =
     (case wk_pending wk of
        [] \<Rightarrow>
          (case take_user_servers e c wk w of
             ((added, wk1), w1) \<Rightarrow> if \<not> added then ((None, wk1), w1) else walk_next e c wk1 w1)
      | (t, hint) # rest \<Rightarrow>
          (let wk1 = wk\<lparr>wk_pending := rest\<rparr> in
           case in_net (validate_upstream_url (ae_net e) hint) w of
             (Inl _, w1) \<Rightarrow> walk_next e c wk1 w1
           | (Inr base, w1) \<Rightarrow>
               if base \<in> wk_tried wk1 then walk_next e c wk1 w1
               else ((Some \<lparr>cd_tier = t, cd_base = base, cd_url = candidate_url base (wk_filename wk1)\<rparr>,
                      wk1\<lparr>wk_tried := insert base (wk_tried wk1)\<rparr>), w1)))"
  by pat_completeness auto
termination
  by (relation "(\<lambda>(e, c, wk, w). if wk_user_servers_pending wk then (1 :: nat) else 0) <*mlex*>
        measure (\<lambda>(e, c, wk, w). length (wk_pending wk))")
    (auto simp: mlex_prod_def take_user_servers_def Let_def split: if_splits option.splits sum.splits prod.splits)

declare walk_next.simps [simp del]

section \<open>What a walk yields\<close>

definition vetted :: "net_env \<Rightarrow> net_log \<Rightarrow> string \<Rightarrow> bool" where
  "vetted net lg base \<longleftrightarrow>
     lg \<noteq> [] \<and>
     (case (url_parse net base, last lg) of
        (Some u, Net_Lookup h p) \<Rightarrow>
          u_host u = Some h \<and> (u_scheme u = ''https'' \<or> u_scheme u = ''http'' \<and> is_fips_hostname h) \<and>
          (case dns_lookup net (butlast lg) h p of
             Dns_Addresses all \<Rightarrow>
               list_ex (\<lambda>a. is_private_ip (sa_ip a) \<longrightarrow> is_fips_hostname h \<and> is_fips_overlay_ip (sa_ip a)) all
           | _ \<Rightarrow> False)
      | _ \<Rightarrow> False)"

fun tier_rank :: "tier \<Rightarrow> nat" where
  "tier_rank CustomOrigin = 0"
| "tier_rank XsServer = 1"
| "tier_rank Configured = 2"
| "tier_rank UserServer = 3"

text \<open>
  What entitles a server to its tier. A hint names the server it spells: without the whitespace around
  it, and with either scheme where it has none. The author's servers are those of a list of his that is
  still fresh in the cache, or else those his newest relay event tags; \<open>L\<close> holds the caches of lists
  the walk has met.
\<close>

definition names_server :: "string \<Rightarrow> string \<Rightarrow> bool" where
  "names_server raw base \<longleftrightarrow>
     (\<exists>before t after. raw = before @ t @ after \<and> list_all is_ascii_whitespace (before @ after) \<and>
        (t \<noteq> [] \<longrightarrow> \<not> is_ascii_whitespace (hd t) \<and> \<not> is_ascii_whitespace (last t)) \<and>
        (if \<exists>rest. t = ''http://'' @ rest \<or> t = ''https://'' @ rest then base = t
         else base = ''https://'' @ t \<or> base = ''http://'' @ t))"

definition listed_by_author ::
  "app_env \<Rightarrow> app_config \<Rightarrow> pubkey \<Rightarrow> (pubkey \<times> string list \<times> instant) list \<Rightarrow> string \<Rightarrow> bool" where
  "listed_by_author e c pk known raw \<longleftrightarrow>
     (case map_of known pk of
        Some (servers, at) \<Rightarrow> ae_instant e - at < blossom_server_list_cache_ttl c \<and> raw \<in> set servers
      | None \<Rightarrow> False) \<or>
     (\<exists>ev evs. ae_relays e pk = Inr (ev # evs) \<and> (''server'', Some raw) \<in> set (ev_tags ev) \<and>
        (\<exists>rest. raw = ''http://'' @ rest \<or> raw = ''https://'' @ rest))"

definition named_by ::
  "app_env \<Rightarrow> app_config \<Rightarrow> string option \<Rightarrow> string list option \<Rightarrow> pubkey option \<Rightarrow>
   (pubkey \<times> string list \<times> instant) list set \<Rightarrow> tier \<Rightarrow> string \<Rightarrow> bool" where
  "named_by e c origin xs author L t base \<longleftrightarrow>
     (case t of
        CustomOrigin \<Rightarrow> (\<exists>raw. origin = Some raw \<and> names_server raw base)
      | XsServer \<Rightarrow> (\<exists>l raw. xs = Some l \<and> raw \<in> set l \<and> names_server raw base)
      | Configured \<Rightarrow> (\<exists>raw \<in> set (upstream_servers c). names_server raw base)
      | UserServer \<Rightarrow> (\<exists>pk known raw. author = Some pk \<and> known \<in> L \<and> listed_by_author e c pk known raw \<and>
          names_server raw base))"

text \<open>The URL asked for a blob: its name below the base, with one slash between them.\<close>

definition blob_url_of :: "string \<Rightarrow> string \<Rightarrow> string \<Rightarrow> bool" where
  "blob_url_of base filename u \<longleftrightarrow>
     (\<exists>stem n. base = stem @ replicate n CHR ''/'' \<and> (stem \<noteq> [] \<longrightarrow> last stem \<noteq> CHR ''/'') \<and>
        u = stem @ ''/'' @ filename)"

definition walk_ok ::
  "app_env \<Rightarrow> app_config \<Rightarrow> (pubkey \<times> string list \<times> instant) list set \<Rightarrow> (tier \<Rightarrow> string \<Rightarrow> bool) \<Rightarrow> walk \<Rightarrow> bool" where
  "walk_ok e c L named wk \<longleftrightarrow>
     sorted (map (tier_rank \<circ> fst) (wk_pending wk)) \<and>
     list_all (\<lambda>(t, hint). normalize_server_url hint = hint \<and> named t hint) (wk_pending wk) \<and>
     (wk_user_servers_pending wk \<longrightarrow>
        (\<forall>pk known raw hint. wk_author wk = Some pk \<longrightarrow> known \<in> L \<longrightarrow> listed_by_author e c pk known raw \<longrightarrow>
           names_server raw hint \<longrightarrow> named UserServer hint))"

text \<open>
  A walk whose caller does anything between two calls of \<open>next\<close>: each step with the cache of lists it
  started from and the network log it ended with.
\<close>

inductive walk_trace ::
  "app_env \<Rightarrow> app_config \<Rightarrow> walk \<Rightarrow> (candidate \<times> (pubkey \<times> string list \<times> instant) list \<times> net_log) list \<Rightarrow> bool" where
  walk_trace_Nil: "walk_trace e c wk []"
| walk_trace_step: "walk_next e c wk w = ((Some cd, wk'), w') \<Longrightarrow> walk_trace e c wk' cds \<Longrightarrow>
    walk_trace e c wk ((cd, w_lists w, w_net w') # cds)"

section \<open>Hints and URLs\<close>

lemma trim_split:
  "\<exists>before after. raw = before @ trim raw @ after \<and> list_all is_ascii_whitespace (before @ after) \<and>
     (trim raw \<noteq> [] \<longrightarrow> \<not> is_ascii_whitespace (hd (trim raw)) \<and> \<not> is_ascii_whitespace (last (trim raw)))"
proof -
  define l where "l = dropWhile is_ascii_whitespace raw"
  have t: "trim raw = rev (dropWhile is_ascii_whitespace (rev l))" by (simp add: trim_def l_def)
  have l: "l = trim raw @ rev (takeWhile is_ascii_whitespace (rev l))"
    unfolding t by (metis rev_append rev_rev_ident takeWhile_dropWhile_id)
  have "raw = takeWhile is_ascii_whitespace raw @ trim raw @ rev (takeWhile is_ascii_whitespace (rev l))"
    using l l_def by (metis takeWhile_dropWhile_id)
  moreover have "list_all is_ascii_whitespace (takeWhile is_ascii_whitespace raw @ rev (takeWhile is_ascii_whitespace (rev l)))"
    by (auto simp: list_all_iff dest: set_takeWhileD)
  moreover have "\<not> is_ascii_whitespace (last (trim raw))" if "trim raw \<noteq> []"
    using that hd_dropWhile [of is_ascii_whitespace "rev l"] unfolding t by (simp add: last_rev)
  moreover have "\<not> is_ascii_whitespace (hd (trim raw))" if ne: "trim raw \<noteq> []"
  proof -
    have "hd l = hd (trim raw)" using l ne by (metis hd_append2)
    moreover have "l \<noteq> []" using l ne by (metis append_is_Nil_conv)
    ultimately show ?thesis using hd_dropWhile [of is_ascii_whitespace raw] unfolding l_def by simp
  qed
  ultimately show ?thesis by blast
qed

lemma trim_id: "t = [] \<or> \<not> is_ascii_whitespace (hd t) \<and> \<not> is_ascii_whitespace (last t) \<Longrightarrow> trim t = t"
proof -
  assume a: "t = [] \<or> \<not> is_ascii_whitespace (hd t) \<and> \<not> is_ascii_whitespace (last t)"
  have stop: "dropWhile P xs = xs" if "xs = [] \<or> \<not> P (hd xs)" for P and xs :: string
    using that by (cases xs) auto
  have "dropWhile is_ascii_whitespace (rev t) = rev t" by (rule stop) (use a in \<open>auto simp: hd_rev\<close>)
  then show "trim t = t" using stop [of t is_ascii_whitespace] a by (auto simp: trim_def)
qed

lemma server_candidate:
  assumes "hint \<in> set (server_url_candidates raw)"
  shows "names_server raw hint" "normalize_server_url hint = hint"
proof -
  obtain before after where t: "raw = before @ trim raw @ after" "list_all is_ascii_whitespace (before @ after)"
    "trim raw \<noteq> [] \<longrightarrow> \<not> is_ascii_whitespace (hd (trim raw)) \<and> \<not> is_ascii_whitespace (last (trim raw))"
    using trim_split by blast
  have scheme: "has_scheme x \<longleftrightarrow> (\<exists>rest. x = ''http://'' @ rest \<or> x = ''https://'' @ rest)" for x
    unfolding has_scheme_def starts_with_iff by blast
  have h: "if has_scheme (trim raw) then hint = trim raw else hint = ''https://'' @ trim raw \<or> hint = ''http://'' @ trim raw"
    using assms by (auto simp: server_url_candidates_def Let_def split: if_splits)
  then show "names_server raw hint" using t unfolding names_server_def scheme by blast
  have "hint = [] \<or> \<not> is_ascii_whitespace (hd hint) \<and> \<not> is_ascii_whitespace (last hint)"
    using h t(3) by (auto simp: is_ascii_whitespace_def byte_of_def split: if_splits)
  moreover have "has_scheme hint" using h by (auto simp: has_scheme_def starts_with_iff split: if_splits)
  ultimately show "normalize_server_url hint = hint" by (simp add: normalize_server_url_def trim_id)
qed

lemma candidate_url_of: "blob_url_of base filename (candidate_url base filename)"
proof -
  let ?stem = "trim_end_matches (CHR ''/'') base"
  have rep: "takeWhile (\<lambda>c. c = CHR ''/'') xs = replicate (length (takeWhile (\<lambda>c. c = CHR ''/'') xs)) CHR ''/''" for xs
    by (rule replicate_eqI [OF refl, symmetric, THEN sym]) (auto dest: set_takeWhileD)
  have "base = ?stem @ rev (takeWhile (\<lambda>c. c = CHR ''/'') (rev base))"
    unfolding trim_end_matches_def by (metis rev_append rev_rev_ident takeWhile_dropWhile_id)
  then have "base = ?stem @ replicate (length (takeWhile (\<lambda>c. c = CHR ''/'') (rev base))) CHR ''/''"
    by (subst (asm) rep) simp
  moreover have "?stem \<noteq> [] \<longrightarrow> last ?stem \<noteq> CHR ''/''"
    using hd_dropWhile [of "\<lambda>c. c = CHR ''/''" "rev base"] by (auto simp: trim_end_matches_def last_rev)
  ultimately show ?thesis unfolding blob_url_of_def candidate_url_def by blast
qed

lemma tagged_server:
  assumes "raw \<in> set (server_tags ev)"
  shows "(''server'', Some raw) \<in> set (ev_tags ev)" "\<exists>rest. raw = ''http://'' @ rest \<or> raw = ''https://'' @ rest"
proof -
  show "(''server'', Some raw) \<in> set (ev_tags ev)"
    using assms by (auto simp: server_tags_def tags_of_def split: option.splits)
  have "starts_with ''http://'' raw \<or> starts_with ''https://'' raw" using assms by (simp add: server_tags_def)
  then show "\<exists>rest. raw = ''http://'' @ rest \<or> raw = ''https://'' @ rest" unfolding starts_with_iff by blast
qed

lemma author_listed:
  assumes "fetch_user_server_list e c pk w = (Inr servers, w')" "raw \<in> set servers"
  shows "listed_by_author e c pk (w_lists w) raw"
proof (cases "cached_list e c pk w")
  case None
  then obtain evs where evs: "ae_relays e pk = Inr evs" "servers = (case evs of [] \<Rightarrow> [] | ev # _ \<Rightarrow> server_tags ev)"
    using assms(1) by (auto simp: fetch_user_server_list_def Let_def split: sum.splits)
  then obtain ev rest where "ae_relays e pk = Inr (ev # rest)" "raw \<in> set (server_tags ev)"
    using assms(2) by (cases evs) auto
  then show ?thesis using tagged_server unfolding listed_by_author_def by blast
next
  case (Some l)
  then have "raw \<in> set l" using assms by (simp add: fetch_user_server_list_def)
  then show ?thesis using Some
    by (auto simp: listed_by_author_def cached_list_def split: option.splits if_splits)
qed

section \<open>The plan of a walk\<close>

lemma push_candidates_plan:
  assumes "push_candidates t us (planned, seen) = (planned', seen')"
  shows "\<exists>new. planned' = planned @ map (Pair t) new \<and> set new \<subseteq> set us"
  using assms
proof (induction us arbitrary: planned seen)
  case (Cons u us)
  show ?case
  proof (cases "u \<in> seen")
    case True
    then show ?thesis using Cons.IH [of planned seen] Cons.prems by auto
  next
    case False
    then obtain new where "planned' = (planned @ [(t, u)]) @ map (Pair t) new" "set new \<subseteq> set us"
      using Cons.IH [of "planned @ [(t, u)]" "insert u seen"] Cons.prems by auto
    then show ?thesis by (intro exI [of _ "u # new"]) auto
  qed
qed simp

lemma fold_push_plan:
  "\<exists>new. fst (fold (push_hint t) raws acc) = fst acc @ map (Pair t) new \<and>
     set new \<subseteq> (\<Union>raw \<in> set raws. set (server_url_candidates raw))"
proof (induction raws arbitrary: acc)
  case (Cons raw raws)
  obtain planned seen where "push_hint t raw acc = (planned, seen)" by fastforce
  moreover obtain p0 s0 where "acc = (p0, s0)" by fastforce
  ultimately obtain new where new: "fst (push_hint t raw acc) = fst acc @ map (Pair t) new"
      "set new \<subseteq> set (server_url_candidates raw)"
    using push_candidates_plan by (fastforce simp: push_hint_def)
  obtain new' where "fst (fold (push_hint t) raws (push_hint t raw acc)) = fst (push_hint t raw acc) @ map (Pair t) new'"
      "set new' \<subseteq> (\<Union>raw \<in> set raws. set (server_url_candidates raw))"
    using Cons.IH by blast
  then show ?case using new by (intro exI [of _ "new @ new'"]) auto
qed simp

definition hinted :: "string list \<Rightarrow> string \<Rightarrow> bool" where
  "hinted raws hint \<longleftrightarrow> list_ex (\<lambda>raw. hint \<in> set (server_url_candidates raw)) raws"

lemma hinted_iff: "hinted raws hint \<longleftrightarrow> hint \<in> (\<Union>raw \<in> set raws. set (server_url_candidates raw))"
  by (simp add: hinted_def list_ex_iff)

lemma hinted_named:
  "list_all (hinted (case origin of None \<Rightarrow> [] | Some r \<Rightarrow> [r])) a \<Longrightarrow> list_all (named_by e c origin xs author L CustomOrigin) a"
  "list_all (hinted (case xs of None \<Rightarrow> [] | Some l \<Rightarrow> l)) a \<Longrightarrow> list_all (named_by e c origin xs author L XsServer) a"
  "list_all (hinted (upstream_servers c)) a \<Longrightarrow> list_all (named_by e c origin xs author L Configured) a"
  "list_all (hinted raws) a \<Longrightarrow> list_all (\<lambda>h. normalize_server_url h = h) a"
  by (fastforce simp: named_by_def hinted_iff list_all_iff dest: server_candidate split: option.splits)+

lemma fold_push_hinted:
  "\<exists>new. fst (fold (push_hint t) raws acc) = fst acc @ map (Pair t) new \<and> list_all (hinted raws) new"
  using fold_push_plan [of t raws acc] unfolding list_all_iff hinted_iff by blast

lemma plan_tiers:
  "\<exists>a b d. plan origin xs (upstream_servers c) =
       map (Pair CustomOrigin) a @ map (Pair XsServer) b @ map (Pair Configured) d \<and>
     list_all (named_by e c origin xs author L CustomOrigin) a \<and> list_all (named_by e c origin xs author L XsServer) b \<and>
     list_all (named_by e c origin xs author L Configured) d \<and>
     list_all (\<lambda>h. normalize_server_url h = h) (a @ b @ d)"
proof -
  let ?o = "case origin of None \<Rightarrow> [] | Some r \<Rightarrow> [r]"
  let ?x = "case xs of None \<Rightarrow> [] | Some l \<Rightarrow> l"
  let ?s1 = "fold (push_hint CustomOrigin) ?o ([], {})"
  let ?s2 = "fold (push_hint XsServer) ?x ?s1"
  have p: "plan origin xs (upstream_servers c) = fst (fold (push_hint Configured) (upstream_servers c) ?s2)"
    by (cases origin) (simp_all add: plan_def Let_def)
  obtain a where a: "fst ?s1 = map (Pair CustomOrigin) a" "list_all (hinted ?o) a"
    using fold_push_hinted [of CustomOrigin ?o "([], {})"] by auto
  obtain b where b: "fst ?s2 = fst ?s1 @ map (Pair XsServer) b" "list_all (hinted ?x) b"
    using fold_push_hinted by blast
  obtain d where d: "fst (fold (push_hint Configured) (upstream_servers c) ?s2) = fst ?s2 @ map (Pair Configured) d"
      "list_all (hinted (upstream_servers c)) d"
    using fold_push_hinted by blast
  show ?thesis using a(1) b(1) d(1) p a(2) b(2) d(2) hinted_named
    by (intro exI [of _ a] exI [of _ b] exI [of _ d]) (simp add: list_all_append)
qed

lemma sorted_const [simp]: "sorted (map (\<lambda>_. n) xs)" for n :: nat
  by (induction xs) auto

lemma walk_new_ok: "walk_ok e c L (named_by e c origin xs author L) (walk_new c filename origin xs author)"
proof -
  let ?n = "named_by e c origin xs author L"
  obtain a b d where p: "plan origin xs (upstream_servers c) =
      map (Pair CustomOrigin) a @ map (Pair XsServer) b @ map (Pair Configured) d"
    "list_all (?n CustomOrigin) a" "list_all (?n XsServer) b" "list_all (?n Configured) d"
    "list_all (\<lambda>h. normalize_server_url h = h) (a @ b @ d)"
    using plan_tiers [of origin xs c e author L] by (elim exE conjE)
  have "?n UserServer hint" if "author = Some pk" "known \<in> L" "listed_by_author e c pk known raw" "names_server raw hint"
    for pk known raw hint using that by (auto simp: named_by_def)
  then show ?thesis using p(2-5)
    by (auto simp: walk_ok_def walk_new_def p(1) sorted_append comp_def list_all_iff)
qed

text \<open>A walk changes the network log and the cache of server lists, and it only looks names up.\<close>

definition walk_frame :: "world \<Rightarrow> world \<Rightarrow> bool" where
  "walk_frame w w' \<longleftrightarrow>
     w' = w\<lparr>w_net := w_net w', w_lists := w_lists w'\<rparr> \<and>
     (\<exists>new. w_net w' = w_net w @ new \<and> list_all (\<lambda>ev. case ev of Net_Lookup _ _ \<Rightarrow> True | _ \<Rightarrow> False) new)"

lemma walk_frame_refl [simp]: "walk_frame w w"
  by (simp add: walk_frame_def)

lemma walk_frame_trans: "walk_frame w1 w2 \<Longrightarrow> walk_frame w2 w3 \<Longrightarrow> walk_frame w1 w3"
  unfolding walk_frame_def by (cases w1; cases w2; cases w3) auto

lemma walk_frame_lists: "walk_frame w (w\<lparr>w_lists := l\<rparr>)"
  by (simp add: walk_frame_def)

lemma take_user_ok:
  assumes "take_user_servers e c wk w = ((added, wk1), w1)" "walk_ok e c L named wk" "wk_pending wk = []"
    and "wk_user_servers_pending wk \<longrightarrow> w_lists w \<in> L"
  shows "walk_ok e c L named wk1 \<and> \<not> wk_user_servers_pending wk1 \<and> wk_tried wk1 = wk_tried wk \<and> wk_filename wk1 = wk_filename wk \<and> walk_frame w w1 \<and>
     (\<not> added \<longrightarrow> wk_pending wk1 = [])"
proof (cases "wk_user_servers_pending wk \<and> wk_author wk \<noteq> None")
  case False
  then show ?thesis using assms by (auto simp: take_user_servers_def walk_ok_def Let_def split: if_splits option.splits)
next
  case True
  then obtain pk where pk: "wk_author wk = Some pk" by blast
  obtain rf w2 where f: "fetch_user_server_list e c pk w = (rf, w2)" by fastforce
  have frame: "walk_frame w w2"
    using f by (auto simp: fetch_user_server_list_def Let_def walk_frame_lists split: option.splits sum.splits)
  have "named UserServer hint \<and> normalize_server_url hint = hint"
    if "rf = Inr servers" "raw \<in> set servers" "hint \<in> set (server_url_candidates raw)" for servers raw hint
    using author_listed [OF f [unfolded that(1)] that(2)] server_candidate [OF that(3)] assms(2,4) True pk
    unfolding walk_ok_def by blast
  then show ?thesis using assms(1-3) True pk f frame
    by (cases rf) (auto simp: take_user_servers_def walk_ok_def Let_def comp_def list_all_iff split: if_splits)
qed

lemma validated:
  assumes "in_net (validate_upstream_url net hint) w = (r, w1)"
  shows "walk_frame w w1" "w_lists w1 = w_lists w"
    "r = Inr base \<Longrightarrow> base = normalize_server_url hint \<and> vetted net (w_net w1) base \<and> length (w_net w) < length (w_net w1)"
proof -
  obtain lg where lg: "validate_upstream_url net hint (w_net w) = (r, lg)" "w1 = w\<lparr>w_net := lg\<rparr>"
    using assms by (auto simp: in_net_def split: prod.splits)
  obtain ru where ru: "resolve_public_target net (normalize_server_url hint) (w_net w) = (ru, lg)"
    "r = (case ru of Inl err \<Rightarrow> Inl err | Inr _ \<Rightarrow> Inr (normalize_server_url hint))"
    using lg(1) by (cases "resolve_public_target net (normalize_server_url hint) (w_net w)")
      (auto simp: validate_upstream_url_def validate_url_for_ssrf_def Let_def bind_st_def split: sum.splits)
  have "(\<exists>new. lg = w_net w @ new \<and> list_all (\<lambda>ev. case ev of Net_Lookup _ _ \<Rightarrow> True | _ \<Rightarrow> False) new) \<and>
      (\<forall>t. ru = Inr t \<longrightarrow> vetted net lg (normalize_server_url hint) \<and> length (w_net w) < length lg)"
    using ru(1)
    by (auto simp: resolve_public_target_def vetted_def Let_def filter_empty_conv list_ex_iff address_allowed_def
        is_allowed_private_upstream_ip_def split: option.splits dns_answer.splits if_splits)
  then show "walk_frame w w1" "w_lists w1 = w_lists w"
    "r = Inr base \<Longrightarrow> base = normalize_server_url hint \<and> vetted net (w_net w1) base \<and> length (w_net w) < length (w_net w1)"
    using ru(2) lg(2) by (auto simp: walk_frame_def split: sum.splits)
qed

definition yield_ok :: "net_env \<Rightarrow> (tier \<Rightarrow> string \<Rightarrow> bool) \<Rightarrow> walk \<Rightarrow> candidate \<Rightarrow> walk \<Rightarrow> net_log \<Rightarrow> bool" where
  "yield_ok net named wk cd wk' lg \<longleftrightarrow>
     cd_base cd \<notin> wk_tried wk \<and> wk_tried wk' = insert (cd_base cd) (wk_tried wk) \<and>
     blob_url_of (cd_base cd) (wk_filename wk) (cd_url cd) \<and> vetted net lg (cd_base cd) \<and>
     named (cd_tier cd) (cd_base cd) \<and>
     list_all (\<lambda>(t, _). tier_rank (cd_tier cd) \<le> tier_rank t) (wk_pending wk')"

lemma walk_next_spec:
  assumes "walk_next e c wk w = ((r, wk'), w')" "walk_ok e c L named wk" "wk_user_servers_pending wk \<longrightarrow> w_lists w \<in> L"
  shows "walk_ok e c L named wk' \<and> wk_filename wk' = wk_filename wk \<and> walk_frame w w' \<and>
     (case r of None \<Rightarrow> wk_pending wk' = []
      | Some cd \<Rightarrow> yield_ok (ae_net e) named wk cd wk' (w_net w') \<and> length (w_net w) < length (w_net w'))"
  using assms
proof (induction e c wk w rule: walk_next.induct)
  case (1 e c wk w)
  have longer: "length (w_net w1) \<le> length (w_net w2)" if "walk_frame w1 w2" for w1 w2
    using that by (auto simp: walk_frame_def)
  show ?case
  proof (cases "wk_pending wk")
    case Nil
    obtain added wk1 w1 where t: "take_user_servers e c wk w = ((added, wk1), w1)" by (metis surj_pair)
    note ok = take_user_ok [OF t "1.prems"(2) Nil "1.prems"(3)]
    show ?thesis
    proof (cases added)
      case False
      then have "r = None" "wk' = wk1" "w' = w1"
        using "1.prems"(1) Nil t by (simp_all add: walk_next.simps [of e c wk])
      then show ?thesis using ok False by simp
    next
      case True
      then have "walk_next e c wk1 w1 = ((r, wk'), w')" using "1.prems"(1) Nil t by (simp add: walk_next.simps [of e c wk])
      from "1.IH"(1) [OF Nil t [symmetric] refl _ this] ok True walk_frame_trans [of w w1 w'] longer [of w w1] show ?thesis
        by (auto simp: yield_ok_def split: option.splits)
    qed
  next
    case (Cons hd rest)
    obtain t hint where hd: "hd = (t, hint)" by fastforce
    let ?wk = "wk\<lparr>wk_pending := rest\<rparr>"
    obtain rv w1 where v: "in_net (validate_upstream_url (ae_net e) hint) w = (rv, w1)" by fastforce
    have ok: "walk_ok e c L named ?wk" "named t hint" "normalize_server_url hint = hint"
      "list_all (\<lambda>(s, _). tier_rank t \<le> tier_rank s) rest"
      using "1.prems"(2) Cons hd by (auto simp: walk_ok_def list_all_iff)
    have lists: "wk_user_servers_pending ?wk \<longrightarrow> w_lists w1 \<in> L" using "1.prems"(3) validated(2) [OF v] by simp
    note step = walk_next.simps [of e c wk w, unfolded Cons hd list.case prod.case Let_def v]
    have again: ?thesis if "walk_next e c ?wk w1 = ((r, wk'), w')"
      "walk_ok e c L named wk' \<and> wk_filename wk' = wk_filename ?wk \<and> walk_frame w1 w' \<and>
       (case r of None \<Rightarrow> wk_pending wk' = []
        | Some cd \<Rightarrow> yield_ok (ae_net e) named ?wk cd wk' (w_net w') \<and> length (w_net w1) < length (w_net w'))"
      using that(2) walk_frame_trans [OF validated(1) [OF v]] longer [OF validated(1) [OF v]]
      by (auto simp: yield_ok_def split: option.splits)
    show ?thesis
    proof (cases rv)
      case (Inl err)
      then have n: "walk_next e c ?wk w1 = ((r, wk'), w')" using "1.prems"(1) step by simp
      from again [OF n "1.IH"(2) [OF Cons [unfolded hd] refl refl v [symmetric, unfolded Inl] refl n ok(1) lists]] show ?thesis .
    next
      case (Inr base)
      note base = validated(3) [OF v Inr]
      show ?thesis
      proof (cases "base \<in> wk_tried ?wk")
        case True
        then have n: "walk_next e c ?wk w1 = ((r, wk'), w')" using "1.prems"(1) step Inr by simp
        from again [OF n "1.IH"(3) [OF Cons [unfolded hd] refl refl v [symmetric, unfolded Inr] refl True n ok(1) lists]]
        show ?thesis .
      next
        case False
        then show ?thesis using "1.prems"(1) step Inr base ok validated(1) [OF v] candidate_url_of
          by (auto simp: yield_ok_def walk_ok_def)
      qed
    qed
  qed
qed

text \<open>Choosing \<open>named\<close> suitably turns this into statements about all later candidates.\<close>

lemma walk_trace_named:
  assumes "walk_trace e c wk cds" "walk_ok e c L named wk" "(fst \<circ> snd) ` set cds \<subseteq> L"
  shows "list_all (\<lambda>(cd, _, lg). blob_url_of (cd_base cd) (wk_filename wk) (cd_url cd) \<and>
       vetted (ae_net e) lg (cd_base cd) \<and> named (cd_tier cd) (cd_base cd)) cds \<and>
     (cd_base \<circ> fst) ` set cds \<inter> wk_tried wk = {} \<and> distinct (map (cd_base \<circ> fst) cds)"
  using assms
proof (induction rule: walk_trace.induct)
  case (walk_trace_step e c wk w cd wk' w' cds)
  from walk_next_spec [OF walk_trace_step.hyps(1) walk_trace_step.prems(1)] walk_trace_step.prems(2)
  have "walk_ok e c L named wk'" "wk_filename wk' = wk_filename wk" "yield_ok (ae_net e) named wk cd wk' (w_net w')" by auto
  then show ?case using walk_trace_step.IH walk_trace_step.prems(2) by (auto simp: yield_ok_def)
qed simp

lemma walk_trace_sorted:
  assumes "walk_trace e c wk cds" "walk_ok e c UNIV named wk"
  shows "sorted (map (tier_rank \<circ> cd_tier \<circ> fst) cds)"
  using assms
proof (induction rule: walk_trace.induct)
  case (walk_trace_step e c wk w cd wk' w' cds)
  from walk_next_spec [OF walk_trace_step.hyps(1) walk_trace_step.prems]
  have ok: "walk_ok e c UNIV named wk'" "yield_ok (ae_net e) named wk cd wk' (w_net w')" by auto
  have "tier_rank (cd_tier cd) \<le> tier_rank UserServer" by (cases "cd_tier cd") auto
  then have "walk_ok e c UNIV (\<lambda>t _. tier_rank (cd_tier cd) \<le> tier_rank t) wk'"
    using ok by (auto simp: walk_ok_def yield_ok_def list_all_iff)
  from walk_trace_named [OF walk_trace_step.hyps(2) this] walk_trace_step.IH [OF ok(1)]
  show ?case by (auto simp: list_all_iff)
qed simp

section \<open>Properties\<close>

text \<open>C19: The upstream tiers are walked as documented, whatever the caller does between two steps of the
  walk: no server is offered twice, the tiers come in their order of priority (the request's origin,
  its \<open>xs\<close> hints, the configured servers, the author's list), every candidate is a server its tier
  names (for the last tier: one of the author's own list, fresh in the cache at a step of this walk or
  tagged in the newest list event the relays return), its URL is the blob's name below that server, and
  its host has just been looked up and found to have an admissible address.\<close>
theorem walk_candidates_sound:
  assumes "walk_trace e c (walk_new c filename origin xs author) cds"
  shows "distinct (map (cd_base \<circ> fst) cds) \<and> sorted (map (tier_rank \<circ> cd_tier \<circ> fst) cds) \<and>
     list_all (\<lambda>(cd, _, lg). blob_url_of (cd_base cd) filename (cd_url cd) \<and> vetted (ae_net e) lg (cd_base cd) \<and>
       named_by e c origin xs author ((fst \<circ> snd) ` set cds) (cd_tier cd) (cd_base cd)) cds"
  using walk_trace_named [OF assms walk_new_ok subset_refl] walk_trace_sorted [OF assms walk_new_ok]
  by (simp add: walk_new_def)

definition walk_config :: app_config where
  "walk_config = sample_config\<lparr>upstream_servers := [''https://cdn.example'']\<rparr>"

text \<open>A walk that finds its only server in the author's cached list.\<close>

theorem walk_candidates_sound_witness:
  "\<exists>cd known lg. walk_trace mirror_env sample_config (walk_new sample_config ''f'' None None (Some ''pk'')) [(cd, known, lg)] \<and>
     vetted (ae_net mirror_env) lg (cd_base cd) \<and> blob_url_of (cd_base cd) ''f'' (cd_url cd) \<and>
     named_by mirror_env sample_config None None (Some ''pk'') {known} UserServer (cd_base cd)"
proof -
  let ?w = "empty_world store_a\<lparr>w_lists := [(''pk'', [''https://cdn.example''], ae_instant mirror_env)]\<rparr>"
  let ?wk = "walk_new sample_config ''f'' None None (Some ''pk'')"
  have "\<not> is_private_ip (V4 8 8 8 8)" by (simp add: is_private_v4_def)
  then have "\<exists>cd wk' w'. walk_next mirror_env sample_config ?wk ?w = ((Some cd, wk'), w') \<and> cd_tier cd = UserServer"
    by (simp add: walk_next.simps walk_new_def sample_config_def plan_def push_hint_def server_url_candidates_def Let_def
        take_user_servers_def fetch_user_server_list_def cached_list_def
        trim_def is_ascii_whitespace_def byte_of_def has_scheme_def starts_with_def in_net_def validate_upstream_url_def
        validate_url_for_ssrf_def resolve_public_target_def mirror_env_def sample_net_def address_allowed_def)
  then obtain cd wk' w' where n: "walk_next mirror_env sample_config ?wk ?w = ((Some cd, wk'), w')" "cd_tier cd = UserServer"
    by blast
  from walk_trace_step [OF n(1) walk_trace_Nil] walk_candidates_sound [OF walk_trace_step [OF n(1) walk_trace_Nil]] n(2)
  show ?thesis by auto
qed

end
