(* ===== verification/Coalesce.thy ===== *)
theory Coalesce
  imports Candidates
begin

text \<open>
  One download per blob: \<open>src/services/download.rs\<close>. A request that finds a blob neither stored nor being
  fetched claims the negotiation of its hash; the leader asks the servers, the others wait for it. A
  download in progress is published under its hash so that later requests can attach to it.

  Both registries map a key to a shared cell: \<open>w_negotiations\<close> to the address of a phase in \<open>w_phases\<close>,
  \<open>w_ongoing\<close> to the address of a handle in \<open>w_handles\<close>. The guard of a cell is a value its owner holds; a
  guard that is dropped settles its cell at once and leaves the removal of the entry to a spawned task.
\<close>

section \<open>Negotiations\<close>

record negotiation_guard =
  ng_key :: string
  ng_cell :: nat

datatype negotiation_claim = Leader negotiation_guard | Follower nat

definition negotiation_phase_of :: "world \<Rightarrow> nat \<Rightarrow> negotiation_phase" where
  "negotiation_phase_of w i = (case map_of (w_phases w) i of None \<Rightarrow> NegFailed | Some p \<Rightarrow> p)"

definition send_phase :: "nat \<Rightarrow> negotiation_phase \<Rightarrow> world \<Rightarrow> world" where
  "send_phase i p w = w\<lparr>w_phases := hm_insert i p (w_phases w)\<rparr>"

definition remove_negotiation :: "string \<Rightarrow> nat \<Rightarrow> world \<Rightarrow> world" where
  "remove_negotiation key i w =
     (if map_of (w_negotiations w) key = Some i
      then w\<lparr>w_negotiations := hm_remove key (w_negotiations w)\<rparr> else w)"

definition open_negotiation :: "string \<Rightarrow> world \<Rightarrow> negotiation_claim \<times> world" where
  "open_negotiation key w =
     (let i = w_next w in
      (Leader \<lparr>ng_key = key, ng_cell = i\<rparr>,
       w\<lparr>w_next := Suc i, w_phases := hm_insert i NegPending (w_phases w),
         w_negotiations := hm_insert key i (w_negotiations w)\<rparr>))"

definition claim_upstream_negotiation :: "string \<Rightarrow> world \<Rightarrow> negotiation_claim \<times> world" where
  "claim_upstream_negotiation key w =
     (case map_of (w_negotiations w) key of
        Some cell \<Rightarrow>
          if negotiation_phase_of w cell \<noteq> NegFailed then (Follower cell, w)
          else open_negotiation key (w\<lparr>w_negotiations := hm_remove key (w_negotiations w)\<rparr>)
      | None \<Rightarrow> open_negotiation key w)"

definition negotiation_finish :: "negotiation_guard \<Rightarrow> negotiation_phase \<Rightarrow> world \<Rightarrow> world" where
  "negotiation_finish g p w = remove_negotiation (ng_key g) (ng_cell g) (send_phase (ng_cell g) p w)"

definition negotiation_drop :: "negotiation_guard \<Rightarrow> world \<Rightarrow> world" where
  "negotiation_drop g w =
     (let w1 = send_phase (ng_cell g) NegFailed w
      in w1\<lparr>w_spawned := w_spawned w1 @ [Remove_Negotiation (ng_key g) (ng_cell g)]\<rparr>)"

section \<open>Downloads\<close>

record download_guard =
  dg_key :: string
  dg_cell :: nat

definition handle_of :: "world \<Rightarrow> nat \<Rightarrow> download_handle option" where
  "handle_of w i = map_of (w_handles w) i"

definition ongoing_handle :: "world \<Rightarrow> string \<Rightarrow> nat option" where
  "ongoing_handle w key = map_of (w_ongoing w) key"

definition update_handle :: "nat \<Rightarrow> (download_handle \<Rightarrow> download_handle) \<Rightarrow> world \<Rightarrow> world" where
  "update_handle i f w =
     (case handle_of w i of None \<Rightarrow> w | Some d \<Rightarrow> w\<lparr>w_handles := hm_insert i (f d) (w_handles w)\<rparr>)"

definition send_progress :: "nat \<Rightarrow> (download_progress \<Rightarrow> download_progress) \<Rightarrow> world \<Rightarrow> world" where
  "send_progress i f = update_handle i (\<lambda>d. d\<lparr>dh_progress := f (dh_progress d)\<rparr>)"

definition remove_handle :: "string \<Rightarrow> nat \<Rightarrow> world \<Rightarrow> world" where
  "remove_handle key i w =
     (if map_of (w_ongoing w) key = Some i then w\<lparr>w_ongoing := hm_remove key (w_ongoing w)\<rparr> else w)"

definition publish_handle :: "string \<Rightarrow> download_handle \<Rightarrow> world \<Rightarrow> nat \<times> world" where
  "publish_handle key d w =
     (let i = w_next w in
      (i, w\<lparr>w_next := Suc i, w_handles := hm_insert i d (w_handles w),
            w_ongoing := hm_insert key i (w_ongoing w)\<rparr>))"

text \<open>The file exists before the handle is published.\<close>

definition prepare_download_state ::
  "app_env \<Rightarrow> app_config \<Rightarrow> string \<Rightarrow> string \<Rightarrow> u64 option \<Rightarrow> world \<Rightarrow> download_guard app_result \<times> world" where
  "prepare_download_state e c filename content_type total_len w =
     (let h = env_host e;
          temp_path = temp_reserve c h ''upstream'' (get_extension_from_mime (ae_extensions e) content_type)
      in bind_st (err_st (\<lambda>err. IoError (''Failed to create temp directory: '' @ io_text err))
                   (in_files (fs_create_dir_all h (temp (storage c))) w)) (\<lambda>_ w1.
         bind_st (err_st (\<lambda>err. IoError (''Failed to create temp file: '' @ io_text err))
                   (in_files (fs_create h temp_path) w1)) (\<lambda>_ w2.
         let (i, w3) = publish_handle filename
               \<lparr>dh_temp_path = temp_path, dh_content_type = content_type, dh_total_len = total_len,
                dh_progress = \<lparr>written = 0, phase = Running\<rparr>, dh_final_path = None\<rparr> w2
         in (Inr \<lparr>dg_key = filename, dg_cell = i\<rparr>, w3))))"

definition download_finish :: "download_guard \<Rightarrow> download_phase \<Rightarrow> world \<Rightarrow> world" where
  "download_finish g p w = remove_handle (dg_key g) (dg_cell g) (send_progress (dg_cell g) (\<lambda>pr. pr\<lparr>phase := p\<rparr>) w)"

definition download_drop :: "download_guard \<Rightarrow> world \<Rightarrow> world" where
  "download_drop g w =
     (let w1 = send_progress (dg_cell g) (\<lambda>pr. if phase pr = Running then pr\<lparr>phase := Failed\<rparr> else pr) w
      in w1\<lparr>w_spawned := w_spawned w1 @ [Remove_Handle (dg_key g) (dg_cell g)]\<rparr>)"

definition remove_from_ongoing_downloads :: "string \<Rightarrow> world \<Rightarrow> world" where
  "remove_from_ongoing_downloads filename w = w\<lparr>w_ongoing := hm_remove filename (w_ongoing w)\<rparr>"

definition is_download_in_progress :: "world \<Rightarrow> string \<Rightarrow> bool" where
  "is_download_in_progress w filename \<longleftrightarrow> map_of (w_ongoing w) filename \<noteq> None"

definition mark_failed_lookup :: "app_env \<Rightarrow> string \<Rightarrow> world \<Rightarrow> world" where
  "mark_failed_lookup e filename w = w\<lparr>w_failed := hm_insert filename (ae_instant e) (w_failed w)\<rparr>"

definition is_recently_failed :: "app_env \<Rightarrow> world \<Rightarrow> string \<Rightarrow> bool" where
  "is_recently_failed e w filename \<longleftrightarrow>
     (case map_of (w_failed w) filename of None \<Rightarrow> False | Some failed_time \<Rightarrow> ae_instant e - failed_time < 3600)"

text \<open>The tasks the guards leave behind.\<close>

fun run_removal :: "job \<Rightarrow> world \<Rightarrow> world" where
  "run_removal (Remove_Negotiation key i) w = remove_negotiation key i w"
| "run_removal (Remove_Handle key i) w = remove_handle key i w"
| "run_removal _ w = w"

section \<open>A registry of guarded cells\<close>

text \<open>
  What the two registries have in common. Every entry that is not settled has its guard, and guards
  have cells of their own; the entry of a cell is removed only if it still is that cell.
\<close>

definition guards_ok ::
  "('s \<Rightarrow> string \<Rightarrow> nat option) \<Rightarrow> ('s \<Rightarrow> nat \<Rightarrow> bool) \<Rightarrow> ('s \<Rightarrow> nat \<Rightarrow> bool) \<Rightarrow> 's \<Rightarrow> (string \<times> nat) list \<Rightarrow> bool" where
  "guards_ok entry used settled s gs \<longleftrightarrow>
     distinct (map snd gs) \<and> (\<forall>(k, i) \<in> set gs. used s i \<and> \<not> settled s i) \<and>
     (\<forall>k i. entry s k = Some i \<longrightarrow> used s i \<and> (settled s i \<or> (k, i) \<in> set gs))"

definition leaders_registered :: "('s \<Rightarrow> string \<Rightarrow> nat option) \<Rightarrow> 's \<Rightarrow> (string \<times> nat) list \<Rightarrow> bool" where
  "leaders_registered entry s gs \<longleftrightarrow> (\<forall>(k, i) \<in> set gs. entry s k = Some i)"

lemma leaders_distinct:
  "leaders_registered entry s gs \<Longrightarrow> distinct (map snd gs) \<Longrightarrow> distinct (map fst gs)"
proof (induction gs)
  case (Cons g gs)
  then show ?case by (cases g) (force simp: leaders_registered_def)
qed simp

locale guarded_registry =
  fixes entry :: "'s \<Rightarrow> string \<Rightarrow> nat option"
    and used :: "'s \<Rightarrow> nat \<Rightarrow> bool"
    and settled :: "'s \<Rightarrow> nat \<Rightarrow> bool"
    and enrol :: "string \<Rightarrow> 'x \<Rightarrow> 's \<Rightarrow> nat \<times> 's"
    and settle :: "'p \<Rightarrow> nat \<Rightarrow> 's \<Rightarrow> 's"
    and unregister :: "string \<Rightarrow> nat \<Rightarrow> 's \<Rightarrow> 's"
  assumes enrolled: "enrol k x s = (i, s') \<Longrightarrow>
      entry s' = (entry s)(k \<mapsto> i) \<and> \<not> used s i \<and> used s' i \<and> \<not> settled s' i \<and>
      (\<forall>j. j \<noteq> i \<longrightarrow> used s' j = used s j \<and> settled s' j = settled s j)"
    and settle_entry: "entry (settle p i s) = entry s"
    and settle_used: "used (settle p i s) = used s"
    and settle_settled: "settled (settle p i s) = (settled s)(i := True)"
    and unregister_entry: "entry (unregister k i s) = (if entry s k = Some i then (entry s)(k := None) else entry s)"
    and unregister_used: "used (unregister k i s) = used s"
    and unregister_settled: "settled (unregister k i s) = settled s"
begin

lemma enrol_ok:
  assumes "guards_ok entry used settled s gs" "enrol k x s = (i, s')"
  shows "guards_ok entry used settled s' ((k, i) # gs)"
proof -
  note e = enrolled [OF assms(2)]
  have "j \<noteq> i" if "(l, j) \<in> set gs" for l j using assms(1) that e by (auto simp: guards_ok_def)
  moreover have "j \<noteq> i" if "entry s l = Some j" for l j using assms(1) that e by (auto simp: guards_ok_def)
  ultimately show ?thesis using assms(1) e unfolding guards_ok_def by (auto 4 3 split: if_splits)
qed

lemma enrol_leads:
  assumes "guards_ok entry used settled s gs" "leaders_registered entry s gs" "enrol k x s = (i, s')"
    and "\<And>j. entry s k = Some j \<Longrightarrow> settled s j"
  shows "leaders_registered entry s' ((k, i) # gs)"
  using assms enrolled [OF assms(3)] by (fastforce simp: leaders_registered_def guards_ok_def)

lemma settle_ok:
  assumes "guards_ok entry used settled s gs"
  shows "guards_ok entry used settled (settle p i s) (filter (\<lambda>g. snd g \<noteq> i) gs)"
  using assms by (auto simp: guards_ok_def settle_entry settle_used settle_settled distinct_map_filter)

lemma settle_leads:
  "leaders_registered entry s gs \<Longrightarrow> leaders_registered entry (settle p i s) (filter (\<lambda>g. snd g \<noteq> i) gs)"
  by (auto simp: leaders_registered_def settle_entry)

lemma unregister_ok:
  assumes "guards_ok entry used settled s gs"
  shows "guards_ok entry used settled (unregister k i s) gs"
  using assms by (auto simp: guards_ok_def unregister_entry unregister_used unregister_settled)

lemma unregister_leads:
  assumes "guards_ok entry used settled s gs" "leaders_registered entry s gs" "settled s i"
  shows "leaders_registered entry (unregister k i s) gs"
proof -
  have "i \<noteq> j" if "(l, j) \<in> set gs" for l j using assms(1,3) that by (auto simp: guards_ok_def)
  then show ?thesis using assms(2) by (fastforce simp: leaders_registered_def unregister_entry)
qed

end

lemma guards_ok_mono:
  assumes "guards_ok entry used settled s gs" "entry s' = entry s" "\<And>i. used s i \<Longrightarrow> used s' i"
    "\<And>i. used s i \<Longrightarrow> settled s' i = settled s i"
  shows "guards_ok entry used settled s' gs"
  using assms unfolding guards_ok_def by fastforce

definition cell_used :: "world \<Rightarrow> nat \<Rightarrow> bool" where
  "cell_used w i \<longleftrightarrow> i < w_next w"

definition negotiation_entry :: "world \<Rightarrow> string \<Rightarrow> nat option" where
  "negotiation_entry w = map_of (w_negotiations w)"

definition negotiation_settled :: "world \<Rightarrow> nat \<Rightarrow> bool" where
  "negotiation_settled w i \<longleftrightarrow> negotiation_phase_of w i \<noteq> NegPending"

definition open_cell :: "string \<Rightarrow> unit \<Rightarrow> world \<Rightarrow> nat \<times> world" where
  "open_cell key _ w =
     (case open_negotiation key w of (Leader g, w') \<Rightarrow> (ng_cell g, w') | (Follower i, w') \<Rightarrow> (i, w'))"

definition send_final :: "bool \<Rightarrow> nat \<Rightarrow> world \<Rightarrow> world" where
  "send_final ok i w = send_phase i (if ok then NegReady else NegFailed) w"

definition download_settled :: "world \<Rightarrow> nat \<Rightarrow> bool" where
  "download_settled w i \<longleftrightarrow> (case handle_of w i of None \<Rightarrow> True | Some d \<Rightarrow> phase (dh_progress d) \<noteq> Running)"

definition publish_running :: "string \<Rightarrow> path \<times> string \<times> u64 option \<Rightarrow> world \<Rightarrow> nat \<times> world" where
  "publish_running key = (\<lambda>(temp_path, content_type, total_len).
     publish_handle key \<lparr>dh_temp_path = temp_path, dh_content_type = content_type, dh_total_len = total_len,
                         dh_progress = \<lparr>written = 0, phase = Running\<rparr>, dh_final_path = None\<rparr>)"

definition send_outcome :: "bool \<Rightarrow> nat \<Rightarrow> world \<Rightarrow> world" where
  "send_outcome ok i w = send_progress i (\<lambda>pr. pr\<lparr>phase := if ok then Complete else Failed\<rparr>) w"

interpretation negotiations: guarded_registry negotiation_entry cell_used negotiation_settled open_cell send_final remove_negotiation
  by unfold_locales
    (auto simp: negotiation_entry_def cell_used_def negotiation_settled_def negotiation_phase_of_def open_cell_def
      open_negotiation_def send_final_def send_phase_def remove_negotiation_def Let_def hm_simps fun_eq_iff)

interpretation downloads: guarded_registry ongoing_handle cell_used download_settled publish_running send_outcome remove_handle
  by unfold_locales
    (auto simp: ongoing_handle_def cell_used_def download_settled_def handle_of_def publish_running_def publish_handle_def
      send_outcome_def send_progress_def update_handle_def remove_handle_def Let_def hm_simps fun_eq_iff
      split: option.splits)

section \<open>All interleavings\<close>

definition is_removal :: "job \<Rightarrow> bool" where
  "is_removal j \<longleftrightarrow> (case j of Remove_Negotiation _ _ \<Rightarrow> True | Remove_Handle _ _ \<Rightarrow> True | _ \<Rightarrow> False)"

text \<open>Nothing outside this file touches the registries or leaves removal tasks.\<close>

definition registries_kept :: "world \<Rightarrow> world \<Rightarrow> bool" where
  "registries_kept w w' \<longleftrightarrow>
     w_next w' = w_next w \<and> w_phases w' = w_phases w \<and> w_negotiations w' = w_negotiations w \<and>
     w_handles w' = w_handles w \<and> w_ongoing w' = w_ongoing w \<and>
     filter is_removal (w_spawned w') = filter is_removal (w_spawned w)"

text \<open>
  The state of the protocol: the world with the guards that are alive, of leaders and of downloads. One
  step is one operation of any task; the environment and configuration may differ from step to step.
\<close>

type_synonym coalesce_state = "world \<times> negotiation_guard list \<times> download_guard list"

inductive coalesce_step :: "coalesce_state \<Rightarrow> coalesce_state \<Rightarrow> bool" where
  cs_lead: "claim_upstream_negotiation key w = (Leader g, w') \<Longrightarrow> coalesce_step (w, ns, ds) (w', g # ns, ds)"
| cs_follow: "claim_upstream_negotiation key w = (Follower i, w') \<Longrightarrow> coalesce_step (w, ns, ds) (w', ns, ds)"
| cs_finish: "g \<in> set ns \<Longrightarrow> coalesce_step (w, ns, ds)
    (negotiation_finish g (if ok then NegReady else NegFailed) w, removeAll g ns, ds)"
| cs_drop: "g \<in> set ns \<Longrightarrow> coalesce_step (w, ns, ds) (negotiation_drop g w, removeAll g ns, ds)"
| cs_prepare: "prepare_download_state e c filename content_type len w = (Inr g, w') \<Longrightarrow>
    coalesce_step (w, ns, ds) (w', ns, g # ds)"
| cs_prepare_failed: "prepare_download_state e c filename content_type len w = (Inl err, w') \<Longrightarrow>
    coalesce_step (w, ns, ds) (w', ns, ds)"
| cs_written: "coalesce_step (w, ns, ds) (send_progress i (\<lambda>pr. pr\<lparr>written := n\<rparr>) w, ns, ds)"
| cs_stored: "coalesce_step (w, ns, ds) (update_handle i (\<lambda>d. d\<lparr>dh_final_path := Some p\<rparr>) w, ns, ds)"
| cs_dl_finish: "g \<in> set ds \<Longrightarrow> coalesce_step (w, ns, ds)
    (download_finish g (if ok then Complete else Failed) w, ns, removeAll g ds)"
| cs_dl_drop: "g \<in> set ds \<Longrightarrow> coalesce_step (w, ns, ds) (download_drop g w, ns, removeAll g ds)"
| cs_removal: "j \<in> set (w_spawned w) \<Longrightarrow> is_removal j \<Longrightarrow> coalesce_step (w, ns, ds)
    (run_removal j (w\<lparr>w_spawned := remove1 j (w_spawned w)\<rparr>), ns, ds)"
| cs_other: "registries_kept w w' \<Longrightarrow> coalesce_step (w, ns, ds) (w', ns, ds)"

inductive coalesce_reach :: "world \<Rightarrow> coalesce_state \<Rightarrow> bool" for w0 where
  cr_start: "coalesce_reach w0 (w0, [], [])"
| cr_step: "coalesce_reach w0 s \<Longrightarrow> coalesce_step s s' \<Longrightarrow> coalesce_reach w0 s'"

definition registries_empty :: "world \<Rightarrow> bool" where
  "registries_empty w \<longleftrightarrow> w_negotiations w = [] \<and> w_ongoing w = [] \<and> list_all (\<lambda>j. \<not> is_removal j) (w_spawned w)"

definition neg_pair :: "negotiation_guard \<Rightarrow> string \<times> nat" where
  "neg_pair g = (ng_key g, ng_cell g)"

definition dl_pair :: "download_guard \<Rightarrow> string \<times> nat" where
  "dl_pair g = (dg_key g, dg_cell g)"

lemma pair_inj: "neg_pair g = neg_pair g' \<longleftrightarrow> g = g'" "dl_pair d = dl_pair d' \<longleftrightarrow> d = d'"
  by (auto simp: neg_pair_def dl_pair_def)

lemma snd_pairs: "snd (neg_pair g) = ng_cell g" "snd (dl_pair d) = dg_cell d"
  by (simp_all add: neg_pair_def dl_pair_def)

text \<open>A removal task is only ever left for a settled cell.\<close>

definition removal_settled :: "world \<Rightarrow> job \<Rightarrow> bool" where
  "removal_settled w j =
     (case j of Remove_Negotiation _ i \<Rightarrow> cell_used w i \<and> negotiation_settled w i
      | Remove_Handle _ i \<Rightarrow> cell_used w i \<and> download_settled w i | _ \<Rightarrow> True)"

abbreviation negs_ok :: "world \<Rightarrow> negotiation_guard list \<Rightarrow> bool" where
  "negs_ok w ns \<equiv> guards_ok negotiation_entry cell_used negotiation_settled w (map neg_pair ns)"

abbreviation dls_ok :: "world \<Rightarrow> download_guard list \<Rightarrow> bool" where
  "dls_ok w ds \<equiv> guards_ok ongoing_handle cell_used download_settled w (map dl_pair ds)"

fun coalesce_inv :: "coalesce_state \<Rightarrow> bool" where
  "coalesce_inv (w, ns, ds) \<longleftrightarrow>
     negs_ok w ns \<and> leaders_registered negotiation_entry w (map neg_pair ns) \<and> dls_ok w ds \<and>
     list_all (removal_settled w) (w_spawned w)"

lemma removals_mono:
  assumes "list_all (removal_settled w) js" "\<And>i. cell_used w i \<Longrightarrow> cell_used w' i"
    "\<And>i. cell_used w i \<Longrightarrow> negotiation_settled w i \<Longrightarrow> negotiation_settled w' i"
    "\<And>i. cell_used w i \<Longrightarrow> download_settled w i \<Longrightarrow> download_settled w' i"
  shows "list_all (removal_settled w') js"
  using assms unfolding list_all_iff removal_settled_def by (fastforce split: job.splits)

lemma guards_filter:
  assumes "distinct (map snd (map f gs))" "g \<in> set gs" "\<And>x y. f x = f y \<longleftrightarrow> x = y"
  shows "filter (\<lambda>p. snd p \<noteq> snd (f g)) (map f gs) = map f (removeAll g gs)"
proof -
  have "(snd (f x) \<noteq> snd (f g)) = (g \<noteq> x)" if "x \<in> set gs" for x
    using assms that by (auto simp: distinct_map inj_on_def)
  then show ?thesis unfolding filter_map removeAll_filter_not_eq by (auto intro!: arg_cong [of _ _ "map f"] filter_cong)
qed

text \<open>What one registry's operations leave alone in the other.\<close>

lemma other_registry:
  "ongoing_handle (send_phase i p w) = ongoing_handle w" "download_settled (send_phase i p w) = download_settled w"
  "ongoing_handle (remove_negotiation k i w) = ongoing_handle w"
  "download_settled (remove_negotiation k i w) = download_settled w"
  "negotiation_entry (send_progress i f w) = negotiation_entry w"
  "negotiation_settled (send_progress i f w) = negotiation_settled w"
  "negotiation_entry (remove_handle k i w) = negotiation_entry w"
  "negotiation_settled (remove_handle k i w) = negotiation_settled w"
  "cell_used (send_phase i p w) = cell_used w" "cell_used (remove_negotiation k i w) = cell_used w"
  "cell_used (send_progress i f w) = cell_used w" "cell_used (remove_handle k i w) = cell_used w"
  "w_spawned (send_phase i p w) = w_spawned w" "w_spawned (remove_negotiation k i w) = w_spawned w"
  "w_spawned (send_progress i f w) = w_spawned w" "w_spawned (remove_handle k i w) = w_spawned w"
  by (auto simp: ongoing_handle_def download_settled_def handle_of_def send_phase_def remove_negotiation_def
      negotiation_entry_def negotiation_settled_def negotiation_phase_of_def send_progress_def update_handle_def
      remove_handle_def cell_used_def fun_eq_iff split: option.splits)

lemma same_views:
  assumes "registries_kept w w'"
  shows "negotiation_entry w' = negotiation_entry w" "negotiation_settled w' = negotiation_settled w"
    "ongoing_handle w' = ongoing_handle w" "download_settled w' = download_settled w" "cell_used w' = cell_used w"
  using assms
  by (auto simp: registries_kept_def negotiation_entry_def negotiation_settled_def negotiation_phase_of_def
      ongoing_handle_def download_settled_def handle_of_def cell_used_def fun_eq_iff)

lemma coalesce_inv_cong:
  assumes "negotiation_entry w' = negotiation_entry w" "negotiation_settled w' = negotiation_settled w"
    "ongoing_handle w' = ongoing_handle w" "download_settled w' = download_settled w" "cell_used w' = cell_used w"
    "set (filter is_removal (w_spawned w')) \<subseteq> set (filter is_removal (w_spawned w))"
    "coalesce_inv (w, ns, ds)"
  shows "coalesce_inv (w', ns, ds)"
proof -
  have "removal_settled w' = removal_settled w"
    using assms(2,4,5) by (auto simp: removal_settled_def fun_eq_iff split: job.splits)
  moreover have "\<not> is_removal j \<Longrightarrow> removal_settled w j" for j
    by (auto simp: is_removal_def removal_settled_def split: job.splits)
  ultimately have "list_all (removal_settled w') (w_spawned w')"
    using assms(6,7) unfolding coalesce_inv.simps list_all_iff by (auto simp: subset_iff)
  then show ?thesis using assms by (auto simp: guards_ok_def leaders_registered_def)
qed

lemma send_final_phase: "send_phase i (if ok then NegReady else NegFailed) w = send_final ok i w"
  by (simp add: send_final_def)

lemma inv_send_final:
  assumes "coalesce_inv (w, ns, ds)" "g \<in> set ns"
  shows "coalesce_inv (send_final ok (ng_cell g) w, removeAll g ns, ds)"
    "negotiation_settled (send_final ok (ng_cell g) w) (ng_cell g)" "cell_used (send_final ok (ng_cell g) w) (ng_cell g)"
proof -
  let ?w = "send_final ok (ng_cell g) w"
  have n: "negs_ok w ns" "leaders_registered negotiation_entry w (map neg_pair ns)" "dls_ok w ds"
    "list_all (removal_settled w) (w_spawned w)"
    using assms(1) by auto
  then have "distinct (map snd (map neg_pair ns))" by (simp add: guards_ok_def)
  from guards_filter [OF this assms(2) pair_inj(1)]
  have f: "filter (\<lambda>p. snd p \<noteq> ng_cell g) (map neg_pair ns) = map neg_pair (removeAll g ns)" by (simp only: snd_pairs)
  have "negs_ok ?w (removeAll g ns)" using negotiations.settle_ok [OF n(1), of ok "ng_cell g"] by (simp add: f)
  moreover have "leaders_registered negotiation_entry ?w (map neg_pair (removeAll g ns))"
    using negotiations.settle_leads [OF n(2), of ok "ng_cell g"] by (simp add: f)
  moreover have "dls_ok ?w ds"
    by (rule guards_ok_mono [OF n(3)]) (simp_all add: send_final_def other_registry)
  moreover have "list_all (removal_settled ?w) (w_spawned w)"
    by (rule removals_mono [OF n(4)])
      (auto simp: negotiations.settle_settled negotiations.settle_used, simp_all add: send_final_def other_registry)
  ultimately show "coalesce_inv (?w, removeAll g ns, ds)" by (simp add: send_final_def other_registry)
  show "negotiation_settled (send_final ok (ng_cell g) w) (ng_cell g)" by (simp add: negotiations.settle_settled)
  show "cell_used (send_final ok (ng_cell g) w) (ng_cell g)"
    using n(1) assms(2) by (auto simp: negotiations.settle_used guards_ok_def neg_pair_def)
qed

lemma inv_send_outcome:
  assumes "coalesce_inv (w, ns, ds)" "g \<in> set ds"
  shows "coalesce_inv (send_outcome ok (dg_cell g) w, ns, removeAll g ds)"
    "download_settled (send_outcome ok (dg_cell g) w) (dg_cell g)" "cell_used (send_outcome ok (dg_cell g) w) (dg_cell g)"
proof -
  let ?w = "send_outcome ok (dg_cell g) w"
  have n: "negs_ok w ns" "leaders_registered negotiation_entry w (map neg_pair ns)" "dls_ok w ds"
    "list_all (removal_settled w) (w_spawned w)"
    using assms(1) by auto
  then have "distinct (map snd (map dl_pair ds))" by (simp add: guards_ok_def)
  from guards_filter [OF this assms(2) pair_inj(2)]
  have f: "filter (\<lambda>p. snd p \<noteq> dg_cell g) (map dl_pair ds) = map dl_pair (removeAll g ds)" by (simp only: snd_pairs)
  have "dls_ok ?w (removeAll g ds)" using downloads.settle_ok [OF n(3), of ok "dg_cell g"] by (simp add: f)
  moreover have "negs_ok ?w ns" "leaders_registered negotiation_entry ?w (map neg_pair ns)"
    using n(1,2) by (auto intro: guards_ok_mono simp: send_outcome_def other_registry leaders_registered_def)
  moreover have "list_all (removal_settled ?w) (w_spawned w)"
    by (rule removals_mono [OF n(4)])
      (auto simp: downloads.settle_settled downloads.settle_used, simp_all add: send_outcome_def other_registry)
  ultimately show "coalesce_inv (?w, ns, removeAll g ds)" by (simp add: send_outcome_def other_registry)
  show "download_settled (send_outcome ok (dg_cell g) w) (dg_cell g)" by (simp add: downloads.settle_settled)
  show "cell_used (send_outcome ok (dg_cell g) w) (dg_cell g)"
    using n(3) assms(2) by (auto simp: downloads.settle_used guards_ok_def dl_pair_def)
qed

lemma inv_remove_negotiation:
  assumes "coalesce_inv (w, ns, ds)" "negotiation_settled w i"
  shows "coalesce_inv (remove_negotiation k i w, ns, ds)"
proof -
  have n: "negs_ok w ns" "leaders_registered negotiation_entry w (map neg_pair ns)" "dls_ok w ds"
    "list_all (removal_settled w) (w_spawned w)"
    using assms(1) by auto
  have "dls_ok (remove_negotiation k i w) ds"
    by (rule guards_ok_mono [OF n(3)]) (simp_all add: other_registry)
  moreover have "list_all (removal_settled (remove_negotiation k i w)) (w_spawned w)"
    by (rule removals_mono [OF n(4)]) (simp_all add: negotiations.unregister_settled other_registry)
  ultimately show ?thesis
    using negotiations.unregister_ok [OF n(1)] negotiations.unregister_leads [OF n(1,2) assms(2)]
    by (simp add: other_registry)
qed

lemma inv_remove_handle:
  assumes "coalesce_inv (w, ns, ds)"
  shows "coalesce_inv (remove_handle k i w, ns, ds)"
proof -
  have n: "negs_ok w ns" "leaders_registered negotiation_entry w (map neg_pair ns)" "dls_ok w ds"
    "list_all (removal_settled w) (w_spawned w)"
    using assms(1) by auto
  have "negs_ok (remove_handle k i w) ns"
    by (rule guards_ok_mono [OF n(1)]) (simp_all add: other_registry)
  moreover have "leaders_registered negotiation_entry (remove_handle k i w) (map neg_pair ns)"
    using n(2) by (simp add: leaders_registered_def other_registry)
  moreover have "list_all (removal_settled (remove_handle k i w)) (w_spawned w)"
    by (rule removals_mono [OF n(4)]) (simp_all add: downloads.unregister_settled other_registry)
  ultimately show ?thesis using downloads.unregister_ok [OF n(3)] by (simp add: other_registry)
qed

lemma spawned_views:
  "negotiation_entry (w\<lparr>w_spawned := js\<rparr>) = negotiation_entry w"
  "negotiation_settled (w\<lparr>w_spawned := js\<rparr>) = negotiation_settled w"
  "ongoing_handle (w\<lparr>w_spawned := js\<rparr>) = ongoing_handle w"
  "download_settled (w\<lparr>w_spawned := js\<rparr>) = download_settled w"
  "cell_used (w\<lparr>w_spawned := js\<rparr>) = cell_used w"
  "removal_settled (w\<lparr>w_spawned := js\<rparr>) = removal_settled w"
  by (auto simp: negotiation_entry_def negotiation_settled_def negotiation_phase_of_def
      ongoing_handle_def download_settled_def handle_of_def cell_used_def removal_settled_def fun_eq_iff split: job.splits)

lemma inv_leave_removal:
  assumes "coalesce_inv (w, ns, ds)" "removal_settled w j"
  shows "coalesce_inv (w\<lparr>w_spawned := w_spawned w @ [j]\<rparr>, ns, ds)"
  using assms by (simp add: spawned_views guards_ok_def leaders_registered_def)

lemma drop_outcome:
  assumes "\<not> download_settled w (dg_cell g)"
  shows "download_drop g w = (let w1 = send_outcome False (dg_cell g) w
     in w1\<lparr>w_spawned := w_spawned w1 @ [Remove_Handle (dg_key g) (dg_cell g)]\<rparr>)"
  using assms
  by (auto simp: download_drop_def send_outcome_def send_progress_def update_handle_def download_settled_def Let_def
      split: option.splits)

lemma open_shape:
  "open_negotiation key w = (Leader \<lparr>ng_key = key, ng_cell = fst (open_cell key () w)\<rparr>, snd (open_cell key () w))"
  by (simp add: open_cell_def open_negotiation_def Let_def)

lemma open_frame:
  "ongoing_handle (snd (open_cell key u w)) = ongoing_handle w" "download_settled (snd (open_cell key u w)) = download_settled w"
  "cell_used w i \<Longrightarrow> cell_used (snd (open_cell key u w)) i" "w_spawned (snd (open_cell key u w)) = w_spawned w"
  by (simp_all add: open_cell_def open_negotiation_def Let_def ongoing_handle_def download_settled_def handle_of_def
      cell_used_def fun_eq_iff)

lemma inv_open:
  assumes "coalesce_inv (w, ns, ds)" "\<And>j. negotiation_entry w key = Some j \<Longrightarrow> negotiation_settled w j"
    "open_negotiation key w = (Leader g, w')"
  shows "coalesce_inv (w', g # ns, ds)"
proof -
  have n: "negs_ok w ns" "leaders_registered negotiation_entry w (map neg_pair ns)" "dls_ok w ds"
    "list_all (removal_settled w) (w_spawned w)"
    using assms(1) by auto
  obtain i where o: "open_cell key () w = (i, w')" "g = \<lparr>ng_key = key, ng_cell = i\<rparr>"
    using assms(3) open_shape [of key w] by (cases "open_cell key () w") auto
  note fr = open_frame [where key = key and u = "()" and w = w, unfolded o(1) snd_conv]
  have "dls_ok w' ds" by (rule guards_ok_mono [OF n(3)]) (simp_all add: fr)
  moreover have "list_all (removal_settled w') (w_spawned w')"
    unfolding fr(4) by (rule removals_mono [OF n(4)]) (use negotiations.enrolled [OF o(1)] in \<open>auto simp: fr\<close>)
  ultimately show ?thesis
    using negotiations.enrol_ok [OF n(1) o(1)] negotiations.enrol_leads [OF n(1,2) o(1) assms(2)]
    by (simp add: o(2) neg_pair_def)
qed

lemma inv_claim:
  assumes "coalesce_inv (w, ns, ds)"
  shows "claim_upstream_negotiation key w = (Leader g, w') \<Longrightarrow> coalesce_inv (w', g # ns, ds)"
    "claim_upstream_negotiation key w = (Follower i, w') \<Longrightarrow> w' = w"
proof -
  assume c: "claim_upstream_negotiation key w = (Leader g, w')"
  show "coalesce_inv (w', g # ns, ds)"
  proof (cases "map_of (w_negotiations w) key")
    case None
    then have "open_negotiation key w = (Leader g, w')" using c by (simp add: claim_upstream_negotiation_def)
    from inv_open [OF assms _ this] None show ?thesis by (simp add: negotiation_entry_def)
  next
    case (Some j)
    then have s: "negotiation_settled w j" and o: "open_negotiation key (remove_negotiation key j w) = (Leader g, w')"
      using c by (auto simp: claim_upstream_negotiation_def negotiation_settled_def remove_negotiation_def split: if_splits)
    have "negotiation_entry (remove_negotiation key j w) key = None"
      unfolding negotiations.unregister_entry using Some by (simp add: negotiation_entry_def)
    then show ?thesis using inv_open [OF inv_remove_negotiation [OF assms s] _ o] by simp
  qed
qed (auto simp: claim_upstream_negotiation_def open_negotiation_def Let_def split: option.splits if_splits)

lemma registries_files:
  "in_files f w = (r, w') \<Longrightarrow> registries_kept w w'"
  by (auto simp: in_files_def registries_kept_def split: prod.splits)

lemma kept_inv:
  assumes "registries_kept w w'" "coalesce_inv (w, ns, ds)"
  shows "coalesce_inv (w', ns, ds)"
  using assms(1) by (intro coalesce_inv_cong [OF same_views [OF assms(1)] _ assms(2)]) (simp add: registries_kept_def)

lemma prepare_shape:
  assumes "prepare_download_state e c filename content_type len w = (r, w')"
  shows "\<exists>w2. registries_kept w w2 \<and>
     (case r of Inl _ \<Rightarrow> w' = w2
      | Inr g \<Rightarrow> \<exists>p. dg_key g = filename \<and> publish_running filename (p, content_type, len) w2 = (dg_cell g, w'))"
proof -
  let ?h = "env_host e"
  let ?p = "temp_reserve c ?h ''upstream'' (get_extension_from_mime (ae_extensions e) content_type)"
  obtain r1 w1 where 1: "in_files (fs_create_dir_all ?h (temp (storage c))) w = (r1, w1)" by fastforce
  obtain r2 w2 where 2: "in_files (fs_create ?h ?p) w1 = (r2, w2)" by fastforce
  have k: "registries_kept w w1" "registries_kept w w2"
    using registries_files [OF 1] registries_files [OF 2] by (auto simp: registries_kept_def)
  obtain i w3 where 3: "publish_running filename (?p, content_type, len) w2 = (i, w3)" by fastforce
  show ?thesis
  proof (cases "r1 = Inr () \<and> r2 = Inr ()")
    case True
    then have "r = Inr \<lparr>dg_key = filename, dg_cell = i\<rparr>" "w' = w3"
      using assms 1 2 3 by (simp_all add: prepare_download_state_def Let_def publish_running_def)
    then show ?thesis using k(2) 3 by auto
  next
    case False
    then show ?thesis using assms 1 2 k
      by (cases r1; cases r2) (auto simp: prepare_download_state_def Let_def)
  qed
qed

lemma publish_frame:
  assumes "publish_running key x w = (i, w')"
  shows "negotiation_entry w' = negotiation_entry w" "negotiation_settled w' = negotiation_settled w"
    "cell_used w j \<Longrightarrow> cell_used w' j" "w_spawned w' = w_spawned w"
  using assms
  by (auto simp: publish_running_def publish_handle_def Let_def negotiation_entry_def negotiation_settled_def
      negotiation_phase_of_def cell_used_def fun_eq_iff split: prod.splits)

lemma inv_prepare:
  assumes "coalesce_inv (w, ns, ds)" "prepare_download_state e c filename content_type len w = (r, w')"
  shows "case r of Inl _ \<Rightarrow> coalesce_inv (w', ns, ds) | Inr g \<Rightarrow> coalesce_inv (w', ns, g # ds)"
proof -
  obtain w2 where k: "registries_kept w w2" and r: "case r of Inl _ \<Rightarrow> w' = w2
      | Inr g \<Rightarrow> \<exists>p. dg_key g = filename \<and> publish_running filename (p, content_type, len) w2 = (dg_cell g, w')"
    using prepare_shape [OF assms(2)] by blast
  note i2 = kept_inv [OF k assms(1)]
  show ?thesis
  proof (cases r)
    case (Inr g)
    then obtain p where p: "dg_key g = filename" "publish_running filename (p, content_type, len) w2 = (dg_cell g, w')"
      using r by auto
    have n: "negs_ok w2 ns" "leaders_registered negotiation_entry w2 (map neg_pair ns)" "dls_ok w2 ds"
      "list_all (removal_settled w2) (w_spawned w2)"
      using i2 by auto
    note fr = publish_frame [OF p(2)]
    have "negs_ok w' ns" by (rule guards_ok_mono [OF n(1)]) (simp_all add: fr)
    moreover have "leaders_registered negotiation_entry w' (map neg_pair ns)"
      using n(2) by (simp add: leaders_registered_def fr)
    moreover have "list_all (removal_settled w') (w_spawned w')"
      unfolding fr(4) by (rule removals_mono [OF n(4)]) (use downloads.enrolled [OF p(2)] in \<open>auto simp: fr, metis\<close>)
    ultimately show ?thesis using downloads.enrol_ok [OF n(3) p(2)] by (simp add: Inr dl_pair_def p(1))
  qed (use i2 r in simp)
qed

lemma update_views:
  assumes "\<And>d. phase (dh_progress (f d)) = phase (dh_progress d)"
  shows "download_settled (update_handle i f w) = download_settled w" "ongoing_handle (update_handle i f w) = ongoing_handle w"
    "negotiation_entry (update_handle i f w) = negotiation_entry w"
    "negotiation_settled (update_handle i f w) = negotiation_settled w" "cell_used (update_handle i f w) = cell_used w"
    "w_spawned (update_handle i f w) = w_spawned w"
  using assms
  by (auto simp: update_handle_def download_settled_def ongoing_handle_def negotiation_entry_def negotiation_settled_def
      negotiation_phase_of_def handle_of_def cell_used_def fun_eq_iff hm_simps split: option.splits)

lemma inv_update:
  assumes "\<And>d. phase (dh_progress (f d)) = phase (dh_progress d)" "coalesce_inv (w, ns, ds)"
  shows "coalesce_inv (update_handle i f w, ns, ds)"
  by (rule coalesce_inv_cong [OF update_views(3,4,2,1,5) _ assms(2)]) (simp_all add: assms(1) update_views)

lemma inv_run_removal:
  assumes "coalesce_inv (w, ns, ds)" "j \<in> set (w_spawned w)"
  shows "coalesce_inv (run_removal j (w\<lparr>w_spawned := remove1 j (w_spawned w)\<rparr>), ns, ds)"
proof -
  let ?w = "w\<lparr>w_spawned := remove1 j (w_spawned w)\<rparr>"
  have "set (remove1 j (w_spawned w)) \<subseteq> set (w_spawned w)" by (rule set_remove1_subset)
  then have i: "coalesce_inv (?w, ns, ds)" by (intro coalesce_inv_cong [OF spawned_views(1-5) _ assms(1)]) auto
  have "removal_settled w j" using assms by (simp add: list_all_iff)
  then show ?thesis
    using i inv_remove_negotiation [OF i] inv_remove_handle [OF i] spawned_views(2)
    by (cases j) (auto simp: removal_settled_def)
qed

lemma coalesce_step_inv:
  assumes "coalesce_step s s'" "coalesce_inv s"
  shows "coalesce_inv s'"
  using assms
proof (induction rule: coalesce_step.induct)
  case (cs_finish g ns w ds ok)
  then show ?case
    using inv_remove_negotiation [OF inv_send_final(1,2) [OF cs_finish(2,1)]]
    by (simp add: negotiation_finish_def send_final_def)
next
  case (cs_drop g ns w ds)
  note s = inv_send_final [OF cs_drop(2,1), of False]
  have "removal_settled (send_final False (ng_cell g) w) (Remove_Negotiation (ng_key g) (ng_cell g))"
    using s(2,3) by (simp add: removal_settled_def)
  from inv_leave_removal [OF s(1) this] show ?case
    unfolding negotiation_drop_def send_final_def Let_def by simp
next
  case (cs_dl_finish g ds w ns ok)
  then show ?case
    using inv_remove_handle [OF inv_send_outcome(1) [OF cs_dl_finish(2,1)]]
    by (simp add: download_finish_def send_outcome_def)
next
  case (cs_dl_drop g ds w ns)
  note s = inv_send_outcome [OF cs_dl_drop(2,1), of False]
  have "\<not> download_settled w (dg_cell g)"
    using cs_dl_drop by (auto simp: guards_ok_def dl_pair_def)
  note drop = drop_outcome [OF this]
  have "removal_settled (send_outcome False (dg_cell g) w) (Remove_Handle (dg_key g) (dg_cell g))"
    using s(2,3) by (simp add: removal_settled_def)
  from inv_leave_removal [OF s(1) this] show ?case unfolding drop Let_def .
next
  case (cs_written w ns ds i n)
  then show ?case unfolding send_progress_def by (rule inv_update [rotated]) simp
next
  case (cs_stored w ns ds i p)
  then show ?case by (rule inv_update [rotated]) simp
next
  case (cs_prepare e c filename content_type len w g w' ns ds)
  from inv_prepare [OF this(2,1)] show ?case by simp
next
  case (cs_prepare_failed e c filename content_type len w err w' ns ds)
  from inv_prepare [OF this(2,1)] show ?case by simp
qed (use inv_claim inv_run_removal kept_inv in \<open>blast+\<close>)

section \<open>Properties\<close>

lemma pair_member:
  "(key, i) \<in> set (map neg_pair ns) \<longleftrightarrow> \<lparr>ng_key = key, ng_cell = i\<rparr> \<in> set ns"
  "(key, i) \<in> set (map dl_pair ds) \<longleftrightarrow> \<lparr>dg_key = key, dg_cell = i\<rparr> \<in> set ds"
proof -
  have "inj neg_pair" "inj dl_pair" by (auto simp: inj_def pair_inj)
  then show "(key, i) \<in> set (map neg_pair ns) \<longleftrightarrow> \<lparr>ng_key = key, ng_cell = i\<rparr> \<in> set ns"
    "(key, i) \<in> set (map dl_pair ds) \<longleftrightarrow> \<lparr>dg_key = key, dg_cell = i\<rparr> \<in> set ds"
    using inj_image_mem_iff [of neg_pair "\<lparr>ng_key = key, ng_cell = i\<rparr>" "set ns"]
      inj_image_mem_iff [of dl_pair "\<lparr>dg_key = key, dg_cell = i\<rparr>" "set ds"]
    by (simp_all add: neg_pair_def [of "\<lparr>ng_key = key, ng_cell = i\<rparr>"] dl_pair_def [of "\<lparr>dg_key = key, dg_cell = i\<rparr>"])
qed

lemma coalesce_start:
  assumes "registries_empty w"
  shows "coalesce_inv (w, [], [])"
proof -
  have "removal_settled w j" if "\<not> is_removal j" for j
    using that by (cases j) (simp_all add: is_removal_def removal_settled_def)
  then have "list_all (removal_settled w) (w_spawned w)"
    using assms by (auto simp: registries_empty_def list_all_iff)
  then show ?thesis
    using assms by (simp add: registries_empty_def guards_ok_def leaders_registered_def negotiation_entry_def ongoing_handle_def)
qed

lemma coalesce_reach_inv: "coalesce_reach w0 s \<Longrightarrow> registries_empty w0 \<Longrightarrow> coalesce_inv s"
  by (induction rule: coalesce_reach.induct) (blast intro: coalesce_start, blast intro: coalesce_step_inv)

text \<open>C20: Requests for one blob are coalesced without deadlock, in every interleaving of the tasks: no two
  leaders negotiate the same hash; a negotiation is pending exactly while its leader is alive, so
  nobody waits for a leader that is gone; and a registered download has a handle whose phase says
  running only while its owner is alive, so a follower that attaches is served or told to stop.\<close>
theorem coalescing_is_live:
  assumes "registries_empty w0" and "coalesce_reach w0 (w, ns, ds)"
  shows "distinct (map ng_key ns) \<and>
     (\<forall>key i. map_of (w_negotiations w) key = Some i \<longrightarrow>
        (negotiation_phase_of w i = NegPending \<longleftrightarrow> \<lparr>ng_key = key, ng_cell = i\<rparr> \<in> set ns)) \<and>
     (\<forall>key i d. map_of (w_ongoing w) key = Some i \<and> handle_of w i = Some d \<and> phase (dh_progress d) = Running \<longrightarrow>
        \<lparr>dg_key = key, dg_cell = i\<rparr> \<in> set ds)"
proof (intro conjI allI impI)
  have i: "negs_ok w ns" "leaders_registered negotiation_entry w (map neg_pair ns)" "dls_ok w ds"
    using coalesce_reach_inv [OF assms(2,1)] by auto
  have "distinct (map fst (map neg_pair ns))" by (rule leaders_distinct [OF i(2)]) (use i(1) in \<open>simp add: guards_ok_def\<close>)
  then show "distinct (map ng_key ns)" by (simp add: comp_def neg_pair_def)
  fix key n
  assume "map_of (w_negotiations w) key = Some n"
  then show "negotiation_phase_of w n = NegPending \<longleftrightarrow> \<lparr>ng_key = key, ng_cell = n\<rparr> \<in> set ns"
    using i(1) pair_member(1) [of key n ns]
    unfolding guards_ok_def negotiation_entry_def negotiation_settled_def by blast
next
  have i: "dls_ok w ds" using coalesce_reach_inv [OF assms(2,1)] by auto
  fix key n d
  assume "map_of (w_ongoing w) key = Some n \<and> handle_of w n = Some d \<and> phase (dh_progress d) = Running"
  then show "\<lparr>dg_key = key, dg_cell = n\<rparr> \<in> set ds"
    using i pair_member(2) [of key n ds] unfolding guards_ok_def ongoing_handle_def
    by (fastforce simp: download_settled_def)
qed

lemma coalesce_example:
  "\<exists>g w1. coalesce_reach (empty_world store_a) (w1, [g], []) \<and> ng_key g = hash_a \<and>
     map_of (w_negotiations w1) hash_a = Some (ng_cell g)"
proof -
  have "claim_upstream_negotiation hash_a (empty_world store_a) = open_negotiation hash_a (empty_world store_a)"
    by (simp add: claim_upstream_negotiation_def empty_world_def)
  then have c: "claim_upstream_negotiation hash_a (empty_world store_a) =
      (Leader \<lparr>ng_key = hash_a, ng_cell = 0\<rparr>, (empty_world store_a)\<lparr>w_next := 1,
        w_phases := [(0, NegPending)], w_negotiations := [(hash_a, 0)]\<rparr>)"
    by (simp add: open_negotiation_def Let_def empty_world_def)
  from cr_step [OF cr_start cs_lead [OF c]] show ?thesis by force
qed

theorem coalescing_is_live_witness:
  "\<exists>g w1. coalesce_reach (empty_world store_a) (w1, [g], []) \<and> negotiation_phase_of w1 (ng_cell g) = NegPending"
proof -
  obtain g w1 where g: "coalesce_reach (empty_world store_a) (w1, [g], [])" "ng_key g = hash_a"
    "map_of (w_negotiations w1) hash_a = Some (ng_cell g)"
    using coalesce_example by blast
  have "registries_empty (empty_world store_a)" by (simp add: registries_empty_def empty_world_def)
  from coalescing_is_live [OF this g(1)] g(2,3) have "negotiation_phase_of w1 (ng_cell g) = NegPending" by (cases g) auto
  then show ?thesis using g(1) by blast
qed

end
