(* ===== verification/Tail.thy ===== *)
theory Tail
  imports Coalesce
begin

text \<open>
  Followers of a download in progress: \<open>create_tailing_stream\<close> of \<open>src/services/tail.rs\<close>. The writer appends
  to a file and publishes how much is readable; the follower reads behind it. One iteration of the
  stream's loop sees one snapshot of the file and of the progress cell, so a run of the stream is a
  function of the list of snapshots its iterations see: any interleaving of writer and reader.
\<close>

section \<open>The stream\<close>

datatype tail_error = Progress_Closed | Read_Failed | Ended_Early | Download_Failed

datatype tail_action = Yield bytes | Wait | Stop | Break tail_error

definition tail_available :: "u64 option \<Rightarrow> download_progress \<Rightarrow> u64" where
  "tail_available end_at snapshot = min (case end_at of None \<Rightarrow> u64_max | Some limit \<Rightarrow> limit) (written snapshot)"

text \<open>\<open>read_exact\<close> at \<open>position\<close>: fails if the file is shorter.\<close>

definition read_exact :: "bytes \<Rightarrow> u64 \<Rightarrow> u64 \<Rightarrow> bytes option" where
  "read_exact d position to_read =
     (if unat position + unat to_read \<le> length d then Some (slice position to_read d) else None)"

definition tail_step :: "u64 option \<Rightarrow> u64 \<Rightarrow> bytes \<times> download_progress \<Rightarrow> tail_action" where
  "tail_step end_at position = (\<lambda>(d, snapshot).
     let available = tail_available end_at snapshot in
     if position < available
     then (case read_exact d position (min (64 * 1024) (available - position)) of
             None \<Rightarrow> Break Read_Failed
           | Some buffer \<Rightarrow> Yield buffer)
     else if (case end_at of None \<Rightarrow> False | Some limit \<Rightarrow> position \<ge> limit) then Stop
     else case phase snapshot of
            Running \<Rightarrow> Wait
          | Complete \<Rightarrow> if (case end_at of None \<Rightarrow> False | Some limit \<Rightarrow> position < limit)
                        then Break Ended_Early else Stop
          | Failed \<Rightarrow> Break Download_Failed)"

datatype tail_outcome = Tail_Pending | Tail_End | Tail_Error tail_error

text \<open>\<open>Tail_Pending\<close>: the stream has seen all snapshots of the list and goes on.\<close>

fun tail_run :: "u64 option \<Rightarrow> u64 \<Rightarrow> (bytes \<times> download_progress) list \<Rightarrow> bytes \<times> tail_outcome" where
  "tail_run end_at position [] = ([], Tail_Pending)"
| "tail_run end_at position (s # ss) =
     (case tail_step end_at position s of
        Yield buffer \<Rightarrow>
          (let (out, r) = tail_run end_at (position + word_of_nat (length buffer)) ss in (buffer @ out, r))
      | Wait \<Rightarrow> tail_run end_at position ss
      | Stop \<Rightarrow> ([], Tail_End)
      | Break err \<Rightarrow> ([], Tail_Error err))"

section \<open>What a follower receives\<close>

text \<open>A snapshot of a download of \<open>d\<close>: a prefix is on disk, and at least what is announced.\<close>

definition snapshot_of :: "bytes \<Rightarrow> bytes \<times> download_progress \<Rightarrow> bool" where
  "snapshot_of d = (\<lambda>(f, pr). Sublist.prefix f d \<and> unat (written pr) \<le> length f \<and>
     (phase pr = Complete \<longrightarrow> f = d \<and> unat (written pr) = length d))"

definition tail_limit :: "u64 option \<Rightarrow> bytes \<Rightarrow> nat" where
  "tail_limit end_at d = (case end_at of None \<Rightarrow> length d | Some limit \<Rightarrow> min (unat limit) (length d))"

lemma prefix_slice:
  assumes "Sublist.prefix f d" "unat p + unat n \<le> length f"
  shows "slice p n f = slice p n d"
  using assms by (auto simp: slice_def prefix_def)

lemma step_yield:
  assumes "snapshot_of d s" "tail_step end_at position s = Yield buffer"
  shows "buffer = take (length buffer) (drop (unat position) d)" "0 < length buffer"
    "unat position + length buffer \<le> tail_limit end_at d"
    "unat (position + word_of_nat (length buffer)) = unat position + length buffer"
    "length buffer = min 65536 (unat (tail_available end_at (snd s)) - unat position)"
proof -
  obtain f pr where s: "s = (f, pr)" by fastforce
  let ?n = "min (64 * 1024) (tail_available end_at pr - position)"
  have lt: "position < tail_available end_at pr" and r: "read_exact f position ?n = Some buffer"
    using assms(2) by (auto simp: tail_step_def s Let_def split: if_splits option.splits download_phase.splits)
  have w: "unat (tail_available end_at pr - position) = unat (tail_available end_at pr) - unat position"
    using lt by (simp add: unat_sub)
  have n: "unat ?n = min 65536 (unat (tail_available end_at pr) - unat position)"
    using w by (simp add: min_def word_le_nat_alt)
  have b: "buffer = slice position ?n f" "unat position + unat ?n \<le> length f"
    using r by (auto simp: read_exact_def split: if_splits)
  have p: "Sublist.prefix f d" using assms(1) by (simp add: snapshot_of_def s)
  then have fd: "length f \<le> length d" by (rule prefix_length_le)
  have len: "length buffer = unat ?n" using b by (simp add: slice_def)
  show "length buffer = min 65536 (unat (tail_available end_at (snd s)) - unat position)" using len n by (simp add: s)
  show "buffer = take (length buffer) (drop (unat position) d)"
    using b prefix_slice [OF p b(2)] len by (simp add: slice_def)
  show "0 < length buffer" using len n lt by (simp add: word_less_nat_alt)
  have "unat (tail_available end_at pr) \<le> (case end_at of None \<Rightarrow> unat (tail_available end_at pr) | Some l \<Rightarrow> unat l)"
    by (auto simp: tail_available_def word_le_nat_alt min_def split: option.splits)
  then show "unat position + length buffer \<le> tail_limit end_at d"
    using len n b(2) fd lt by (auto simp: tail_limit_def word_less_nat_alt split: option.splits)
  have "unat position + length buffer \<le> unat (tail_available end_at pr)"
    using len n lt by (simp add: word_less_nat_alt)
  then have "unat position + length buffer < 18446744073709551616"
    using unat_u64_bound_numeral [of "tail_available end_at pr"] by linarith
  then show "unat (position + word_of_nat (length buffer)) = unat position + length buffer"
    by (simp add: unat_word_ariths unat_of_nat)
qed

lemma step_stop:
  assumes "snapshot_of d s" "tail_step end_at position s = Stop" "unat position \<le> tail_limit end_at d"
  shows "unat position = tail_limit end_at d"
proof -
  have "unat (written (snd s)) \<le> 18446744073709551615"
    using unat_u64_bound_numeral [of "written (snd s)"] by linarith
  then show ?thesis using assms
    by (auto simp: tail_step_def snapshot_of_def Let_def tail_limit_def tail_available_def word_less_nat_alt word_le_nat_alt
      min_def unat_u64_max split: prod.splits if_splits option.splits download_phase.splits)
qed

lemma step_error:
  assumes "snapshot_of d s" "tail_step end_at position s = Break err"
  shows "err = Download_Failed \<and> phase (snd s) = Failed \<or>
     err = Ended_Early \<and> (case end_at of None \<Rightarrow> False | Some limit \<Rightarrow> length d < unat limit)"
proof -
  obtain f pr where s: "s = (f, pr)" by fastforce
  have w: "unat (written pr) \<le> length f" using assms(1) by (simp add: snapshot_of_def s)
  let ?a = "tail_available end_at pr"
  have "unat position + unat (min (64 * 1024) (?a - position)) \<le> length f" if "position < ?a"
  proof -
    have "unat (?a - position) = unat ?a - unat position" using that by (simp add: unat_sub)
    then have "unat (min (64 * 1024) (?a - position)) \<le> unat ?a - unat position" by (simp add: min_def word_le_nat_alt)
    moreover have "unat ?a \<le> unat (written pr)" by (simp add: tail_available_def min_def word_le_nat_alt)
    ultimately show ?thesis using that w by (simp add: word_less_nat_alt)
  qed
  then have np: "\<not> position < ?a" using assms(2)
    by (auto simp: tail_step_def s Let_def read_exact_def split: if_splits)
  show ?thesis
  proof (cases "phase pr = Complete")
    case True
    then have "unat (written pr) = length d" using assms(1) by (simp add: snapshot_of_def s)
    then show ?thesis using assms(2) np True
      by (auto simp: tail_step_def s Let_def tail_available_def word_less_nat_alt min_def word_le_nat_alt
          split: if_splits option.splits)
  next
    case False
    then show ?thesis using assms(2) np
      by (auto simp: tail_step_def s Let_def split: if_splits option.splits download_phase.splits)
  qed
qed

lemma tail_run_spec:
  assumes "list_all (snapshot_of d) ss" "tail_run end_at position ss = (out, r)" "unat position \<le> tail_limit end_at d"
  shows "out = take (length out) (drop (unat position) d) \<and> unat position + length out \<le> tail_limit end_at d \<and>
     (r = Tail_End \<longrightarrow> unat position + length out = tail_limit end_at d) \<and>
     (\<forall>err. r = Tail_Error err \<longrightarrow> err = Download_Failed \<and> list_ex (\<lambda>s. phase (snd s) = Failed) ss \<or>
        err = Ended_Early \<and> (case end_at of None \<Rightarrow> False | Some limit \<Rightarrow> length d < unat limit))"
  using assms
proof (induction end_at position ss arbitrary: out rule: tail_run.induct)
  case (2 end_at position s ss)
  have s: "snapshot_of d s" and ss: "list_all (snapshot_of d) ss" using "2.prems"(1) by auto
  show ?case
  proof (cases "tail_step end_at position s")
    case (Yield buffer)
    note y = step_yield [OF s Yield]
    let ?q = "position + word_of_nat (length buffer)"
    obtain out' where o: "tail_run end_at ?q ss = (out', r)" "out = buffer @ out'"
      using "2.prems"(2) Yield by (auto split: prod.splits)
    have q: "unat ?q \<le> tail_limit end_at d" using y(3,4) by simp
    from "2.IH"(1) [OF Yield ss o(1) q]
    have ih: "out' = take (length out') (drop (unat ?q) d)" "unat ?q + length out' \<le> tail_limit end_at d"
      "r = Tail_End \<longrightarrow> unat ?q + length out' = tail_limit end_at d"
      "\<forall>err. r = Tail_Error err \<longrightarrow> err = Download_Failed \<and> list_ex (\<lambda>s. phase (snd s) = Failed) ss \<or>
        err = Ended_Early \<and> (case end_at of None \<Rightarrow> False | Some limit \<Rightarrow> length d < unat limit)"
      by blast+
    have "take (length buffer + length out') (drop (unat position) d) =
        take (length buffer) (drop (unat position) d) @ take (length out') (drop (unat position + length buffer) d)"
      by (simp add: take_add add.commute)
    moreover have len: "length out = length buffer + length out'" using o(2) by simp
    ultimately have "out = take (length out) (drop (unat position) d)" using ih(1) y(1,4) o(2) by simp
    then show ?thesis using ih(2-4) y(4) len by auto
  next
    case Wait
    from "2.IH"(2) [OF Wait ss _ "2.prems"(3)] "2.prems"(2) Wait show ?thesis by auto
  next
    case Stop
    then show ?thesis using "2.prems"(2,3) step_stop [OF s Stop] by auto
  next
    case (Break err)
    then show ?thesis using "2.prems"(2,3) step_error [OF s Break] by auto
  qed
qed auto

lemma tail_run_append:
  "tail_run end_at position (ss @ ts) =
     (case tail_run end_at position ss of
        (out, Tail_Pending) \<Rightarrow>
          (let (out', r) = tail_run end_at (position + word_of_nat (length out)) ts in (out @ out', r))
      | done \<Rightarrow> done)"
proof (induction end_at position ss rule: tail_run.induct)
  case (1 end_at position)
  then show ?case by (simp split: prod.splits)
next
  case (2 end_at position s ss)
  then show ?case by (auto simp: Let_def algebra_simps split: tail_action.splits prod.splits tail_outcome.splits)
qed

definition completed :: "bytes \<Rightarrow> bytes \<times> download_progress" where
  "completed d = (d, \<lparr>written = word_of_nat (length d), phase = Complete\<rparr>)"

lemma completed_snapshot: "length d < 2 ^ 64 \<Longrightarrow> snapshot_of d (completed d)"
  by (simp add: snapshot_of_def completed_def unat_of_nat)

lemma completed_finishes:
  assumes "length d < 2 ^ 64" "unat (tail_available end_at (snd (completed d))) - unat position \<le> n * 65536"
  shows "snd (tail_run end_at position (replicate (Suc n) (completed d))) \<noteq> Tail_Pending"
  using assms(2)
proof (induction n arbitrary: position)
  case 0
  then have "\<not> position < tail_available end_at (snd (completed d))" by (simp add: word_less_nat_alt)
  then show ?case by (auto simp: completed_def tail_step_def Let_def split: option.splits)
next
  case (Suc n)
  note snap = completed_snapshot [OF assms(1)]
  show ?case
  proof (cases "tail_step end_at position (completed d)")
    case (Yield buffer)
    note y = step_yield [OF snap Yield]
    have "unat (tail_available end_at (snd (completed d))) - unat (position + word_of_nat (length buffer)) \<le> n * 65536"
      using Suc.prems y(4,5) by (simp add: min_def split: if_splits)
    from Suc.IH [OF this] Yield show ?thesis
      by (simp del: replicate_Suc add: replicate_Suc [of "Suc n"] case_prod_beta Let_def)
  next
    case Wait
    then show ?thesis
      by (auto simp: completed_def tail_step_def Let_def split: if_splits option.splits)
  qed auto
qed

text \<open>
  What a follower has yielded is always the blob's content from its start position on, a stream that ends
  has delivered its whole range, and it breaks off only when the download failed or the completed blob is
  shorter than the range.
\<close>

lemma follower_range:
  assumes "list_all (snapshot_of d) ss" and "unat start \<le> tail_limit end_at d"
    and "tail_run end_at start ss = (out, r)"
  shows "out = take (length out) (drop (unat start) d) \<and> unat start + length out \<le> tail_limit end_at d \<and>
     (case r of
        Tail_Pending \<Rightarrow> True
      | Tail_End \<Rightarrow> out = drop (unat start) (take (tail_limit end_at d) d)
      | Tail_Error err \<Rightarrow>
          (if err = Download_Failed then list_ex (\<lambda>s. phase (snd s) = Failed) ss
           else err = Ended_Early \<and> (case end_at of None \<Rightarrow> False | Some limit \<Rightarrow> length d < unat limit)))"
proof -
  note s = tail_run_spec [OF assms(1,3,2)]
  have "out = drop (unat start) (take (tail_limit end_at d) d)" if "r = Tail_End"
  proof -
    have "length out = tail_limit end_at d - unat start" using s that by auto
    then show ?thesis using s by (simp add: drop_take)
  qed
  then show ?thesis using s by (auto split: tail_outcome.splits)
qed

section \<open>Properties\<close>

text \<open>C21: A follower is never left hanging once the download is complete: after whatever it has seen, a
  number of iterations proportional to the blob's size brings its stream to an end.\<close>
theorem follower_finishes:
  assumes "list_all (snapshot_of d) ss" and "length d < 2 ^ 64" and "unat start \<le> tail_limit end_at d"
  shows "snd (tail_run end_at start (ss @ replicate (length d div 65536 + 2) (completed d))) \<noteq> Tail_Pending"
proof -
  obtain out r where o: "tail_run end_at start ss = (out, r)" by fastforce
  let ?q = "start + word_of_nat (length out)"
  have "unat (tail_available end_at (snd (completed d))) \<le> length d"
    using assms(2) by (auto simp: tail_available_def completed_def min_def word_le_nat_alt unat_of_nat)
  moreover have "length d < 65536 + length d div 65536 * 65536" by (rule dividend_less_div_times) simp
  ultimately have "unat (tail_available end_at (snd (completed d))) - unat ?q \<le> (length d div 65536 + 1) * 65536"
    by (simp add: algebra_simps)
  from completed_finishes [OF assms(2) this]
  have "snd (tail_run end_at ?q (replicate (length d div 65536 + 2) (completed d))) \<noteq> Tail_Pending" by simp
  then show ?thesis by (auto simp: tail_run_append o split: tail_outcome.splits prod.splits)
qed

definition ex_snapshots :: "(bytes \<times> download_progress) list" where
  "ex_snapshots = [([1, 2], \<lparr>written = 1, phase = Running\<rparr>), ([1, 2], \<lparr>written = 2, phase = Running\<rparr>), completed [1, 2, 3]]"

lemma ex_snapshots_ok: "list_all (snapshot_of [1, 2, 3]) ex_snapshots"
  by (simp add: ex_snapshots_def completed_snapshot) (simp add: snapshot_of_def)

theorem follower_finishes_witness:
  "snd (tail_run (Some 3) 0 (ex_snapshots @ [completed [1, 2, 3], completed [1, 2, 3]])) \<noteq> Tail_Pending"
  using follower_finishes [OF ex_snapshots_ok, of 0 "Some 3"] by simp

end
