(* ===== verification/Upstream.thy ===== *)
theory Upstream
  imports Tail
begin

text \<open>
  Blobs that are not here: \<open>src/handlers/upstream.rs\<close>. A request walks the upstream servers, coalesces
  with the requests already under way, streams the answer to the client while a task stores it, or
  redirects.

  A handler runs as one step, except where it waits for another request's negotiation: what the other
  tasks do in that time is an arbitrary function of the world, one per wait, in the list \<open>waits\<close>; a
  handler that has used up the list is still waiting, and its value is \<open>None\<close>. Status codes are numbers.
\<close>

section \<open>Responses\<close>

text \<open>What a response body is fed from: bytes at hand, the upstream connection, or a download in progress.\<close>

datatype served_body = Whole stream_body | Relayed "(string + bytes) list" | Tailing path nat u64 "u64 option"

type_synonym 'a status_result = "nat + 'a"

type_synonym served = "served_body response"

definition SEEK_AHEAD_LIMIT :: u64 where
  "SEEK_AHEAD_LIMIT = 8 * 1024 * 1024"

definition build_or_500 :: "nat \<Rightarrow> header_map \<Rightarrow> served_body \<Rightarrow> served status_result" where
  "build_or_500 st hs b =
     (if list_all (\<lambda>(_, v). header_value_ok v) hs then Inr \<lparr>status = st, rheaders = hs, body = b\<rparr> else Inl 500)"

text \<open>\<open>Path::new(s).file_name()\<close>, and \<open>"file"\<close> where there is none.\<close>

definition clean_filename :: "string \<Rightarrow> string" where
  "clean_filename filename =
     (let parts = filter (\<lambda>c. c \<noteq> [] \<and> c \<noteq> ''.'') (split_on (CHR ''/'') filename)
      in if parts = [] \<or> last parts = ''..'' then ''file'' else last parts)"

definition insert_parsed :: "string \<Rightarrow> string \<Rightarrow> header_map \<Rightarrow> header_map" where
  "insert_parsed nm v hs = (if header_value_ok v then hinsert nm v hs else hs)"

definition mime_essence :: "string \<Rightarrow> string" where
  "mime_essence content_type = trim (hd (split_on (CHR '';'') content_type))"

definition apply_streaming_headers :: "served \<Rightarrow> string \<Rightarrow> string \<Rightarrow> served" where
  "apply_streaming_headers r content_type filename =
     r\<lparr>rheaders :=
        insert_parsed ''content-disposition'' (''inline; filename=\"'' @ clean_filename filename @ ''\"'')
       (hinsert ''accept-ranges'' ''bytes''
       (hinsert ''cache-control'' cache_control_immutable
       (insert_parsed ''content-type'' (mime_essence content_type) (rheaders r))))\<rparr>"

text \<open>The streaming headers with \<open>private, no-store\<close>, and the length where it is known.\<close>

definition in_flight_headers :: "served \<Rightarrow> string \<Rightarrow> string \<Rightarrow> u64 option \<Rightarrow> served" where
  "in_flight_headers r content_type filename total_len =
     (let r1 = apply_streaming_headers r content_type filename;
          hs = hinsert ''cache-control'' ''private, no-store'' (rheaders r1)
      in r1\<lparr>rheaders := (case total_len of None \<Rightarrow> hs | Some n \<Rightarrow> insert_parsed ''content-length'' (show_u64 n) hs)\<rparr>)"

section \<open>Requests to upstream servers\<close>

definition send_request ::
  "app_env \<Rightarrow> string \<Rightarrow> string \<Rightarrow> header_map \<Rightarrow> world \<Rightarrow> (string + upstream_response) \<times> world" where
  "send_request e meth u hs w =
     (ae_upstream e (w_net w) meth u hs, w\<lparr>w_net := w_net w @ [Net_Request meth u hs]\<rparr>)"

definition coalescible_range_start :: "header_map \<Rightarrow> u64 option" where
  "coalescible_range_start headers =
     Option.bind (hget_str headers ''range'') (\<lambda>value.
     Option.bind (strip_prefix ''bytes='' value) (\<lambda>range.
     if CHR '','' \<in> set range then None
     else Option.bind (split_once (CHR ''-'') range) (\<lambda>(start, _).
     Option.bind (parse_u64 start) (\<lambda>s. if s \<le> SEEK_AHEAD_LIMIT then Some s else None))))"

definition copy_headers_for_cold_fetch :: "header_map \<Rightarrow> header_map \<Rightarrow> header_map" where
  "copy_headers_for_cold_fetch headers request =
     (if coalescible_range_start headers \<noteq> None
      then copy_headers_without_range headers request @ [(''range'', ''bytes=0-'')]
      else copy_headers_to_reqwest headers request)"

definition upstream_response_total_len :: "app_env \<Rightarrow> upstream_response \<Rightarrow> u64 option" where
  "upstream_response_total_len e response =
     (case Option.bind (hget_str (ur_headers response) ''content-range'') (\<lambda>value.
           Option.bind (rsplit_once (CHR ''/'') value) (\<lambda>(_, n). parse_u64 n)) of
        Some n \<Rightarrow> Some n
      | None \<Rightarrow> ae_content_length e response)"

text \<open>\<open>proxy_upstream_response\<close>: the upstream's headers are appended, the disposition is inserted last.\<close>

definition proxy_upstream_response :: "upstream_response \<Rightarrow> string \<Rightarrow> string \<Rightarrow> served status_result" where
  "proxy_upstream_response response content_type filename =
     (let hs = ur_headers response;
          st = (if is_success (ur_status response)
                then (if hget hs ''content-range'' \<noteq> None then 206 else 200) else ur_status response);
          built = forward_header hs ''last-modified'' (forward_header hs ''etag''
                   (forward_header hs ''accept-ranges'' (forward_header hs ''content-length''
                      (forward_header hs ''content-range''
                         [(''content-type'', mime_essence content_type), (''accept-ranges'', ''bytes'')])) @
                    [(''cache-control'', ''private, no-store''), (''vary'', ''Range'')]))
      in case build_or_500 st built (Relayed (ur_stream response)) of
           Inl code \<Rightarrow> Inl code
         | Inr r \<Rightarrow> Inr (r\<lparr>rheaders := insert_parsed ''content-disposition''
                              (''inline; filename=\"'' @ clean_filename filename @ ''\"'') (rheaders r)\<rparr>))"

section \<open>Attaching to a download\<close>

definition open_download_file :: "host_env \<Rightarrow> fs \<Rightarrow> download_handle \<Rightarrow> path option" where
  "open_download_file h f d =
     (let opens = (\<lambda>p. io_fault h Io_Open p = None \<and> fs_data f p \<noteq> None) in
      if opens (dh_temp_path d) then Some (dh_temp_path d)
      else case dh_final_path d of
             None \<Rightarrow> None
           | Some p \<Rightarrow> if opens p then Some p else None)"

definition serve_head_download :: "download_handle \<Rightarrow> string \<Rightarrow> served status_result" where
  "serve_head_download d filename =
     Inr (in_flight_headers \<lparr>status = 200, rheaders = [], body = Whole (Inr [])\<rparr>
            (dh_content_type d) filename (dh_total_len d))"

definition tailing_body :: "host_env \<Rightarrow> path \<Rightarrow> nat \<Rightarrow> u64 \<Rightarrow> u64 option \<Rightarrow> served_body status_result" where
  "tailing_body h p i start end_at =
     (if io_fault h Io_Seek p \<noteq> None then Inl 500 else Inr (Tailing p i start end_at))"

definition serve_non_range_download ::
  "host_env \<Rightarrow> fs \<Rightarrow> nat \<Rightarrow> download_handle \<Rightarrow> string \<Rightarrow> served status_result" where
  "serve_non_range_download h f i d filename =
     (case open_download_file h f d of
        None \<Rightarrow> Inl 500
      | Some p \<Rightarrow>
          and_then (tailing_body h p i 0 (dh_total_len d)) (\<lambda>b.
          Inr (in_flight_headers \<lparr>status = 200, rheaders = [], body = b\<rparr>
                 (dh_content_type d) filename (dh_total_len d))))"

text \<open>\<open>None\<close>: this download cannot serve the range, the caller goes upstream.\<close>

definition serve_satisfiable_range ::
  "host_env \<Rightarrow> fs \<Rightarrow> nat \<Rightarrow> download_handle \<Rightarrow> string \<Rightarrow> u64 \<Rightarrow> u64 \<Rightarrow> u64 \<Rightarrow> served status_result option" where
  "serve_satisfiable_range h f i d filename total_len start final =
     (if phase (dh_progress d) = Running \<and> start > saturating_add (written (dh_progress d)) SEEK_AHEAD_LIMIT
      then None
      else Some (case open_download_file h f d of
        None \<Rightarrow> Inl 500
      | Some p \<Rightarrow>
          and_then (tailing_body h p i start (Some (final + 1))) (\<lambda>b.
          and_then (build_or_500 206
             [(''content-range'', ''bytes '' @ show_u64 start @ ''-'' @ show_u64 final @ ''/'' @ show_u64 total_len),
              (''content-length'', show_u64 (final - start + 1))] b) (\<lambda>r.
          Inr (in_flight_headers r (dh_content_type d) filename None)))))"

definition serve_range_download ::
  "host_env \<Rightarrow> fs \<Rightarrow> nat \<Rightarrow> download_handle \<Rightarrow> string \<Rightarrow> header_map \<Rightarrow> served status_result option" where
  "serve_range_download h f i d filename headers =
     Option.bind (dh_total_len d) (\<lambda>total_len.
     Option.bind (hget_str headers ''range'') (\<lambda>range.
     case parse_range_header range total_len of
       Satisfiable start final \<Rightarrow> serve_satisfiable_range h f i d filename total_len start final
     | Unsatisfiable \<Rightarrow>
         Some (build_or_500 416 [(''content-range'', ''bytes */'' @ show_u64 total_len), (''accept-ranges'', ''bytes'')]
                 (Whole (Inr [])))
     | Ignore \<Rightarrow> Some (serve_non_range_download h f i d filename)))"

definition serve_existing_download ::
  "host_env \<Rightarrow> fs \<Rightarrow> nat \<Rightarrow> download_handle \<Rightarrow> string \<Rightarrow> header_map \<Rightarrow> string \<Rightarrow> served status_result option" where
  "serve_existing_download h f i d filename headers meth =
     (if meth = ''HEAD'' then Some (serve_head_download d filename)
      else if hget headers ''range'' = None then Some (serve_non_range_download h f i d filename)
      else serve_range_download h f i d filename headers)"

section \<open>The download task\<close>

definition requested_hash :: "string \<Rightarrow> string" where
  "requested_hash filename = (case get_sha256_hash_from_filename filename of None \<Rightarrow> filename | Some h \<Rightarrow> h)"

definition upstream_hash_matches_filename :: "string \<Rightarrow> string \<Rightarrow> bool" where
  "upstream_hash_matches_filename computed_hash filename \<longleftrightarrow>
     eq_ignore_ascii_case (requested_hash filename) computed_hash"

text \<open>The loop over the body: each chunk is written, flushed and only then announced.\<close>

fun receive_chunks ::
  "app_env \<Rightarrow> path \<Rightarrow> nat \<Rightarrow> u64 \<Rightarrow> (string + bytes) list \<Rightarrow> bytes \<times> u64 \<Rightarrow> world \<Rightarrow> (string + bytes \<times> u64) \<times> world" where
  "receive_chunks e p i max_size_bytes [] st w = (Inr st, w)"
| "receive_chunks e p i max_size_bytes (Inl err # items) st w = (Inl err, w)"
| "receive_chunks e p i max_size_bytes (Inr chunk # items) (hashed, body_size) w =
     (let new_size = body_size + word_of_nat (length chunk) in
      if new_size > max_size_bytes
      then (Inl (''upstream body exceeded the '' @ show_u64 max_size_bytes @ '' byte limit''), w)
      else bind_st (err_st io_text (in_files (fs_append (env_host e) p chunk) w)) (\<lambda>_ w1.
           receive_chunks e p i max_size_bytes items (hashed @ chunk, new_size)
             (send_progress i (\<lambda>pr. pr\<lparr>written := new_size\<rparr>) w1)))"

definition download_body ::
  "app_env \<Rightarrow> app_config \<Rightarrow> upstream_response \<Rightarrow> string \<Rightarrow> nat \<Rightarrow> download_handle \<Rightarrow> world \<Rightarrow> (string + unit) \<times> world" where
  "download_body e c response filename i d w =
     (let max_size_bytes = size_limit c UpstreamFetch;
          expected_len = (case dh_total_len d of Some n \<Rightarrow> Some n | None \<Rightarrow> ae_content_length e response)
      in if (case expected_len of None \<Rightarrow> False | Some n \<Rightarrow> n > max_size_bytes)
         then (Inl (''upstream file exceeds the '' @ show_u64 max_size_bytes @ '' byte limit''), w)
         else bind_st (receive_chunks e (dh_temp_path d) i max_size_bytes (ur_stream response) ([], 0) w)
           (\<lambda>(hashed, body_size) w1.
              if (case expected_len of None \<Rightarrow> False | Some n \<Rightarrow> n \<noteq> body_size)
              then (Inl (''upstream body length mismatch: expected '' @
                      (case expected_len of None \<Rightarrow> ''None'' | Some n \<Rightarrow> ''Some('' @ show_u64 n @ '')'') @
                      '', received '' @ show_u64 body_size), w1)
              else if \<not> upstream_hash_matches_filename (ae_sha e hashed) filename
              then (Inl (''upstream hash mismatch: requested '' @ requested_hash filename @ '', received '' @
                      ae_sha e hashed), w1)
              else bind_st (err_st error_display (in_store (accept c (ae_storage e) (dh_temp_path d)
                     \<lparr>bp_sha256 = ae_sha e hashed, bp_origin = UpstreamCache,
                      bp_extension = get_extension_from_mime (ae_extensions e) (dh_content_type d),
                      bp_mime_type = Some (dh_content_type d), bp_size = body_size, bp_expiration = None\<rparr>) w1))
                (\<lambda>published w2.
                   (Inr (), case local_path (sb_metadata published) of
                              None \<Rightarrow> w2
                            | Some p \<Rightarrow> update_handle i (\<lambda>d. d\<lparr>dh_final_path :=
                                 (case dh_final_path d of None \<Rightarrow> Some p | Some q \<Rightarrow> Some q)\<rparr>) w2))))"

definition run_download ::
  "app_env \<Rightarrow> app_config \<Rightarrow> upstream_response \<Rightarrow> string \<Rightarrow> nat \<Rightarrow> world \<Rightarrow> world" where
  "run_download e c response filename i w =
     (case handle_of w i of
        None \<Rightarrow> w
      | Some d \<Rightarrow>
          let guard = \<lparr>dg_key = filename, dg_cell = i\<rparr> in
          (case download_body e c response filename i d w of
             (Inr _, w1) \<Rightarrow> download_finish guard Complete (send_progress i (\<lambda>pr. pr\<lparr>phase := Complete\<rparr>) w1)
           | (Inl _, w1) \<Rightarrow>
               download_finish guard Failed
                 (unlink_temp e (dh_temp_path d) (send_progress i (\<lambda>pr. pr\<lparr>phase := Failed\<rparr>) w1))))"

section \<open>Answering from an upstream response\<close>

definition drop_negotiation :: "negotiation_guard option \<Rightarrow> world \<Rightarrow> world" where
  "drop_negotiation ng w = (case ng of None \<Rightarrow> w | Some g \<Rightarrow> negotiation_drop g w)"

definition finish_negotiation :: "negotiation_guard option \<Rightarrow> negotiation_phase \<Rightarrow> world \<Rightarrow> world" where
  "finish_negotiation ng p w = (case ng of None \<Rightarrow> w | Some g \<Rightarrow> negotiation_finish g p w)"

definition spawn :: "job \<Rightarrow> world \<Rightarrow> world" where
  "spawn j w = w\<lparr>w_spawned := w_spawned w @ [j]\<rparr>"

text \<open>The handle of a guard, for the definitions that hold the prepared download.\<close>

definition prepared_handle :: "world \<Rightarrow> download_guard \<Rightarrow> download_handle" where
  "prepared_handle w g = the (handle_of w (dg_cell g))"

definition prepare_download ::
  "app_env \<Rightarrow> app_config \<Rightarrow> string \<Rightarrow> string \<Rightarrow> u64 option \<Rightarrow> world \<Rightarrow> download_guard status_result \<times> world" where
  "prepare_download e c filename content_type total_len w =
     err_st (\<lambda>_. 500) (prepare_download_state e c filename content_type total_len w)"

definition proxy_original_range ::
  "app_env \<Rightarrow> string \<Rightarrow> header_map \<Rightarrow> string \<Rightarrow> string \<Rightarrow> negotiation_guard option \<Rightarrow> world \<Rightarrow>
     served status_result \<times> world" where
  "proxy_original_range e file_url headers content_type filename ng w =
     bind_st (err_st (\<lambda>_. 502) (send_request e ''GET'' file_url (copy_headers_to_reqwest headers [])
                (finish_negotiation ng NegFailed w))) (\<lambda>response w1.
     (proxy_upstream_response response content_type filename, w1))"

text \<open>\<open>stream_and_save_from_upstream\<close>: too large is proxied and not stored.\<close>

definition proxy_uncached ::
  "app_env \<Rightarrow> upstream_response \<Rightarrow> string \<Rightarrow> download_guard \<Rightarrow> negotiation_guard option \<Rightarrow> world \<Rightarrow>
     served status_result \<times> world" where
  "proxy_uncached e response filename g ng w =
     (let d = prepared_handle w g
      in (proxy_upstream_response response (dh_content_type d) filename,
          finish_negotiation ng NegFailed (unlink_temp e (dh_temp_path d) (download_drop g w))))"

definition stream_and_save_from_upstream ::
  "app_env \<Rightarrow> app_config \<Rightarrow> string \<Rightarrow> upstream_response \<Rightarrow> string \<Rightarrow> download_guard \<Rightarrow> negotiation_guard option \<Rightarrow>
     world \<Rightarrow> served status_result \<times> world" where
  "stream_and_save_from_upstream e c file_url response filename g ng w =
     (let h = env_host e; content_length = ae_content_length e response; d = prepared_handle w g in
      if (case content_length of None \<Rightarrow> False | Some n \<Rightarrow> n > size_limit c UpstreamFetch)
      then proxy_uncached e response filename g ng w
      else if io_fault h Io_Open (dh_temp_path d) \<noteq> None \<or> fs_data (st_fs (w_store w)) (dh_temp_path d) = None
      then (Inl 500, drop_negotiation ng (download_drop g (unlink_temp e (dh_temp_path d) w)))
      else case tailing_body h (dh_temp_path d) (dg_cell g) 0 content_length of
        Inl code \<Rightarrow> (Inl code, drop_negotiation ng (download_drop g w))
      | Inr b \<Rightarrow>
          (let r = apply_streaming_headers \<lparr>status = 200, rheaders = [], body = b\<rparr> (dh_content_type d) filename;
               r' = (case content_length of None \<Rightarrow> r
                     | Some n \<Rightarrow> r\<lparr>rheaders := insert_parsed ''content-length'' (show_u64 n) (rheaders r)\<rparr>)
           in (Inr r', spawn (Run_Download file_url response filename (dg_cell g) True) (finish_negotiation ng NegReady w))))"

definition answer_head ::
  "app_env \<Rightarrow> app_config \<Rightarrow> upstream_response \<Rightarrow> string \<Rightarrow> string \<Rightarrow> string \<Rightarrow> string \<Rightarrow> negotiation_guard option \<Rightarrow>
     world \<Rightarrow> served status_result \<times> world" where
  "answer_head e c response file_url file_hash filename content_type ng w =
     (case prepare_download e c file_hash content_type (upstream_response_total_len e response) w of
        (Inl code, w1) \<Rightarrow> (Inl code, drop_negotiation ng w1)
      | (Inr g, w1) \<Rightarrow>
          (serve_head_download (prepared_handle w1 g) filename,
           spawn (Run_Download file_url response file_hash (dg_cell g) False) (finish_negotiation ng NegReady w1)))"

definition answer_range ::
  "app_env \<Rightarrow> app_config \<Rightarrow> upstream_response \<Rightarrow> string \<Rightarrow> string \<Rightarrow> string \<Rightarrow> string \<Rightarrow> header_map \<Rightarrow> u64 \<Rightarrow>
     negotiation_guard option \<Rightarrow> world \<Rightarrow> served status_result \<times> world" where
  "answer_range e c response file_url file_hash filename content_type headers total_len ng w =
     (case prepare_download e c file_hash content_type (Some total_len) w of
        (Inl code, w1) \<Rightarrow> (Inl code, drop_negotiation ng w1)
      | (Inr g, w1) \<Rightarrow>
          (case serve_range_download (env_host e) (st_fs (w_store w1)) (dg_cell g) (prepared_handle w1 g) filename headers of
             None \<Rightarrow> (Inl 416, drop_negotiation ng (download_drop g w1))
           | Some (Inl code) \<Rightarrow> (Inl code, drop_negotiation ng (download_drop g w1))
           | Some (Inr r) \<Rightarrow>
               (Inr r, spawn (Run_Download file_url response file_hash (dg_cell g) False)
                         (finish_negotiation ng NegReady w1))))"

definition handle_successful_upstream_response ::
  "app_env \<Rightarrow> app_config \<Rightarrow> upstream_response \<Rightarrow> string \<Rightarrow> string \<Rightarrow> string \<Rightarrow> header_map \<Rightarrow> string \<Rightarrow>
     negotiation_guard option \<Rightarrow> world \<Rightarrow> served status_result \<times> world" where
  "handle_successful_upstream_response e c response file_url file_hash filename headers meth ng w =
     (let content_type = extract_content_type_from_response (ur_headers response) in
      if meth = ''HEAD'' then answer_head e c response file_url file_hash filename content_type ng w
      else if hget headers ''range'' = None
      then (case prepare_download e c file_hash content_type (ae_content_length e response) w of
              (Inl code, w1) \<Rightarrow> (Inl code, drop_negotiation ng w1)
            | (Inr g, w1) \<Rightarrow> stream_and_save_from_upstream e c file_url response file_hash g ng w1)
      else if coalescible_range_start headers = None
      then (proxy_upstream_response response content_type filename, drop_negotiation ng w)
      else case upstream_response_total_len e response of
        None \<Rightarrow> proxy_original_range e file_url headers content_type filename ng w
      | Some total_len \<Rightarrow>
          if total_len > size_limit c UpstreamFetch
          then proxy_original_range e file_url headers content_type filename ng w
          else answer_range e c response file_url file_hash filename content_type headers total_len ng w)"

section \<open>Walking the servers\<close>

text \<open>\<open>while let Some(candidate) = walk.next()\<close> with a body that may return.\<close>

definition walk_size :: "walk \<Rightarrow> nat \<times> nat" where
  "walk_size wk = (if wk_user_servers_pending wk then 1 else 0, length (wk_pending wk))"

lemma take_user_smaller:
  assumes "take_user_servers e c wk w = ((True, wk1), w1)"
  shows "wk_user_servers_pending wk" "\<not> wk_user_servers_pending wk1"
  using assms by (auto simp: take_user_servers_def Let_def split: if_splits option.splits sum.splits prod.splits)

lemma walk_next_smaller:
  "walk_next e c wk w = ((Some cd, wk'), w') \<Longrightarrow> (walk_size wk', walk_size wk) \<in> less_than <*lex*> less_than"
proof (induction e c wk w rule: walk_next.induct)
  case (1 e c wk w)
  show ?case
  proof (cases "wk_pending wk")
    case Nil
    obtain added wk1 w1 where t: "take_user_servers e c wk w = ((added, wk1), w1)" by (metis surj_pair)
    then have added "walk_next e c wk1 w1 = ((Some cd, wk'), w')"
      using "1.prems" Nil by (auto simp: walk_next.simps [of e c wk] split: if_splits)
    from "1.IH"(1) [OF Nil t [symmetric] refl _ this(2)] this(1) take_user_smaller [of e c wk w wk1 w1] t
    show ?thesis by (auto simp: walk_size_def split: if_splits)
  next
    case (Cons hd rest)
    obtain t hint where hd: "hd = (t, hint)" by fastforce
    obtain rv w1 where v: "in_net (validate_upstream_url (ae_net e) hint) w = (rv, w1)" by fastforce
    let ?wk = "wk\<lparr>wk_pending := rest\<rparr>"
    note step = walk_next.simps [of e c wk w, unfolded Cons hd list.case prod.case Let_def v]
    have less: "(walk_size ?wk, walk_size wk) \<in> less_than <*lex*> less_than" by (simp add: walk_size_def Cons)
    have tr: "trans (less_than <*lex*> less_than)" by (simp add: trans_lex_prod trans_less_than)
    show ?thesis
    proof (cases rv)
      case (Inl err)
      then have "walk_next e c ?wk w1 = ((Some cd, wk'), w')" using "1.prems" step by simp
      from "1.IH"(2) [OF Cons [unfolded hd] refl refl v [symmetric, unfolded Inl] refl this] less tr
      show ?thesis by (meson transD)
    next
      case (Inr base)
      show ?thesis
      proof (cases "base \<in> wk_tried ?wk")
        case True
        then have "walk_next e c ?wk w1 = ((Some cd, wk'), w')" using "1.prems" step Inr by simp
        from "1.IH"(3) [OF Cons [unfolded hd] refl refl v [symmetric, unfolded Inr] refl True this] less tr
        show ?thesis by (meson transD)
      next
        case False
        then show ?thesis using "1.prems" step Inr less by (auto simp: walk_size_def)
      qed
    qed
  qed
qed

function walk_until ::
  "app_env \<Rightarrow> app_config \<Rightarrow> (candidate \<Rightarrow> world \<Rightarrow> 'r option \<times> world) \<Rightarrow> walk \<Rightarrow> world \<Rightarrow> 'r option \<times> world" where
  "walk_until e c act wk w =
     (case walk_next e c wk w of
        ((None, _), w1) \<Rightarrow> (None, w1)
      | ((Some cd, wk1), w1) \<Rightarrow>
          (case act cd w1 of
             (Some r, w2) \<Rightarrow> (Some r, w2)
           | (None, w2) \<Rightarrow> walk_until e c act wk1 w2))"
  by pat_completeness auto
termination
  by (relation "inv_image (less_than <*lex*> less_than) (\<lambda>(e, c, act, wk, w). walk_size wk)")
    (auto dest: walk_next_smaller [OF sym])

declare walk_until.simps [simp del]

text \<open>The three bodies: fetch and answer, relay, and look and redirect.\<close>

definition fetch_candidate ::
  "app_env \<Rightarrow> app_config \<Rightarrow> string \<Rightarrow> string \<Rightarrow> header_map \<Rightarrow> string \<Rightarrow> negotiation_guard option \<Rightarrow>
     candidate \<Rightarrow> world \<Rightarrow> served status_result option \<times> world" where
  "fetch_candidate e c file_hash filename headers meth ng cd w =
     (case send_request e ''GET'' (cd_url cd) (copy_headers_for_cold_fetch headers []) w of
        (Inl _, w1) \<Rightarrow> (None, w1)
      | (Inr response, w1) \<Rightarrow>
          if \<not> is_success (ur_status response) then (None, w1)
          else (case handle_successful_upstream_response e c response (cd_url cd) file_hash filename headers meth ng w1 of
                  (r, w2) \<Rightarrow> (Some r, w2)))"

definition relay_candidate ::
  "app_env \<Rightarrow> string \<Rightarrow> header_map \<Rightarrow> candidate \<Rightarrow> world \<Rightarrow> served status_result option \<times> world" where
  "relay_candidate e filename headers cd w =
     (case send_request e ''GET'' (cd_url cd) (copy_headers_to_reqwest headers []) w of
        (Inl _, w1) \<Rightarrow> (None, w1)
      | (Inr response, w1) \<Rightarrow>
          if \<not> is_success (ur_status response) then (None, w1)
          else (Some (proxy_upstream_response response (extract_content_type_from_response (ur_headers response)) filename), w1))"

definition proxy_request_to_upstream ::
  "app_env \<Rightarrow> app_config \<Rightarrow> walk \<Rightarrow> header_map \<Rightarrow> world \<Rightarrow> served status_result \<times> world" where
  "proxy_request_to_upstream e c wk headers w =
     (case walk_until e c (relay_candidate e (wk_filename wk) headers) wk w of
        (None, w1) \<Rightarrow> (Inl 404, w1) | (Some r, w1) \<Rightarrow> (r, w1))"

definition build_redirect_response :: "string \<Rightarrow> string \<Rightarrow> served status_result" where
  "build_redirect_response upstream_url filename =
     build_or_500 307
       [(''location'', upstream_url), (''cache-control'', ''private, no-store''),
        (''content-disposition'', ''inline; filename=\"'' @ clean_filename filename @ ''\"'')] (Whole (Inr []))"

definition cache_after_redirect ::
  "app_env \<Rightarrow> app_config \<Rightarrow> string \<Rightarrow> string \<Rightarrow> upstream_response \<Rightarrow> world \<Rightarrow> world" where
  "cache_after_redirect e c file_url file_hash response w =
     (if is_download_in_progress w file_hash then w
      else if (case ae_content_length e response of None \<Rightarrow> False | Some len \<Rightarrow> len > size_limit c UpstreamFetch) then w
      else spawn (Redirect_Download file_url file_hash (extract_content_type_from_response (ur_headers response))) w)"

definition try_head_and_redirect ::
  "app_env \<Rightarrow> app_config \<Rightarrow> string \<Rightarrow> string \<Rightarrow> bool \<Rightarrow> candidate \<Rightarrow> world \<Rightarrow> served option \<times> world" where
  "try_head_and_redirect e c file_hash filename cache_in_background cd w =
     (case send_request e ''HEAD'' (cd_url cd) [] w of
        (Inl _, w1) \<Rightarrow> (None, w1)
      | (Inr response, w1) \<Rightarrow>
          if \<not> is_success (ur_status response) then (None, w1)
          else let w2 = (if cache_in_background then cache_after_redirect e c (cd_url cd) file_hash response w1 else w1)
               in (case build_redirect_response (cd_url cd) filename of Inl _ \<Rightarrow> None | Inr r \<Rightarrow> Some r, w2))"

definition try_upstream_redirect ::
  "app_env \<Rightarrow> app_config \<Rightarrow> string \<Rightarrow> string option \<Rightarrow> string list option \<Rightarrow> pubkey option \<Rightarrow> bool \<Rightarrow> world \<Rightarrow>
     served status_result \<times> world" where
  "try_upstream_redirect e c filename custom_origin xs_servers author cache_in_background w =
     (case walk_until e c (try_head_and_redirect e c (requested_hash filename) filename cache_in_background)
             (walk_new c filename custom_origin xs_servers author) w of
        (None, w1) \<Rightarrow> (Inl 404, w1) | (Some r, w1) \<Rightarrow> (Inr r, w1))"

text \<open>The task of a redirect: \<open>start_background_download_for_redirect\<close>.\<close>

definition start_background_download_for_redirect ::
  "app_env \<Rightarrow> app_config \<Rightarrow> string \<Rightarrow> string \<Rightarrow> string \<Rightarrow> world \<Rightarrow> world" where
  "start_background_download_for_redirect e c file_url file_hash content_type w =
     (case send_request e ''GET'' file_url [] w of
        (Inl _, w1) \<Rightarrow> w1
      | (Inr response, w1) \<Rightarrow>
          if \<not> is_success (ur_status response) then w1
          else (case prepare_download_state e c file_hash content_type (ae_content_length e response) w1 of
                  (Inl _, w2) \<Rightarrow> w2
                | (Inr g, w2) \<Rightarrow> run_download e c response file_hash (dg_cell g) w2))"

section \<open>The request\<close>

datatype negotiated = Fetch "negotiation_guard option" | Answer "served status_result" | Relay

definition attach :: "app_env \<Rightarrow> string \<Rightarrow> string \<Rightarrow> header_map \<Rightarrow> string \<Rightarrow> world \<Rightarrow> negotiated option" where
  "attach e file_hash filename headers meth w =
     (case ongoing_handle w file_hash of
        None \<Rightarrow> None
      | Some i \<Rightarrow>
          (case handle_of w i of
             None \<Rightarrow> None
           | Some d \<Rightarrow>
               (case serve_existing_download (env_host e) (st_fs (w_store w)) i d filename headers meth of
                  Some r \<Rightarrow> Some (Answer r)
                | None \<Rightarrow> Some Relay)))"

fun negotiate ::
  "app_env \<Rightarrow> string \<Rightarrow> string \<Rightarrow> header_map \<Rightarrow> string \<Rightarrow> (world \<Rightarrow> world) list \<Rightarrow> world \<Rightarrow> (negotiated \<times> world) option" where
  "negotiate e file_hash filename headers meth waits w =
     (case claim_upstream_negotiation file_hash w of
        (Leader g, w1) \<Rightarrow> Some (Fetch (Some g), w1)
      | (Follower cell, w1) \<Rightarrow>
          (case waits of
             [] \<Rightarrow> None
           | meanwhile # later \<Rightarrow>
               (let w2 = meanwhile w1 in
                case negotiation_phase_of w2 cell of
                  NegReady \<Rightarrow>
                    (case attach e file_hash filename headers meth w2 of
                       Some a \<Rightarrow> Some (a, w2)
                     | None \<Rightarrow> negotiate e file_hash filename headers meth later w2)
                | NegFailed \<Rightarrow> negotiate e file_hash filename headers meth later w2
                | NegPending \<Rightarrow> Some (Fetch None, w2))))"

declare negotiate.simps [simp del]

definition proceed ::
  "app_env \<Rightarrow> app_config \<Rightarrow> walk \<Rightarrow> header_map \<Rightarrow> string \<Rightarrow> negotiated \<Rightarrow> world \<Rightarrow> served status_result \<times> world" where
  "proceed e c wk headers meth a w =
     (case a of
        Answer r \<Rightarrow> (r, w)
      | Relay \<Rightarrow> proxy_request_to_upstream e c wk headers w
      | Fetch ng \<Rightarrow>
          (case walk_until e c
                  (fetch_candidate e c (requested_hash (wk_filename wk)) (wk_filename wk) headers meth ng) wk w of
             (None, w1) \<Rightarrow> (Inl 404, drop_negotiation ng w1)
           | (Some r, w1) \<Rightarrow> (r, w1)))"

definition try_upstream_servers ::
  "app_env \<Rightarrow> app_config \<Rightarrow> string \<Rightarrow> header_map \<Rightarrow> string \<Rightarrow> string option \<Rightarrow> string list option \<Rightarrow>
     pubkey option \<Rightarrow> (world \<Rightarrow> world) list \<Rightarrow> world \<Rightarrow> (served status_result \<times> world) option" where
  "try_upstream_servers e c filename headers meth custom_origin xs_servers author waits w =
     (let file_hash = requested_hash filename; wk = walk_new c filename custom_origin xs_servers author in
      case attach e file_hash filename headers meth w of
        Some a \<Rightarrow> Some (proceed e c wk headers meth a w)
      | None \<Rightarrow>
          if hget headers ''range'' = None \<or> coalescible_range_start headers \<noteq> None
          then (case negotiate e file_hash filename headers meth waits w of
                  None \<Rightarrow> None
                | Some (a, w1) \<Rightarrow> Some (proceed e c wk headers meth a w1))
          else Some (proceed e c wk headers meth (Fetch None) w))"

end
