(* ===== verification/Filters.thy ===== *)
theory Filters
  imports Upstream Integrity
begin

text \<open>
  The discovery endpoints that summarise sets: the blob filter of \<open>src/handlers/filter.rs\<close> with its cache,
  and the web-of-trust filter of \<open>src/handlers/wot.rs\<close>.

  Building a Bloom or binary fuse filter, the encoding primitives of \<open>rmp\<close>, Base64 and JSON are the
  environment's; a fuse filter is what \<open>serde_json::to_value\<close> makes of it. A rate is the bit pattern of its
  \<open>f64\<close>: the patterns the code compares with are positive and finite, where equality of values is equality
  of bits.
\<close>

section \<open>Fingerprints\<close>

definition hex_digit_val :: "char \<Rightarrow> nat" where
  "hex_digit_val c =
     (if is_ascii_digit c then byte_of c - 48
      else if 97 \<le> byte_of c \<and> byte_of c \<le> 102 then byte_of c - 87 else byte_of c - 55)"

definition hex_val :: "string \<Rightarrow> nat" where
  "hex_val s = foldl (\<lambda>acc c. 16 * acc + hex_digit_val c) 0 s"

text \<open>\<open>u8::from_str_radix(s, 16)\<close>: an optional \<open>+\<close>, at least one digit, a value that fits.\<close>

definition u8_from_hex :: "string \<Rightarrow> 8 word option" where
  "u8_from_hex s =
     (let ds = (case s of c # cs \<Rightarrow> if c = CHR ''+'' then cs else s | [] \<Rightarrow> [])
      in if ds = [] \<or> \<not> list_all is_ascii_hexdigit ds then None
         else if hex_val ds < 256 then Some (word_of_nat (hex_val ds)) else None)"

definition u64_from_be_bytes :: "8 word list \<Rightarrow> u64" where
  "u64_from_be_bytes bs = foldl (\<lambda>acc b. acc * 256 + ucast b) 0 bs"

text \<open>The slices are in range: the callers' keys have 64 characters.\<close>

definition sha256_to_u64 :: "string \<Rightarrow> u64" where
  "sha256_to_u64 hex =
     (let bs = List.map_filter (\<lambda>i. u8_from_hex (take 2 (drop i hex))) [0, 2, 4, 6, 8, 10, 12, 14]
      in if length bs \<ge> 8 then u64_from_be_bytes (take 8 bs) else 0)"

section \<open>Filters\<close>

record fuse_object =
  fo_seed :: "u64 option"
  fo_segment_length :: "u64 option"
  fo_segment_length_mask :: "u64 option"
  fo_segment_count_length :: "u64 option"
  fo_fingerprints :: "u64 option list option"

type_synonym fuse_value = "string + fuse_object option"

record bloom_filter =
  bf_slice :: bytes
  bf_hashes :: nat
  bf_check :: "string \<Rightarrow> bool"

datatype filter_type = Bloom bloom_filter | Fuse8 fuse_value | Fuse16 fuse_value | Fuse32 fuse_value

datatype fuse_width = W8 | W16 | W32

record filter_payload =
  fp_type :: string
  fp_timestamp :: u64
  fp_count :: nat
  fp_filter :: string
  fp_bloom :: "(u64 \<times> nat \<times> nat) option"

datatype wot_payload =
    Wot_Invalid
  | Wot_Test string bool nat u64
  | Wot_Filter nat u64 nat nat string

text \<open>The environment: filter constructors, MessagePack writers, Base64 and JSON.\<close>

record filter_env =
  fe_bloom :: "nat \<Rightarrow> u64 \<Rightarrow> string list \<Rightarrow> bloom_filter option"
  fe_fuse :: "fuse_width \<Rightarrow> u64 list \<Rightarrow> fuse_value option"
  fe_array_len :: "32 word \<Rightarrow> bytes"
  fe_u8 :: "8 word \<Rightarrow> bytes"
  fe_u16 :: "16 word \<Rightarrow> bytes"
  fe_u32 :: "32 word \<Rightarrow> bytes"
  fe_u64 :: "u64 \<Rightarrow> bytes"
  fe_base64 :: "bytes \<Rightarrow> string"
  fe_json :: "filter_payload \<Rightarrow> string + bytes"
  fe_wot_json :: "wot_payload \<Rightarrow> bytes option"

definition serialize_fingerprint :: "filter_env \<Rightarrow> u64 \<Rightarrow> bytes" where
  "serialize_fingerprint fe fp =
     (if fp < 2 ^ 8 then fe_u8 fe (ucast fp)
      else if fp < 2 ^ 16 then fe_u16 fe (ucast fp)
      else if fp < 2 ^ 32 then fe_u32 fe (ucast fp)
      else fe_u64 fe fp)"

definition serialize_binary_fuse_as_array :: "filter_env \<Rightarrow> fuse_value \<Rightarrow> string + bytes" where
  "serialize_binary_fuse_as_array fe v =
     and_then (case v of Inl err \<Rightarrow> Inl (''Failed to serialize to JSON: '' @ err) | Inr json \<Rightarrow> Inr json) (\<lambda>json.
     and_then (ok_or json ''Expected object'') (\<lambda>obj.
     and_then (ok_or (fo_seed obj) ''Missing or invalid seed'') (\<lambda>seed.
     and_then (ok_or (fo_segment_length obj) ''Missing or invalid segment_length'') (\<lambda>segment_length.
     and_then (ok_or (fo_segment_length_mask obj) ''Missing or invalid segment_length_mask'') (\<lambda>segment_length_mask.
     and_then (ok_or (fo_segment_count_length obj) ''Missing or invalid segment_count_length'') (\<lambda>segment_count_length.
     and_then (ok_or (fo_fingerprints obj) ''Missing or invalid fingerprints'') (\<lambda>fingerprints.
     let fingerprint_values = List.map_filter id fingerprints in
     Inr (fe_array_len fe 5 @ fe_u64 fe seed @ fe_u32 fe (ucast segment_length) @ fe_u32 fe (ucast segment_length_mask) @
          fe_u32 fe (ucast segment_count_length) @ fe_array_len fe (word_of_nat (length fingerprint_values)) @
          concat (map (serialize_fingerprint fe) fingerprint_values)))))))))"

fun type_name :: "filter_type \<Rightarrow> string" where
  "type_name (Bloom _) = ''bloom''"
| "type_name (Fuse8 _) = ''binary-fuse-8''"
| "type_name (Fuse16 _) = ''binary-fuse-16''"
| "type_name (Fuse32 _) = ''binary-fuse-32''"

definition unwrap_or_default :: "string + bytes \<Rightarrow> bytes" where
  "unwrap_or_default r = (case r of Inl _ \<Rightarrow> [] | Inr b \<Rightarrow> b)"

fun serialize_filter :: "filter_env \<Rightarrow> filter_type \<Rightarrow> bytes" where
  "serialize_filter fe (Bloom bloom) = bf_slice bloom"
| "serialize_filter fe (Fuse8 f) = unwrap_or_default (serialize_binary_fuse_as_array fe f)"
| "serialize_filter fe (Fuse16 f) = unwrap_or_default (serialize_binary_fuse_as_array fe f)"
| "serialize_filter fe (Fuse32 f) = unwrap_or_default (serialize_binary_fuse_as_array fe f)"

definition build_fuse :: "filter_env \<Rightarrow> fuse_width \<Rightarrow> (fuse_value \<Rightarrow> filter_type) \<Rightarrow> u64 list \<Rightarrow> string + filter_type" where
  "build_fuse fe width con fingerprints =
     (if fingerprints = [] then Inl ''empty fingerprints''
      else case fe_fuse fe width fingerprints of None \<Rightarrow> Inl ''failed to construct filter'' | Some f \<Rightarrow> Inr (con f))"

definition build_filter :: "filter_env \<Rightarrow> string \<Rightarrow> string list \<Rightarrow> u64 list \<Rightarrow> u64 \<Rightarrow> string + filter_type" where
  "build_filter fe algorithm keys fingerprints fp_rate =
     (if algorithm = ''bloom'' then
        (case fe_bloom fe (max (length keys) 1) fp_rate keys of
           None \<Rightarrow> Inl ''failed to create bloom filter'' | Some bloom \<Rightarrow> Inr (Bloom bloom))
      else if algorithm = ''binary-fuse-8'' then build_fuse fe W8 Fuse8 fingerprints
      else if algorithm = ''binary-fuse-16'' then build_fuse fe W16 Fuse16 fingerprints
      else if algorithm = ''binary-fuse-32'' then build_fuse fe W32 Fuse32 fingerprints
      else Inl ''unknown algorithm'')"

section \<open>The filter endpoint\<close>

text \<open>\<open>0.001\<close>, \<open>0.01\<close> and \<open>0.1\<close> as IEEE 754 double patterns.\<close>

definition rate_001 :: u64 where "rate_001 = 0x3F50624DD2F1A9FC"
definition rate_01 :: u64 where "rate_01 = 0x3F847AE147AE147B"
definition rate_1 :: u64 where "rate_1 = 0x3FB999999999999A"

definition checked_rate :: "u64 option \<Rightarrow> u64 status_result" where
  "checked_rate q =
     (case q of
        None \<Rightarrow> Inr rate_01
      | Some rate \<Rightarrow> if rate \<in> {rate_001, rate_01, rate_1} then Inr rate else Inl 400)"

definition built_response :: "nat \<Rightarrow> header_map \<Rightarrow> 'b \<Rightarrow> 'b response status_result" where
  "built_response st hs b =
     (if list_all (\<lambda>(_, v). header_value_ok v) hs then Inr \<lparr>status = st, rheaders = hs, body = b\<rparr> else Inl 500)"

definition filter_response :: "header_map \<Rightarrow> string \<Rightarrow> bytes \<Rightarrow> bytes response status_result" where
  "filter_response headers etag b =
     (let matched = (case hget_str headers ''if-none-match'' of None \<Rightarrow> False | Some v \<Rightarrow> etag_list_matches v etag) in
      if matched then built_response 304 [(''etag'', etag), (''cache-control'', ''max-age=60'')] []
      else built_response 200
             [(''content-type'', ''application/json''), (''etag'', etag), (''cache-control'', ''max-age=60'')] b)"

definition filter_payload_of :: "filter_env \<Rightarrow> string \<Rightarrow> u64 \<Rightarrow> string list \<Rightarrow> u64 \<Rightarrow> string + filter_payload" where
  "filter_payload_of fe algorithm timestamp keys fp_rate =
     (if keys = [] \<and> \<not> starts_with ''bloom'' algorithm
      then Inr \<lparr>fp_type = algorithm, fp_timestamp = timestamp, fp_count = 0, fp_filter = [], fp_bloom = None\<rparr>
      else and_then (build_filter fe algorithm keys (map sha256_to_u64 keys) fp_rate) (\<lambda>f.
        Inr \<lparr>fp_type = type_name f, fp_timestamp = timestamp, fp_count = length keys,
             fp_filter = fe_base64 fe (serialize_filter fe f),
             fp_bloom = (case f of Bloom bloom \<Rightarrow> Some (fp_rate, bf_hashes bloom, length (bf_slice bloom) * 8) | _ \<Rightarrow> None)\<rparr>))"

definition filter_etag :: "(bytes \<Rightarrow> string) \<Rightarrow> bytes \<Rightarrow> string" where
  "filter_etag sha b = [CHR 0x22] @ take 32 (sha b) @ [CHR 0x22]"

definition render_filter ::
  "filter_env \<Rightarrow> (bytes \<Rightarrow> string) \<Rightarrow> string \<Rightarrow> u64 \<Rightarrow> entries \<Rightarrow> u64 \<Rightarrow> string + cached_filter" where
  "render_filter fe sha algorithm timestamp ix fp_rate =
     (let (keys, generation) = index_hash_keys ix in
      and_then (filter_payload_of fe algorithm timestamp keys fp_rate) (\<lambda>payload.
      and_then (fe_json fe payload) (\<lambda>b.
      Inr \<lparr>cf_generation = generation, cf_fp_rate_bits = fp_rate, cf_body = b, cf_etag = filter_etag sha b\<rparr>)))"

definition filter_hit :: "cached_filter option \<Rightarrow> u64 \<Rightarrow> u64 \<Rightarrow> cached_filter option" where
  "filter_hit cache generation bits =
     (case cache of
        Some cached \<Rightarrow> if cf_generation cached = generation \<and> cf_fp_rate_bits cached = bits then Some cached else None
      | None \<Rightarrow> None)"

text \<open>
  A request runs in two parts. \<open>get_filter_start\<close> is the code up to the write lock: the answer from the
  cache, or the generation it saw and the rate, to go on with; \<open>get_filter_miss\<close> is the rest, under the
  lock. Other requests and changes of the catalogue may come between them.
\<close>

definition get_filter_start ::
  "app_config \<Rightarrow> u64 option \<Rightarrow> header_map \<Rightarrow> world \<Rightarrow> bytes response status_result + (u64 \<times> u64 \<times> u64)" where
  "get_filter_start c fp headers w =
     (case checked_rate fp of
        Inl st \<Rightarrow> Inl (Inl st)
      | Inr fp_rate \<Rightarrow>
          (let fp_rate_bits = (if filter_algorithm c = ''bloom'' then fp_rate else rate_01);
               generation = e_generation (st_index (w_store w)) in
           case filter_hit (w_filter w) generation fp_rate_bits of
             Some cached \<Rightarrow> Inl (filter_response headers (cf_etag cached) (cf_body cached))
           | None \<Rightarrow> Inr (generation, fp_rate_bits, fp_rate)))"

definition get_filter_miss ::
  "filter_env \<Rightarrow> app_env \<Rightarrow> app_config \<Rightarrow> header_map \<Rightarrow> u64 \<times> u64 \<times> u64 \<Rightarrow> world \<Rightarrow>
     bytes response status_result \<times> world" where
  "get_filter_miss fe e c headers seen w =
     (let (generation, fp_rate_bits, fp_rate) = seen in
      case filter_hit (w_filter w) generation fp_rate_bits of
        Some cached \<Rightarrow> (filter_response headers (cf_etag cached) (cf_body cached), w)
      | None \<Rightarrow>
          (case render_filter fe (ae_sha e) (filter_algorithm c) (env_now e) (st_index (w_store w)) fp_rate of
             Inl _ \<Rightarrow> (Inl 500, w)
           | Inr rendered \<Rightarrow> (filter_response headers (cf_etag rendered) (cf_body rendered), w\<lparr>w_filter := Some rendered\<rparr>)))"

definition get_filter ::
  "filter_env \<Rightarrow> app_env \<Rightarrow> app_config \<Rightarrow> u64 option \<Rightarrow> header_map \<Rightarrow> world \<Rightarrow> bytes response status_result \<times> world" where
  "get_filter fe e c fp headers w =
     (case get_filter_start c fp headers w of
        Inl answer \<Rightarrow> (answer, w)
      | Inr seen \<Rightarrow> get_filter_miss fe e c headers seen w)"

section \<open>The web-of-trust endpoint\<close>

record wot_query =
  wq_format :: "string option"
  wq_fp :: "u64 option"
  wq_test :: "string option"

definition json_response :: "nat \<Rightarrow> bytes option \<Rightarrow> bytes response status_result" where
  "json_response st b =
     (case b of None \<Rightarrow> Inl 500 | Some x \<Rightarrow> built_response st [(''content-type'', ''application/json'')] x)"

definition wot_test :: "filter_env \<Rightarrow> bloom_filter \<Rightarrow> nat \<Rightarrow> u64 \<Rightarrow> string \<Rightarrow> bytes response status_result" where
  "wot_test fe bloom num_items fp test =
     (let probe = to_lowercase (trim test) in
      if length probe \<noteq> 64 \<or> \<not> list_all is_ascii_hexdigit probe
      then json_response 400 (fe_wot_json fe Wot_Invalid)
      else json_response 200 (fe_wot_json fe (Wot_Test probe (bf_check bloom probe) num_items fp)))"

definition wants_json :: "string option \<Rightarrow> bool" where
  "wants_json fmt = (case fmt of None \<Rightarrow> True | Some f \<Rightarrow> eq_ignore_ascii_case f ''json'')"

definition get_wot :: "filter_env \<Rightarrow> auth_state \<Rightarrow> wot_query \<Rightarrow> bytes response status_result" where
  "get_wot fe a q =
     (let pks = map fst (trusted_pubkeys a); num_items = max (length pks) 1 in
      and_then (checked_rate (wq_fp q)) (\<lambda>fp.
      case fe_bloom fe num_items fp pks of
        None \<Rightarrow> Inl 500
      | Some bloom \<Rightarrow>
          (case wq_test q of
             Some test \<Rightarrow> wot_test fe bloom num_items fp test
           | None \<Rightarrow>
               if wants_json (wq_format q)
               then json_response 200 (fe_wot_json fe
                      (Wot_Filter num_items fp (bf_hashes bloom) (length (bf_slice bloom) * 8) (fe_base64 fe (bf_slice bloom))))
               else built_response 200 [(''content-type'', ''application/octet-stream'')] (bf_slice bloom))))"

section \<open>What a filter describes\<close>

text \<open>
  The catalogue changes and filters are rendered in any order: \<open>filter_history\<close> lists the states the
  catalogue has been in, the present one first, with the cache. Rendering is the only writer of the cache.
  The generation counter is assumed not to run through all 64 bits.
\<close>

inductive filter_history ::
  "filter_env \<Rightarrow> (bytes \<Rightarrow> string) \<Rightarrow> string \<Rightarrow> entries list \<Rightarrow> cached_filter option \<Rightarrow> bool"
  for fe sha algorithm where
  begins: "filter_history fe sha algorithm [ix] None"
| changes: "filter_history fe sha algorithm (ix # hist) cache \<Longrightarrow> unat (e_generation ix) + 1 < 2 ^ 64 \<Longrightarrow>
     filter_history fe sha algorithm (index_step op ix # ix # hist) cache"
| renders: "filter_history fe sha algorithm (ix # hist) cache \<Longrightarrow>
     render_filter fe sha algorithm ts ix rate = Inr cf \<Longrightarrow> filter_history fe sha algorithm (ix # hist) (Some cf)"

lemma index_step_generation:
  "index_step op ix = ix \<or> e_generation (index_step op ix) = e_generation ix + 1"
  by (cases op) (auto simp: index_insert_def index_publish_def index_remove_def index_remove_if_location_matches_def
      entries_insert_def entries_remove_def Let_def split: option.splits prod.splits)

lemma unat_next: "unat (g :: u64) + 1 < 2 ^ 64 \<Longrightarrow> unat (g + 1) = unat g + 1"
  by (simp add: unat_word_ariths)

text \<open>A generation names one content: two states of a history with the same number catalogue the same.\<close>

lemma filter_history_inv:
  assumes "filter_history fe sha algorithm hist cache"
  shows "hist \<noteq> [] \<and> (\<forall>a \<in> set hist. unat (e_generation a) \<le> unat (e_generation (hd hist))) \<and>
    (\<forall>a \<in> set hist. \<forall>b \<in> set hist. e_generation a = e_generation b \<longrightarrow> e_map a = e_map b) \<and>
    (\<forall>cf. cache = Some cf \<longrightarrow> (\<exists>ix \<in> set hist. \<exists>ts rate. render_filter fe sha algorithm ts ix rate = Inr cf))"
  using assms
proof induction
  case (begins ix)
  then show ?case by simp
next
  case (changes ix hist cache op)
  show ?case
  proof (cases "index_step op ix = ix")
    case True
    then have "set (index_step op ix # ix # hist) = set (ix # hist)" "hd (index_step op ix # ix # hist) = hd (ix # hist)" by auto
    then show ?thesis using changes.IH by (simp only: list.distinct simp_thms)
  next
    case False
    then have g: "unat (e_generation (index_step op ix)) = unat (e_generation ix) + 1"
      using index_step_generation [of op ix] unat_next changes.hyps(2) by auto
    define S n where "S = set (ix # hist)" and "n = index_step op ix"
    have S: "set (n # ix # hist) = insert n S" by (simp add: S_def)
    have le: "\<forall>a \<in> S. unat (e_generation a) \<le> unat (e_generation ix)"
      and inj: "\<forall>a \<in> S. \<forall>b \<in> S. e_generation a = e_generation b \<longrightarrow> e_map a = e_map b"
      and ca: "\<forall>cf. cache = Some cf \<longrightarrow> (\<exists>ix \<in> S. \<exists>ts rate. render_filter fe sha algorithm ts ix rate = Inr cf)"
      using changes.IH [unfolded list.sel(1), folded S_def] by blast+
    have ne: "\<forall>a \<in> S. e_generation a \<noteq> e_generation n" using le g unfolding n_def by fastforce
    have "\<forall>a \<in> insert n S. unat (e_generation a) \<le> unat (e_generation n)" using le g unfolding n_def by fastforce
    moreover have "\<forall>a \<in> insert n S. \<forall>b \<in> insert n S. e_generation a = e_generation b \<longrightarrow> e_map a = e_map b"
    proof (intro ballI impI)
      fix a b assume ab: "a \<in> insert n S" "b \<in> insert n S" "e_generation a = e_generation b"
      have "a = b \<or> (a \<in> S \<and> b \<in> S)" using ab ne by (cases "a = n"; cases "b = n") auto
      then show "e_map a = e_map b" using inj ab(3) by blast
    qed
    ultimately show ?thesis using ca unfolding n_def [symmetric] S by (simp only: list.sel list.distinct simp_thms) blast
  qed
next
  case (renders ix hist cache ts rate cf)
  have "\<exists>a \<in> set (ix # hist). \<exists>ts rate. render_filter fe sha algorithm ts a rate = Inr cf"
    using renders.hyps(2) by auto
  then show ?case using renders.IH by (simp only: option.inject simp_thms) blast
qed

lemma render_filter_fields:
  "render_filter fe sha algorithm ts ix rate = Inr cf \<Longrightarrow>
     cf_generation cf = e_generation ix \<and> cf_fp_rate_bits cf = rate \<and> cf_etag cf = filter_etag sha (cf_body cf)"
  by (auto simp: render_filter_def index_hash_keys_def and_then_Inr_iff)

lemma render_filter_same:
  "e_map a = e_map b \<Longrightarrow> e_generation a = e_generation b \<Longrightarrow>
     render_filter fe sha algorithm ts a rate = render_filter fe sha algorithm ts b rate"
  by (simp add: render_filter_def index_hash_keys_def)

lemma filter_response_200:
  "filter_response headers etag b = Inr r \<Longrightarrow> status r = 200 \<Longrightarrow> body r = b \<and> hget (rheaders r) ''etag'' = Some etag"
  by (auto simp: filter_response_def built_response_def Let_def hget_def eq_ignore_ascii_case_def ascii_lower_def
      is_ascii_uppercase_def byte_of_def split: if_splits option.splits)

text \<open>A cached filter that is hit renders the state with the generation asked for.\<close>

lemma filter_hit_current:
  assumes "filter_history fe sha algorithm hist cache" "ix \<in> set hist" "filter_hit cache (e_generation ix) bits = Some cf"
  shows "\<exists>ts. render_filter fe sha algorithm ts ix bits = Inr cf"
proof -
  note inv = filter_history_inv [OF assms(1)]
  have cf: "cache = Some cf" "cf_generation cf = e_generation ix" "cf_fp_rate_bits cf = bits"
    using assms(3) by (auto simp: filter_hit_def split: option.splits if_splits)
  obtain a ts rate where a: "a \<in> set hist" "render_filter fe sha algorithm ts a rate = Inr cf"
    using inv cf(1) by blast
  have "e_generation a = e_generation ix" "rate = bits" using render_filter_fields [OF a(2)] cf by auto
  moreover have "e_map a = e_map ix" using inv a(1) assms(2) calculation(1) by blast
  ultimately show ?thesis using a(2) render_filter_same [of a ix] by metis
qed

text \<open>
  What a filter of a catalogue is, apart from the code that renders it: the hashes of its entries, once
  each; the first 64 bits of a hash as a number; a payload that counts the hashes and encodes the filter
  the library built from exactly them, at the rate asked for where a rate matters; and the response that
  carries the payload with the validator of the body sent.
\<close>

definition catalogued_hashes :: "entries \<Rightarrow> string list" where
  "catalogued_hashes ix =
     map (take 64) (filter (\<lambda>k. 64 \<le> length k \<and> list_all is_ascii_hexdigit (take 64 k)) (map fst (e_map ix)))"

definition leading_bits :: "string \<Rightarrow> u64" where
  "leading_bits h = word_of_nat (hex_val (take 16 h))"

definition built_from :: "filter_env \<Rightarrow> string \<Rightarrow> u64 \<Rightarrow> string list \<Rightarrow> filter_payload \<Rightarrow> bool" where
  "built_from fe algorithm rate hashes pl \<longleftrightarrow>
     fp_type pl = algorithm \<and> fp_count pl = length hashes \<and>
     (if algorithm = ''bloom''
      then \<exists>b. fe_bloom fe (max (length hashes) 1) rate hashes = Some b \<and> fp_filter pl = fe_base64 fe (bf_slice b) \<and>
             fp_bloom pl = Some (rate, bf_hashes b, 8 * length (bf_slice b))
      else fp_bloom pl = None \<and>
        (if hashes = [] then fp_filter pl = []
         else \<exists>width v. algorithm = ''binary-fuse-'' @ (case width of W8 \<Rightarrow> ''8'' | W16 \<Rightarrow> ''16'' | W32 \<Rightarrow> ''32'') \<and>
                fe_fuse fe width (map leading_bits hashes) = Some v \<and>
                fp_filter pl = fe_base64 fe (unwrap_or_default (serialize_binary_fuse_as_array fe v))))"

definition describes :: "filter_env \<Rightarrow> app_env \<Rightarrow> app_config \<Rightarrow> u64 option \<Rightarrow> entries \<Rightarrow> bytes response \<Rightarrow> bool" where
  "describes fe e c fp ix r \<longleftrightarrow>
     (\<exists>rate pl. built_from fe (filter_algorithm c) rate (catalogued_hashes ix) pl \<and> fe_json fe pl = Inr (body r) \<and>
        (filter_algorithm c = ''bloom'' \<longrightarrow> rate = (case fp of None \<Rightarrow> rate_01 | Some q \<Rightarrow> q)) \<and>
        hget (rheaders r) ''etag'' = Some ([CHR 0x22] @ take 32 (ae_sha e (body r)) @ [CHR 0x22]))"

lemma hex_digit_bound: "is_ascii_hexdigit c \<Longrightarrow> hex_digit_val c < 16"
  by (auto simp: is_ascii_hexdigit_def is_lower_hex_def hex_digit_val_def is_ascii_digit_def)

lemma hex_pair:
  assumes "is_ascii_hexdigit a" "is_ascii_hexdigit b"
  shows "u8_from_hex [a, b] = Some (word_of_nat (16 * hex_digit_val a + hex_digit_val b))"
    "ucast (word_of_nat (16 * hex_digit_val a + hex_digit_val b) :: 8 word) =
      (word_of_nat (16 * hex_digit_val a + hex_digit_val b) :: u64)"
proof -
  have "a \<noteq> CHR ''+''" using assms(1) by (auto simp: is_ascii_hexdigit_def is_lower_hex_def is_ascii_digit_def byte_of_def)
  moreover have lt: "16 * hex_digit_val a + hex_digit_val b < 256"
    using hex_digit_bound [OF assms(1)] hex_digit_bound [OF assms(2)] by simp
  ultimately show "u8_from_hex [a, b] = Some (word_of_nat (16 * hex_digit_val a + hex_digit_val b))"
    using assms by (simp add: u8_from_hex_def hex_val_def)
  have eight: "ucast (word_of_nat n :: 8 word) = (word_of_nat n :: u64)" if "n < 256" for n
    using that by (simp add: word_unat_eq_iff unsigned_ucast_eq unsigned_of_nat take_bit_nat_eq_self)
  show "ucast (word_of_nat (16 * hex_digit_val a + hex_digit_val b) :: 8 word) =
      (word_of_nat (16 * hex_digit_val a + hex_digit_val b) :: u64)"
    by (rule eight [OF lt])
qed

lemma fingerprint_leading_bits:
  assumes "16 \<le> length h" "list_all is_ascii_hexdigit (take 16 h)"
  shows "sha256_to_u64 h = leading_bits h"
proof -
  have digits: "is_ascii_hexdigit (h ! i)" if "i < 16" for i using assms that by (auto simp: list_all_length)
  have pair: "take 2 (drop i h) = [h ! i, h ! Suc i]" if "i < 15" for i
    using that assms(1) by (simp add: numeral_2_eq_2 take_Suc_conv_app_nth take_Suc hd_drop_conv_nth tl_drop drop_Suc [symmetric])
  have u: "u8_from_hex (take 2 (drop i h)) = Some (word_of_nat (16 * hex_digit_val (h ! i) + hex_digit_val (h ! Suc i)))"
    if "i < 15" for i using pair [OF that] hex_pair(1) [OF digits digits] that by simp
  have c: "ucast (word_of_nat (16 * hex_digit_val (h ! i) + hex_digit_val (h ! Suc i)) :: 8 word) =
      (word_of_nat (16 * hex_digit_val (h ! i) + hex_digit_val (h ! Suc i)) :: u64)" if "i < 15" for i
    by (rule hex_pair(2) [OF digits digits]) (use that in simp_all)
  define d where "d = (\<lambda>i. hex_digit_val (h ! i))"
  have bytes: "List.map_filter (\<lambda>i. u8_from_hex (take 2 (drop i h))) [0, 2, 4, 6, 8, 10, 12, 14] =
      map (\<lambda>i. word_of_nat (16 * d i + d (Suc i))) [0, 2, 4, 6, 8, 10, 12, 14]"
    by (simp add: List.map_filter_simps u u [of 0, simplified] d_def)
  have wide: "ucast (word_of_nat (16 * d i + d (Suc i)) :: 8 word) = (word_of_nat (16 * d i + d (Suc i)) :: u64)" if "i < 15" for i
    unfolding d_def by (rule c [OF that])
  have "take 16 h = map ((!) h) [0..<16]" using assms(1) by (intro nth_equalityI) simp_all
  moreover have "[0..<16] = [0, 1, 2, 3, 4, 5, 6, 7, 8, 9, 10, 11, 12, 13, 14, 15]" by code_simp
  ultimately have "hex_val (take 16 h) = foldl (\<lambda>acc i. 16 * acc + d i) 0 [0, 1, 2, 3, 4, 5, 6, 7, 8, 9, 10, 11, 12, 13, 14, 15]"
    by (simp add: hex_val_def d_def)
  moreover have "sha256_to_u64 h = foldl (\<lambda>acc i. acc * 256 + word_of_nat (16 * d i + d (Suc i))) 0 [0, 2, 4, 6, 8, 10, 12, 14]"
    unfolding sha256_to_u64_def bytes Let_def
    by (simp add: u64_from_be_bytes_def wide [of 0, simplified] wide [of 2, simplified] wide [of 4, simplified]
        wide [of 6, simplified] wide [of 8, simplified] wide [of 10, simplified] wide [of 12, simplified] wide [of 14, simplified])
  ultimately show ?thesis by (simp add: leading_bits_def algebra_simps)
qed

lemma payload_built:
  assumes "filter_payload_of fe algorithm ts keys rate = Inr pl"
    and "list_all (\<lambda>k. length k = 64 \<and> list_all is_ascii_hexdigit k) keys"
  shows "built_from fe algorithm rate keys pl"
proof -
  have "sha256_to_u64 k = leading_bits k" if "k \<in> set keys" for k
    using that assms(2) by (intro fingerprint_leading_bits) (auto simp: list_all_iff dest: in_set_takeD)
  then have fps: "map sha256_to_u64 keys = map leading_bits keys" by simp
  show ?thesis
  proof (cases "algorithm = ''bloom''")
    case True
    then show ?thesis using assms(1)
      by (auto simp: filter_payload_of_def build_filter_def starts_with_def built_from_def and_then_Inr_iff
          split: option.splits if_splits)
  next
    case False
    show ?thesis
    proof (cases "keys = []")
      case True
      then show ?thesis using assms(1) False
        by (auto simp: filter_payload_of_def build_filter_def build_fuse_def built_from_def and_then_Inr_iff split: if_splits)
    next
      case keys: False
      then show ?thesis using assms(1) False unfolding filter_payload_of_def fps
        by (auto simp: build_filter_def build_fuse_def built_from_def and_then_Inr_iff
            intro: exI [of _ W8] exI [of _ W16] exI [of _ W32] split: option.splits if_splits)
    qed
  qed
qed

lemma describesI:
  assumes "render_filter fe (ae_sha e) (filter_algorithm c) ts ix rate = Inr cf"
    "filter_response headers (cf_etag cf) (cf_body cf) = Inr r" "status r = 200"
    "filter_algorithm c = ''bloom'' \<Longrightarrow> checked_rate fp = Inr rate"
  shows "describes fe e c fp ix r"
proof -
  obtain pl where pl: "filter_payload_of fe (filter_algorithm c) ts (catalogued_hashes ix) rate = Inr pl"
    "fe_json fe pl = Inr (cf_body cf)"
    using assms(1) by (auto simp: render_filter_def index_hash_keys_def catalogued_hashes_def and_then_Inr_iff)
  have "list_all (\<lambda>k. length k = 64 \<and> list_all is_ascii_hexdigit k) (catalogued_hashes ix)"
    by (auto simp: catalogued_hashes_def list_all_iff)
  from payload_built [OF pl(1) this] have "built_from fe (filter_algorithm c) rate (catalogued_hashes ix) pl" .
  moreover have "rate = (case fp of None \<Rightarrow> rate_01 | Some q \<Rightarrow> q)" if "filter_algorithm c = ''bloom''"
    using assms(4) [OF that] by (auto simp: checked_rate_def split: option.splits if_splits)
  ultimately show ?thesis
    using filter_response_200 [OF assms(2,3)] render_filter_fields [OF assms(1)] pl(2)
    unfolding describes_def filter_etag_def by metis
qed

lemma get_filter_start_describes:
  assumes hist: "filter_history fe (ae_sha e) (filter_algorithm c) hist (w_filter w)" and hd: "hd hist = st_index (w_store w)"
    and a: "get_filter_start c fp headers w = Inl (Inr r)" "status r = 200"
  shows "describes fe e c fp (st_index (w_store w)) r"
proof -
  obtain ix rest where h: "hist = ix # rest" and ix: "ix = st_index (w_store w)"
    using filter_history_inv [OF hist, THEN conjunct1] hd by (cases hist) simp_all
  obtain rate where q1: "checked_rate fp = Inr rate" using a by (cases "checked_rate fp") (auto simp: get_filter_start_def)
  let ?bits = "if filter_algorithm c = ''bloom'' then rate else rate_01"
  obtain cf where q: "filter_hit (w_filter w) (e_generation ix) ?bits = Some cf" and
      r: "filter_response headers (cf_etag cf) (cf_body cf) = Inr r"
    using a q1 unfolding get_filter_start_def Let_def ix
    by (cases "filter_hit (w_filter w) (e_generation (st_index (w_store w))) ?bits") simp_all
  obtain ts where ts: "render_filter fe (ae_sha e) (filter_algorithm c) ts ix ?bits = Inr cf"
    using filter_hit_current [OF hist _ q] h by auto
  show ?thesis unfolding ix [symmetric] by (rule describesI [OF ts r]) (use a q1 in auto)
qed

lemma get_filter_start_seen:
  assumes "get_filter_start c fp headers w = Inr seen"
  obtains rate where "checked_rate fp = Inr rate"
    "seen = (e_generation (st_index (w_store w)), (if filter_algorithm c = ''bloom'' then rate else rate_01), rate)"
proof -
  obtain rate where q1: "checked_rate fp = Inr rate"
    using assms by (cases "checked_rate fp") (auto simp: get_filter_start_def)
  moreover have "seen = (e_generation (st_index (w_store w)), (if filter_algorithm c = ''bloom'' then rate else rate_01), rate)"
    using assms q1 unfolding get_filter_start_def Let_def
    by (cases "filter_hit (w_filter w) (e_generation (st_index (w_store w)))
        (if filter_algorithm c = ''bloom'' then rate else rate_01)") simp_all
  ultimately show thesis by (rule that)
qed

text \<open>C34: A filter describes the catalogue it claims to. Whatever changes of the catalogue and other filter
  requests come in between, a 200 answer counts and carries the filter that the library built, at the
  requested rate where the algorithm has one, from exactly the hashes (for a fuse filter, their first 64
  bits) that the catalogue has now or had when the request arrived; a cached one is never older than
  that. The validator is that of the body sent, and a request changes nothing but the cache.\<close>
theorem filter_describes_catalogue:
  assumes "filter_history fe (ae_sha e) (filter_algorithm c) hist (w_filter w)" "hd hist = st_index (w_store w)"
  shows "(get_filter_start c fp headers w = Inl (Inr r) \<and> status r = 200 \<longrightarrow> describes fe e c fp (st_index (w_store w)) r) \<and>
    (st_index (w_store w0) \<in> set hist \<and> get_filter_start c fp headers w0 = Inr seen \<and>
       get_filter_miss fe e c headers seen w = (r', w') \<longrightarrow>
     (\<forall>r. r' = Inr r \<and> status r = 200 \<longrightarrow>
        describes fe e c fp (st_index (w_store w0)) r \<or> describes fe e c fp (st_index (w_store w)) r) \<and>
     w' = w\<lparr>w_filter := w_filter w'\<rparr> \<and> filter_history fe (ae_sha e) (filter_algorithm c) hist (w_filter w'))"
    (is "?first \<and> (?pre \<longrightarrow> ?second)")
proof (rule conjI; rule impI)
  show "describes fe e c fp (st_index (w_store w)) r" if "get_filter_start c fp headers w = Inl (Inr r) \<and> status r = 200"
    using get_filter_start_describes [OF assms] that by blast
  assume a: ?pre
  obtain rate where q: "checked_rate fp = Inr rate"
    "seen = (e_generation (st_index (w_store w0)), (if filter_algorithm c = ''bloom'' then rate else rate_01), rate)"
    using a get_filter_start_seen by blast
  obtain ix rest where h: "hist = ix # rest" and ix: "ix = st_index (w_store w)"
    using filter_history_inv [OF assms(1), THEN conjunct1] assms(2) by (cases hist) simp_all
  let ?bits = "if filter_algorithm c = ''bloom'' then rate else rate_01"
  show ?second
  proof (cases "filter_hit (w_filter w) (e_generation (st_index (w_store w0))) ?bits")
    case (Some cf)
    obtain ts where ts: "render_filter fe (ae_sha e) (filter_algorithm c) ts (st_index (w_store w0)) ?bits = Inr cf"
      using filter_hit_current [OF assms(1) _ Some] a by auto
    have m: "r' = filter_response headers (cf_etag cf) (cf_body cf)" "w' = w"
      using a Some by (auto simp: get_filter_miss_def q(2))
    have "describes fe e c fp (st_index (w_store w0)) r" if "r' = Inr r" "status r = 200" for r
      by (rule describesI [OF ts]) (use m that q(1) in auto)
    then show ?thesis using m(2) assms(1) by auto
  next
    case None
    show ?thesis
    proof (cases "render_filter fe (ae_sha e) (filter_algorithm c) (env_now e) ix rate")
      case (Inl err)
      then have "r' = Inl 500" "w' = w" using a None by (auto simp: get_filter_miss_def q(2) ix)
      then show ?thesis using assms(1) by auto
    next
      case (Inr cf)
      then have m: "r' = filter_response headers (cf_etag cf) (cf_body cf)" "w' = w\<lparr>w_filter := Some cf\<rparr>"
        using a None by (auto simp: get_filter_miss_def q(2) ix)
      have "describes fe e c fp ix r" if "r' = Inr r" "status r = 200" for r
        by (rule describesI [OF Inr]) (use m that q(1) in auto)
      moreover have "filter_history fe (ae_sha e) (filter_algorithm c) hist (Some cf)"
        using filter_history.renders [OF assms(1) [unfolded h] Inr] h by simp
      ultimately show ?thesis using m(2) ix by auto
    qed
  qed
qed

text \<open>A Bloom filter of a catalogue with one blob, rendered on a miss.\<close>

definition sample_filter_env :: filter_env where
  "sample_filter_env = \<lparr>fe_bloom = \<lambda>n rate ks. Some \<lparr>bf_slice = [1], bf_hashes = 7, bf_check = \<lambda>k. k \<in> set ks\<rparr>,
     fe_fuse = \<lambda>_ _. None, fe_array_len = \<lambda>_. [], fe_u8 = \<lambda>_. [], fe_u16 = \<lambda>_. [], fe_u32 = \<lambda>_. [], fe_u64 = \<lambda>_. [],
     fe_base64 = \<lambda>_. [], fe_json = \<lambda>p. Inr [of_nat (fp_count p)], fe_wot_json = \<lambda>_. None\<rparr>"

theorem filter_describes_catalogue_witness:
  "\<exists>seen r w'. let c = sample_config\<lparr>filter_algorithm := ''bloom''\<rparr>; w = empty_world store_a in
     get_filter_start c None [] w = Inr seen \<and> get_filter_miss sample_filter_env sample_env c [] seen w = (Inr r, w') \<and>
     status r = 200 \<and> describes sample_filter_env sample_env c None (st_index (w_store w)) r"
proof -
  let ?c = "sample_config\<lparr>filter_algorithm := ''bloom''\<rparr>" and ?w = "empty_world store_a"
  let ?seen = "(e_generation (st_index (w_store ?w)), rate_01, rate_01)"
  have start: "get_filter_start ?c None [] ?w = Inr ?seen"
    by (simp add: get_filter_start_def checked_rate_def filter_hit_def empty_world_def)
  obtain cf where cf: "render_filter sample_filter_env (ae_sha sample_env) ''bloom'' (env_now sample_env) (st_index store_a) rate_01 = Inr cf"
    by (auto simp: render_filter_def filter_payload_of_def build_filter_def starts_with_def sample_filter_env_def index_hash_keys_def)
  have etag: "cf_etag cf = filter_etag (\<lambda>_. hash_a) (cf_body cf)"
    using render_filter_fields [OF cf] by (simp add: sample_env_def)
  have ok: "header_value_ok (cf_etag cf)"
    unfolding etag filter_etag_def hash_a_def header_value_ok_def by (simp add: byte_of_def list_all_iff)
  obtain r where r: "filter_response [] (cf_etag cf) (cf_body cf) = Inr r" "status r = 200"
    using ok by (simp add: filter_response_def built_response_def hget_str_def hget_def header_value_ok_def byte_of_def)
  have miss: "get_filter_miss sample_filter_env sample_env ?c [] ?seen ?w = (Inr r, ?w\<lparr>w_filter := Some cf\<rparr>)"
    using cf r by (simp add: get_filter_miss_def filter_hit_def empty_world_def)
  have hist: "filter_history sample_filter_env (ae_sha sample_env) (filter_algorithm ?c) [st_index (w_store ?w)] (w_filter ?w)"
    by (simp add: empty_world_def filter_history.begins)
  show ?thesis
    using filter_describes_catalogue [OF hist, of None "[]" r ?w ?seen "Inr r" "?w\<lparr>w_filter := Some cf\<rparr>"] start miss r
    unfolding Let_def by fastforce
qed

end
