(* ===== verification/UpstreamProps.thy ===== *)
theory UpstreamProps
  imports Upstream
begin

text \<open>
  What the upstream handlers guarantee: followers of a download receive the blob's own bytes, only
  matching bytes are stored, only vetted servers are asked, and no request leaves a negotiation or a
  download behind without an owner.
\<close>

section \<open>The receiving loop\<close>

definition view_of :: "path \<Rightarrow> nat \<Rightarrow> world \<Rightarrow> bytes \<times> download_progress" where
  "view_of p i w =
     (case fs_data (st_fs (w_store w)) p of None \<Rightarrow> [] | Some d \<Rightarrow> d,
      case handle_of w i of None \<Rightarrow> \<lparr>written = 0, phase = Failed\<rparr> | Some h \<Rightarrow> dh_progress h)"

text \<open>What others can see of the loop while it runs: before and after each of its effects.\<close>

fun receive_views ::
  "app_env \<Rightarrow> path \<Rightarrow> nat \<Rightarrow> u64 \<Rightarrow> (string + bytes) list \<Rightarrow> bytes \<times> u64 \<Rightarrow> world \<Rightarrow> (bytes \<times> download_progress) list" where
  "receive_views e p i max_size_bytes [] st w = [view_of p i w]"
| "receive_views e p i max_size_bytes (Inl err # items) st w = [view_of p i w]"
| "receive_views e p i max_size_bytes (Inr chunk # items) (hashed, body_size) w =
     (let new_size = body_size + word_of_nat (length chunk) in
      view_of p i w #
      (if new_size > max_size_bytes then []
       else case in_files (fs_append (env_host e) p chunk) w of
              (Inl _, w1) \<Rightarrow> [view_of p i w1]
            | (Inr _, w1) \<Rightarrow>
                view_of p i w1 #
                receive_views e p i max_size_bytes items (hashed @ chunk, new_size)
                  (send_progress i (\<lambda>pr. pr\<lparr>written := new_size\<rparr>) w1)))"

definition item_length :: "string + bytes \<Rightarrow> nat" where
  "item_length it = (case it of Inl _ \<Rightarrow> 0 | Inr b \<Rightarrow> length b)"

lemma item_length_simps [simp]: "item_length (Inl err) = 0" "item_length (Inr b) = length b"
  by (simp_all add: item_length_def)

definition body_fits :: "upstream_response \<Rightarrow> bool" where
  "body_fits response \<longleftrightarrow> sum_list (map item_length (ur_stream response)) < 2 ^ 64"

definition writer_at :: "path \<Rightarrow> nat \<Rightarrow> bytes \<Rightarrow> bytes \<times> u64 \<Rightarrow> world \<Rightarrow> bool" where
  "writer_at p i d st w \<longleftrightarrow>
     fs_data (st_fs (w_store w)) p = Some d \<and> fst st = d \<and> unat (snd st) = length d \<and>
     (case handle_of w i of None \<Rightarrow> False
      | Some h \<Rightarrow> written (dh_progress h) = snd st \<and> phase (dh_progress h) = Running)"

lemma handle_send [simp]:
  "handle_of (send_progress i f w) j =
     (if j = i then map_option (\<lambda>d. d\<lparr>dh_progress := f (dh_progress d)\<rparr>) (handle_of w i) else handle_of w j)"
  "w_store (send_progress i f w) = w_store w"
  by (auto simp: send_progress_def update_handle_def handle_of_def hm_simps split: option.splits)

lemma handle_in_files [simp]:
  "in_files g w = (r, w') \<Longrightarrow> handle_of w' i = handle_of w i"
  by (auto simp: in_files_def handle_of_def split: prod.splits)

lemma append_step:
  assumes "in_files (fs_append h p chunk) w = (r, w1)" "writer_at p i d (hashed, n) w"
    "length d + length chunk < 2 ^ 64"
  shows "only_file p (st_fs (w_store w)) (st_fs (w_store w1))" "handle_of w1 j = handle_of w j"
    "st_index (w_store w1) = st_index (w_store w)"
    "r = Inr u \<Longrightarrow> fs_data (st_fs (w_store w1)) p = Some (d @ chunk) \<and>
       writer_at p i (d @ chunk) (hashed @ chunk, n + word_of_nat (length chunk))
         (send_progress i (\<lambda>pr. pr\<lparr>written := n + word_of_nat (length chunk)\<rparr>) w1)"
    "r = Inl err \<Longrightarrow> w_store w1 = w_store w"
proof -
  obtain f' where f': "fs_append h p chunk (st_fs (w_store w)) = (r, f')" "w_store w1 = (w_store w)\<lparr>st_fs := f'\<rparr>"
    using assms(1) by (rule in_files_cases)
  show "only_file p (st_fs (w_store w)) (st_fs (w_store w1))" using append_only [OF f'(1)] f'(2) by simp
  show h: "handle_of w1 j = handle_of w j" for j using handle_in_files [OF assms(1)] .
  show "st_index (w_store w1) = st_index (w_store w)" using f'(2) by simp
  show "w_store w1 = w_store w" if "r = Inl err"
    using append_file_cases [OF f'(1)] f'(2) that by auto
  have n: "unat (n + word_of_nat (length chunk)) = length d + length chunk"
    using assms(2,3) by (simp add: writer_at_def unat_word_ariths unat_of_nat)
  assume "r = Inr u"
  then have "fs_data f' p = Some (d @ chunk)"
    using append_file_cases [OF f'(1)] assms(2) by (auto simp: writer_at_def hm_simps)
  then show "fs_data (st_fs (w_store w1)) p = Some (d @ chunk) \<and>
       writer_at p i (d @ chunk) (hashed @ chunk, n + word_of_nat (length chunk))
         (send_progress i (\<lambda>pr. pr\<lparr>written := n + word_of_nat (length chunk)\<rparr>) w1)"
    using n assms(2) f'(2) h [of i] by (auto simp: writer_at_def split: option.splits)
qed

text \<open>A completed loop has delivered the whole body, and every view of it was one of that body.\<close>

lemma receive_chunks_spec:
  assumes "receive_chunks e p i mx items st w = (Inr (d', n), w')" "writer_at p i d st w"
    "length d + sum_list (map item_length items) < 2 ^ 64" "unat (snd st) \<le> unat mx"
  shows "writer_at p i d' (d', n) w' \<and> n \<le> mx \<and> (\<exists>ds. items = map Inr ds \<and> d' = d @ concat ds) \<and>
     list_all (snapshot_of d') (receive_views e p i mx items st w)"
  using assms
proof (induction e p i mx items st w arbitrary: d rule: receive_chunks.induct)
  case (1 e p i mx st w)
  then show ?case
    by (auto simp: writer_at_def snapshot_of_def view_of_def word_le_nat_alt split: option.splits intro: exI [of _ "[]"])
next
  case (3 e p i mx chunk items hashed n0 w)
  let ?n = "n0 + word_of_nat (length chunk)"
  obtain ra w1 where a: "in_files (fs_append (env_host e) p chunk) w = (ra, w1)" by fastforce
  have len: "length d + length chunk < 2 ^ 64" using "3.prems"(3) by simp
  note st = append_step [OF a "3.prems"(2) len]
  have mx: "\<not> ?n > mx" and ra: "ra = Inr ()"
    and rest: "receive_chunks e p i mx items (hashed @ chunk, ?n) (send_progress i (\<lambda>pr. pr\<lparr>written := ?n\<rparr>) w1) = (Inr (d', n), w')"
    using "3.prems"(1) a by (auto simp: Let_def bind_st_Inr_iff err_st_Inr_iff split: if_splits)
  note w1 = st(4) [OF ra]
  have "length (d @ chunk) + sum_list (map item_length items) < 2 ^ 64" using "3.prems"(3) by simp
  moreover have "unat (snd (hashed @ chunk, ?n)) \<le> unat mx"
    using mx by (simp add: not_less flip: word_le_nat_alt)
  ultimately have ih: "writer_at p i d' (d', n) w' \<and> n \<le> mx \<and> (\<exists>ds. items = map Inr ds \<and> d' = (d @ chunk) @ concat ds) \<and>
     list_all (snapshot_of d') (receive_views e p i mx items (hashed @ chunk, ?n) (send_progress i (\<lambda>pr. pr\<lparr>written := ?n\<rparr>) w1))"
    using "3.IH" [OF refl mx rest] w1 by blast
  then obtain ds where ds: "items = map Inr ds" "d' = d @ chunk @ concat ds" by auto
  have "snapshot_of d' (view_of p i w)" "snapshot_of d' (view_of p i w1)"
    using "3.prems"(2) w1 st(2) [of i] ds(2)
    by (auto simp: writer_at_def snapshot_of_def view_of_def split: option.splits)
  then show ?case using ih a ra mx ds by (auto simp: Let_def intro!: exI [of _ "chunk # ds"])
qed auto

section \<open>The download task\<close>

lemma append_frame:
  "in_files (fs_append h p chunk) w = (r, w1) \<Longrightarrow>
     only_file p (st_fs (w_store w)) (st_fs (w_store w1)) \<and> st_index (w_store w1) = st_index (w_store w)"
  by (auto elim!: in_files_cases dest: append_only)

lemma receive_chunks_frame:
  "receive_chunks e p i mx items st w = (r, w') \<Longrightarrow>
     only_file p (st_fs (w_store w)) (st_fs (w_store w')) \<and> st_index (w_store w') = st_index (w_store w) \<and>
     map_option (phase \<circ> dh_progress) (handle_of w' j) = map_option (phase \<circ> dh_progress) (handle_of w j)"
proof (induction e p i mx items st w rule: receive_chunks.induct)
  case (3 e p i mx chunk items hashed n0 w)
  let ?n = "n0 + word_of_nat (length chunk)"
  obtain ra w1 where a: "in_files (fs_append (env_host e) p chunk) w = (ra, w1)" by fastforce
  note fr = append_frame [OF a]
  have h: "handle_of w1 j = handle_of w j" using a by (rule handle_in_files)
  show ?case
  proof (cases "?n > mx \<or> (\<exists>err. ra = Inl err)")
    case True
    then show ?thesis using "3.prems" a fr h by (auto simp: Let_def split: if_splits)
  next
    case False
    then have mx: "\<not> ?n > mx" and "ra = Inr ()" by (auto intro: sum.exhaust [of ra])
    then have "receive_chunks e p i mx items (hashed @ chunk, ?n) (send_progress i (\<lambda>pr. pr\<lparr>written := ?n\<rparr>) w1) = (r, w')"
      using "3.prems" a by (simp add: Let_def)
    from "3.IH" [OF refl mx this] fr h show ?thesis
      by (auto simp: option.map_comp comp_def elim: only_file_trans split: if_splits)
  qed
qed auto

lemma handle_in_store: "in_store g w = (r, w') \<Longrightarrow> handle_of w' i = handle_of w i \<and> w_ongoing w' = w_ongoing w"
  by (auto simp: in_store_def handle_of_def split: prod.splits)

lemma update_store: "w_store (update_handle i f w) = w_store w"
  by (auto simp: update_handle_def split: option.splits)

lemma same_store_safe: "blob_safe e c w \<Longrightarrow> w_store w' = w_store w \<Longrightarrow> blob_safe e c w'"
  by (rule blob_safe_store)

definition download_ready :: "app_config \<Rightarrow> nat \<Rightarrow> world \<Rightarrow> bool" where
  "download_ready c i w \<longleftrightarrow>
     (case handle_of w i of
        None \<Rightarrow> False
      | Some d \<Rightarrow> is_temp_path c (dh_temp_path d) \<and> writer_at (dh_temp_path d) i [] ([], 0) w)"

text \<open>
  The download was asked for by a name that is the hash of the bytes, in either case, with or without an
  extension. Then the whole body, chunk by chunk, has been received, and the catalogue got that one entry.
\<close>

definition asked_for :: "string \<Rightarrow> string \<Rightarrow> bool" where
  "asked_for hash filename \<longleftrightarrow>
     (\<exists>name extension. filename = name @ extension \<and> (extension = [] \<or> hd extension = CHR ''.'') \<and>
        to_lowercase name = to_lowercase hash)"

lemma matches_asked_for: "upstream_hash_matches_filename hash filename \<Longrightarrow> asked_for hash filename"
proof -
  assume "upstream_hash_matches_filename hash filename"
  then have m: "to_lowercase (requested_hash filename) = to_lowercase hash"
    by (simp add: upstream_hash_matches_filename_def eq_ignore_ascii_case_def)
  have "requested_hash filename = filename \<or>
      (\<exists>rest. filename = requested_hash filename @ CHR ''.'' # rest)"
    by (auto simp: requested_hash_def get_sha256_hash_from_filename_def Let_def split_once_Some_iff
        split: option.splits if_splits)
  then show ?thesis
  proof (elim disjE exE)
    assume "requested_hash filename = filename"
    with m show ?thesis unfolding asked_for_def by (intro exI [of _ filename] exI [of _ "[]"]) simp
  next
    fix rest assume "filename = requested_hash filename @ CHR ''.'' # rest"
    with m show ?thesis
      unfolding asked_for_def by (intro exI [of _ "requested_hash filename"] exI [of _ "CHR ''.'' # rest"]) simp
  qed
qed

definition stores_body ::
  "app_env \<Rightarrow> app_config \<Rightarrow> upstream_response \<Rightarrow> string \<Rightarrow> world \<Rightarrow> world \<Rightarrow> bool" where
  "stores_body e c response filename w w' \<longleftrightarrow>
     (\<exists>ds m. ur_stream response = map Inr ds \<and> asked_for (ae_sha e (concat ds)) filename \<and>
        length (concat ds) \<le> unat (size_limit c UpstreamFetch) \<and>
        index_get (st_index (w_store w')) = (index_get (st_index (w_store w)))(ae_sha e (concat ds) \<mapsto> m))"

lemma download_body_spec:
  assumes "layout_ok c" "blob_safe e c w" "handle_of w i = Some d" "is_temp_path c (dh_temp_path d)"
    "writer_at (dh_temp_path d) i [] ([], 0) w" "body_fits response"
    "download_body e c response filename i d w = (r, w1)"
  shows "blob_safe e c w1" "handle_of w1 i \<noteq> None"
    "r = Inr u \<Longrightarrow> stores_body e c response filename w w1"
    "r = Inl err \<Longrightarrow> index_get (st_index (w_store w1)) = index_get (st_index (w_store w))"
proof -
  let ?mx = "size_limit c UpstreamFetch" and ?p = "dh_temp_path d"
  let ?len = "case dh_total_len d of Some n \<Rightarrow> Some n | None \<Rightarrow> ae_content_length e response"
  obtain rr w2 where rc: "receive_chunks e ?p i ?mx (ur_stream response) ([], 0) w = (rr, w2)" by fastforce
  note fr = receive_chunks_frame [OF rc, of i]
  have s2: "blob_safe e c w2" using store_inv_only_file [OF assms(1,4) assms(2) [unfolded blob_safe_def]] fr
    by (simp add: blob_safe_def only_file_def)
  have h2: "handle_of w2 i \<noteq> None" using fr assms(3) by auto
  note def = assms(7) [unfolded download_body_def Let_def rc]
  have "blob_safe e c w1 \<and> handle_of w1 i \<noteq> None \<and> (\<forall>u. r = Inr u \<longrightarrow> stores_body e c response filename w w1) \<and>
     (\<forall>err. r = Inl err \<longrightarrow> index_get (st_index (w_store w1)) = index_get (st_index (w_store w)))"
  proof (cases "case ?len of None \<Rightarrow> False | Some n \<Rightarrow> n > ?mx")
    case True
    then show ?thesis using def assms(2,3) by auto
  next
    case fits: False
    show ?thesis
    proof (cases rr)
      case (Inl err)
      then show ?thesis using def fits s2 h2 fr by auto
    next
      case (Inr st)
      obtain body n where st: "st = (body, n)" by fastforce
      have "length ([] :: bytes) + sum_list (map item_length (ur_stream response)) < 2 ^ 64"
        using assms(6) by (simp add: body_fits_def)
      from receive_chunks_spec [OF rc [unfolded Inr st] assms(5) this]
      obtain ds where wr: "writer_at ?p i body (body, n) w2" "n \<le> ?mx" "ur_stream response = map Inr ds" "body = concat ds"
        by auto
      then have staged: "staged (ae_sha e) ?p (ae_sha e body) n (st_fs (w_store w2))"
        by (simp add: staged_def writer_at_def)
      show ?thesis
      proof (cases "(case ?len of None \<Rightarrow> False | Some k \<Rightarrow> k \<noteq> n) \<or> \<not> upstream_hash_matches_filename (ae_sha e body) filename")
        case True
        then show ?thesis using def fits Inr st s2 h2 fr by (auto split: if_splits)
      next
        case False
        let ?pub = "\<lparr>bp_sha256 = ae_sha e body, bp_origin = UpstreamCache,
           bp_extension = get_extension_from_mime (ae_extensions e) (dh_content_type d),
           bp_mime_type = Some (dh_content_type d), bp_size = n, bp_expiration = None\<rparr>"
        obtain rp w3 where pub: "in_store (publish_blob c (ae_storage e) ?p ?pub) w2 = (rp, w3)" by fastforce
        note spec = publish_safe [OF assms(1,4) s2 _ pub, simplified, OF staged]
        have h3: "handle_of w3 i \<noteq> None" using handle_in_store [OF pub] h2 by simp
        show ?thesis
        proof (cases rp)
          case (Inl err)
          have "publish_blob c (ae_storage e) ?p ?pub (w_store w2) = (Inl err, w_store w3)"
            using pub Inl by (simp add: in_store_fst)
          moreover have "content_ok (integrity (ae_sha e)) (env_now e) ?pub (w_store w2) ?p"
            using staged by (auto simp: staged_def content_ok_def integrity_def publication_metadata_def)
          ultimately have "st_index (w_store w3) = st_index (w_store w2)"
            using publish_blob_spec [OF assms(1,4) s2 [unfolded blob_safe_def]] by blast
          then show ?thesis using def fits Inr st False pub Inl spec(1) h3 fr by (auto simp: accept_def)
        next
          case ok: (Inr b)
          have "index_get (st_index (w_store w3)) = (index_get (st_index (w_store w2)))(ae_sha e body \<mapsto> sb_metadata b)"
            using spec(2) [OF ok] spec(3) by (auto simp: fun_eq_iff)
          moreover have "length body \<le> unat ?mx" using wr(1,2) by (simp add: writer_at_def word_le_nat_alt)
          moreover have "w_store w1 = w_store w3" "handle_of w1 i \<noteq> None" "r = Inr ()"
            using def fits Inr st False pub ok h3
            by (auto simp: accept_def update_store update_handle_def handle_of_def hm_simps split: option.splits)
          ultimately show ?thesis using spec(1) wr(3,4) False fr
            by (auto simp: stores_body_def blob_safe_def matches_asked_for intro!: exI [of _ ds])
        qed
      qed
    qed
  qed
  then show "blob_safe e c w1" "handle_of w1 i \<noteq> None"
    "r = Inr u \<Longrightarrow> stores_body e c response filename w w1"
    "r = Inl err \<Longrightarrow> index_get (st_index (w_store w1)) = index_get (st_index (w_store w))"
    by auto
qed

lemma unlink_views [simp]:
  "handle_of (unlink_temp e p w) i = handle_of w i" "ongoing_handle (unlink_temp e p w) = ongoing_handle w"
  by (simp_all add: unlink_temp_def handle_of_def ongoing_handle_def fun_eq_iff)

lemma unlink_index: "st_index (w_store (unlink_temp e p w)) = st_index (w_store w)"
  by (simp add: unlink_temp_def drop_temp_def on_fs_def split: prod.splits)

lemma remove_handle_views [simp]:
  "handle_of (remove_handle k i w) j = handle_of w j" "w_store (remove_handle k i w) = w_store w"
  "ongoing_handle (remove_handle k i w) k \<noteq> Some i"
  by (auto simp: remove_handle_def handle_of_def ongoing_handle_def hm_simps)

lemma download_finish_views:
  assumes "handle_of w i = Some d"
  shows "\<exists>d'. handle_of (download_finish \<lparr>dg_key = k, dg_cell = i\<rparr> p w) i = Some d' \<and> phase (dh_progress d') = p"
    "w_store (download_finish \<lparr>dg_key = k, dg_cell = i\<rparr> p w) = w_store w"
    "ongoing_handle (download_finish \<lparr>dg_key = k, dg_cell = i\<rparr> p w) k \<noteq> Some i"
  using assms by (simp_all add: download_finish_def)

lemma run_download_cases:
  assumes "layout_ok c" "blob_safe e c w" "download_ready c i w" "body_fits response"
  shows "\<exists>d. handle_of (run_download e c response filename i w) i = Some d \<and>
     ongoing_handle (run_download e c response filename i w) filename \<noteq> Some i \<and>
     blob_safe e c (run_download e c response filename i w) \<and>
     (phase (dh_progress d) = Complete \<and> stores_body e c response filename w (run_download e c response filename i w) \<or>
      phase (dh_progress d) = Failed \<and>
        index_get (st_index (w_store (run_download e c response filename i w))) = index_get (st_index (w_store w)))"
proof -
  obtain d where d: "handle_of w i = Some d" "is_temp_path c (dh_temp_path d)" "writer_at (dh_temp_path d) i [] ([], 0) w"
    using assms(3) by (auto simp: download_ready_def split: option.splits)
  obtain r w1 where b: "download_body e c response filename i d w = (r, w1)" by fastforce
  note spec = download_body_spec [OF assms(1,2) d assms(4) b]
  obtain d1 where d1: "handle_of w1 i = Some d1" using spec(2) by auto
  show ?thesis
  proof (cases r)
    case (Inr u)
    let ?w2 = "send_progress i (\<lambda>pr. pr\<lparr>phase := Complete\<rparr>) w1"
    have "handle_of ?w2 i = Some (d1\<lparr>dh_progress := (dh_progress d1)\<lparr>phase := Complete\<rparr>\<rparr>)" using d1 by simp
    note fin = download_finish_views [OF this, of filename Complete]
    have run: "run_download e c response filename i w = download_finish \<lparr>dg_key = filename, dg_cell = i\<rparr> Complete ?w2"
      by (simp add: run_download_def d(1) b Inr)
    show ?thesis using fin spec(1) spec(3) [OF Inr] unfolding run
      by (auto simp: stores_body_def blob_safe_def)
  next
    case (Inl err)
    let ?w2 = "send_progress i (\<lambda>pr. pr\<lparr>phase := Failed\<rparr>) w1"
    let ?w3 = "unlink_temp e (dh_temp_path d) ?w2"
    have "handle_of ?w3 i = Some (d1\<lparr>dh_progress := (dh_progress d1)\<lparr>phase := Failed\<rparr>\<rparr>)" using d1 by simp
    note fin = download_finish_views [OF this, of filename Failed]
    have run: "run_download e c response filename i w = download_finish \<lparr>dg_key = filename, dg_cell = i\<rparr> Failed ?w3"
      by (simp add: run_download_def d(1) b Inl)
    have "blob_safe e c ?w3" by (rule unlink_temp_safe [OF assms(1) d(2)]) (use spec(1) in \<open>simp add: blob_safe_def\<close>)
    then show ?thesis using fin spec(4) [OF Inl] unfolding run
      by (auto simp: blob_safe_def unlink_index)
  qed
qed

section \<open>Properties\<close>

text \<open>C22: The cache holds only what was asked for: a download task always ends with its handle settled and
  off the registry. If it ends complete, its connection delivered a whole body within the limit for
  fetched blobs, the hash of that body is the name the request asked for (up to the case of its digits and
  an extension), and the catalogue got exactly that one entry; otherwise the catalogue is as it was.
  Either way it stays consistent with the files. The task starts on its own empty temporary file.\<close>
theorem run_download_sound:
  assumes "layout_ok c" and "blob_safe e c w" and "download_ready c i w" and "body_fits response"
  shows "let w' = run_download e c response filename i w in
     blob_safe e c w' \<and> download_settled w' i \<and> ongoing_handle w' filename \<noteq> Some i \<and>
     (if map_option (phase \<circ> dh_progress) (handle_of w' i) = Some Complete
      then stores_body e c response filename w w'
      else index_get (st_index (w_store w')) = index_get (st_index (w_store w)))"
  using run_download_cases [OF assms, of filename] by (auto simp: Let_def download_settled_def)

text \<open>C23: Everyone who asks during a download gets the blob itself: while the receiving loop of a download
  that will succeed runs, and after it, a follower that attaches for any range, however its reads
  interleave with the writes, only ever yields the bytes of the body from its start on, and delivers the
  whole range if its stream ends.\<close>
theorem coalesced_follower_exact:
  assumes "receive_chunks e p i mx items ([], 0) w = (Inr (d, n), w')" and "writer_at p i [] ([], 0) w"
    and "sum_list (map item_length items) < 2 ^ 64"
    and "set views \<subseteq> insert (completed d) (set (receive_views e p i mx items ([], 0) w))"
    and "unat start \<le> tail_limit end_at d" and "tail_run end_at start views = (out, r)"
  shows "items = map Inr (map projr items) \<and> d = concat (map projr items) \<and>
     out = take (length out) (drop (unat start) d) \<and>
     (r = Tail_End \<longrightarrow> out = drop (unat start) (take (tail_limit end_at d) d))"
proof -
  have "length ([] :: bytes) + sum_list (map item_length items) < 2 ^ 64" using assms(3) by simp
  from receive_chunks_spec [OF assms(1,2) this]
  obtain ds where ds: "writer_at p i d (d, n) w'" "items = map Inr ds" "d = concat ds"
    "list_all (snapshot_of d) (receive_views e p i mx items ([], 0) w)" by auto
  have "length d < 2 ^ 64" using assms(3) ds(2,3) by (simp add: length_concat comp_def)
  then have "list_all (snapshot_of d) views"
    using assms(4) ds(4) completed_snapshot [of d] unfolding list_all_iff by blast
  note run = follower_range [OF this assms(5,6)]
  moreover have "map projr items = ds" using ds(2) by (simp add: comp_def)
  ultimately show ?thesis using run ds(2,3) by (auto split: tail_outcome.splits)
qed

definition ex_handle :: download_handle where
  "ex_handle = \<lparr>dh_temp_path = [''srv'', ''temp'', ''d''], dh_content_type = ''video/mp4'', dh_total_len = Some 2,
     dh_progress = \<lparr>written = 0, phase = Running\<rparr>, dh_final_path = None\<rparr>"

definition download_store :: store where
  "download_store = store_a\<lparr>st_fs := \<lparr>fs_files = [(path_a, [1, 2]), ([''srv'', ''temp'', ''d''], [])],
     fs_dirs = [[''srv''], [], [''srv'', ''temp'']]\<rparr>\<rparr>"

definition download_world :: world where
  "download_world = (empty_world download_store)\<lparr>w_handles := [(0, ex_handle)], w_ongoing := [(hash_a, 0)], w_next := 1\<rparr>"

lemma download_world_ready: "download_ready sample_config 0 download_world"
  "blob_safe sample_env sample_config download_world"
proof -
  show "download_ready sample_config 0 download_world"
    by (simp add: download_ready_def handle_of_def download_world_def ex_handle_def writer_at_def download_store_def
        store_a_def path_a_def empty_world_def is_temp_path_def sample_config_def storage_layout_new_def)
  have a: "store_inv sample_config (integrity (\<lambda>_. hash_a)) store_a"
    by (rule store_a_inv) (simp add: integrity_def md_a_def)
  have "store_inv sample_config (integrity (\<lambda>_. hash_a)) download_store"
    by (rule store_inv_same [OF a])
      (auto simp: download_store_def store_a_def path_a_def md_a_def index_get_a [unfolded md_a_def path_a_def] split: if_splits)
  then show "blob_safe sample_env sample_config download_world"
    by (simp add: blob_safe_def download_world_def empty_world_def sample_env_def)
qed

theorem run_download_sound_witness:
  "download_settled (run_download sample_env sample_config origin_answer hash_a 0 download_world) 0"
  using run_download_sound [OF layout_sample download_world_ready(2,1), of origin_answer hash_a]
  by (simp add: Let_def body_fits_def origin_answer_def)

theorem coalesced_follower_exact_witness:
  "\<exists>out r. tail_run (Some 2) 0 [view_of [''srv'', ''temp'', ''d''] 0 download_world, completed [1, 2]] = (out, r) \<and>
     out = take (length out) [1, 2]"
proof -
  let ?p = "[''srv'', ''temp'', ''d'']" and ?items = "[Inr [1], Inr [2]] :: (string + bytes) list"
  have w: "writer_at ?p 0 [] ([], 0) download_world"
    using download_world_ready(1) by (simp add: download_ready_def handle_of_def download_world_def ex_handle_def)
  have "\<exists>w'. receive_chunks sample_env ?p 0 500 ?items ([], 0) download_world = (Inr ([1, 2], 2), w')"
    by (simp add: in_files_def on_fs_def fs_append_def sample_env_def calm_env_def calm_host_def download_world_def
        download_store_def store_a_def empty_world_def path_a_def send_progress_def update_handle_def handle_of_def
        Let_def)
  then obtain w' where rc: "receive_chunks sample_env ?p 0 500 ?items ([], 0) download_world = (Inr ([1, 2], 2), w')"
    by blast
  obtain out r where o: "tail_run (Some 2) 0 [view_of ?p 0 download_world, completed [1, 2]] = (out, r)" by fastforce
  have "view_of ?p 0 download_world \<in> set (receive_views sample_env ?p 0 500 ?items ([], 0) download_world)"
    by (simp add: Let_def)
  then have "set [view_of ?p 0 download_world, completed [1, 2]] \<subseteq>
      insert (completed [1, 2]) (set (receive_views sample_env ?p 0 500 ?items ([], 0) download_world))" by simp
  from coalesced_follower_exact [OF rc w _ this _ o] o show ?thesis by simp
qed

end
