(* ===== verification/UpstreamFlow.thy ===== *)
theory UpstreamFlow
  imports UpstreamProps
begin

text \<open>
  Where the upstream handlers send requests, and what they leave behind: every URL asked belongs to a
  server vetted before, and every path gives up its negotiation and hands its download to a task. Both
  are shown for an arbitrary walk first (\<open>walk_until_inv\<close>), then for each handler.
\<close>

section \<open>A walk with a body\<close>

text \<open>What an action may assume of its candidate: its log is longer than the one its step of the walk started from.\<close>

definition offered :: "app_env \<Rightarrow> string \<Rightarrow> world \<Rightarrow> candidate \<Rightarrow> world \<Rightarrow> bool" where
  "offered e filename w0 cd w \<longleftrightarrow>
     vetted (ae_net e) (w_net w) (cd_base cd) \<and> blob_url_of (cd_base cd) filename (cd_url cd) \<and>
     length (w_net w0) < length (w_net w)"

lemma walk_until_inv:
  assumes "walk_until e c act wk w = (r, w')" "walk_ok e c UNIV named wk" "I w"
    and frame: "\<And>w1 w2. I w1 \<Longrightarrow> walk_frame w1 w2 \<Longrightarrow> I w2"
    and act: "\<And>cd w0 w1 w2. I w0 \<Longrightarrow> I w1 \<Longrightarrow> offered e (wk_filename wk) w0 cd w1 \<Longrightarrow> act cd w1 = (None, w2) \<Longrightarrow> I w2"
    and final: "\<And>cd w0 w1 w2 x. I w0 \<Longrightarrow> I w1 \<Longrightarrow> offered e (wk_filename wk) w0 cd w1 \<Longrightarrow> act cd w1 = (Some x, w2) \<Longrightarrow> F x w2"
  shows "case r of None \<Rightarrow> I w' | Some x \<Rightarrow> F x w'"
  using assms
proof (induction e c act wk w rule: walk_until.induct)
  case (1 e c act wk w)
  obtain rn wk1 w1 where n: "walk_next e c wk w = ((rn, wk1), w1)" by (metis surj_pair)
  note spec = walk_next_spec [OF n "1.prems"(2)]
  have ok: "walk_ok e c UNIV named wk1" "wk_filename wk1 = wk_filename wk" "walk_frame w w1" using spec by auto
  have I1: "I w1" using "1.prems"(3) ok(3) by (rule "1.prems"(4))
  show ?case
  proof (cases rn)
    case None
    then show ?thesis using "1.prems"(1) n I1 by (simp add: walk_until.simps [of e c act wk])
  next
    case (Some cd)
    then have v: "offered e (wk_filename wk) w cd w1" using spec by (auto simp: yield_ok_def offered_def)
    obtain ra w2 where a: "act cd w1 = (ra, w2)" by fastforce
    show ?thesis
    proof (cases ra)
      case None
      then have "walk_until e c act wk1 w2 = (r, w')"
        using "1.prems"(1) n Some a by (simp add: walk_until.simps [of e c act wk])
      note ih = "1.IH" [OF n [symmetric] refl Some a [symmetric] None this ok(1)
          "1.prems"(5) [OF "1.prems"(3) I1 v a [unfolded None]], unfolded ok(2)]
      show ?thesis by (rule ih) (blast intro: "1.prems"(4-6))+
    next
      case x: (Some x)
      then show ?thesis using "1.prems"(1) n Some a "1.prems"(6) [OF "1.prems"(3) I1 v a [unfolded x]]
        by (auto simp: walk_until.simps [of e c act wk])
    qed
  qed
qed

section \<open>Only vetted servers are asked\<close>

text \<open>\<open>new\<close> is what a request adds to the log \<open>lg\<close>: a known URL is the blob's name at a base whose host a
  lookup among the first \<open>j\<close> entries of \<open>new\<close>, the last of them, found admissible.\<close>

definition known_urls :: "net_env \<Rightarrow> string \<Rightarrow> net_log \<Rightarrow> net_log \<Rightarrow> string set" where
  "known_urls net filename lg new =
     {u. \<exists>j base. 0 < j \<and> j \<le> length new \<and> blob_url_of base filename u \<and> vetted net (lg @ take j new) base}"

definition asked_vetted :: "net_env \<Rightarrow> string \<Rightarrow> net_log \<Rightarrow> net_log \<Rightarrow> bool" where
  "asked_vetted net filename lg new \<longleftrightarrow>
     (\<forall>i < length new. case new ! i of
        Net_Request _ u _ \<Rightarrow> u \<in> known_urls net filename lg (take i new)
      | _ \<Rightarrow> True)"

lemma asked_Nil [simp]: "asked_vetted net filename lg []"
  by (simp add: asked_vetted_def)

lemma asked_snoc:
  "asked_vetted net filename lg (new @ [ev]) \<longleftrightarrow>
     asked_vetted net filename lg new \<and> (case ev of Net_Request _ u _ \<Rightarrow> u \<in> known_urls net filename lg new | _ \<Rightarrow> True)"
proof -
  have "(new @ [ev]) ! i = new ! i" "take i (new @ [ev]) = take i new" if "i < length new" for i
    using that by (simp_all add: nth_append)
  then show ?thesis by (auto simp: asked_vetted_def All_less_Suc split: net_event.splits)
qed

lemma asked_append_lookups:
  "asked_vetted net filename lg new \<Longrightarrow> list_all (\<lambda>ev. case ev of Net_Lookup _ _ \<Rightarrow> True | _ \<Rightarrow> False) extra \<Longrightarrow>
   asked_vetted net filename lg (new @ extra)"
proof (induction extra rule: rev_induct)
  case (snoc ev extra)
  then show ?case using asked_snoc [of net filename lg "new @ extra" ev] by (cases ev) auto
qed simp

lemma known_mono:
  assumes "u \<in> known_urls net filename lg new"
  shows "u \<in> known_urls net filename lg (new @ extra)"
proof -
  obtain j base where j: "0 < j" "j \<le> length new" "blob_url_of base filename u" "vetted net (lg @ take j new) base"
    using assms by (auto simp: known_urls_def)
  then have "take j (new @ extra) = take j new" by simp
  then show ?thesis using j unfolding known_urls_def by (intro CollectI exI [of _ j] exI [of _ base]) simp
qed

definition asks_vetted :: "app_env \<Rightarrow> string \<Rightarrow> net_log \<Rightarrow> world \<Rightarrow> bool" where
  "asks_vetted e filename lg w \<longleftrightarrow>
     (\<exists>new. w_net w = lg @ new \<and> asked_vetted (ae_net e) filename lg new)"

definition may_ask :: "app_env \<Rightarrow> string \<Rightarrow> net_log \<Rightarrow> string \<Rightarrow> world \<Rightarrow> bool" where
  "may_ask e filename lg u w \<longleftrightarrow>
     (\<exists>new. w_net w = lg @ new \<and> asked_vetted (ae_net e) filename lg new \<and> u \<in> known_urls (ae_net e) filename lg new)"

lemma may_ask_asks: "may_ask e filename lg u w \<Longrightarrow> asks_vetted e filename lg w"
  by (auto simp: may_ask_def asks_vetted_def)

lemma asks_start: "asks_vetted e filename (w_net w) w"
  by (auto simp: asks_vetted_def)

lemma asks_same: "asks_vetted e filename lg w \<Longrightarrow> w_net w' = w_net w \<Longrightarrow> asks_vetted e filename lg w'"
  by (simp add: asks_vetted_def)

lemma asks_frame: "asks_vetted e filename lg w \<Longrightarrow> walk_frame w w' \<Longrightarrow> asks_vetted e filename lg w'"
  unfolding asks_vetted_def walk_frame_def using asked_append_lookups by force

lemma offered_may_ask:
  assumes "asks_vetted e filename lg w0" "asks_vetted e filename lg w" "offered e filename w0 cd w"
  shows "may_ask e filename lg (cd_url cd) w"
proof -
  obtain new where n: "w_net w = lg @ new" "asked_vetted (ae_net e) filename lg new"
    using assms(2) by (auto simp: asks_vetted_def)
  have "0 < length new" using assms(1,3) n(1) by (auto simp: asks_vetted_def offered_def)
  then have "cd_url cd \<in> known_urls (ae_net e) filename lg new"
    using assms(3) n(1) unfolding known_urls_def offered_def
    by (intro CollectI exI [of _ "length new"] exI [of _ "cd_base cd"]) simp
  then show ?thesis using n by (auto simp: may_ask_def)
qed

lemma send_asks:
  assumes "may_ask e filename lg u w" "send_request e meth u hs w = (r, w')"
  shows "may_ask e filename lg u w'"
proof -
  obtain new where n: "w_net w = lg @ new" "asked_vetted (ae_net e) filename lg new" "u \<in> known_urls (ae_net e) filename lg new"
    using assms(1) by (auto simp: may_ask_def)
  moreover have "w_net w' = lg @ (new @ [Net_Request meth u hs])" using n(1) assms(2) by (auto simp: send_request_def)
  moreover have "asked_vetted (ae_net e) filename lg (new @ [Net_Request meth u hs])"
    using n by (simp add: asked_snoc)
  ultimately show ?thesis using known_mono unfolding may_ask_def by blast
qed

text \<open>What does not touch the network.\<close>

lemma net_same [simp]:
  "w_net (negotiation_drop g w) = w_net w" "w_net (negotiation_finish g p w) = w_net w"
  "w_net (download_drop d w) = w_net w" "w_net (download_finish d q w) = w_net w"
  "w_net (unlink_temp e f w) = w_net w" "w_net (spawn j w) = w_net w"
  "w_net (drop_negotiation ng w) = w_net w" "w_net (finish_negotiation ng p w) = w_net w"
  by (auto simp: negotiation_drop_def negotiation_finish_def download_drop_def download_finish_def unlink_temp_def
      spawn_def drop_negotiation_def finish_negotiation_def send_phase_def remove_negotiation_def send_progress_def
      update_handle_def remove_handle_def Let_def split: option.splits)

lemma prepare_net: "prepare_download e c filename ct len w = (r, w') \<Longrightarrow> w_net w' = w_net w"
  by (auto simp: prepare_download_def prepare_download_state_def Let_def bind_st_def err_st_def in_files_def
      publish_handle_def split: prod.splits sum.splits)

lemma stream_net: "stream_and_save_from_upstream e c u response filename g ng w = (r, w') \<Longrightarrow> w_net w' = w_net w"
  by (auto simp: stream_and_save_from_upstream_def proxy_uncached_def Let_def split: if_splits sum.splits option.splits)

lemma proxy_range_asks:
  assumes "may_ask e filename lg u w" "proxy_original_range e u headers ct fname ng w = (r, w')"
  shows "asks_vetted e filename lg w'"
proof -
  obtain rs w1 where s: "send_request e ''GET'' u (copy_headers_to_reqwest headers []) (finish_negotiation ng NegFailed w) = (rs, w1)"
    by fastforce
  have "may_ask e filename lg u (finish_negotiation ng NegFailed w)" using assms(1) by (simp add: may_ask_def)
  from may_ask_asks [OF send_asks [OF this s]] show ?thesis
    using assms(2) s by (cases rs) (auto simp: proxy_original_range_def)
qed

lemma handle_successful_asks:
  assumes "may_ask e filename lg u w"
    and "handle_successful_upstream_response e c response u file_hash fname headers meth ng w = (r, w')"
  shows "asks_vetted e filename lg w'"
proof -
  note asks = may_ask_asks [OF assms(1)]
  have "w_net w' = w_net w \<or> (\<exists>ct. proxy_original_range e u headers ct fname ng w = (r, w'))"
    using assms(2)
    by (auto simp: handle_successful_upstream_response_def answer_head_def answer_range_def Let_def
        dest!: prepare_net stream_net split: if_splits prod.splits sum.splits option.splits)
  then show ?thesis using asks_same [OF asks] proxy_range_asks [OF assms(1)] by blast
qed

lemma fetch_candidate_asks:
  assumes "may_ask e filename lg (cd_url cd) w"
    and "fetch_candidate e c file_hash fname headers meth ng cd w = (r, w')"
  shows "asks_vetted e filename lg w'"
proof -
  obtain rs w1 where s: "send_request e ''GET'' (cd_url cd) (copy_headers_for_cold_fetch headers []) w = (rs, w1)" by fastforce
  note m = send_asks [OF assms(1) s]
  show ?thesis using assms(2) s may_ask_asks [OF m] handle_successful_asks [OF m]
    by (auto simp: fetch_candidate_def split: sum.splits if_splits prod.splits)
qed

lemma relay_candidate_asks:
  assumes "may_ask e filename lg (cd_url cd) w" "relay_candidate e fname headers cd w = (r, w')"
  shows "asks_vetted e filename lg w'"
proof -
  obtain rs w1 where s: "send_request e ''GET'' (cd_url cd) (copy_headers_to_reqwest headers []) w = (rs, w1)" by fastforce
  show ?thesis using assms(2) s may_ask_asks [OF send_asks [OF assms(1) s]]
    by (auto simp: relay_candidate_def split: sum.splits if_splits)
qed

lemma redirect_candidate_asks:
  assumes "may_ask e filename lg (cd_url cd) w" "try_head_and_redirect e c file_hash fname cache cd w = (r, w')"
  shows "asks_vetted e filename lg w'"
proof -
  obtain rs w1 where s: "send_request e ''HEAD'' (cd_url cd) [] w = (rs, w1)" by fastforce
  have "w_net (cache_after_redirect e c u file_hash response w1) = w_net w1" for u response
    by (simp add: cache_after_redirect_def)
  then show ?thesis using assms(2) s may_ask_asks [OF send_asks [OF assms(1) s]]
    by (auto simp: try_head_and_redirect_def Let_def asks_vetted_def split: sum.splits if_splits)
qed

lemma walk_asks:
  assumes "walk_until e c act wk w = (r, w')" "walk_ok e c UNIV named wk" "asks_vetted e (wk_filename wk) lg w"
    and "\<And>cd w1 r w2. may_ask e (wk_filename wk) lg (cd_url cd) w1 \<Longrightarrow> act cd w1 = (r, w2) \<Longrightarrow>
       asks_vetted e (wk_filename wk) lg w2"
  shows "asks_vetted e (wk_filename wk) lg w'"
proof -
  let ?I = "asks_vetted e (wk_filename wk) lg"
  have ask: "?I w2" if "?I w0" "?I w1" "offered e (wk_filename wk) w0 cd w1" "act cd w1 = (x, w2)" for cd w0 w1 x w2
    by (rule assms(4) [OF offered_may_ask [OF that(1-3)] that(4)])
  have "case r of None \<Rightarrow> ?I w' | Some x \<Rightarrow> (\<lambda>_. ?I) x w'"
    using assms(1,2,3) asks_frame ask ask by (rule walk_until_inv)
  then show ?thesis by (cases r) auto
qed

lemma proceed_asks:
  assumes "walk_ok e c UNIV named wk" "asks_vetted e (wk_filename wk) lg w" "proceed e c wk headers meth a w = (r, w')"
  shows "asks_vetted e (wk_filename wk) lg w'"
proof (cases a)
  case (Fetch ng)
  obtain ru w1 where u: "walk_until e c (fetch_candidate e c (requested_hash (wk_filename wk)) (wk_filename wk) headers meth ng) wk w = (ru, w1)"
    by fastforce
  have "asks_vetted e (wk_filename wk) lg w1" by (rule walk_asks [OF u assms(1,2)]) (rule fetch_candidate_asks)
  then show ?thesis using assms(3) u by (cases ru) (auto simp: proceed_def Fetch asks_vetted_def)
next
  case Relay
  obtain ru w1 where u: "walk_until e c (relay_candidate e (wk_filename wk) headers) wk w = (ru, w1)" by fastforce
  have "asks_vetted e (wk_filename wk) lg w1" by (rule walk_asks [OF u assms(1,2)]) (rule relay_candidate_asks)
  then show ?thesis using assms(3) u by (cases ru) (auto simp: proceed_def Relay proxy_request_to_upstream_def)
qed (use assms in \<open>simp add: proceed_def\<close>)

lemma negotiate_net:
  assumes "negotiate e file_hash filename headers meth waits w = Some (a, w')"
    "list_all (\<lambda>meanwhile. \<forall>w. w_net (meanwhile w) = w_net w) waits"
  shows "w_net w' = w_net w"
  using assms
proof (induction waits arbitrary: w)
  case (Nil w)
  then show ?case
    by (auto simp: negotiate.simps claim_upstream_negotiation_def open_negotiation_def Let_def
        split: option.splits negotiation_claim.splits prod.splits if_splits)
next
  case (Cons meanwhile waits w)
  obtain cl w1 where cl: "claim_upstream_negotiation file_hash w = (cl, w1)" by fastforce
  then have n: "w_net w1 = w_net w"
    by (auto simp: claim_upstream_negotiation_def open_negotiation_def Let_def split: option.splits if_splits)
  show ?case using Cons cl n
    by (auto simp: negotiate.simps [of _ _ _ _ _ "meanwhile # waits"] Let_def
        split: negotiation_claim.splits negotiation_phase.splits option.splits)
qed

section \<open>Properties of the requests sent\<close>

text \<open>C24: An upstream request is never sent to a server that has not been vetted: in everything a request
  for a missing blob sends, whether it is answered from a server, coalesced, relayed or redirected, every
  URL is the blob's name below a server whose host was looked up earlier in this very request and had an
  address outside the private networks (or of the overlay, for a \<open>.fips\<close> host). What other requests send
  meanwhile is not counted, and the HTTP client resolves the name once more when it connects: the
  theorem is about the URLs asked, not about that second resolution.\<close>
theorem upstream_requests_vetted:
  assumes "list_all (\<lambda>meanwhile. \<forall>w. w_net (meanwhile w) = w_net w) waits"
  shows "(case try_upstream_servers e c filename headers meth origin xs author waits w of
            None \<Rightarrow> True
          | Some (r, w') \<Rightarrow>
              w_net w' = w_net w @ drop (length (w_net w)) (w_net w') \<and>
              asked_vetted (ae_net e) filename (w_net w) (drop (length (w_net w)) (w_net w'))) \<and>
     (case try_upstream_redirect e c filename origin xs author cache w of
        (r, w') \<Rightarrow>
          w_net w' = w_net w @ drop (length (w_net w)) (w_net w') \<and>
          asked_vetted (ae_net e) filename (w_net w) (drop (length (w_net w)) (w_net w')))"
proof -
  let ?wk = "walk_new c filename origin xs author"
  have ok: "walk_ok e c UNIV (named_by e c origin xs author UNIV) ?wk" by (rule walk_new_ok)
  have name: "wk_filename ?wk = filename" by (simp add: walk_new_def)
  have split: "w_net w' = w_net w @ drop (length (w_net w)) (w_net w') \<and>
      asked_vetted (ae_net e) filename (w_net w) (drop (length (w_net w)) (w_net w'))"
    if "asks_vetted e filename (w_net w) w'" for w' using that by (auto simp: asks_vetted_def)
  have pr: "asks_vetted e filename (w_net w) w'" if "proceed e c ?wk headers meth a w1 = (r, w')" "w_net w1 = w_net w" for a w1 r w'
    using proceed_asks [OF ok _ that(1), unfolded name] asks_same [OF asks_start that(2)] by blast
  have "asks_vetted e filename (w_net w) w'"
    if "try_upstream_servers e c filename headers meth origin xs author waits w = Some (r, w')" for r w'
    using that pr negotiate_net [OF _ assms]
    by (auto simp: try_upstream_servers_def Let_def split: option.splits if_splits)
  moreover have "asks_vetted e filename (w_net w) w'"
    if "try_upstream_redirect e c filename origin xs author cache w = (r, w')" for r w'
  proof -
    obtain ru w1 where u: "walk_until e c (try_head_and_redirect e c (requested_hash filename) filename cache) ?wk w = (ru, w1)"
      by fastforce
    have "asks_vetted e filename (w_net w) w1"
      using walk_asks [OF u ok, unfolded name, OF asks_start redirect_candidate_asks] .
    then show ?thesis using that u by (cases ru) (auto simp: try_upstream_redirect_def)
  qed
  ultimately show ?thesis using split by (auto split: option.splits prod.splits)
qed

theorem upstream_requests_vetted_witness:
  "\<exists>r w'. try_upstream_servers mirror_env walk_config hash_a [] ''GET'' None None None [] (empty_world store_a) = Some (r, w') \<and>
     asked_vetted (ae_net mirror_env) hash_a [] (w_net w')"
proof -
  let ?w = "empty_world store_a"
  have "claim_upstream_negotiation k ?w = open_negotiation k ?w" for k
    by (simp add: claim_upstream_negotiation_def empty_world_def)
  then obtain a w1 where n: "negotiate mirror_env (requested_hash hash_a) hash_a [] ''GET'' [] ?w = Some (a, w1)"
    by (auto simp: negotiate.simps open_negotiation_def Let_def)
  have "attach mirror_env (requested_hash hash_a) hash_a [] ''GET'' ?w = None"
    by (simp add: attach_def ongoing_handle_def empty_world_def)
  moreover obtain r w' where "proceed mirror_env walk_config (walk_new walk_config hash_a None None None) [] ''GET'' a w1 = (r, w')"
    by fastforce
  ultimately have "try_upstream_servers mirror_env walk_config hash_a [] ''GET'' None None None [] ?w = Some (r, w')"
    using n by (simp add: try_upstream_servers_def Let_def hget_def)
  then show ?thesis
    using upstream_requests_vetted [where waits = "[]" and e = mirror_env and c = walk_config and filename = hash_a and
        headers = "[]" and meth = "''GET''" and origin = None and xs = None and author = None and w = ?w]
    by (auto simp: empty_world_def)
qed

section \<open>What a request leaves behind\<close>

lemma kept_refl [simp]: "registries_kept w w"
  by (simp add: registries_kept_def)

lemma kept_by:
  "send_request e meth u hs w = (r, w') \<Longrightarrow> registries_kept w w'"
  "registries_kept w (unlink_temp e p w)"
  "\<not> is_removal j \<Longrightarrow> registries_kept w (spawn j w)"
  "walk_frame w w' \<Longrightarrow> registries_kept w w'"
proof -
  show "walk_frame w w' \<Longrightarrow> registries_kept w w'"
  proof -
    assume "walk_frame w w'"
    then obtain n l where "w' = w\<lparr>w_net := n, w_lists := l\<rparr>" by (auto simp: walk_frame_def)
    then show ?thesis by (simp add: registries_kept_def)
  qed
qed (auto simp: registries_kept_def send_request_def unlink_temp_def spawn_def)

lemma reach_kept: "coalesce_reach w0 (w, ns, ds) \<Longrightarrow> registries_kept w w' \<Longrightarrow> coalesce_reach w0 (w', ns, ds)"
  by (blast intro: cr_step cs_other)

definition lead_guards :: "negotiation_guard option \<Rightarrow> negotiation_guard list" where
  "lead_guards ng = (case ng of None \<Rightarrow> [] | Some g \<Rightarrow> [g])"

text \<open>A state reached while this request holds \<open>ng\<close>; the initial world has no registered cells.\<close>

definition holding :: "world \<Rightarrow> negotiation_guard option \<Rightarrow> negotiation_guard list \<Rightarrow> download_guard list \<Rightarrow> world \<Rightarrow> bool" where
  "holding w0 ng ns ds w \<longleftrightarrow> registries_empty w0 \<and> coalesce_reach w0 (w, lead_guards ng @ ns, ds)"

lemma holding_kept: "holding w0 ng ns ds w \<Longrightarrow> registries_kept w w' \<Longrightarrow> holding w0 ng ns ds w'"
  by (auto simp: holding_def intro: reach_kept)

lemma holding_fresh:
  assumes "holding w0 ng ns ds w"
  shows "ng = Some g \<Longrightarrow> g \<notin> set ns" "ds = d # ds1 \<Longrightarrow> d \<notin> set ds1"
proof -
  have "distinct (map snd (map neg_pair (lead_guards ng @ ns)))" "distinct (map snd (map dl_pair ds))"
    using coalesce_reach_inv assms unfolding holding_def by (fastforce simp: guards_ok_def)+
  then show "ng = Some g \<Longrightarrow> g \<notin> set ns" "ds = d # ds1 \<Longrightarrow> d \<notin> set ds1"
    by (auto simp: lead_guards_def distinct_map)
qed

lemma finish_releases:
  assumes "holding w0 ng ns ds w"
  shows "holding w0 None ns ds (finish_negotiation ng (if ok then NegReady else NegFailed) w)"
proof (cases ng)
  case (Some g)
  then have "coalesce_reach w0 (negotiation_finish g (if ok then NegReady else NegFailed) w, removeAll g (g # ns), ds)"
    using assms cr_step [OF _ cs_finish [of g "g # ns"]] by (simp add: holding_def lead_guards_def)
  then show ?thesis using assms holding_fresh(1) [OF assms Some] Some
    by (simp add: holding_def lead_guards_def finish_negotiation_def)
qed (use assms in \<open>simp add: finish_negotiation_def\<close>)

lemmas finish_ready = finish_releases [where ok = True, simplified]
  and finish_failed = finish_releases [where ok = False, simplified]

lemma drop_releases:
  assumes "holding w0 ng ns ds w"
  shows "holding w0 None ns ds (drop_negotiation ng w)"
proof (cases ng)
  case (Some g)
  then have "coalesce_reach w0 (negotiation_drop g w, removeAll g (g # ns), ds)"
    using assms cr_step [OF _ cs_drop [of g "g # ns"]] by (simp add: holding_def lead_guards_def)
  then show ?thesis using assms holding_fresh(1) [OF assms Some] Some
    by (simp add: holding_def lead_guards_def drop_negotiation_def)
qed (use assms in \<open>simp add: drop_negotiation_def\<close>)

lemma download_drop_releases:
  assumes "holding w0 ng ns (d # ds) w"
  shows "holding w0 ng ns ds (download_drop d w)"
proof -
  have "coalesce_reach w0 (download_drop d w, lead_guards ng @ ns, removeAll d (d # ds))"
    using assms cr_step [OF _ cs_dl_drop [of d "d # ds"]] by (simp add: holding_def)
  then show ?thesis using assms holding_fresh(2) [OF assms refl] by (simp add: holding_def)
qed

lemma prepare_holds:
  assumes "holding w0 ng ns ds w" "prepare_download e c filename ct len w = (r, w')"
  shows "case r of Inl _ \<Rightarrow> holding w0 ng ns ds w' | Inr g \<Rightarrow> dg_key g = filename \<and> holding w0 ng ns (g # ds) w'"
proof -
  obtain rs where rs: "prepare_download_state e c filename ct len w = (rs, w')" "r = (case rs of Inl _ \<Rightarrow> Inl 500 | Inr g \<Rightarrow> Inr g)"
    using assms(2) by (cases "prepare_download_state e c filename ct len w")
      (auto simp: prepare_download_def err_st_def split: sum.splits)
  show ?thesis
  proof (cases rs)
    case (Inl err)
    have "holding w0 ng ns ds w'"
      using assms(1) cr_step [OF _ cs_prepare_failed [OF rs(1) [unfolded Inl]]] by (simp add: holding_def)
    then show ?thesis using rs(2) Inl by simp
  next
    case (Inr g)
    with rs have "dg_key g = filename"
      by (auto simp: prepare_download_state_def Let_def bind_st_def split: prod.splits sum.splits)
    moreover have "holding w0 ng ns (g # ds) w'"
      using assms(1) cr_step [OF _ cs_prepare [OF rs(1) [unfolded Inr]]] by (simp add: holding_def)
    ultimately show ?thesis using rs(2) Inr by simp
  qed
qed

definition drives :: "job \<Rightarrow> download_guard \<Rightarrow> bool" where
  "drives j g \<longleftrightarrow> (case j of Run_Download _ _ filename i _ \<Rightarrow> dg_key g = filename \<and> dg_cell g = i | _ \<Rightarrow> False)"

definition released :: "world \<Rightarrow> negotiation_guard list \<Rightarrow> download_guard list \<Rightarrow> world \<Rightarrow> bool" where
  "released w0 ns ds w \<longleftrightarrow>
     holding w0 None ns ds w \<or> (\<exists>g j. holding w0 None ns (g # ds) w \<and> j \<in> set (w_spawned w) \<and> drives j g)"

lemma hands_over:
  assumes "holding w0 ng ns (g # ds) w" "dg_key g = filename"
  shows "released w0 ns ds (spawn (Run_Download u response filename (dg_cell g) b) (finish_negotiation ng NegReady w))"
proof -
  let ?j = "Run_Download u response filename (dg_cell g) b" and ?w = "finish_negotiation ng NegReady w"
  have "holding w0 None ns (g # ds) (spawn ?j ?w)"
    by (rule holding_kept [OF finish_ready [OF assms(1)]]) (simp add: kept_by is_removal_def)
  moreover have "drives ?j g" "?j \<in> set (w_spawned (spawn ?j ?w))" using assms(2) by (simp_all add: drives_def spawn_def)
  ultimately show ?thesis unfolding released_def by blast
qed

lemma dropped_both:
  assumes "holding w0 ng ns (g # ds) w"
  shows "released w0 ns ds (drop_negotiation ng (download_drop g w))"
  using drop_releases [OF download_drop_releases [OF assms]] by (simp add: released_def)

lemma uncached_releases:
  assumes "holding w0 ng ns (g # ds) w" "proxy_uncached e response filename g ng w = (r, w')"
  shows "released w0 ns ds w'"
proof -
  have "w' = finish_negotiation ng NegFailed (unlink_temp e (dh_temp_path (prepared_handle w g)) (download_drop g w))"
    using assms(2) by (simp add: proxy_uncached_def Let_def)
  moreover have "holding w0 None ns ds \<dots>"
    by (rule finish_failed [OF holding_kept [OF download_drop_releases [OF assms(1)] kept_by(2)]])
  ultimately show ?thesis by (simp add: released_def)
qed

lemma stream_releases:
  assumes "holding w0 ng ns (g # ds) w" "dg_key g = filename"
    "stream_and_save_from_upstream e c u response filename g ng w = (r, w')"
  shows "released w0 ns ds w'"
  using assms(3) uncached_releases [OF assms(1)] hands_over [OF assms(1,2)] dropped_both [OF assms(1)]
    dropped_both [OF holding_kept [OF assms(1) kept_by(2)]]
  by (auto simp: stream_and_save_from_upstream_def Let_def split: if_splits sum.splits option.splits)

lemma head_releases:
  assumes "holding w0 ng ns ds w" "answer_head e c response u file_hash fname ct ng w = (r, w')"
  shows "released w0 ns ds w'"
proof -
  obtain rp w1 where p: "prepare_download e c file_hash ct (upstream_response_total_len e response) w = (rp, w1)" by fastforce
  show ?thesis using prepare_holds [OF assms(1) p] assms(2) p hands_over drop_releases
    by (cases rp) (auto simp: answer_head_def released_def [of _ _ _ "drop_negotiation _ _"])
qed

lemma range_releases:
  assumes "holding w0 ng ns ds w" "answer_range e c response u file_hash fname ct headers n ng w = (r, w')"
  shows "released w0 ns ds w'"
proof -
  obtain rp w1 where p: "prepare_download e c file_hash ct (Some n) w = (rp, w1)" by fastforce
  show ?thesis
  proof (cases rp)
    case (Inl code)
    then show ?thesis using prepare_holds [OF assms(1) p] assms(2) p drop_releases
      by (auto simp: answer_range_def released_def)
  next
    case (Inr g)
    then have h: "dg_key g = file_hash" "holding w0 ng ns (g # ds) w1" using prepare_holds [OF assms(1) p] by auto
    show ?thesis using assms(2) p Inr hands_over [OF h(2,1)] dropped_both [OF h(2)]
      by (auto simp: answer_range_def split: option.splits sum.splits)
  qed
qed

lemma response_releases:
  assumes "holding w0 ng ns ds w"
    and "handle_successful_upstream_response e c response u file_hash fname headers meth ng w = (r, w')"
  shows "released w0 ns ds w'"
proof -
  let ?ct = "extract_content_type_from_response (ur_headers response)"
  have original: "released w0 ns ds w2" if "proxy_original_range e u headers ct fname ng w = (r2, w2)" for ct r2 w2
  proof -
    have "registries_kept (finish_negotiation ng NegFailed w) w2"
      using that kept_by(1) by (auto simp: proxy_original_range_def bind_st_def err_st_def split: prod.splits sum.splits)
    then show ?thesis using holding_kept [OF finish_failed [OF assms(1)]] by (simp add: released_def)
  qed
  have whole: "released w0 ns ds w'"
    if p: "prepare_download e c file_hash ?ct (ae_content_length e response) w = (rp, w1)"
      and k: "(case rp of Inl code \<Rightarrow> (Inl code, drop_negotiation ng w1)
        | Inr g \<Rightarrow> stream_and_save_from_upstream e c u response file_hash g ng w1) = (r, w')" for rp w1
  proof (cases rp)
    case (Inl code)
    then show ?thesis using prepare_holds [OF assms(1) p] k drop_releases by (auto simp: released_def)
  next
    case (Inr g)
    then have "dg_key g = file_hash" "holding w0 ng ns (g # ds) w1" using prepare_holds [OF assms(1) p] by auto
    then show ?thesis using k Inr stream_releases by simp
  qed
  show ?thesis
    using assms(2) head_releases [OF assms(1)] range_releases [OF assms(1)] original whole drop_releases [OF assms(1)]
    by (auto simp: handle_successful_upstream_response_def Let_def released_def [of _ _ _ "drop_negotiation _ _"]
        split: if_splits prod.splits option.splits)
qed

lemma relay_kept:
  assumes "walk_until e c (relay_candidate e filename headers) wk w = (r, w')" "walk_ok e c UNIV named wk"
  shows "registries_kept w w'"
proof -
  let ?I = "registries_kept w"
  have tr: "?I w2" if "?I w1" "registries_kept w1 w2" for w1 w2 using that by (simp add: registries_kept_def)
  have frame: "?I w2" if "?I w1" "walk_frame w1 w2" for w1 w2 using tr [OF that(1) kept_by(4) [OF that(2)]] .
  have act: "?I w2" if "?I w0" "?I w1" "offered e (wk_filename wk) w0 cd w1"
      "relay_candidate e filename headers cd w1 = (x, w2)" for cd w0 w1 x w2
    using tr [OF that(2)] kept_by(1) that(4) by (auto simp: relay_candidate_def split: prod.splits sum.splits if_splits)
  have "case r of None \<Rightarrow> ?I w' | Some x \<Rightarrow> (\<lambda>_. ?I) x w'"
    using assms kept_refl [of w] frame act act by (rule walk_until_inv)
  then show ?thesis by (cases r) auto
qed

lemma fetch_releases:
  assumes "holding w0 ng ns ds w" "walk_ok e c UNIV named wk"
    and "walk_until e c (fetch_candidate e c file_hash filename headers meth ng) wk w = (r, w')"
  shows "case r of None \<Rightarrow> holding w0 ng ns ds w' | Some x \<Rightarrow> (\<lambda>_. released w0 ns ds) x w'"
proof (rule walk_until_inv [where I = "holding w0 ng ns ds" and F = "\<lambda>_. released w0 ns ds", OF assms(3,2,1)])
  fix cd wa w1 w2 assume a: "holding w0 ng ns ds w1" "fetch_candidate e c file_hash filename headers meth ng cd w1 = (None, w2)"
  then have "registries_kept w1 w2"
    using kept_by(1) by (auto simp: fetch_candidate_def split: prod.splits sum.splits if_splits)
  then show "holding w0 ng ns ds w2" by (rule holding_kept [OF a(1)])
next
  fix cd wa w1 w2 x assume a: "holding w0 ng ns ds w1" "fetch_candidate e c file_hash filename headers meth ng cd w1 = (Some x, w2)"
  then obtain response w3 where r: "send_request e ''GET'' (cd_url cd) (copy_headers_for_cold_fetch headers []) w1 = (Inr response, w3)"
    "handle_successful_upstream_response e c response (cd_url cd) file_hash filename headers meth ng w3 = (x, w2)"
    by (auto simp: fetch_candidate_def split: prod.splits sum.splits if_splits)
  show "released w0 ns ds w2" by (rule response_releases [OF holding_kept [OF a(1) kept_by(1) [OF r(1)]] r(2)])
qed (blast intro: holding_kept kept_by(4))

definition negotiated_guard :: "negotiated \<Rightarrow> negotiation_guard option" where
  "negotiated_guard a = (case a of Fetch ng \<Rightarrow> ng | _ \<Rightarrow> None)"

text \<open>C25: A request for a missing blob gives back what it took, on every path, errors included: whatever it
  is told to do (fetch, relay, or answer from a download under way), in every state reachable by any
  interleaving of tasks, it ends with its negotiation settled, in a reachable state of the coalescing
  protocol in which it holds no download, or in which the one it began was handed to a spawned task
  that drives exactly that download.\<close>
theorem upstream_request_releases:
  assumes "registries_empty w0" and "coalesce_reach w0 (w, lead_guards (negotiated_guard a) @ ns, ds)"
    and "proceed e c (walk_new c filename origin xs author) headers meth a w = (r, w')"
  shows "coalesce_reach w0 (w', ns, ds) \<or>
     (\<exists>g j. coalesce_reach w0 (w', ns, g # ds) \<and> j \<in> set (w_spawned w') \<and> drives j g)"
proof -
  let ?wk = "walk_new c filename origin xs author"
  have ok: "walk_ok e c UNIV (named_by e c origin xs author UNIV) ?wk" by (rule walk_new_ok)
  have h: "holding w0 (negotiated_guard a) ns ds w" using assms(1,2) by (simp add: holding_def)
  have "released w0 ns ds w'"
  proof (cases a)
    case (Fetch ng)
    then have h: "holding w0 ng ns ds w" using h by (simp add: negotiated_guard_def)
    obtain ru w1 where u: "walk_until e c (fetch_candidate e c (requested_hash (wk_filename ?wk)) (wk_filename ?wk) headers meth ng) ?wk w = (ru, w1)"
      by fastforce
    show ?thesis using fetch_releases [OF h ok u] assms(3) u drop_releases
      by (cases ru) (auto simp: proceed_def Fetch released_def)
  next
    case Relay
    obtain ru w1 where u: "walk_until e c (relay_candidate e (wk_filename ?wk) headers) ?wk w = (ru, w1)" by fastforce
    have "w' = w1" using assms(3) u by (cases ru) (auto simp: proceed_def Relay proxy_request_to_upstream_def)
    then show ?thesis using holding_kept [OF h relay_kept [OF u ok]] Relay by (simp add: negotiated_guard_def released_def)
  next
    case (Answer r)
    then show ?thesis using h assms(3) by (simp add: proceed_def negotiated_guard_def released_def)
  qed
  then show ?thesis by (auto simp: released_def holding_def lead_guards_def)
qed

theorem upstream_request_releases_witness:
  "\<exists>g w w' ds. claim_upstream_negotiation hash_a (empty_world store_a) = (Leader g, w) \<and>
     coalesce_reach (empty_world store_a) (w', [], ds) \<and> length ds \<le> 1"
proof -
  have "claim_upstream_negotiation hash_a (empty_world store_a) = open_negotiation hash_a (empty_world store_a)"
    by (simp add: claim_upstream_negotiation_def empty_world_def)
  then obtain g w where g: "claim_upstream_negotiation hash_a (empty_world store_a) = (Leader g, w)"
    by (auto simp: open_negotiation_def Let_def)
  obtain r w' where p: "proceed mirror_env walk_config (walk_new walk_config hash_a None None None) [] ''GET'' (Fetch (Some g)) w = (r, w')"
    by fastforce
  have "registries_empty (empty_world store_a)" by (simp add: registries_empty_def empty_world_def)
  moreover have "coalesce_reach (empty_world store_a) (w, lead_guards (negotiated_guard (Fetch (Some g))) @ [], [])"
    using cr_step [OF cr_start cs_lead [OF g]] by (simp add: negotiated_guard_def lead_guards_def)
  ultimately consider "coalesce_reach (empty_world store_a) (w', [], [])"
    | d where "coalesce_reach (empty_world store_a) (w', [], [d])"
    using upstream_request_releases [OF _ _ p] by blast
  then show ?thesis
  proof cases
    case 1
    then show ?thesis using g by (intro exI [of _ g] exI [of _ w] exI [of _ w'] exI [of _ "[]"]) simp
  next
    case (2 d)
    then show ?thesis using g by (intro exI [of _ g] exI [of _ w] exI [of _ w'] exI [of _ "[d]"]) simp
  qed
qed

end
