(* ===== verification/FileRequests.thy ===== *)
theory FileRequests
  imports UpstreamFlow
begin

text \<open>
  GET and HEAD of a blob: \<open>handle_file_request\<close> of \<open>src/handlers/file_serving.rs\<close>. The name is resolved
  to a source (catalogue, bucket, served directory, upstream servers or a remembered miss), and the
  source to a response. Statistics are not modelled. As in theory Upstream, \<open>waits\<close> is what other tasks do
  while the request waits, and \<open>None\<close> is a request that still waits.
\<close>

section \<open>Resolving a name\<close>

record upstream_plan =
  up_custom_origin :: "string option"
  up_xs_servers :: "string list option"
  up_author_pubkey :: "pubkey option"

definition names_specific_servers :: "upstream_plan \<Rightarrow> bool" where
  "names_specific_servers pl \<longleftrightarrow> up_custom_origin pl \<noteq> None \<or> up_xs_servers pl \<noteq> None"

datatype blob_source =
    Indexed file_metadata
  | ServeFile serve_file_metadata
  | From_Upstream upstream_plan
  | RecentlyMissing

text \<open>\<open>upstream_plan\<close> of the code: the gate on the query's server hints.\<close>

definition plan_for_query :: "app_env \<Rightarrow> app_config \<Rightarrow> file_request_query \<Rightarrow> auth_state \<Rightarrow> upstream_plan app_result" where
  "plan_for_query e c query auth =
     (if \<not> is_enabled (feature_custom_upstream_origin_enabled c)
      then Inr \<lparr>up_custom_origin = None, up_xs_servers = None, up_author_pubkey = None\<rparr>
      else let xs_servers = (if fq_xs query = []
                             then (if fq_servers query = [] then None else Some (fq_servers query))
                             else Some (fq_xs query));
               finish = (\<lambda>author. Inr \<lparr>up_custom_origin = fq_origin query, up_xs_servers = xs_servers,
                                        up_author_pubkey = author\<rparr>)
           in case fq_author_pubkey query of
                None \<Rightarrow> finish None
              | Some author \<Rightarrow>
                  (case parse_pubkey e author of
                     Inl _ \<Rightarrow> finish None
                   | Inr pk \<Rightarrow>
                       if requires_wot (feature_custom_upstream_origin_enabled c) \<and> \<not> is_pubkey_authorized c auth pk
                       then Inl (Forbidden ''Author pubkey not in Web of Trust'')
                       else finish (Some pk)))"

definition UPSTREAM_MISS_TTL :: nat where
  "UPSTREAM_MISS_TTL = 3600"

definition upstream_recently_missed :: "app_env \<Rightarrow> world \<Rightarrow> string \<Rightarrow> bool" where
  "upstream_recently_missed e w file_hash \<longleftrightarrow>
     (case map_of (w_failed w) file_hash of None \<Rightarrow> False | Some missed_at \<Rightarrow> ae_instant e - missed_at < UPSTREAM_MISS_TTL)"

text \<open>An object that the bucket holds but the catalogue does not is published on the way.\<close>

definition find_native :: "app_env \<Rightarrow> string \<Rightarrow> world \<Rightarrow> file_metadata option app_result \<times> world" where
  "find_native e file_hash w =
     (case st_s3 (w_store w) of
        None \<Rightarrow> (Inr None, w)
      | Some s3 \<Rightarrow>
          bind_st (pure_st (ensure_available s3) w) (\<lambda>_ w.
          bind_st (pure_st (s3_find (s3e (ae_storage e)) (env_now e) file_hash s3) w) (\<lambda>found w.
          case found of
            None \<Rightarrow> (Inr None, w)
          | Some m \<Rightarrow> bind_st (in_store (publish_existing_metadata (ae_storage e) file_hash m) w) (\<lambda>published w.
                       (Inr (Some published), w)))))"

definition resolve_blob ::
  "app_env \<Rightarrow> app_config \<Rightarrow> string \<Rightarrow> file_request_query \<Rightarrow> world \<Rightarrow> blob_source app_result \<times> world" where
  "resolve_blob e c file_hash query w =
     (case get_file_metadata (w_store w) file_hash of
        Some m \<Rightarrow> (Inr (Indexed m), w)
      | None \<Rightarrow>
          bind_st (find_native e file_hash w) (\<lambda>found w1.
          case found of
            Some m \<Rightarrow> (Inr (Indexed m), w1)
          | None \<Rightarrow>
              (case map_of (w_serve_files w1) file_hash of
                 Some f \<Rightarrow> (Inr (ServeFile f), w1)
               | None \<Rightarrow>
                   bind_st (pure_st (plan_for_query e c query (w_auth w1)) w1) (\<lambda>pl w1.
                   if \<not> names_specific_servers pl \<and> upstream_recently_missed e w1 file_hash
                   then (Inr RecentlyMissing, w1) else (Inr (From_Upstream pl), w1)))))"

section \<open>Serving a stored blob\<close>

datatype blob_bytes = LocalFile path | Native s3_storage string

definition with_sunset :: "serve_env \<Rightarrow> u64 option \<Rightarrow> 'b response \<Rightarrow> 'b response" where
  "with_sunset se expiration r =
     (case sunset_header (http_date se) expiration of
        None \<Rightarrow> r
      | Some v \<Rightarrow> r\<lparr>rheaders := hinsert ''sunset'' v (rheaders r)\<rparr>)"

definition send_blob ::
  "app_env \<Rightarrow> fs \<Rightarrow> header_map \<Rightarrow> string option \<Rightarrow> u64 \<Rightarrow> string \<Rightarrow> blob_bytes \<Rightarrow> stream_body response app_result" where
  "send_blob e f headers mime_type sz etag bs =
     (case bs of
        LocalFile p \<Rightarrow> serve_file_with_range (ae_serve e) (env_host e) f p mime_type headers etag
      | Native s3 key \<Rightarrow> serve_s3_with_range (s3e (ae_storage e)) s3 key mime_type sz headers etag)"

definition serve_blob ::
  "app_env \<Rightarrow> app_config \<Rightarrow> header_map \<Rightarrow> string \<Rightarrow> string \<Rightarrow> u64 \<Rightarrow> string option \<Rightarrow> u64 option \<Rightarrow> blob_bytes \<Rightarrow>
     world \<Rightarrow> stream_body response app_result \<times> world" where
  "serve_blob e c headers meth file_hash sz mime_type expiration bs w =
     (let etag = blob_etag file_hash in
      bind_st (pure_st (check_not_modified headers etag) w) (\<lambda>unchanged w1.
      bind_st (case unchanged of
                 Some r \<Rightarrow> (Inr r, w1)
               | None \<Rightarrow>
                   if meth = ''HEAD'' then pure_st (build_blob_head_response mime_type sz etag) w1
                   else bind_st (in_ledger (charge c (ae_cashu e) headers Paid_Download sz) w1) (\<lambda>_ w2.
                        pure_st (send_blob e (st_fs (w_store w2)) headers mime_type sz etag bs) w2))
        (\<lambda>r w3. (Inr (with_sunset (ae_serve e) expiration r), w3))))"

text \<open>Response bodies of stored blobs among those of upstream answers.\<close>

definition whole_response :: "stream_body response \<Rightarrow> served" where
  "whole_response r = \<lparr>status = status r, rheaders = rheaders r, body = Whole (body r)\<rparr>"

definition serve_indexed ::
  "app_env \<Rightarrow> app_config \<Rightarrow> header_map \<Rightarrow> string \<Rightarrow> string \<Rightarrow> file_metadata \<Rightarrow> world \<Rightarrow>
     stream_body response app_result \<times> world" where
  "serve_indexed e c headers meth file_hash m w =
     bind_st (pure_st (case md_location m of
                Local p \<Rightarrow> Inr (LocalFile p)
              | S3 key \<Rightarrow> and_then (ok_or (st_s3 (w_store w)) (ServiceUnavailable ''S3 storage is not configured''))
                            (\<lambda>s3. Inr (Native s3 key))) w) (\<lambda>bs w.
     serve_blob e c headers meth file_hash (md_size m) (md_mime_type m)
       (sunset_expiration m (max_file_age_secs c)) bs w)"

definition serve_listed_file ::
  "app_env \<Rightarrow> app_config \<Rightarrow> header_map \<Rightarrow> string \<Rightarrow> string \<Rightarrow> serve_file_metadata \<Rightarrow> world \<Rightarrow>
     stream_body response app_result \<times> world" where
  "serve_listed_file e c headers meth file_hash f w =
     serve_blob e c headers meth file_hash (sf_size f) (sf_mime_type f) None (LocalFile (sf_path f)) w"

section \<open>Going upstream\<close>

definition record_miss :: "app_env \<Rightarrow> upstream_plan \<Rightarrow> string \<Rightarrow> world \<Rightarrow> world" where
  "record_miss e pl file_hash w =
     (if names_specific_servers pl then w else w\<lparr>w_failed := hm_insert file_hash (ae_instant e) (w_failed w)\<rparr>)"

definition fetch_from_upstream ::
  "app_env \<Rightarrow> app_config \<Rightarrow> string \<Rightarrow> string \<Rightarrow> header_map \<Rightarrow> string \<Rightarrow> upstream_plan \<Rightarrow> (world \<Rightarrow> world) list \<Rightarrow>
     world \<Rightarrow> (served app_result \<times> world) option" where
  "fetch_from_upstream e c filename file_hash headers meth pl waits w =
     map_option (\<lambda>(result, w1). case result of
         Inr r \<Rightarrow> (Inr r, w1)
       | Inl _ \<Rightarrow> (Inl (NotFound ''File not found''), record_miss e pl file_hash w1))
     (if is_redirect (upstream_mode_of c)
      then Some (try_upstream_redirect e c filename (up_custom_origin pl) (up_xs_servers pl) (up_author_pubkey pl)
                   (caches_in_background (upstream_mode_of c)) w)
      else try_upstream_servers e c filename headers meth (up_custom_origin pl) (up_xs_servers pl)
             (up_author_pubkey pl) waits w)"

section \<open>The handler\<close>

definition respond_from ::
  "app_env \<Rightarrow> app_config \<Rightarrow> string \<Rightarrow> string \<Rightarrow> header_map \<Rightarrow> string \<Rightarrow> (world \<Rightarrow> world) list \<Rightarrow> blob_source \<Rightarrow>
     world \<Rightarrow> (served app_result \<times> world) option" where
  "respond_from e c filename file_hash headers meth waits source w =
     (case source of
        Indexed m \<Rightarrow> Some (bind_st (serve_indexed e c headers meth file_hash m w) (\<lambda>r w. (Inr (whole_response r), w)))
      | ServeFile f \<Rightarrow> Some (bind_st (serve_listed_file e c headers meth file_hash f w) (\<lambda>r w. (Inr (whole_response r), w)))
      | RecentlyMissing \<Rightarrow> Some (Inl (NotFound ''File not found (cached upstream failure)''), w)
      | From_Upstream pl \<Rightarrow> fetch_from_upstream e c filename file_hash headers meth pl waits w)"

definition handle_file_request ::
  "app_env \<Rightarrow> app_config \<Rightarrow> string \<Rightarrow> file_request_query \<Rightarrow> header_map \<Rightarrow> string \<Rightarrow> (world \<Rightarrow> world) list \<Rightarrow> world \<Rightarrow>
     (served app_result \<times> world) option" where
  "handle_file_request e c filename query headers meth waits w =
     (case get_sha256_hash_from_filename filename of
        None \<Rightarrow>
          (let prefix = (case split_once (CHR ''.'') filename of None \<Rightarrow> filename | Some (h, _) \<Rightarrow> h)
           in Some (Inl (if length prefix = 64 then BadRequest ''Invalid SHA-256 hash'' else NotFound ''Blob not found''), w))
      | Some file_hash \<Rightarrow>
          (case resolve_blob e c file_hash query w of
             (Inl err, w1) \<Rightarrow> Some (Inl err, w1)
           | (Inr source, w1) \<Rightarrow> respond_from e c filename file_hash headers meth waits source w1))"

section \<open>What a stored blob is answered with\<close>

lemma with_sunset_fields [simp]:
  "status (with_sunset se x r) = status r" "body (with_sunset se x r) = body r"
  by (simp_all add: with_sunset_def split: option.splits)

lemma hget_hinsert_other:
  assumes "\<not> eq_ignore_ascii_case n m"
  shows "hget (hinsert n v hs) m = hget hs m"
proof -
  let ?is = "\<lambda>n (k, _). eq_ignore_ascii_case k n"
  have "find (?is m) (filter (\<lambda>p. \<not> ?is n p) hs @ [(n, v)]) = find (?is m) hs"
    using assms by (induction hs) (auto simp: eq_ignore_ascii_case_def)
  then show ?thesis by (simp add: hget_def hinsert_def case_prod_unfold)
qed

lemma with_sunset_header:
  "\<not> eq_ignore_ascii_case ''sunset'' n \<Longrightarrow> hget (rheaders (with_sunset se x r)) n = hget (rheaders r) n"
  by (simp add: with_sunset_def hget_hinsert_other split: option.splits)

lemma not_modified_cases:
  "check_not_modified headers etag = Inr (Some r) \<Longrightarrow> status r = 304 \<and> body r = Inr []"
  by (auto simp: check_not_modified_def build_response_def and_then_Inr_iff split: option.splits if_splits)

lemma head_cases:
  "build_blob_head_response mime sz etag = Inr r \<Longrightarrow>
     status r = 200 \<and> body r = Inr [] \<and> hget (rheaders r) ''content-length'' = Some (show_u64 sz)"
  by (auto simp: build_blob_head_response_def build_response_def hget_lower split: if_splits)

lemma serve_blob_cases:
  assumes "serve_blob e c headers meth h sz mime x bs w = (Inr r, w')"
  obtains (unmodified) "status r = 304" "body r = Inr []" "w' = w"
  | (head) "meth = ''HEAD''" "status r = 200" "body r = Inr []" "w' = w"
      "hget (rheaders r) ''content-length'' = Some (show_u64 sz)"
  | (sent) r1 where "meth \<noteq> ''HEAD''" "in_ledger (charge c (ae_cashu e) headers Paid_Download sz) w = (Inr (), w')"
      "send_blob e (st_fs (w_store w)) headers mime sz (blob_etag h) bs = Inr r1" "r = with_sunset (ae_serve e) x r1"
proof -
  obtain u r1 where u: "check_not_modified headers (blob_etag h) = Inr u" and r: "r = with_sunset (ae_serve e) x r1"
    and rest: "(case u of Some r \<Rightarrow> (Inr r, w) | None \<Rightarrow>
        if meth = ''HEAD'' then pure_st (build_blob_head_response mime sz (blob_etag h)) w
        else bind_st (in_ledger (charge c (ae_cashu e) headers Paid_Download sz) w) (\<lambda>_ w2.
          pure_st (send_blob e (st_fs (w_store w2)) headers mime sz (blob_etag h) bs) w2)) = (Inr r1, w')"
    using assms by (auto simp: serve_blob_def Let_def bind_st_Inr_iff)
  show thesis
  proof (cases u)
    case (Some r0)
    then show ?thesis using u rest r not_modified_cases unmodified by fastforce
  next
    case None
    show ?thesis
    proof (cases "meth = ''HEAD''")
      case True
      then have "build_blob_head_response mime sz (blob_etag h) = Inr r1" "w' = w" using rest None by auto
      moreover have "\<not> eq_ignore_ascii_case ''sunset'' ''content-length''" by (simp add: eq_ignore_ascii_case_def)
      ultimately show ?thesis using head [OF True] head_cases r by (simp add: with_sunset_header)
    next
      case False
      then obtain v w2 where l: "in_ledger (charge c (ae_cashu e) headers Paid_Download sz) w = (Inr v, w2)"
        "send_blob e (st_fs (w_store w2)) headers mime sz (blob_etag h) bs = Inr r1" "w' = w2"
        using rest None by (auto simp: bind_st_Inr_iff)
      then show ?thesis using sent [OF False] r in_ledger_store [OF l(1)] by simp
    qed
  qed
qed

lemma in_ledger_iff: "in_ledger g w = (r, w') \<longleftrightarrow> g (w_ledger w) = (r, w_ledger w') \<and> w' = w\<lparr>w_ledger := w_ledger w'\<rparr>"
  by (auto simp: in_ledger_def split: prod.splits)

section \<open>Properties\<close>

text \<open>C26: A blob held here is answered with its own bytes, and charged for exactly when bytes are due: in
  every safe state, an answered request for a catalogued local blob is a 304 or a HEAD answer, free
  and empty (the latter with the blob's true length), or its price was settled and the body is the
  whole content, which hashes to the requested name, or the announced part of it, or (416) nothing.
  The ledger aside, the state does not change.\<close>
theorem file_request_exact:
  assumes "blob_safe e c w" and "get_sha256_hash_from_filename filename = Some h"
    and "get_file_metadata (w_store w) h = Some m" and "md_location m = Local p"
    and "handle_file_request e c filename query headers meth waits w = Some (Inr r, w')"
  shows "\<exists>d. fs_data (st_fs (w_store w)) p = Some d \<and> ae_sha e d = h \<and> w' = w\<lparr>w_ledger := w_ledger w'\<rparr> \<and>
    (status r = 304 \<and> body r = Whole (Inr []) \<and> w' = w \<or>
     meth = ''HEAD'' \<and> status r = 200 \<and> body r = Whole (Inr []) \<and> w' = w \<and>
       hget (rheaders r) ''content-length'' = Some (show_nat (length d)) \<or>
     meth \<noteq> ''HEAD'' \<and> charge c (ae_cashu e) headers Paid_Download (md_size m) (w_ledger w) = (Inr (), w_ledger w') \<and>
       (status r = 200 \<and> body r = Whole (Inr d) \<or>
        (\<exists>s t. status r = 206 \<and> unat s \<le> unat t \<and> unat t < length d \<and>
           hget (rheaders r) ''content-range'' =
             Some (''bytes '' @ show_u64 s @ ''-'' @ show_u64 t @ ''/'' @ show_nat (length d)) \<and>
           body r = Whole (Inr (take (unat t - unat s + 1) (drop (unat s) d)))) \<or>
        status r = 416 \<and> body r = Whole (Inr [])))"
proof -
  have "located c (integrity (ae_sha e)) (st_fs (w_store w)) h m"
    using assms(1,3) by (simp add: blob_safe_def store_inv_def get_file_metadata_def)
  then obtain d where d: "fs_data (st_fs (w_store w)) p = Some d" "ae_sha e d = h" "unat (md_size m) = length d"
    using assms(4) by (auto simp: located_def integrity_def)
  have len: "length d < 2 ^ 64" unfolding d(3) [symmetric] by (rule unat_u64_bound)
  have "resolve_blob e c h query w = (Inr (Indexed m), w)" using assms(3) by (simp add: resolve_blob_def)
  then obtain r0 where r0: "serve_blob e c headers meth h (md_size m) (md_mime_type m)
      (sunset_expiration m (max_file_age_secs c)) (LocalFile p) w = (Inr r0, w')" "r = whole_response r0"
    using assms(2,4,5)
    by (auto simp: handle_file_request_def respond_from_def serve_indexed_def bind_st_Inr_iff pure_st_def)
  have shown: "show_u64 (md_size m) = show_nat (length d)" by (simp add: show_u64_def d(3))
  have range: "\<not> eq_ignore_ascii_case ''sunset'' ''content-range''" by (simp add: eq_ignore_ascii_case_def)
  from r0(1) show ?thesis
  proof (cases rule: serve_blob_cases)
    case unmodified
    then show ?thesis using d r0(2) by (intro exI [of _ d]) (simp add: whole_response_def)
  next
    case head
    then show ?thesis using d r0(2) shown by (intro exI [of _ d]) (simp add: whole_response_def)
  next
    case (sent r1)
    have paid: "charge c (ae_cashu e) headers Paid_Download (md_size m) (w_ledger w) = (Inr (), w_ledger w')"
      "w' = w\<lparr>w_ledger := w_ledger w'\<rparr>"
      using sent(2) by (auto simp: in_ledger_iff)
    have "serve_file_with_range (ae_serve e) (env_host e) (st_fs (w_store w)) p (md_mime_type m) headers (blob_etag h) = Inr r1"
      using sent(3) by (simp add: send_blob_def)
    note out = file_answer [OF this d(1) len]
    show ?thesis using d paid sent(1,4) out r0(2) range
      by (intro exI [of _ d]) (auto simp: whole_response_def with_sunset_header)
  qed
qed

definition plain_query :: file_request_query where
  "plain_query = \<lparr>fq_servers = [], fq_origin = None, fq_xs = [], fq_author_pubkey = None\<rparr>"

lemma hash_a_named: "get_sha256_hash_from_filename hash_a = Some hash_a"
proof -
  have "split_once (CHR ''.'') hash_a = None" by (simp add: str_simps) (simp add: hash_a_def)
  then show ?thesis by (simp add: get_sha256_hash_from_filename_def Let_def)
    (simp add: hash_a_def is_ascii_hexdigit_def is_lower_hex_def is_ascii_digit_def byte_of_def list_all_iff)
qed

lemma store_a_served:
  "\<exists>r. serve_file_with_range ex_serve calm_host (st_fs store_a) path_a None [] (blob_etag hash_a) = Inr r"
proof -
  have "header_value_ok (''inline; filename=\"'' @ hash_a @ ''\"'')" "header_value_ok (blob_etag hash_a)"
    by (simp_all add: header_value_ok_def hash_a_def blob_etag_def byte_of_def list_all_iff)
  moreover have "header_value_ok (get_mime_type (guess_mime ex_serve) hash_a)"
    by (simp add: get_mime_type_def ex_serve_def default_mime_def header_value_ok_def byte_of_def Let_def split: option.splits)
  moreover have "path_a \<noteq> []" "last path_a = hash_a" by (simp_all add: path_a_def)
  moreover have "header_value_ok ''bytes''" "header_value_ok cache_control_immutable" "header_value_ok (expires_value ex_serve)"
    by (simp_all add: header_value_ok_def byte_of_def cache_control_immutable_def ex_serve_def)
  ultimately show ?thesis
    by (simp add: serve_file_with_range_def open_blob_file_def requested_range_def hget_str_def hget_def calm_host_def
        store_a_def build_response_def Let_def)
qed

theorem file_request_exact_witness:
  "\<exists>r w'. handle_file_request sample_env sample_config hash_a plain_query [] ''GET'' [] (empty_world store_a) = Some (Inr r, w') \<and>
     (body r = Whole (Inr [1, 2]) \<or> status r \<noteq> 200)"
proof -
  let ?w = "empty_world store_a"
  have w: "w_store ?w = store_a" by (simp add: empty_world_def)
  have env: "ae_serve sample_env = ex_serve" "env_host sample_env = calm_host" "ae_sha sample_env = (\<lambda>_. hash_a)"
    by (simp_all add: sample_env_def calm_env_def)
  have safe: "blob_safe sample_env sample_config ?w"
    using store_a_inv [of "integrity (\<lambda>_. hash_a)"] by (simp add: blob_safe_def w env integrity_def md_a_def)
  have m: "get_file_metadata store_a hash_a = Some md_a" "md_location md_a = Local path_a" "md_mime_type md_a = None"
    by (simp_all add: get_file_metadata_def store_a_def index_get_a) (simp_all add: md_a_def)
  obtain r0 where r0: "serve_file_with_range ex_serve calm_host (st_fs store_a) path_a None [] (blob_etag hash_a) = Inr r0"
    using store_a_served by blast
  have "check_not_modified [] t = Inr None" for t by (simp add: check_not_modified_def hget_str_def hget_def)
  moreover have "in_ledger (charge sample_config (ae_cashu sample_env) [] Paid_Download sz) ?w = (Inr (), ?w)" for sz
    by (simp add: in_ledger_def charge_def sample_config_def empty_world_def)
  ultimately have "\<exists>r. handle_file_request sample_env sample_config hash_a plain_query [] ''GET'' [] ?w = Some (Inr r, ?w)"
    using m r0 w env
    by (simp add: handle_file_request_def hash_a_named resolve_blob_def respond_from_def serve_indexed_def pure_st_def
        serve_blob_def send_blob_def Let_def)
  then obtain r where h: "handle_file_request sample_env sample_config hash_a plain_query [] ''GET'' [] ?w = Some (Inr r, ?w)" ..
  have "fs_data (st_fs store_a) path_a = Some [1, 2]" by (simp add: store_a_def)
  moreover have "get_file_metadata (w_store ?w) hash_a = Some md_a" using m(1) w by simp
  ultimately show ?thesis using file_request_exact [OF safe hash_a_named _ m(2) h]
    using h by (auto simp: w)
qed

text \<open>C27: A blob that was not found upstream is not asked for again for an hour: once a request that names no
  server of its own (an author to look up does not count) has failed upstream, for whatever reason, every
  request for the same hash that names none is answered 404 at once, changing nothing and contacting no
  upstream server, as long as the miss is younger than the limit and the blob has not appeared here
  meanwhile: not in the catalogue, nor in the served directory, nor in the bucket, which is asked first
  where one is configured and must be up and answer that it has no such object. A request that does
  name servers is never answered from that memory.\<close>
theorem upstream_miss_remembered:
  assumes "fetch_from_upstream e c filename h headers meth pl waits w = Some (Inl err, w1)"
    and "up_custom_origin pl = None" and "up_xs_servers pl = None" and "get_sha256_hash_from_filename filename = Some h"
    and "map_of (w_failed w2) h = map_of (w_failed w1) h" and "ae_instant e2 < ae_instant e + 3600"
    and "get_file_metadata (w_store w2) h = None" and "map_of (w_serve_files w2) h = None"
    and "\<forall>s3. st_s3 (w_store w2) = Some s3 \<longrightarrow>
       ensure_available s3 = Inr () \<and> s3_find (s3e (ae_storage e2)) (env_now e2) h s3 = Inr None"
    and "plan_for_query e2 c2 query (w_auth w2) = Inr pl2"
  shows "if up_custom_origin pl2 = None \<and> up_xs_servers pl2 = None
    then handle_file_request e2 c2 filename query headers2 meth2 waits2 w2 =
           Some (Inl (NotFound ''File not found (cached upstream failure)''), w2)
    else handle_file_request e2 c2 filename query headers2 meth2 waits2 w2 =
           fetch_from_upstream e2 c2 filename h headers2 meth2 pl2 waits2 w2"
proof -
  obtain z :: "served status_result \<times> world" where z: "(case z of (Inr r, w1) \<Rightarrow> (Inr r, w1)
      | (Inl _, w1) \<Rightarrow> (Inl (NotFound ''File not found''), record_miss e pl h w1)) = (Inl err, w1)"
    using assms(1) unfolding fetch_from_upstream_def map_option_eq_Some by blast
  obtain answer w0 where "z = (answer, w0)" by fastforce
  then have "w1 = record_miss e pl h w0" using z by (cases answer) auto
  then have "map_of (w_failed w1) h = Some (ae_instant e)" using assms(2,3) by (simp add: record_miss_def names_specific_servers_def hm_simps)
  then have "upstream_recently_missed e2 w2 h"
    using assms(5,6) by (simp add: upstream_recently_missed_def UPSTREAM_MISS_TTL_def)
  moreover have "find_native e2 h w2 = (Inr None, w2)"
    using assms(9) by (cases "st_s3 (w_store w2)") (simp_all add: find_native_def pure_st_def)
  ultimately show ?thesis using assms(4,7,8,10)
    by (simp add: handle_file_request_def resolve_blob_def names_specific_servers_def respond_from_def pure_st_def)
qed

lemma nothing_upstream:
  assumes "negotiate sample_env h filename [] meth [] w = Some (Fetch ng, w1)" "requested_hash filename = h"
    "attach sample_env h filename [] meth w = None"
  shows "try_upstream_servers sample_env sample_config filename [] meth None None None [] w =
     Some (Inl 404, drop_negotiation ng w1)"
proof -
  have p: "wk_pending (walk_new sample_config filename None None None) = []"
    "\<not> wk_user_servers_pending (walk_new sample_config filename None None None)"
    by (simp_all add: walk_new_def plan_def Let_def sample_config_def)
  have "walk_until sample_env sample_config act (walk_new sample_config filename None None None) w1 = (None, w1)"
    for act :: "candidate \<Rightarrow> world \<Rightarrow> served status_result option \<times> world"
    by (simp add: walk_until.simps walk_next.simps take_user_servers_def p)
  then show ?thesis using assms by (simp add: try_upstream_servers_def proceed_def Let_def hget_def)
qed

theorem upstream_miss_remembered_witness:
  "\<exists>w1. map_of (w_failed w1) hash_a = Some 0 \<and>
     handle_file_request sample_env sample_config hash_a plain_query [] ''GET'' [] w1 =
       Some (Inl (NotFound ''File not found (cached upstream failure)''), w1)"
proof -
  let ?w = "empty_world (store_a\<lparr>st_index := entries_default\<rparr>)"
  let ?pl = "\<lparr>up_custom_origin = None, up_xs_servers = None, up_author_pubkey = None\<rparr>"
  have req: "requested_hash hash_a = hash_a" by (simp add: requested_hash_def hash_a_named)
  have "claim_upstream_negotiation hash_a ?w = open_negotiation hash_a ?w"
    by (simp add: claim_upstream_negotiation_def empty_world_def)
  then obtain g w0 where n: "negotiate sample_env hash_a hash_a [] ''GET'' [] ?w = Some (Fetch (Some g), w0)"
    and g: "open_negotiation hash_a ?w = (Leader g, w0)"
    by (auto simp: negotiate.simps open_negotiation_def Let_def)
  have "attach sample_env hash_a hash_a [] ''GET'' ?w = None"
    by (simp add: attach_def ongoing_handle_def empty_world_def)
  from nothing_upstream [OF n req this]
  have f: "fetch_from_upstream sample_env sample_config hash_a hash_a [] ''GET'' ?pl [] ?w =
      Some (Inl (NotFound ''File not found''), record_miss sample_env ?pl hash_a (negotiation_drop g w0))"
    by (simp add: fetch_from_upstream_def drop_negotiation_def) (simp add: sample_config_def is_redirect_def)
  let ?w1 = "record_miss sample_env ?pl hash_a (negotiation_drop g w0)"
  have plain: "up_custom_origin ?pl = None" "up_xs_servers ?pl = None" "\<not> names_specific_servers ?pl"
    by (simp_all add: names_specific_servers_def)
  have same: "w_store ?w1 = store_a\<lparr>st_index := entries_default\<rparr>" "w_serve_files ?w1 = []"
    using g by (auto simp: record_miss_def negotiation_drop_def send_phase_def open_negotiation_def Let_def empty_world_def)
  have none: "get_file_metadata (w_store ?w1) hash_a = None" "map_of (w_serve_files ?w1) hash_a = None"
    "\<forall>s3. st_s3 (w_store ?w1) = Some s3 \<longrightarrow>
       ensure_available s3 = Inr () \<and> s3_find (s3e (ae_storage sample_env)) (env_now sample_env) hash_a s3 = Inr None"
    by (simp_all add: same) (simp_all add: get_file_metadata_def index_get_def entries_default_def store_a_def)
  have "plan_for_query sample_env sample_config plain_query (w_auth ?w1) = Inr ?pl"
    by (simp add: plan_for_query_def sample_config_def is_enabled_def)
  from upstream_miss_remembered [OF f plain(1,2) hash_a_named refl _ none this]
  have "handle_file_request sample_env sample_config hash_a plain_query [] ''GET'' [] ?w1 =
      Some (Inl (NotFound ''File not found (cached upstream failure)''), ?w1)"
    using plain by (simp add: sample_env_def)
  moreover have "map_of (w_failed ?w1) hash_a = Some 0"
    using plain by (simp add: record_miss_def hm_simps sample_env_def)
  ultimately show ?thesis by blast
qed

end
