(* ===== verification/AdminHandlers.thy ===== *)
theory AdminHandlers
  imports FileRequests
begin

text \<open>
  The handlers of the operator's API: deletion, listing and reports (\<open>src/handlers/delete.rs\<close>,
  \<open>list.rs\<close> and \<open>report.rs\<close>). They answer with bare status codes. JSON is outside the repository: a
  list answer is its list of descriptors, a report answer the value that is serialized, and
  \<open>report_env\<close> reads the signed event and writes the audit record.
\<close>

section \<open>Deletion\<close>

definition status_st :: "'a app_result \<times> world \<Rightarrow> 'a status_result \<times> world" where
  "status_st = err_st status_of_error"

definition is_hash_like :: "string \<Rightarrow> bool" where
  "is_hash_like s \<longleftrightarrow> length s = 64 \<and> list_all is_ascii_hexdigit s"

definition delete_blob ::
  "app_env \<Rightarrow> app_config \<Rightarrow> string \<Rightarrow> header_map \<Rightarrow> world \<Rightarrow> string response status_result \<times> world" where
  "delete_blob e c filename headers w =
     (let sha256 = hd (split_on (CHR ''.'') filename) in
      if \<not> is_hash_like sha256 then (Inl 400, w)
      else bind_st (status_st (in_auth (authorize c (ae_nostr e) (env_now e) headers Op_Delete) w)) (\<lambda>a w1.
           bind_st (status_st (in_auth (bind_hash (env_now e) a sha256) w1)) (\<lambda>_ w2.
           bind_st (err_st (\<lambda>_. 503) (in_store (remove_indexed_blob c (ae_storage e) sha256 Requested None) w2)) (\<lambda>_ w3.
           (Inr no_content, w3)))))"

section \<open>Listing\<close>

definition DEFAULT_LIST_LIMIT :: nat where
  "DEFAULT_LIST_LIMIT = 100"

definition MAX_LIST_LIMIT :: nat where
  "MAX_LIST_LIMIT = 1000"

definition parse_path_pubkey :: "app_env \<Rightarrow> string \<Rightarrow> pubkey option status_result" where
  "parse_path_pubkey e p =
     (case strip_prefix ''/list/'' p of
        None \<Rightarrow> Inr None
      | Some v \<Rightarrow>
          if v = [] \<or> CHR ''/'' \<in> set v then Inl 400
          else (case ae_hex_key e v of None \<Rightarrow> Inl 400 | Some pk \<Rightarrow> Inr (Some pk)))"

definition list_cursor :: "string option \<Rightarrow> string option status_result" where
  "list_cursor cursor =
     (case cursor of
        None \<Rightarrow> Inr None
      | Some s \<Rightarrow> if is_hash_like s then Inr (Some (to_lowercase s)) else Inl 400)"

definition list_limit :: "list_query \<Rightarrow> nat" where
  "list_limit q = min (max (case lq_limit q of None \<Rightarrow> DEFAULT_LIST_LIMIT | Some n \<Rightarrow> n) 1) MAX_LIST_LIMIT"

definition list_page :: "app_config \<Rightarrow> list_query \<Rightarrow> string option \<Rightarrow> world \<Rightarrow> blob_descriptor list" where
  "list_page c q cursor w =
     map (\<lambda>(sha256, m). create_blob_descriptor c sha256 m)
       (index_page (case lq_since q of None \<Rightarrow> 0 | Some t \<Rightarrow> t) (case lq_until q of None \<Rightarrow> u64_max | Some t \<Rightarrow> t)
          None cursor (list_limit q) (st_index (w_store w)))"

definition list_blobs ::
  "app_env \<Rightarrow> app_config \<Rightarrow> list_query \<Rightarrow> header_map \<Rightarrow> string \<Rightarrow> world \<Rightarrow> blob_descriptor list status_result \<times> world" where
  "list_blobs e c q headers uri_path w =
     (if \<not> feature_list_enabled c then (Inl 403, w)
      else bind_st (status_st (in_auth (authorize c (ae_nostr e) (env_now e) headers Op_List) w)) (\<lambda>a w1.
           bind_st (status_st (pure_st (bind_without_hash a) w1)) (\<lambda>_ w1.
           bind_st (pure_st (parse_path_pubkey e uri_path) w1) (\<lambda>requested_pubkey w1.
           bind_st (pure_st (list_cursor (lq_cursor q)) w1) (\<lambda>cursor w1.
           let serves_catalog = (case requested_pubkey of None \<Rightarrow> True | Some pk \<Rightarrow> pk \<in> set (allowed_pubkeys c))
           in (Inr (if serves_catalog then list_page c q cursor w1 else []), w1))))))"

section \<open>Reports\<close>

record report_event =
  re_id :: string
  re_pubkey :: string
  re_created_at :: int
  re_kind :: nat
  re_tags :: "string list list"
  re_content :: string
  re_sig :: string

text \<open>
  \<open>rp_event\<close>: the report written as JSON and parsed as an event; \<open>rp_record\<close>: the audit record, from
  status, mode, action, requested and processed hashes, time and event.
\<close>

record report_env =
  rp_event :: "report_event \<Rightarrow> nostr_event option"
  rp_record :: "string \<Rightarrow> string \<Rightarrow> string \<Rightarrow> string list \<Rightarrow> string list \<Rightarrow> u64 \<Rightarrow> nostr_event \<Rightarrow> bytes"

datatype report_reply =
    Report_Reply (reply_message: string) (reply_processed: "string list") (reply_action: string)
  | No_Matching_Blobs

text \<open>\<open>Inl None\<close> is a panic: the connection breaks off.\<close>

type_synonym 'a report_result = "nat option + 'a"

definition extract_blob_hashes :: "string list list \<Rightarrow> string list" where
  "extract_blob_hashes tags =
     concat (map (\<lambda>tag. case tag of
         t # h # _ \<Rightarrow> if t = ''x'' \<and> is_hash_like h then [h] else []
       | _ \<Rightarrow> []) tags)"

definition extract_report_type :: "string list list \<Rightarrow> string option" where
  "extract_report_type tags =
     Option.bind (find (\<lambda>tag. length tag \<ge> 3 \<and> hd tag = ''x'') tags) (\<lambda>tag. Some (tag ! 2))"

definition fs_write :: "host_env \<Rightarrow> path \<Rightarrow> bytes \<Rightarrow> fs \<Rightarrow> (io_error + unit) \<times> fs" where
  "fs_write h p d f = bind_st (fs_create h p f) (\<lambda>_ f1. fs_append h p d f1)"

definition report_path :: "app_config \<Rightarrow> nostr_event \<Rightarrow> path" where
  "report_path c ev = reports (storage c) @ [ev_id ev @ ''.json'']"

definition record_report ::
  "app_env \<Rightarrow> app_config \<Rightarrow> report_env \<Rightarrow> nostr_event \<Rightarrow> string \<Rightarrow> string \<Rightarrow> string list \<Rightarrow> string list \<Rightarrow> world \<Rightarrow>
     unit report_result \<times> world" where
  "record_report e c rp ev st action requested processed w =
     err_st (\<lambda>_. Some 500)
       (in_files (fs_write (env_host e) (report_path c ev)
          (rp_record rp st (feature_mode_str (feature_report_enabled c)) action requested processed (env_now e) ev)) w)"

text \<open>\<open>&s[..100]\<close> of a longer text panics unless a character starts at byte 100.\<close>

definition char_boundary :: "nat \<Rightarrow> string \<Rightarrow> bool" where
  "char_boundary n s \<longleftrightarrow> n = length s \<or> n < length s \<and> \<not> (128 \<le> byte_of (s ! n) \<and> byte_of (s ! n) < 192)"

definition preview_ok :: "string \<Rightarrow> bool" where
  "preview_ok content \<longleftrightarrow> length content \<le> 100 \<or> char_boundary 100 content"

definition report_removal :: "app_config \<Rightarrow> removal" where
  "report_removal c = (case report_action_of c of Quarantine \<Rightarrow> Quarantined | Delete \<Rightarrow> Reported)"

fun process_reported :: "app_env \<Rightarrow> app_config \<Rightarrow> string list \<Rightarrow> string list \<Rightarrow> world \<Rightarrow> string list \<times> world" where
  "process_reported e c [] processed w = (processed, w)"
| "process_reported e c (sha256 # hs) processed w =
     (if get_file_metadata (w_store w) sha256 = None then process_reported e c hs processed w
      else let (r, w1) = in_store (remove_indexed_blob c (ae_storage e) sha256 (report_removal c) None) w
          in process_reported e c hs (if r = Inr True then processed @ [sha256] else processed) w1)"

text \<open>What must hold of a report before it has any effect: the event and its time.\<close>

definition check_report ::
  "app_env \<Rightarrow> app_config \<Rightarrow> report_env \<Rightarrow> report_event \<Rightarrow> (pubkey \<times> nostr_event) report_result" where
  "check_report e c rp report =
     (if \<not> is_enabled (feature_report_enabled c) then Inl (Some 404)
      else if re_kind report \<noteq> 1984 then Inl (Some 400)
      else case ae_hex_key e (re_pubkey report) of
        None \<Rightarrow> Inl (Some 400)
      | Some reporter \<Rightarrow>
          (case rp_event rp report of
             None \<Rightarrow> Inl (Some 400)
           | Some ev \<Rightarrow>
               if verify_sig (ae_nostr e) ev \<noteq> None then Inl (Some 401)
               else if re_created_at report < 0 then Inl (Some 400)
               else if re_created_at report > uint (saturating_add (env_now e) (auth_clock_skew_secs c)) then Inl (Some 401)
               else Inr (reporter, ev)))"

definition take_report_nonce :: "app_env \<Rightarrow> app_config \<Rightarrow> string \<Rightarrow> world \<Rightarrow> unit report_result \<times> world" where
  "take_report_nonce e c report_id w =
     err_st (\<lambda>err. Some (status_of_error err))
       (in_auth (\<lambda>s. let (r, replays) = consume_single_use (env_now e) report_id
                              (saturating_add (env_now e) (auth_max_ttl_secs c)) (destructive_event_replays s)
                      in (r, s\<lparr>destructive_event_replays := replays\<rparr>)) w)"

definition json_reply :: "nat \<Rightarrow> report_reply \<Rightarrow> report_reply response" where
  "json_reply st b = \<lparr>status = st, rheaders = [(''content-type'', ''application/json'')], body = b\<rparr>"

definition conclude_report :: "app_config \<Rightarrow> string list \<Rightarrow> report_reply response" where
  "conclude_report c processed =
     (if processed = [] then json_reply 404 No_Matching_Blobs
      else json_reply 200 (Report_Reply
             (''Report processed: '' @ show_nat (length processed) @ '' blob(s) '' @
                (if report_action_of c = Quarantine then ''quarantined'' else ''deleted''))
             processed (report_action_str (report_action_of c))))"

text \<open>A report of a whitelisted key, once it has been recorded as pending.\<close>

definition act_on_report ::
  "app_env \<Rightarrow> app_config \<Rightarrow> report_env \<Rightarrow> report_event \<Rightarrow> nostr_event \<Rightarrow> string list \<Rightarrow> world \<Rightarrow>
     report_reply response report_result \<times> world" where
  "act_on_report e c rp report ev blob_hashes w =
     (if \<not> preview_ok (re_content report) then (Inl None, w)
      else let (processed, w1) = process_reported e c blob_hashes [] w;
               st = (if processed = [] then ''noop'' else ''processed'')
           in bind_st (record_report e c rp ev st (report_action_str (report_action_of c)) blob_hashes processed w1) (\<lambda>_ w2.
              (Inr (conclude_report c processed), w2)))"

definition report_blob ::
  "app_env \<Rightarrow> app_config \<Rightarrow> report_env \<Rightarrow> report_event \<Rightarrow> world \<Rightarrow> report_reply response report_result \<times> world" where
  "report_blob e c rp report w =
     bind_st (pure_st (check_report e c rp report) w) (\<lambda>(reporter, ev) w.
     bind_st (take_report_nonce e c (re_id report) w) (\<lambda>_ w1.
     let blob_hashes = extract_blob_hashes (re_tags report) in
     if feature_report_enabled c = Public
     then bind_st (record_report e c rp ev ''noop'' ''none'' blob_hashes [] w1) (\<lambda>_ w2.
          (Inr (json_reply 202 (Report_Reply ''Report accepted for moderation'' [] ''none'')), w2))
     else if reporter \<notin> set (allowed_pubkeys c) then (Inl (Some 401), w1)
     else if blob_hashes = [] then (Inl (Some 400), w1)
     else bind_st (record_report e c rp ev ''pending'' (report_action_str (report_action_of c)) blob_hashes [] w1) (\<lambda>_ w2.
          act_on_report e c rp report ev blob_hashes w2)))"

section \<open>Who may delete\<close>

lemma status_st_Inr [simp]: "status_st (r, w) = (Inr x, w') \<longleftrightarrow> r = Inr x \<and> w' = w"
  by (cases r) (auto simp: status_st_def err_st_def)

lemma status_st_simps [simp]:
  "status_st (Inl err, w) = (Inl (status_of_error err), w)" "status_st (Inr x, w) = (Inr x, w)"
  by (simp_all add: status_st_def err_st_def)

text \<open>A caller who has presented a signed event for the operation.\<close>

definition presented ::
  "app_env \<Rightarrow> app_config \<Rightarrow> header_map \<Rightarrow> auth_state \<Rightarrow> operation \<Rightarrow> nostr_event \<Rightarrow> u64 \<Rightarrow> bool" where
  "presented e c headers s op ev x \<longleftrightarrow>
     (\<exists>h. hget_str headers ''authorization'' = Some h \<and> parse_auth_header (ae_nostr e) h = Inr ev) \<and>
     event_acceptable c (ae_nostr e) (env_now e) ev x \<and> may_perform c (ae_nostr e) s op (ev_pubkey ev)"

lemma authorized_in_world:
  assumes "in_auth (authorize c (ae_nostr e) (env_now e) headers op) w = (Inr a, w1)"
  shows "presented e c headers (w_auth w) op (az_event a) (az_expiration a)" "az_operation a = op" "w_store w1 = w_store w"
    "w1 = w\<lparr>w_auth := w_auth w1\<rparr>"
proof -
  obtain s1 where a: "authorize c (ae_nostr e) (env_now e) headers op (w_auth w) = (Inr a, s1)" "w1 = w\<lparr>w_auth := s1\<rparr>"
    using assms by (auto simp: in_auth_def split: prod.splits)
  then have "fst (authorize c (ae_nostr e) (env_now e) headers op (w_auth w)) = Inr a" by simp
  then show "presented e c headers (w_auth w) op (az_event a) (az_expiration a)" "az_operation a = op"
    unfolding presented_def authorize_Inr by auto
  show "w_store w1 = w_store w" "w1 = w\<lparr>w_auth := w_auth w1\<rparr>" using a by simp_all
qed

lemma bound_delete:
  assumes "in_auth (bind_hash now a sha256) w = (Inr u, w1)" "az_operation a = Op_Delete"
  shows "validate_delete_auth (az_event a) sha256 = Inr ()" "w_store w1 = w_store w"
    "map_of (destructive_event_replays (w_auth w1)) (ev_id (az_event a)) = Some (az_expiration a)"
  using assms
  by (auto simp: in_auth_def bind_hash_def is_destructive_def consume_single_use_def Let_def hm_simps
      split: sum.splits if_splits prod.splits)

lemma validate_delete_iff:
  "validate_delete_auth ev sha256 = Inr u \<longleftrightarrow>
     find_tag ''t'' ev = Some (Some ''delete'') \<and> Some sha256 \<in> set (tags_of ''x'' ev)"
  by (auto simp: validate_delete_auth_def validate_t_tag_def and_then_Inr_iff Let_def split: if_splits)

section \<open>What a report can change\<close>

definition all_placed :: "app_config \<Rightarrow> store \<Rightarrow> bool" where
  "all_placed c s \<longleftrightarrow> (\<forall>k m. index_get (st_index s) k = Some m \<longrightarrow> placed c k m)"

lemma safe_placed: "blob_safe e c w \<Longrightarrow> all_placed c (w_store w)"
  using located_placed by (fastforce simp: all_placed_def blob_safe_def store_inv_def)

text \<open>Only blobs of the hashes \<open>ks\<close> were touched, and nothing was added.\<close>

definition only_dropped :: "app_config \<Rightarrow> string set \<Rightarrow> store \<Rightarrow> store \<Rightarrow> bool" where
  "only_dropped c ks s s' \<longleftrightarrow>
     (\<forall>k. index_get (st_index s') k = index_get (st_index s) k \<or> k \<in> ks \<and> index_get (st_index s') k = None) \<and>
     (\<forall>p k. blob_path c p k \<longrightarrow> k \<notin> ks \<longrightarrow> fs_data (st_fs s') p = fs_data (st_fs s) p)"

lemma only_dropped_refl [simp]: "only_dropped c ks s s"
  by (simp add: only_dropped_def)

lemma only_dropped_trans: "only_dropped c ks s s1 \<Longrightarrow> only_dropped c ks s1 s2 \<Longrightarrow> only_dropped c ks s s2"
  unfolding only_dropped_def by (metis (no_types, lifting))

lemma dropped_placed: "only_dropped c ks s s' \<Longrightarrow> all_placed c s \<Longrightarrow> all_placed c s'"
  unfolding only_dropped_def all_placed_def by (metis option.distinct(1))

lemma removal_drops:
  assumes "layout_ok c" "all_placed c s" "remove_indexed_blob c e sha removal expected s = (r, s')" "sha \<in> ks"
  shows "only_dropped c ks s s'"
proof -
  note any = remove_indexed_any [OF assms(1) _ assms(3)]
  have "placed c sha m" if "index_get (st_index s) sha = Some m" for m using assms(2) that by (simp add: all_placed_def)
  note any = any [OF this]
  show ?thesis unfolding only_dropped_def using any(1-3) assms(4) by (auto simp: frame_def) metis+
qed

lemma process_reported_spec:
  assumes "process_reported e c hs acc w = (ps, w')" "layout_ok c" "all_placed c (w_store w)"
  shows "\<exists>new. ps = acc @ new \<and> set new \<subseteq> set hs \<and>
     only_dropped c (set hs) (w_store w) (w_store w') \<and>
     (\<forall>k. index_get (st_index (w_store w)) k \<noteq> None \<and> index_get (st_index (w_store w')) k = None \<longleftrightarrow> k \<in> set new)"
  using assms
proof (induction e c hs acc w rule: process_reported.induct)
  case (2 e c sha hs acc w)
  show ?case
  proof (cases "get_file_metadata (w_store w) sha")
    case None
    then show ?thesis using 2 by (fastforce simp: only_dropped_def)
  next
    case (Some m)
    obtain r w1 where r: "in_store (remove_indexed_blob c (ae_storage e) sha (report_removal c) None) w = (r, w1)" by fastforce
    then have rm: "remove_indexed_blob c (ae_storage e) sha (report_removal c) None (w_store w) = (r, w_store w1)"
      by (simp add: in_store_fst)
    have d: "only_dropped c (insert sha (set hs)) (w_store w) (w_store w1)"
      by (rule removal_drops [OF "2.prems"(2,3) rm]) simp
    note pl = dropped_placed [OF d "2.prems"(3)]
    have p: "placed c sha m" if "index_get (st_index (w_store w)) sha = Some m" for m
      using "2.prems"(3) that by (simp add: all_placed_def)
    have any: "k \<noteq> sha \<Longrightarrow> index_get (st_index (w_store w1)) k = index_get (st_index (w_store w)) k"
      "r = Inr True \<Longrightarrow> index_get (st_index (w_store w1)) sha = None"
      "r \<noteq> Inr True \<Longrightarrow> st_index (w_store w1) = st_index (w_store w)" for k
      by (rule remove_indexed_any(2,4,5) [OF "2.prems"(2) _ rm]; use p in blast)+
    have mono: "only_dropped c (insert sha (set hs)) (w_store w1) (w_store w')"
      if "only_dropped c (set hs) (w_store w1) (w_store w')" using that by (auto simp: only_dropped_def)
    let ?acc = "if r = Inr True then acc @ [sha] else acc"
    have there: "index_get (st_index (w_store w)) sha \<noteq> None" using Some by (simp add: get_file_metadata_def)
    have step: "process_reported e c hs ?acc w1 = (ps, w')" using "2.prems"(1) Some r by simp
    obtain new where new: "ps = ?acc @ new" "set new \<subseteq> set hs" "only_dropped c (set hs) (w_store w1) (w_store w')"
      "\<And>k. index_get (st_index (w_store w1)) k \<noteq> None \<and> index_get (st_index (w_store w')) k = None \<longleftrightarrow> k \<in> set new"
      using "2.IH"(2) [OF _ r [symmetric] refl step "2.prems"(2) pl] Some by auto
    show ?thesis
    proof (cases "r = Inr True")
      case True
      have "index_get (st_index (w_store w')) sha = None" using any(2) [OF True] new(3) unfolding only_dropped_def by metis
      then have "index_get (st_index (w_store w)) k \<noteq> None \<and> index_get (st_index (w_store w')) k = None \<longleftrightarrow> k \<in> set (sha # new)" for k
        using any(1) any(2) [OF True] new(4) [of k] there by (cases "k = sha") auto
      then show ?thesis using new(1-3) True only_dropped_trans [OF d mono] by (intro exI [of _ "sha # new"]) auto
    next
      case False
      have ix: "st_index (w_store w1) = st_index (w_store w)" using any(3) False by blast
      show ?thesis using new False only_dropped_trans [OF d mono] unfolding ix by (intro exI [of _ new]) auto
    qed
  qed
qed auto

lemma report_not_blob: "layout_ok c \<Longrightarrow> \<not> blob_path c (report_path c ev) k"
  by (auto simp: layout_ok_def report_path_def blob_path_def root_of_def storage_layout_new_def split: blob_origin.splits)

lemma fs_write_effect:
  assumes "fs_write h p d f = (r, f')"
  shows "only_file p f f'" "r = Inr u \<Longrightarrow> fs_data f' p = Some d"
proof -
  obtain r1 f1 where c: "fs_create h p f = (r1, f1)" by fastforce
  note only = create_only [OF c]
  have both: "only_file p f f' \<and> (r = Inr u \<longrightarrow> fs_data f' p = Some d)"
  proof (cases r1)
    case (Inl err)
    then show ?thesis using assms c only by (auto simp: fs_write_def)
  next
    case (Inr v)
    then have a: "fs_append h p d f1 = (r, f')" using assms c by (simp add: fs_write_def)
    have "fs_data f1 p = Some []"
      using c Inr by (auto simp: fs_create_def hm_simps split: option.splits if_splits)
    then show ?thesis using only_file_trans [OF only append_only [OF a]] append_file_cases [OF a]
      by (auto simp: hm_simps)
  qed
  then show "only_file p f f'" "r = Inr u \<Longrightarrow> fs_data f' p = Some d" by auto
qed

lemma record_effect:
  assumes "record_report e c rp ev st action requested processed w = (r, w')" "layout_ok c"
  shows "only_dropped c {} (w_store w) (w_store w')" "w_auth w' = w_auth w"
    "r = Inr u \<Longrightarrow> fs_data (st_fs (w_store w')) (report_path c ev) =
       Some (rp_record rp st (feature_mode_str (feature_report_enabled c)) action requested processed (env_now e) ev)"
    "r \<noteq> Inl None"
proof -
  obtain r1 f' where f: "fs_write (env_host e) (report_path c ev)
      (rp_record rp st (feature_mode_str (feature_report_enabled c)) action requested processed (env_now e) ev)
      (st_fs (w_store w)) = (r1, f')" by fastforce
  then have w': "w' = w\<lparr>w_store := (w_store w)\<lparr>st_fs := f'\<rparr>\<rparr>" "r = (case r1 of Inl _ \<Rightarrow> Inl (Some 500) | Inr u \<Rightarrow> Inr u)"
    using assms(1) by (cases r1; auto simp: record_report_def in_files_def on_fs_def err_st_def)+
  have "fs_data f' p = fs_data (st_fs (w_store w)) p" if "blob_path c p k" for p k
    using fs_write_effect(1) [OF f] report_not_blob [OF assms(2)] that unfolding only_file_def by metis
  then show "only_dropped c {} (w_store w) (w_store w')" using w' by (auto simp: only_dropped_def)
  show "w_auth w' = w_auth w" using w' by simp
  show "fs_data (st_fs (w_store w')) (report_path c ev) =
       Some (rp_record rp st (feature_mode_str (feature_report_enabled c)) action requested processed (env_now e) ev)" if "r = Inr u"
    using fs_write_effect(2) [OF f] w' that by (cases r1) auto
  show "r \<noteq> Inl None" using w' by (cases r1) auto
qed

lemma dropped_mono: "only_dropped c {} s s' \<Longrightarrow> only_dropped c ks s s'"
  by (auto simp: only_dropped_def)

lemma dropped_same_store: "only_dropped c ks s s' \<Longrightarrow> s = s0 \<Longrightarrow> only_dropped c ks s0 s'"
  by simp

lemma nonce_store: "take_report_nonce e c i w = (r, w') \<Longrightarrow> w_store w' = w_store w"
  by (auto simp: take_report_nonce_def err_st_def in_auth_def Let_def split: prod.splits sum.splits)

section \<open>Properties\<close>

lemma delete_blob_cases:
  assumes "delete_blob e c filename headers w = (r, w')" "sha = hd (split_on (CHR ''.'') filename)"
  obtains (early) code where "r = Inl code" "w_store w' = w_store w"
  | (kept) w2 err where "r = Inl 503" "w_store w2 = w_store w"
      "in_store (remove_indexed_blob c (ae_storage e) sha Requested None) w2 = (Inl err, w')"
  | (removed) au w1 w2 u b where "r = Inr no_content" "w_store w2 = w_store w"
      "in_auth (authorize c (ae_nostr e) (env_now e) headers Op_Delete) w = (Inr au, w1)"
      "in_auth (bind_hash (env_now e) au sha) w1 = (Inr u, w2)"
      "in_store (remove_indexed_blob c (ae_storage e) sha Requested None) w2 = (Inr b, w')"
proof (cases "is_hash_like sha")
  case False
  then show thesis using assms by (intro early) (auto simp: delete_blob_def Let_def)
next
  case True
  obtain ra w1 where a: "in_auth (authorize c (ae_nostr e) (env_now e) headers Op_Delete) w = (ra, w1)" by fastforce
  have s1: "w_store w1 = w_store w" using a by (rule in_auth_store)
  note start = assms(1) [unfolded delete_blob_def Let_def, folded assms(2), unfolded a]
  show thesis
  proof (cases ra)
    case (Inl err)
    then show thesis using start True s1 early by auto
  next
    case au: (Inr au)
    obtain rb w2 where b: "in_auth (bind_hash (env_now e) au sha) w1 = (rb, w2)" by fastforce
    have s2: "w_store w2 = w_store w" using in_auth_store [OF b] s1 by simp
    obtain rr w3 where rm: "in_store (remove_indexed_blob c (ae_storage e) sha Requested None) w2 = (rr, w3)" by fastforce
    show thesis
    proof (cases rb)
      case (Inl err)
      then show thesis using start True au b s2 early by auto
    next
      case (Inr u)
      then show thesis using start True au a b s2 rm kept [OF _ s2] removed [OF _ s2] by (cases rr) (auto simp: err_st_def)
    qed
  qed
qed

text \<open>C28: Deletion does what it was authorized for and nothing else: a 204 means that a whitelisted key
  signed a current delete event naming exactly this hash, which is consumed for its lifetime, that the
  catalogue has lost this entry and no other, and that all other blobs are where they were; any answer
  but 204 leaves the catalogue alone, and any but 503 the storage altogether.\<close>
theorem delete_blob_exact:
  assumes "layout_ok c" and "blob_safe e c w" and "delete_blob e c filename headers w = (r, w')"
  shows "case r of
      Inr resp \<Rightarrow>
        (\<exists>sha ev x. sha = hd (split_on (CHR ''.'') filename) \<and> status resp = 204 \<and> presented e c headers (w_auth w) Op_Delete ev x \<and>
           ev_pubkey ev \<in> set (allowed_pubkeys c) \<and> find_tag ''t'' ev = Some (Some ''delete'') \<and>
           Some sha \<in> set (tags_of ''x'' ev) \<and>
           map_of (destructive_event_replays (w_auth w')) (ev_id ev) = Some x \<and>
           blob_safe e c w' \<and> frame c sha (w_store w) (w_store w') \<and>
           index_get (st_index (w_store w')) = (index_get (st_index (w_store w)))(sha := None))
    | Inl code \<Rightarrow> st_index (w_store w') = st_index (w_store w) \<and> (code = 503 \<or> w_store w' = w_store w)"
proof -
  define sha where "sha = hd (split_on (CHR ''.'') filename)"
  have inv: "store_inv c (integrity (ae_sha e)) (w_store w)" using assms(2) by (simp add: blob_safe_def)
  have pl: "index_get (st_index (w_store w)) sha = Some m \<Longrightarrow> placed c sha m" for m
    using safe_placed [OF assms(2)] by (simp add: all_placed_def)
  from assms(3) sha_def show ?thesis
  proof (cases rule: delete_blob_cases)
    case (early code)
    then show ?thesis by simp
  next
    case (kept w2 err)
    then have "remove_indexed_blob c (ae_storage e) sha Requested None (w_store w) = (Inl err, w_store w')"
      by (simp add: in_store_fst)
    from remove_indexed_any(5) [OF assms(1) _ this] pl have "st_index (w_store w') = st_index (w_store w)" by auto
    then show ?thesis using kept(1) by simp
  next
    case (removed au w1 w2 u b)
    note p = authorized_in_world [OF removed(3)]
    note bd = bound_delete [OF removed(4) p(2)]
    have rm: "remove_indexed_blob c (ae_storage e) sha Requested None (w_store w) = (Inr b, w_store w')"
      and w': "w' = w2\<lparr>w_store := w_store w'\<rparr>"
      using removed(2,5) by (simp_all add: in_store_fst)
    note sp = remove_indexed_spec [OF assms(1) inv rm]
    have "\<not> stale_candidate m None" for m by (simp add: stale_candidate_def)
    then have get: "index_get (st_index (w_store w')) = (index_get (st_index (w_store w)))(sha := None)"
      using sp(3,4) by (cases "index_get (st_index (w_store w)) sha") (auto simp: fun_eq_iff)
    have "w_auth w' = w_auth w2" by (subst w') simp
    then show ?thesis
      using removed(1) p(1) bd(1,3) sp(1,2) get
      by (auto simp: sha_def [symmetric] no_content_def presented_def may_perform_def validate_delete_iff blob_safe_def
          intro!: exI [of _ "az_event au"] exI [of _ "az_expiration au"])
  qed
qed

definition admin_event :: "string \<Rightarrow> nostr_event" where
  "admin_event verb = \<lparr>ev_id = ''e'', ev_pubkey = ''alice'', ev_created_at = 50, ev_kind = 24242,
     ev_tags = [(''t'', Some verb), (''x'', Some hash_a), (''expiration'', Some (show_u64 200))], ev_content = []\<rparr>"

definition admin_env :: "string \<Rightarrow> app_env" where
  "admin_env verb = sample_env\<lparr>ae_nostr := sample_nostr\<lparr>b64_url_safe := \<lambda>_. Inr [], from_utf8 := \<lambda>_. Inr [],
     event_of_json := \<lambda>_. Inr (admin_event verb)\<rparr>, ae_hex_key := Some\<rparr>"

lemma admin_env_fields [simp]:
  "ae_storage (admin_env verb) = calm_env" "host calm_env = calm_host" "now_secs calm_host = 100"
  "ae_sha (admin_env verb) = (\<lambda>_. hash_a)" "ae_hex_key (admin_env verb) = Some" "verify_sig (ae_nostr (admin_env verb)) = (\<lambda>_. None)"
  by (simp_all add: admin_env_def sample_env_def calm_env_def calm_host_def sample_nostr_def)

lemma admin_authorized:
  assumes "op = Op_Delete \<or> op = Op_List"
  shows "authorize sample_config (ae_nostr (admin_env verb)) 100 [(''authorization'', ''Nostr x'')] op st =
     (Inr \<lparr>az_event = admin_event verb, az_operation = op, az_expiration = 200\<rparr>, st)"
  using assms
  by (auto simp: authorize_def auth_mode_of_def sample_config_def admin_env_def hget_str_def hget_def
      parse_auth_header_def or_else_def map_err_def verify_event_with_policy_def verify_event_def expiration_tag_def
      find_tag_def admin_event_def sample_nostr_def saturating_sub_def validate_server_tags_def tags_of_def
      validate_event_kind_def check_pubkey_authorization_def to_str_def
      visible_ascii_def byte_of_def starts_with_def)

lemma safe_sample: "blob_safe (admin_env verb) sample_config (empty_world store_a)"
  using store_a_inv [of "integrity (\<lambda>_. hash_a)"] by (simp add: blob_safe_def empty_world_def integrity_def md_a_def)

theorem delete_blob_exact_witness:
  "\<exists>w'. delete_blob (admin_env ''delete'') sample_config hash_a [(''authorization'', ''Nostr x'')] (empty_world store_a) =
        (Inr no_content, w') \<and> index_get (st_index (w_store w')) hash_a = None"
proof -
  let ?e = "admin_env ''delete''" and ?w = "empty_world store_a"
  let ?a = "\<lparr>az_event = admin_event ''delete'', az_operation = Op_Delete, az_expiration = 200\<rparr>"
  have name: "split_on (CHR ''.'') hash_a = [hash_a]" "is_hash_like hash_a"
    by (simp add: hash_a_def) (simp add: is_hash_like_def hash_a_def is_ascii_hexdigit_def is_lower_hex_def is_ascii_digit_def byte_of_def list_all_iff)
  have au: "in_auth (authorize sample_config (ae_nostr ?e) 100 [(''authorization'', ''Nostr x'')] Op_Delete) ?w = (Inr ?a, ?w)"
    by (simp add: in_auth_def admin_authorized)
  have v: "validate_delete_auth (admin_event ''delete'') hash_a = Inr ()"
    unfolding validate_delete_iff by (simp add: find_tag_def tags_of_def admin_event_def)
  obtain w2 where b: "in_auth (bind_hash 100 ?a hash_a) ?w = (Inr (), w2)" "w_store w2 = store_a"
    by (simp add: in_auth_def bind_hash_def v is_destructive_def consume_single_use_def empty_world_def Let_def)
  obtain s' where "remove_indexed_blob sample_config calm_env hash_a Requested None store_a = (Inr True, s')"
    using removed_a by blast
  then have "in_store (remove_indexed_blob sample_config calm_env hash_a Requested None) w2 = (Inr True, w2\<lparr>w_store := s'\<rparr>)"
    using b(2) by (simp add: in_store_def)
  then have d: "delete_blob ?e sample_config hash_a [(''authorization'', ''Nostr x'')] ?w = (Inr no_content, w2\<lparr>w_store := s'\<rparr>)"
    by (simp add: delete_blob_def name au b(1) err_st_def)
  from delete_blob_exact [OF layout_sample safe_sample d] d name(1) show ?thesis by auto
qed

lemma act_on_report_spec:
  assumes "layout_ok c" "all_placed c (w_store w)" "act_on_report e c rp report ev hs w = (r, w')"
  shows "only_dropped c (set hs) (w_store w) (w_store w')"
    "r = Inr (json_reply 200 (Report_Reply msg ps action)) \<Longrightarrow>
       k \<in> set ps \<longleftrightarrow> index_get (st_index (w_store w)) k \<noteq> None \<and> index_get (st_index (w_store w')) k = None"
    "r = Inr (json_reply 200 (Report_Reply msg ps action)) \<Longrightarrow>
       fs_data (st_fs (w_store w')) (report_path c ev) =
         Some (rp_record rp ''processed'' (feature_mode_str (feature_report_enabled c))
                 (report_action_str (report_action_of c)) hs ps (env_now e) ev)"
proof -
  obtain processed w3 where q: "process_reported e c hs [] w = (processed, w3)" by fastforce
  let ?st = "if processed = [] then ''noop'' else ''processed''"
  obtain r4 w4 where p4: "record_report e c rp ev ?st (report_action_str (report_action_of c)) hs processed w3 = (r4, w4)"
    by fastforce
  note f4 = record_effect [OF p4 assms(1)] and proc = process_reported_spec [OF q assms(1,2)]
  have drop: "only_dropped c (set hs) (w_store w) (w_store w4)"
    using only_dropped_trans [OF _ dropped_mono [OF f4(1)]] proc by simp
  have ix4: "index_get (st_index (w_store w4)) = index_get (st_index (w_store w3))"
    using f4(1) by (auto simp: only_dropped_def)
  have out: "preview_ok (re_content report) \<Longrightarrow> w' = w4"
    "preview_ok (re_content report) \<Longrightarrow> r = (case r4 of Inl err \<Rightarrow> Inl err | Inr _ \<Rightarrow> Inr (conclude_report c processed))"
    "\<not> preview_ok (re_content report) \<Longrightarrow> r = Inl None \<and> w' = w"
    using assms(3) q p4 by (cases r4; auto simp: act_on_report_def)+
  show "only_dropped c (set hs) (w_store w) (w_store w')"
    using drop out(1,3) dropped_mono by (cases "preview_ok (re_content report)") auto
  assume ok: "r = Inr (json_reply 200 (Report_Reply msg ps action))"
  then have pv: "preview_ok (re_content report)" using out(3) by auto
  have "r4 = Inr ()" "ps = processed" "processed \<noteq> []"
    using ok out(2) [OF pv] by (cases r4; auto simp: conclude_report_def json_reply_def split: if_splits)+
  then show "k \<in> set ps \<longleftrightarrow> index_get (st_index (w_store w)) k \<noteq> None \<and> index_get (st_index (w_store w')) k = None"
    "fs_data (st_fs (w_store w')) (report_path c ev) =
       Some (rp_record rp ''processed'' (feature_mode_str (feature_report_enabled c))
               (report_action_str (report_action_of c)) hs ps (env_now e) ev)"
    using proc ix4 f4(3) out(1) [OF pv] by auto
qed

lemma report_blob_cases:
  assumes "report_blob e c rp report w = (r, w')"
  obtains (early) "w_store w' = w_store w" "\<And>x. r \<noteq> Inr (json_reply 200 x)"
  | (recorded) w1 ev st action r2 where "w_store w1 = w_store w"
      "record_report e c rp ev st action (extract_blob_hashes (re_tags report)) [] w1 = (r2, w')" "\<And>x. r \<noteq> Inr (json_reply 200 x)"
  | (acted) pk ev w1 w2 where "is_enabled (feature_report_enabled c)" "feature_report_enabled c \<noteq> Public"
      "ae_hex_key e (re_pubkey report) = Some pk \<and> pk \<in> set (allowed_pubkeys c)"
      "rp_event rp report = Some ev \<and> verify_sig (ae_nostr e) ev = None" "w_store w1 = w_store w"
      "record_report e c rp ev ''pending'' (report_action_str (report_action_of c))
         (extract_blob_hashes (re_tags report)) [] w1 = (Inr (), w2)"
      "act_on_report e c rp report ev (extract_blob_hashes (re_tags report)) w2 = (r, w')"
proof (cases "check_report e c rp report")
  case (Inl err)
  then show thesis using assms by (intro early) (auto simp: report_blob_def pure_st_def)
next
  case (Inr re)
  obtain pk ev where re: "re = (pk, ev)" by fastforce
  have ok: "is_enabled (feature_report_enabled c)" "ae_hex_key e (re_pubkey report) = Some pk" "rp_event rp report = Some ev"
    "verify_sig (ae_nostr e) ev = None"
    using Inr re by (auto simp: check_report_def split: if_splits option.splits)
  obtain rn w1 where n: "take_report_nonce e c (re_id report) w = (rn, w1)" by fastforce
  note s1 = nonce_store [OF n]
  note start = assms [unfolded report_blob_def Inr re pure_st_def bind_st_simps prod.case n Let_def]
  show thesis
  proof (cases rn)
    case (Inl err)
    then show thesis using start s1 by (intro early) auto
  next
    case nonce: (Inr u)
    note start = start [unfolded nonce bind_st_simps]
    let ?rec = "\<lambda>st action. record_report e c rp ev st action (extract_blob_hashes (re_tags report)) [] w1"
    obtain rq wq rp' wp where q: "?rec ''noop'' ''none'' = (rq, wq)"
      and p: "?rec ''pending'' (report_action_str (report_action_of c)) = (rp', wp)" by fastforce
    show thesis
    proof (cases "feature_report_enabled c = Public")
      case True
      then have "w' = wq" "\<And>x. r \<noteq> Inr (json_reply 200 x)" using start q by (cases rq; auto simp: json_reply_def)+
      then show thesis using recorded [OF s1] q by blast
    next
      case False
      show thesis
      proof (cases "pk \<notin> set (allowed_pubkeys c) \<or> extract_blob_hashes (re_tags report) = []")
        case True
        then show thesis using start False s1 by (intro early) (auto split: if_splits)
      next
        case act: False
        then show thesis using start False p ok recorded [OF s1] acted [OF ok(1) False _ _ s1] by (cases rp') auto
      qed
    qed
  qed
qed

text \<open>What an \<open>x\<close> tag of a report names.\<close>

definition reported_hashes :: "report_event \<Rightarrow> string set" where
  "reported_hashes report = {k. \<exists>rest. [''x'', k] @ rest \<in> set (re_tags report)}"

lemma extract_reported: "set (extract_blob_hashes (re_tags report)) \<subseteq> reported_hashes report"
  by (auto simp: extract_blob_hashes_def reported_hashes_def split: list.splits if_splits)

lemma dropped_subset: "only_dropped c ks s s' \<Longrightarrow> ks \<subseteq> ks' \<Longrightarrow> only_dropped c ks' s s'"
  unfolding only_dropped_def by blast

text \<open>C29: A report removes nothing it must not: whatever is sent, only blobs the report names in an \<open>x\<close> tag
  can leave the catalogue or have a file changed or moved; a report that changes the catalogue or any
  blob's file at all is one that may act: reports are enabled and not public, its event is signed, and its
  author is on the allowlist (a member of the web of trust or a service key is not enough, whatever the mode,
  although \<open>docs/guide/how-it-works.md\<close> lets the one report in mode \<open>wot\<close> and the other in mode \<open>dvm\<close>);
  nothing is ever added; and when the answer says which blobs were processed, these are exactly the ones
  that left, and the audit record says the same.\<close>
theorem report_blob_sound:
  assumes "layout_ok c" and "blob_safe e c w" and "report_blob e c rp report w = (r, w')"
  shows "only_dropped c (reported_hashes report) (w_store w) (w_store w') \<and>
    (only_dropped c {} (w_store w) (w_store w') \<or>
       (feature_report_enabled c = Wot \<or> feature_report_enabled c = Dvm) \<and>
       (\<exists>pk ev. ae_hex_key e (re_pubkey report) = Some pk \<and> pk \<in> set (allowed_pubkeys c) \<and>
          rp_event rp report = Some ev \<and> verify_sig (ae_nostr e) ev = None)) \<and>
    (\<forall>msg processed action. r = Inr (json_reply 200 (Report_Reply msg processed action)) \<longrightarrow>
       (\<forall>k. k \<in> set processed \<longleftrightarrow>
          index_get (st_index (w_store w)) k \<noteq> None \<and> index_get (st_index (w_store w')) k = None) \<and>
       (\<exists>ev requested. rp_event rp report = Some ev \<and> set requested \<subseteq> reported_hashes report \<and>
          fs_data (st_fs (w_store w')) (report_path c ev) =
            Some (rp_record rp ''processed'' (feature_mode_str (feature_report_enabled c))
                    (report_action_str (report_action_of c)) requested processed (env_now e) ev)))"
proof -
  let ?hs = "extract_blob_hashes (re_tags report)"
  have quiet: ?thesis if "only_dropped c {} (w_store w) (w_store w')"
      "\<And>msg processed action. r \<noteq> Inr (json_reply 200 (Report_Reply msg processed action))"
    using dropped_mono [OF that(1)] that by auto
  have same: "only_dropped c {} (w_store w) (w_store w')" if "w_store w' = w_store w" using that by simp
  from assms(3) show ?thesis
  proof (cases rule: report_blob_cases)
    case early
    then show ?thesis by (intro quiet same) auto
  next
    case (recorded w1 ev st action r2)
    then show ?thesis using record_effect(1) [OF recorded(2) assms(1)] by (intro quiet) simp_all
  next
    case (acted pk ev w1 w2)
    have d2: "only_dropped c {} (w_store w) (w_store w2)" using record_effect(1) [OF acted(6) assms(1)] acted(5) by simp
    have ix2: "index_get (st_index (w_store w2)) = index_get (st_index (w_store w))" using d2 by (auto simp: only_dropped_def)
    note a = act_on_report_spec [OF assms(1) dropped_placed [OF d2 safe_placed [OF assms(2)]] acted(7)]
    have "only_dropped c (set ?hs) (w_store w) (w_store w')"
      using only_dropped_trans [OF dropped_mono [OF d2] a(1)] by simp
    then have "only_dropped c (reported_hashes report) (w_store w) (w_store w')" using extract_reported by (rule dropped_subset)
    moreover have "feature_report_enabled c = Wot \<or> feature_report_enabled c = Dvm"
      using acted(1,2) by (cases "feature_report_enabled c") (auto simp: is_enabled_def)
    moreover have "\<exists>pk ev. ae_hex_key e (re_pubkey report) = Some pk \<and> pk \<in> set (allowed_pubkeys c) \<and>
          rp_event rp report = Some ev \<and> verify_sig (ae_nostr e) ev = None" using acted(3,4) by blast
    ultimately show ?thesis using acted(4) a(2,3) extract_reported unfolding ix2 by blast
  qed
qed

definition sample_report :: report_event where
  "sample_report = \<lparr>re_id = ''r'', re_pubkey = ''alice'', re_created_at = 50, re_kind = 1984,
     re_tags = [[''x'', hash_a, ''spam'']], re_content = ''bad'', re_sig = []\<rparr>"

definition sample_report_env :: report_env where
  "sample_report_env = \<lparr>rp_event = \<lambda>_. Some (admin_event ''report''), rp_record = \<lambda>_ _ _ _ _ _ _. [1]\<rparr>"

text \<open>A report by a whitelisted key, where reports delete: the blob it names leaves the catalogue.\<close>

definition report_config :: app_config where
  "report_config = sample_config\<lparr>feature_report_enabled := Wot, report_action_of := Delete\<rparr>"

definition report_store :: store where
  "report_store = store_a\<lparr>st_fs := (st_fs store_a)\<lparr>fs_dirs := [[''srv'', ''temp''], [''srv'', ''reports'']]\<rparr>\<rparr>"

lemma report_recorded:
  assumes "fs_dirs (st_fs (w_store w)) = fs_dirs (st_fs report_store)"
  shows "\<exists>f. record_report (admin_env ''report'') report_config sample_report_env (admin_event ''report'') st action requested processed w =
      (Inr (), w\<lparr>w_store := (w_store w)\<lparr>st_fs := f\<rparr>\<rparr>) \<and> fs_dirs f = fs_dirs (st_fs report_store)"
proof -
  let ?p = "report_path report_config (admin_event ''report'')" and ?f = "st_fs (w_store w)"
  have p: "?p \<notin> set (fs_dirs ?f)" "butlast ?p \<in> set (fs_dirs ?f)"
    using assms by (simp_all add: report_path_def report_config_def sample_config_def storage_layout_new_def report_store_def)
  have calm: "io_fault calm_host op q = None" for op q by (simp add: calm_host_def)
  let ?d = "rp_record sample_report_env st (feature_mode_str (feature_report_enabled report_config)) action requested
      processed (env_now (admin_env ''report'')) (admin_event ''report'')"
  obtain f where f: "fs_write calm_host ?p ?d ?f = (Inr (), f)" "fs_dirs f = fs_dirs ?f"
    using p by (simp add: fs_write_def fs_create_def fs_append_def calm)
  have host: "env_host (admin_env ''report'') = calm_host" by simp
  have "record_report (admin_env ''report'') report_config sample_report_env (admin_event ''report'') st action requested processed w =
      (Inr (), w\<lparr>w_store := (w_store w)\<lparr>st_fs := f\<rparr>\<rparr>)"
    unfolding record_report_def in_files_def on_fs_def host f(1) [unfolded host] by simp
  moreover have "fs_dirs f = fs_dirs (st_fs report_store)" using f(2) assms by simp
  ultimately show ?thesis by (intro exI [of _ f] conjI)
qed

lemma report_removed:
  assumes "st_index (w_store w) = st_index store_a" "fs_dirs (st_fs (w_store w)) = fs_dirs (st_fs report_store)"
    "st_s3 (w_store w) = None"
  shows "\<exists>s'. in_store (remove_indexed_blob report_config calm_env hash_a Reported None) w = (Inr True, w\<lparr>w_store := s'\<rparr>) \<and>
      fs_dirs (st_fs s') = fs_dirs (st_fs report_store)"
proof -
  have get: "index_get (st_index (w_store w)) hash_a = Some md_a" using assms(1) by (simp add: store_a_def index_get_a)
  have "removable calm_env (w_store w) md_a"
    using assms(2) by (simp add: removable_def calm_env_def calm_host_def md_a_def report_store_def path_a_def)
  then obtain s1 where s1: "remove_physical_file calm_env md_a (w_store w) = (Inr (), s1)" using remove_physical_ok by blast
  note host = remove_physical_host [OF s1] and eff = remove_physical_effect [OF s1]
  have "index_get (st_index s1) hash_a = Some md_a" using get eff(1) by simp
  note rm = remove_if_matching [OF this]
  have "st_s3 s1 = None" using host assms(3) by (simp add: same_host_def)
  then have "remove_indexed_blob report_config calm_env hash_a Reported None (w_store w) =
      (Inr True, mark_changes_pending (s1\<lparr>st_index := fst (entries_remove hash_a (st_index s1))\<rparr>))"
    unfolding remove_indexed_alt [OF get, of None, simplified stale_candidate_def, simplified]
    by (simp add: dispose_def s1 sweeps_backend_def sweep_backend_copies_def rm)
  then show ?thesis using host assms(2)
    by (intro exI [of _ "mark_changes_pending (s1\<lparr>st_index := fst (entries_remove hash_a (st_index s1))\<rparr>)"])
      (simp add: in_store_def mark_changes_pending_def same_host_def)
qed

theorem report_blob_sound_witness:
  "\<exists>r w'. report_blob (admin_env ''report'') report_config sample_report_env sample_report (empty_world report_store) = (r, w') \<and>
     index_get (st_index report_store) hash_a \<noteq> None \<and> index_get (st_index (w_store w')) hash_a = None"
proof -
  let ?e = "admin_env ''report''" and ?c = report_config and ?w = "empty_world report_store"
  have start: "st_index report_store = st_index store_a" "st_s3 report_store = None" "fs_files (st_fs report_store) = fs_files (st_fs store_a)"
    by (simp_all add: report_store_def store_a_def)
  have safe: "blob_safe ?e sample_config ?w"
    using store_inv_files [of sample_config "integrity (\<lambda>_. hash_a)" store_a report_store] safe_sample [of "''report''"] start
    by (simp add: blob_safe_def empty_world_def)
  have storage: "storage ?c = storage sample_config" by (simp add: report_config_def)
  have lay: "layout_ok ?c" using layout_sample storage by (simp add: layout_ok_def)
  have "root_of ?c = root_of sample_config" by (rule ext) (simp add: root_of_def storage split: blob_origin.split)
  then have "located ?c = located sample_config" by (intro ext) (simp add: located_def split: file_location.split)
  then have safe: "blob_safe ?e ?c ?w" using safe by (simp add: blob_safe_def store_inv_def)
  have x: "is_hash_like hash_a"
    by (simp add: is_hash_like_def hash_a_def is_ascii_hexdigit_def is_lower_hex_def is_ascii_digit_def byte_of_def list_all_iff)
  have chk: "check_report ?e ?c sample_report_env sample_report = Inr (''alice'', admin_event ''report'')"
    by (simp add: check_report_def report_config_def is_enabled_def sample_report_def sample_report_env_def)
      (simp add: sample_config_def saturating_add_def)
  obtain w1 where nonce: "take_report_nonce ?e ?c (re_id sample_report) ?w = (Inr (), w1)" "w_store w1 = report_store"
    by (auto simp: take_report_nonce_def in_auth_def consume_single_use_def empty_world_def Let_def)
  have hs: "extract_blob_hashes (re_tags sample_report) = [hash_a]"
    using x by (simp add: extract_blob_hashes_def sample_report_def)
  obtain f1 where rec1: "record_report ?e ?c sample_report_env (admin_event ''report'') ''pending''
      (report_action_str (report_action_of ?c)) [hash_a] [] w1 = (Inr (), w1\<lparr>w_store := report_store\<lparr>st_fs := f1\<rparr>\<rparr>)"
    "fs_dirs f1 = fs_dirs (st_fs report_store)"
    using report_recorded [of w1] nonce(2) by metis
  let ?w2 = "w1\<lparr>w_store := report_store\<lparr>st_fs := f1\<rparr>\<rparr>"
  obtain s3 where rm: "in_store (remove_indexed_blob ?c calm_env hash_a Reported None) ?w2 = (Inr True, ?w2\<lparr>w_store := s3\<rparr>)"
    "fs_dirs (st_fs s3) = fs_dirs (st_fs report_store)"
    using report_removed [of ?w2] start rec1(2) by auto
  have pr: "process_reported ?e ?c [hash_a] [] ?w2 = ([hash_a], ?w2\<lparr>w_store := s3\<rparr>)"
    using rm(1) start(1) by (simp add: get_file_metadata_def store_a_def index_get_a report_removal_def report_config_def)
  obtain f4 where rec2: "record_report ?e ?c sample_report_env (admin_event ''report'') ''processed''
      (report_action_str (report_action_of ?c)) [hash_a] [hash_a] (?w2\<lparr>w_store := s3\<rparr>) =
      (Inr (), ?w2\<lparr>w_store := s3\<lparr>st_fs := f4\<rparr>\<rparr>)"
    using report_recorded [of "?w2\<lparr>w_store := s3\<rparr>", OF _, of "''processed''" _ "[hash_a]" "[hash_a]"] rm(2) by auto
  have "act_on_report ?e ?c sample_report_env sample_report (admin_event ''report'') [hash_a] ?w2 =
      (Inr (conclude_report ?c [hash_a]), ?w2\<lparr>w_store := s3\<lparr>st_fs := f4\<rparr>\<rparr>)"
    using pr rec2 by (simp add: act_on_report_def preview_ok_def sample_report_def)
  then have run: "report_blob ?e ?c sample_report_env sample_report ?w =
      (Inr (conclude_report ?c [hash_a]), ?w2\<lparr>w_store := s3\<lparr>st_fs := f4\<rparr>\<rparr>)"
    using rec1(1) by (simp add: report_blob_def chk pure_st_def nonce(1) hs)
      (simp add: report_config_def sample_config_def)
  have reply: "\<exists>msg action. conclude_report ?c [hash_a] = json_reply 200 (Report_Reply msg [hash_a] action)"
    unfolding conclude_report_def by (simp only: list.distinct if_False) blast
  then obtain msg action where reply: "conclude_report ?c [hash_a] = json_reply 200 (Report_Reply msg [hash_a] action)" by blast
  let ?w' = "?w2\<lparr>w_store := s3\<lparr>st_fs := f4\<rparr>\<rparr>"
  have "\<forall>k. k \<in> set [hash_a] \<longleftrightarrow> index_get (st_index (w_store ?w)) k \<noteq> None \<and> index_get (st_index (w_store ?w')) k = None"
    using report_blob_sound [OF lay safe run [unfolded reply], THEN conjunct2, THEN conjunct2, rule_format, OF refl] by (rule conjunct1)
  from this [rule_format, of hash_a] have "index_get (st_index (w_store ?w')) hash_a = None" by simp
  moreover have "index_get (st_index report_store) hash_a \<noteq> None" using start(1) by (simp add: store_a_def index_get_a)
  ultimately show ?thesis using run by blast
qed

lemma page_loop_length:
  "length acc < limit \<Longrightarrow> length (page_loop m P cursor limit os after acc) \<le> limit"
  by (induction m P cursor limit os after acc rule: page_loop.induct) (auto simp: Let_def split: option.splits)

lemma page_length: "0 < limit \<Longrightarrow> length (index_page since til author cursor limit e) \<le> limit"
  by (simp add: index_page_def Let_def page_loop_length)

text \<open>C30: Listing is the catalogue, page by page, for the operator only: an answer is given to a whitelisted
  key with a current, signed list event and to nobody else (\<open>CONTEXT.md\<close>, which documents \<open>GET /list\<close> as
  public, does not describe this code), at most 1000 entries at a time; asked for a key that is not the
  operator's it is empty; otherwise there is one newest-first list of exactly the blobs of the time window, the first page is its beginning and the page after any of its
  blobs (whose hash may be spelled in either case) is what follows that blob.\<close>
theorem list_blobs_exact:
  assumes "blob_safe e c w" and "list_blobs e c q headers uri_path w = (Inr page, w')"
  shows "w_store w' = w_store w \<and> length page \<le> 1000 \<and>
    (\<exists>ev x. presented e c headers (w_auth w) Op_List ev x \<and> ev_pubkey ev \<in> set (allowed_pubkeys c) \<and>
       find_tag ''t'' ev = Some (Some ''list'')) \<and>
    (\<exists>requested. parse_path_pubkey e uri_path = Inr requested \<and>
      (case requested of
         Some pk \<Rightarrow> pk \<notin> set (allowed_pubkeys c) \<longrightarrow> page = []
       | None \<Rightarrow> True) \<and>
      ((case requested of Some pk \<Rightarrow> pk \<in> set (allowed_pubkeys c) | None \<Rightarrow> True) \<longrightarrow>
        (\<exists>M. distinct M \<and> sorted (map (\<lambda>(k, v). key_of k v) M) \<and>
          set M = {(k, m). index_get (st_index (w_store w)) k = Some m \<and>
             (case lq_since q of None \<Rightarrow> 0 | Some t \<Rightarrow> t) \<le> md_created_at m \<and>
             md_created_at m \<le> (case lq_until q of None \<Rightarrow> u64_max | Some t \<Rightarrow> t)} \<and>
          (lq_cursor q = None \<longrightarrow>
             page = map (\<lambda>(k, m). create_blob_descriptor c k m) (take (list_limit q) M)) \<and>
          (\<forall>i cursor. i < length M \<and> lq_cursor q = Some cursor \<and> to_lowercase cursor = fst (M ! i) \<longrightarrow>
             page = map (\<lambda>(k, m). create_blob_descriptor c k m) (take (list_limit q) (drop (Suc i) M))))))"
proof -
  obtain a w1 requested cursor where a: "in_auth (authorize c (ae_nostr e) (env_now e) headers Op_List) w = (Inr a, w1)"
    and b: "bind_without_hash a = Inr ()" and p: "parse_path_pubkey e uri_path = Inr requested"
    and cu: "list_cursor (lq_cursor q) = Inr cursor" and w': "w' = w1"
    and page: "page = (if case requested of None \<Rightarrow> True | Some pk \<Rightarrow> pk \<in> set (allowed_pubkeys c)
                       then list_page c q cursor w1 else [])"
    using assms(2)
    by (auto simp: list_blobs_def Let_def bind_st_Inr_iff pure_st_def status_st_def err_st_def split: if_splits prod.splits sum.splits)
  note au = authorized_in_world [OF a]
  have t: "find_tag ''t'' (az_event a) = Some (Some ''list'')"
    using b au(2) by (auto simp: bind_without_hash_def validate_t_tag_def split: if_splits)
  have inv: "index_inv (st_index (w_store w))" using assms(1) by (simp add: blob_safe_def store_inv_def)
  have lim: "0 < list_limit q" "list_limit q \<le> 1000" by (simp_all add: list_limit_def MAX_LIST_LIMIT_def DEFAULT_LIST_LIMIT_def split: option.splits)
  let ?since = "case lq_since q of None \<Rightarrow> 0 | Some t \<Rightarrow> t" and ?until = "case lq_until q of None \<Rightarrow> u64_max | Some t \<Rightarrow> t"
  let ?M = "page_items (e_map (st_index (w_store w))) (page_match ?since ?until None) (e_order (st_index (w_store w)))"
  have M: "distinct ?M" "sorted (map (\<lambda>(k, v). key_of k v) ?M)"
    "set ?M = {(k, v). index_get (st_index (w_store w)) k = Some v \<and> page_match ?since ?until None v}"
    "index_page ?since ?until None None (list_limit q) (st_index (w_store w)) = take (list_limit q) ?M"
    "\<And>i. i < length ?M \<Longrightarrow> index_page ?since ?until None (Some (fst (?M ! i))) (list_limit q) (st_index (w_store w)) =
       take (list_limit q) (drop (Suc i) ?M)"
    using page_items_sorted [OF inv] page_items_set [OF inv] page_first [OF lim(1)] page_next [OF inv lim(1) _ refl] by auto
  have pg: "list_page c q cursor w1 = map (\<lambda>(k, m). create_blob_descriptor c k m)
      (index_page ?since ?until None cursor (list_limit q) (st_index (w_store w)))"
    using au(3) by (simp add: list_page_def)
  have len: "length (index_page ?since ?until None cursor (list_limit q) (st_index (w_store w))) \<le> list_limit q"
    by (rule page_length [OF lim(1)])
  have shown: "distinct ?M \<and> sorted (map (\<lambda>(k, v). key_of k v) ?M) \<and>
      set ?M = {(k, m). index_get (st_index (w_store w)) k = Some m \<and> ?since \<le> md_created_at m \<and> md_created_at m \<le> ?until} \<and>
      (lq_cursor q = None \<longrightarrow> page = map (\<lambda>(k, m). create_blob_descriptor c k m) (take (list_limit q) ?M)) \<and>
      (\<forall>i cursor. i < length ?M \<and> lq_cursor q = Some cursor \<and> to_lowercase cursor = fst (?M ! i) \<longrightarrow>
         page = map (\<lambda>(k, m). create_blob_descriptor c k m) (take (list_limit q) (drop (Suc i) ?M)))"
    if served: "case requested of Some pk \<Rightarrow> pk \<in> set (allowed_pubkeys c) | None \<Rightarrow> True"
  proof -
    have here: "page = list_page c q cursor w1" using page served by (cases requested) auto
    have "cursor = map_option to_lowercase (lq_cursor q)"
      using cu by (auto simp: list_cursor_def split: option.splits if_splits)
    then show ?thesis using M here pg by (auto simp: page_match_def)
  qed
  show ?thesis
  proof (intro conjI)
    show "w_store w' = w_store w" using au(3) w' by simp
    show "length page \<le> 1000" using page pg len lim(2) by (auto split: if_splits)
    show "\<exists>ev x. presented e c headers (w_auth w) Op_List ev x \<and> ev_pubkey ev \<in> set (allowed_pubkeys c) \<and>
       find_tag ''t'' ev = Some (Some ''list'')"
      using au(1) t by (auto simp: presented_def may_perform_def intro!: exI [of _ "az_event a"] exI [of _ "az_expiration a"])
  qed (use p page shown in \<open>auto split: option.splits intro!: exI [of _ requested] exI [of _ ?M]\<close>)
qed

definition operator_query :: list_query where
  "operator_query = \<lparr>lq_since = None, lq_until = None, lq_cursor = None, lq_limit = Some 5\<rparr>"

theorem list_blobs_exact_witness:
  "\<exists>page. list_blobs (admin_env ''list'') sample_config operator_query [(''authorization'', ''Nostr x'')] ''/list''
       (empty_world store_a) = (Inr page, empty_world store_a) \<and> length page \<le> 1000"
proof -
  let ?e = "admin_env ''list''" and ?w = "empty_world store_a"
  have au: "in_auth (authorize sample_config (ae_nostr ?e) 100 [(''authorization'', ''Nostr x'')] Op_List) ?w =
      (Inr \<lparr>az_event = admin_event ''list'', az_operation = Op_List, az_expiration = 200\<rparr>, ?w)"
    by (simp add: in_auth_def admin_authorized)
  have t: "validate_t_tag (admin_event ''list'') ''list'' = Inr ()"
    by (simp add: validate_t_tag_def find_tag_def admin_event_def)
  have c: "feature_list_enabled sample_config" by (simp add: sample_config_def)
  have "\<exists>page. list_blobs ?e sample_config operator_query [(''authorization'', ''Nostr x'')] ''/list'' ?w = (Inr page, ?w)"
    by (simp add: list_blobs_def c au t bind_without_hash_def parse_path_pubkey_def operator_query_def list_cursor_def pure_st_def)
  then obtain page where l: "list_blobs ?e sample_config operator_query [(''authorization'', ''Nostr x'')] ''/list'' ?w = (Inr page, ?w)" ..
  from list_blobs_exact [OF safe_sample l] l show ?thesis by blast
qed

end
