(* ===== verification/Router.thy ===== *)
theory Router
  imports Filters AdminHandlers
begin

text \<open>
  The HTTP surface: the route table, layers and static pages of \<open>src/lib.rs\<close>, the CORS policy of
  \<open>src/middleware.rs\<close>, the metrics endpoint (\<open>src/handlers/metrics.rs\<close>, \<open>src/metrics.rs\<close>) and
  \<open>get_upstream\<close>. \<open>serve\<close> is the whole server as a function of a request and the world.

  axum's extraction of queries, bodies and path segments, the body limit layer and the answers axum gives
  itself are fields of \<open>router_env\<close>; a rejection is a status code. The concurrency limit delays requests and
  changes no answer; the 60-second timeout, which drops a handler at one of its awaits, is not modelled.
\<close>

section \<open>Requests and replies\<close>

type_synonym items = "(string + bytes) list"

record request =
  rq_method :: string
  rq_path :: string
  rq_query :: string
  rq_headers :: header_map
  rq_items :: items

datatype reply_body =
    Empty
  | Text string
  | Octets bytes
  | Blob served_body
  | Listing "blob_descriptor list"
  | Report report_reply

type_synonym reply = "reply_body response"

record gauges =
  ga_storage_bytes :: int
  ga_total_files :: int
  ga_max_total_files :: int
  ga_max_storage_bytes :: int
  ga_max_age :: int
  ga_free_disk_space :: int
  ga_storage_usage_percent :: int
  ga_features :: "(string \<times> int) list"

record router_env =
  ro_cashu :: "u64 \<Rightarrow> string \<Rightarrow> string list \<Rightarrow> string"
  ro_filter :: filter_env
  ro_report :: report_env
  ro_segment :: "string \<Rightarrow> nat + string"
  ro_list_query :: "string \<Rightarrow> nat + list_query"
  ro_file_query :: "string \<Rightarrow> nat + file_request_query"
  ro_filter_query :: "string \<Rightarrow> nat + u64 option"
  ro_wot_query :: "string \<Rightarrow> nat + wot_query"
  ro_report_body :: "header_map \<Rightarrow> items \<Rightarrow> nat + report_event"
  ro_limit :: "nat \<Rightarrow> header_map \<Rightarrow> items \<Rightarrow> nat + items"
  ro_not_allowed :: "string \<Rightarrow> reply"
  ro_free_space :: "path \<Rightarrow> string + u64"
  ro_percent :: "u64 \<Rightarrow> u64 \<Rightarrow> int"
  ro_metrics :: "gauges \<Rightarrow> string + bytes"
  ro_upstream_json :: "string list \<Rightarrow> nat \<Rightarrow> u64 \<Rightarrow> bytes"
  ro_page :: "string \<Rightarrow> bytes"

definition recast :: "('b \<Rightarrow> reply_body) \<Rightarrow> 'b response \<Rightarrow> reply" where
  "recast f r = \<lparr>status = status r, rheaders = rheaders r, body = f (body r)\<rparr>"

definition plain_status :: "nat \<Rightarrow> reply" where
  "plain_status st = \<lparr>status = st, rheaders = [], body = Empty\<rparr>"

text \<open>\<open>IntoResponse\<close> of the results; \<open>None\<close> is a panic, which breaks the connection off.\<close>

definition reply_of_app :: "router_env \<Rightarrow> ('b \<Rightarrow> reply_body) \<Rightarrow> 'b response app_result \<Rightarrow> reply option" where
  "reply_of_app ro f r =
     (case r of Inl err \<Rightarrow> map_option (recast Text) (into_response (ro_cashu ro) err) | Inr x \<Rightarrow> Some (recast f x))"

definition reply_of_status :: "('b \<Rightarrow> reply_body) \<Rightarrow> 'b response status_result \<Rightarrow> reply option" where
  "reply_of_status f r = Some (case r of Inl st \<Rightarrow> plain_status st | Inr x \<Rightarrow> recast f x)"

section \<open>Metrics\<close>

definition as_i64 :: "u64 \<Rightarrow> int" where
  "as_i64 n = sint n"

definition metrics_update :: "router_env \<Rightarrow> u64 \<Rightarrow> nat \<Rightarrow> nat \<Rightarrow> u64 \<Rightarrow> u64 \<Rightarrow> path \<Rightarrow> (string \<times> int) list \<Rightarrow> gauges" where
  "metrics_update ro total_size_bytes total_files max_files max_total max_age_days upload_dir feature_values =
     \<lparr>ga_storage_bytes = as_i64 total_size_bytes, ga_total_files = as_i64 (word_of_nat total_files),
      ga_max_total_files = as_i64 (word_of_nat max_files), ga_max_storage_bytes = as_i64 max_total,
      ga_max_age = as_i64 max_age_days,
      ga_free_disk_space = as_i64 (case ro_free_space ro upload_dir of Inl _ \<Rightarrow> 0 | Inr free \<Rightarrow> free),
      ga_storage_usage_percent = (if max_total > 0 then ro_percent ro total_size_bytes max_total else 0),
      ga_features = feature_values\<rparr>"

fun feature_metric_value :: "feature_mode \<Rightarrow> int" where
  "feature_metric_value Off = 0"
| "feature_metric_value Wot = 1"
| "feature_metric_value Public = 2"
| "feature_metric_value Dvm = 3"

definition update_feature_flags :: "feature_mode \<Rightarrow> feature_mode \<Rightarrow> feature_mode \<Rightarrow> (string \<times> int) list" where
  "update_feature_flags up mi cu =
     [(''upload'', feature_metric_value up), (''mirror'', feature_metric_value mi), (''custom_upstream'', feature_metric_value cu)]"

definition get_stats :: "router_env \<Rightarrow> app_config \<Rightarrow> world \<Rightarrow> gauges" where
  "get_stats ro c w =
     (let ix = index_get_stats (st_index (w_store w)) in
      metrics_update ro (is_total_bytes ix) (is_count ix) (max_total_files c) (max_total_size c)
        (max_file_age_secs c div 86400) (root (storage c))
        (update_feature_flags (feature_upload_enabled c) (feature_mirror_enabled c) (feature_custom_upstream_origin_enabled c)))"

definition get_metrics :: "router_env \<Rightarrow> app_config \<Rightarrow> header_map \<Rightarrow> world \<Rightarrow> reply" where
  "get_metrics ro c headers w =
     (case metrics_bearer_token c of
        None \<Rightarrow> plain_status 404
      | Some token \<Rightarrow>
          if Option.bind (hget_str headers ''authorization'') (strip_prefix ''Bearer '') \<noteq> Some token then plain_status 401
          else (case ro_metrics ro (get_stats ro c w) of
              Inr buffer \<Rightarrow> \<lparr>status = 200, rheaders = [(''content-type'', ''text/plain; version=0.0.4; charset=utf-8'')],
                             body = Octets buffer\<rparr>
            | Inl _ \<Rightarrow> \<lparr>status = 500, rheaders = [(''content-type'', ''text/plain; charset=utf-8'')],
                        body = Text ''Failed to encode metrics''\<rparr>))"

section \<open>Pages and diagnostics\<close>

definition get_upstream :: "router_env \<Rightarrow> app_config \<Rightarrow> reply" where
  "get_upstream ro c =
     \<lparr>status = 200, rheaders = [(''content-type'', ''application/json'')],
      body = Octets (ro_upstream_json ro (upstream_servers c) (length (upstream_servers c))
               (max_upstream_download_size_bytes c div (1024 * 1024)))\<rparr>"

definition html_page :: "router_env \<Rightarrow> string \<Rightarrow> reply" where
  "html_page ro name =
     \<lparr>status = 200, rheaders = [(''content-type'', ''text/html; charset=utf-8'')], body = Octets (ro_page ro name)\<rparr>"

definition serve_index :: "router_env \<Rightarrow> app_config \<Rightarrow> reply" where
  "serve_index ro c = (if \<not> feature_homepage_enabled c then plain_status 404 else html_page ro ''index.html'')"

definition serve_favicon :: "router_env \<Rightarrow> app_config \<Rightarrow> reply" where
  "serve_favicon ro c =
     (if \<not> feature_homepage_enabled c then plain_status 404
      else \<lparr>status = 200, rheaders = [(''content-type'', ''image/x-icon'')], body = Octets (ro_page ro ''favicon.ico'')\<rparr>)"

definition serve_filter_test :: "router_env \<Rightarrow> reply" where
  "serve_filter_test ro = html_page ro ''filter-test.html''"

definition serve_config_editor :: "router_env \<Rightarrow> app_config \<Rightarrow> reply" where
  "serve_config_editor ro c = (if \<not> feature_homepage_enabled c then plain_status 404 else html_page ro ''config-editor.html'')"

section \<open>Cross-origin access\<close>

definition CORS_EXPOSE :: string where
  "CORS_EXPOSE = ''Content-Length, Allow, X-Cashu, X-Price-Per-MB, X-Price-Unit, X-Accepted-Mints, X-Reason, Sunset''"

definition is_internal_path :: "string \<Rightarrow> bool" where
  "is_internal_path p \<longleftrightarrow>
     p \<in> {''/config'', ''/metrics'', ''/_metrics'', ''/_wot'', ''/_upstream'', ''/filter-test.html''}"

definition allowed_origin :: "app_config \<Rightarrow> string option \<Rightarrow> string option" where
  "allowed_origin c origin =
     Option.bind origin (\<lambda>v. Option.bind (to_str v) (\<lambda>s. if s \<in> set (cors_allowed_origins c) then Some v else None))"

definition preflight_response :: "nat \<Rightarrow> string \<Rightarrow> reply" where
  "preflight_response st origin =
     \<lparr>status = st,
      rheaders = [(''access-control-allow-origin'', origin),
                  (''access-control-allow-methods'', ''GET, HEAD, PUT, DELETE, PATCH, OPTIONS''),
                  (''access-control-allow-headers'', ''Authorization, *''),
                  (''access-control-expose-headers'', CORS_EXPOSE), (''access-control-max-age'', ''86400'')],
      body = Empty\<rparr>"

definition expose_to :: "string \<Rightarrow> reply \<Rightarrow> reply" where
  "expose_to origin r =
     r\<lparr>rheaders := hinsert ''access-control-expose-headers'' CORS_EXPOSE
                    (hinsert ''access-control-allow-origin'' origin (rheaders r))\<rparr>"

text \<open>\<open>next\<close> is the rest of the stack: it answers, breaks the connection off, or is still waiting.\<close>

definition cors_middleware ::
  "app_config \<Rightarrow> request \<Rightarrow> (world \<Rightarrow> (reply option \<times> world) option) \<Rightarrow> world \<Rightarrow> (reply option \<times> world) option" where
  "cors_middleware c req next w =
     (let internal = is_internal_path (rq_path req); origin = allowed_origin c (hget (rq_headers req) ''origin'') in
      if rq_method req = ''OPTIONS'' then
        (if internal
         then Some (Some (case origin of Some v \<Rightarrow> preflight_response 204 v | None \<Rightarrow> plain_status 403), w)
         else Some (Some (preflight_response 204 ''*''), w))
      else if internal then
        map_option (\<lambda>(r, w'). (case origin of Some v \<Rightarrow> map_option (expose_to v) r | None \<Rightarrow> r, w')) (next w)
      else map_option (\<lambda>(r, w'). (map_option (expose_to ''*'') r, w')) (next w))"

section \<open>Routes\<close>

datatype endpoint =
    Put_Upload | Head_Upload | Options_Upload | Patch_Upload
  | Get_List | Put_Mirror | Put_Report
  | Delete_Blob string | Get_Blob string
  | Get_Wot | Get_Filter | Get_Upstream | Get_Metrics
  | Get_Index | Get_Favicon | Get_Filter_Test | Get_Config
  | Method_Not_Allowed | No_Route

definition if_get :: "string \<Rightarrow> endpoint \<Rightarrow> endpoint" where
  "if_get m ep = (if m = ''GET'' \<or> m = ''HEAD'' then ep else Method_Not_Allowed)"

text \<open>The routes of \<open>create_app\<close>; a static segment wins over \<open>{filename}\<close>.\<close>

definition app_route :: "string \<Rightarrow> string list \<Rightarrow> endpoint" where
  "app_route m segments =
     (case segments of
        [_, a] \<Rightarrow>
          if a = ''upload'' then
            (if m = ''PUT'' then Put_Upload else if m = ''HEAD'' then Head_Upload else if m = ''OPTIONS'' then Options_Upload
             else if m = ''PATCH'' then Patch_Upload else Method_Not_Allowed)
          else if a = ''list'' then if_get m Get_List
          else if a = ''mirror'' then (if m = ''PUT'' then Put_Mirror else Method_Not_Allowed)
          else if a = ''report'' then (if m = ''PUT'' then Put_Report else Method_Not_Allowed)
          else if a = [] then No_Route
          else if m = ''DELETE'' then Delete_Blob a else if_get m (Get_Blob a)
      | [_, a, b] \<Rightarrow> if a = ''list'' \<and> b \<noteq> [] then if_get m Get_List else No_Route
      | _ \<Rightarrow> No_Route)"

text \<open>The routes of \<open>standalone_extras\<close>.\<close>

definition extra_route :: "string \<Rightarrow> endpoint option" where
  "extra_route p =
     (if p = ''/_wot'' then Some Get_Wot
      else if p = ''/filter'' then Some Get_Filter
      else if p = ''/_upstream'' then Some Get_Upstream
      else if p = ''/_metrics'' \<or> p = ''/metrics'' then Some Get_Metrics
      else if p = ''/'' \<or> p = ''/index.html'' then Some Get_Index
      else if p = ''/favicon.ico'' then Some Get_Favicon
      else if p = ''/filter-test.html'' then Some Get_Filter_Test
      else if p = ''/config'' then Some Get_Config else None)"

definition route :: "bool \<Rightarrow> string \<Rightarrow> string \<Rightarrow> endpoint" where
  "route standalone m p =
     (case (if standalone then extra_route p else None) of
        Some ep \<Rightarrow> if_get m ep
      | None \<Rightarrow> app_route m (split_on (CHR ''/'') p))"

section \<open>The server\<close>

definition strip_head :: "string \<Rightarrow> reply \<Rightarrow> reply" where
  "strip_head m r = (if m = ''HEAD'' then r\<lparr>body := Empty\<rparr> else r)"

definition reply_list :: "blob_descriptor list status_result \<Rightarrow> reply option" where
  "reply_list r =
     Some (case r of Inl st \<Rightarrow> plain_status st
       | Inr ds \<Rightarrow> \<lparr>status = 200, rheaders = [(''content-type'', ''application/json'')], body = Listing ds\<rparr>)"

definition reply_report :: "report_reply response report_result \<Rightarrow> reply option" where
  "reply_report r = (case r of Inl None \<Rightarrow> None | Inl (Some st) \<Rightarrow> Some (plain_status st) | Inr x \<Rightarrow> Some (recast Report x))"

definition reply_preflight :: "router_env \<Rightarrow> string response option app_result \<Rightarrow> reply option" where
  "reply_preflight ro r =
     (case r of Inl err \<Rightarrow> map_option (recast Text) (into_response (ro_cashu ro) err) | Inr x \<Rightarrow> map_option (recast Text) x)"

text \<open>\<open>rejecting x k\<close>: an extractor that fails answers itself.\<close>

definition rejecting :: "nat + 'a \<Rightarrow> world \<Rightarrow> ('a \<Rightarrow> (reply option \<times> world) option) \<Rightarrow> (reply option \<times> world) option" where
  "rejecting x w k = (case x of Inl st \<Rightarrow> Some (Some (plain_status st), w) | Inr a \<Rightarrow> k a)"

definition answer :: "('r \<Rightarrow> reply option) \<Rightarrow> 'r \<times> world \<Rightarrow> (reply option \<times> world) option" where
  "answer f rw = Some (f (fst rw), snd rw)"

definition dispatch ::
  "router_env \<Rightarrow> app_env \<Rightarrow> app_config \<Rightarrow> request \<Rightarrow> items \<Rightarrow> (world \<Rightarrow> world) list \<Rightarrow> endpoint \<Rightarrow> world \<Rightarrow>
     (reply option \<times> world) option" where
  "dispatch ro e c req items waits ep w =
     (let hs = rq_headers req; m = rq_method req; fe = ro_filter ro;
          page = (\<lambda>r. Some (Some (strip_head m r), w)) in
      case ep of
        Put_Upload \<Rightarrow> answer (reply_of_app ro Text) (upload_file e c hs items w)
      | Head_Upload \<Rightarrow> answer (reply_preflight ro) (head_upload (ro_cashu ro) e c hs w)
      | Options_Upload \<Rightarrow> Some (Some \<lparr>status = 200, rheaders = [(''content-type'', ''text/plain; charset=utf-8'')],
                                      body = Text ''Method not allowed''\<rparr>, w)
      | Patch_Upload \<Rightarrow> answer (reply_of_app ro Text) (patch_upload e c hs items w)
      | Get_List \<Rightarrow> rejecting (ro_list_query ro (rq_query req)) w (\<lambda>q.
          answer (\<lambda>r. map_option (strip_head m) (reply_list r)) (list_blobs e c q hs (rq_path req) w))
      | Put_Mirror \<Rightarrow> rejecting (ro_limit ro (64 * 1024) hs items) w (\<lambda>items.
          answer (reply_of_app ro Text) (mirror_blob e c hs items w))
      | Put_Report \<Rightarrow> rejecting (ro_report_body ro hs items) w (\<lambda>report.
          answer reply_report (report_blob e c (ro_report ro) report w))
      | Delete_Blob segment \<Rightarrow> rejecting (ro_segment ro segment) w (\<lambda>filename.
          answer (reply_of_status Text) (delete_blob e c filename hs w))
      | Get_Blob segment \<Rightarrow> rejecting (ro_segment ro segment) w (\<lambda>filename.
          rejecting (ro_file_query ro (rq_query req)) w (\<lambda>q.
          Option.bind (handle_file_request e c filename q hs m waits w) (answer (reply_of_app ro Blob))))
      | Get_Wot \<Rightarrow> rejecting (ro_wot_query ro (rq_query req)) w (\<lambda>q.
          answer (\<lambda>r. map_option (strip_head m) (reply_of_status Octets r)) (get_wot fe (w_auth w) q, w))
      | Get_Filter \<Rightarrow> rejecting (ro_filter_query ro (rq_query req)) w (\<lambda>q.
          answer (\<lambda>r. map_option (strip_head m) (reply_of_status Octets r)) (get_filter fe e c q hs w))
      | Get_Upstream \<Rightarrow> page (get_upstream ro c)
      | Get_Metrics \<Rightarrow> page (get_metrics ro c hs w)
      | Get_Index \<Rightarrow> page (serve_index ro c)
      | Get_Favicon \<Rightarrow> page (serve_favicon ro c)
      | Get_Filter_Test \<Rightarrow> page (serve_filter_test ro)
      | Get_Config \<Rightarrow> page (serve_config_editor ro c)
      | Method_Not_Allowed \<Rightarrow> page (ro_not_allowed ro (rq_path req))
      | No_Route \<Rightarrow> page (plain_status 404))"

text \<open>\<open>with_common_layers\<close>: the body limit inside the CORS policy, around every route and axum's own answers.\<close>

definition with_common_layers ::
  "router_env \<Rightarrow> app_config \<Rightarrow> request \<Rightarrow> (items \<Rightarrow> world \<Rightarrow> (reply option \<times> world) option) \<Rightarrow> world \<Rightarrow>
     (reply option \<times> world) option" where
  "with_common_layers ro c req handler =
     cors_middleware c req (\<lambda>w.
       rejecting (ro_limit ro (unat (max_blob_size_bytes c)) (rq_headers req) (rq_items req)) w (\<lambda>items. handler items w))"

definition serve ::
  "router_env \<Rightarrow> app_env \<Rightarrow> app_config \<Rightarrow> bool \<Rightarrow> request \<Rightarrow> (world \<Rightarrow> world) list \<Rightarrow> world \<Rightarrow> (reply option \<times> world) option" where
  "serve ro e c standalone req waits =
     with_common_layers ro c req (\<lambda>items w.
       dispatch ro e c req items waits (route standalone (rq_method req) (rq_path req)) w)"

section \<open>Who may read what\<close>

lemma acao_names: "\<not> eq_ignore_ascii_case ''access-control-expose-headers'' ''access-control-allow-origin''"
  by (simp add: eq_ignore_ascii_case_def ascii_lower_def is_ascii_uppercase_def byte_of_def)

lemma hget_lower_head:
  "hget ((n, v) # hs) m = (if eq_ignore_ascii_case n m then Some v else hget hs m)"
  by (simp add: hget_def)

lemma expose_to_origin: "hget (rheaders (expose_to v r)) ''access-control-allow-origin'' = Some v"
  by (simp add: expose_to_def hget_hinsert_other [OF acao_names] hget_hinsert_same)

lemma preflight_origin: "hget (rheaders (preflight_response st v)) ''access-control-allow-origin'' = Some v"
  by (simp add: preflight_response_def hget_lower_head)

definition private_headers :: "reply \<Rightarrow> bool" where
  "private_headers r \<longleftrightarrow> hget (rheaders r) ''access-control-allow-origin'' = None"

lemma private_plain [simp]: "private_headers (plain_status st)"
  by (simp add: private_headers_def plain_status_def hget_def)

lemma private_content_type: "rheaders r = [(''content-type'', v)] \<Longrightarrow> private_headers r"
  by (simp add: private_headers_def hget_def eq_ignore_ascii_case_def ascii_lower_def is_ascii_uppercase_def byte_of_def)

lemma private_strip [simp]: "private_headers (strip_head m r) = private_headers r"
  by (simp add: private_headers_def strip_head_def)

lemma private_metrics: "private_headers (get_metrics ro c hs w)"
  by (auto simp: get_metrics_def Let_def private_content_type split: option.splits sum.splits)

lemma private_pages:
  "private_headers (get_upstream ro c)" "private_headers (serve_filter_test ro)" "private_headers (serve_config_editor ro c)"
  by (simp_all add: get_upstream_def serve_filter_test_def serve_config_editor_def html_page_def private_content_type)

lemma built_type: "built_response st [(''content-type'', v)] b = Inr x \<Longrightarrow> rheaders x = [(''content-type'', v)]"
  by (auto simp: built_response_def split: if_splits)

lemma json_type: "json_response st b = Inr x \<Longrightarrow> rheaders x = [(''content-type'', ''application/json'')]"
  by (auto simp: json_response_def dest: built_type split: option.splits)

lemma wot_type:
  assumes "get_wot fe a q = Inr x"
  shows "\<exists>v. rheaders x = [(''content-type'', v)]"
proof -
  obtain fp where fp: "checked_rate (wq_fp q) = Inr fp" using assms by (auto simp: get_wot_def Let_def and_then_Inr_iff)
  obtain bloom where bloom: "fe_bloom fe (max (length (map fst (trusted_pubkeys a))) 1) fp (map fst (trusted_pubkeys a)) = Some bloom"
    using assms fp by (cases "fe_bloom fe (max (length (map fst (trusted_pubkeys a))) 1) fp (map fst (trusted_pubkeys a))")
      (simp_all add: get_wot_def Let_def)
  show ?thesis
  proof (cases "wq_test q")
    case (Some t)
    then show ?thesis
      using assms fp bloom by (auto simp: get_wot_def Let_def wot_test_def dest: json_type split: if_splits)
  next
    case None
    then show ?thesis
      using assms fp bloom by (auto simp: get_wot_def Let_def dest: json_type built_type split: if_splits)
  qed
qed

lemma private_wot:
  assumes "reply_of_status Octets (get_wot fe a q) = Some r"
  shows "private_headers r"
proof (cases "get_wot fe a q")
  case (Inl st)
  then show ?thesis using assms by (simp add: reply_of_status_def) (metis private_plain)
next
  case (Inr x)
  then have "\<exists>v. rheaders x = [(''content-type'', v)]" by (rule wot_type)
  then show ?thesis using assms Inr by (auto simp: reply_of_status_def recast_def intro: private_content_type)
qed

lemma rejecting_cases:
  assumes "rejecting x w k = Some (Some r, w')"
  obtains st where "r = plain_status st" "w' = w" | a where "x = Inr a" "k a = Some (Some r, w')"
  using assms by (cases x) (auto simp: rejecting_def)

text \<open>The internal pages of the standalone server, and what they answer.\<close>

lemma internal_route:
  assumes "is_internal_path p"
  shows "route True m p \<in> {Get_Config, Get_Metrics, Get_Wot, Get_Upstream, Get_Filter_Test, Method_Not_Allowed}"
  using assms by (auto simp: is_internal_path_def route_def extra_route_def if_get_def)

lemma dispatch_internal_private:
  assumes "ep \<in> {Get_Config, Get_Metrics, Get_Wot, Get_Upstream, Get_Filter_Test, Method_Not_Allowed}"
    "dispatch ro e c req items waits ep w = Some (Some r, w')" "private_headers (ro_not_allowed ro (rq_path req))"
  shows "private_headers r"
proof (cases "ep = Get_Wot")
  case True
  then have "rejecting (ro_wot_query ro (rq_query req)) w (\<lambda>q. answer (\<lambda>r. map_option (strip_head (rq_method req))
      (reply_of_status Octets r)) (get_wot (ro_filter ro) (w_auth w) q, w)) = Some (Some r, w')"
    using assms(2) by (simp add: dispatch_def Let_def)
  then show ?thesis
    by (cases rule: rejecting_cases) (auto simp: answer_def dest: private_wot)
next
  case False
  then show ?thesis
    using assms by (auto simp: dispatch_def Let_def private_metrics private_pages)
qed

lemma metrics_token_needed:
  assumes "route True ''GET'' p = Get_Metrics" "dispatch ro e c req items waits Get_Metrics w = Some (Some r, w')"
    "body r = Octets b"
  shows "(\<exists>t. metrics_bearer_token c = Some t \<and> hget_str (rq_headers req) ''authorization'' = Some (''Bearer '' @ t)) \<and> w' = w"
  using assms(2,3)
  by (auto simp: dispatch_def Let_def strip_head_def get_metrics_def plain_status_def bind_eq_Some_conv str_simps
      split: option.splits if_splits)

lemma allowed_origin_spec:
  "allowed_origin c (hget hs n) =
     (case hget_str hs n of Some v \<Rightarrow> if v \<in> set (cors_allowed_origins c) then Some v else None | None \<Rightarrow> None)"
  by (auto simp: allowed_origin_def hget_str_def to_str_def split: option.splits bind_splits)

lemma internal_pages_guarded:
  assumes "serve ro e c True req waits w = Some (Some r, w')"
    and "hget (rheaders (ro_not_allowed ro (rq_path req))) ''access-control-allow-origin'' = None"
  shows "hget (rheaders r) ''access-control-allow-origin'' =
      (if is_internal_path (rq_path req) then allowed_origin c (hget (rq_headers req) ''origin'') else Some ''*'') \<and>
    (rq_method req = ''OPTIONS'' \<longrightarrow> w' = w) \<and>
    (rq_path req \<in> {''/metrics'', ''/_metrics''} \<and> rq_method req = ''GET'' \<and> body r = Octets b \<longrightarrow>
       (\<exists>t. metrics_bearer_token c = Some t \<and> hget_str (rq_headers req) ''authorization'' = Some (''Bearer '' @ t)) \<and> w' = w)"
proof (cases "rq_method req = ''OPTIONS''")
  case True
  then show ?thesis
    using assms(1)
    by (auto simp: serve_def with_common_layers_def cors_middleware_def Let_def preflight_origin split: option.splits if_splits)
      (simp_all add: plain_status_def hget_def)
next
  case False
  define ep where "ep = route True (rq_method req) (rq_path req)"
  define inner where "inner = (\<lambda>w. rejecting (ro_limit ro (unat (max_blob_size_bytes c)) (rq_headers req) (rq_items req)) w
    (\<lambda>items. dispatch ro e c req items waits ep w))"
  have cors: "cors_middleware c req inner w = Some (Some r, w')"
    using assms(1) by (simp add: serve_def with_common_layers_def inner_def ep_def)
  show ?thesis
  proof (cases "is_internal_path (rq_path req)")
    case internal: False
    then have "rq_path req \<notin> {''/metrics'', ''/_metrics''}" by (auto simp: is_internal_path_def)
    then show ?thesis
      using cors False internal by (auto simp: cors_middleware_def Let_def expose_to_origin)
  next
    case internal: True
    let ?origin = "allowed_origin c (hget (rq_headers req) ''origin'')"
    obtain r0 where r0: "inner w = Some (Some r0, w')" "r = (case ?origin of Some v \<Rightarrow> expose_to v r0 | None \<Rightarrow> r0)"
      using cors False internal by (cases ?origin) (auto simp: cors_middleware_def Let_def)
    have b: "body r = body r0" by (simp add: r0(2) expose_to_def split: option.splits)
    from r0(1) have alt: "(\<exists>st. r0 = plain_status st) \<or> (\<exists>items. dispatch ro e c req items waits ep w = Some (Some r0, w'))"
      unfolding inner_def by (cases rule: rejecting_cases) blast+
    have "private_headers r0"
      using alt dispatch_internal_private [OF internal_route [OF internal]] assms(2)
      unfolding private_headers_def [symmetric] ep_def by (metis private_plain)
    then have origin: "hget (rheaders r) ''access-control-allow-origin'' = ?origin"
      by (auto simp: r0(2) private_headers_def expose_to_origin split: option.splits)
    have "(\<exists>t. metrics_bearer_token c = Some t \<and> hget_str (rq_headers req) ''authorization'' = Some (''Bearer '' @ t)) \<and> w' = w"
      if "rq_path req \<in> {''/metrics'', ''/_metrics''}" "rq_method req = ''GET''" "body r = Octets b"
    proof -
      have ep: "ep = Get_Metrics" using that(1,2) by (auto simp: ep_def route_def extra_route_def if_get_def)
      have "r0 \<noteq> plain_status st" for st using that(3) b by (auto simp: plain_status_def)
      then obtain items where d: "dispatch ro e c req items waits Get_Metrics w = Some (Some r0, w')" using alt ep by blast
      show ?thesis
        by (rule metrics_token_needed [OF _ d]) (use that(3) b ep that(2) ep_def in auto)
    qed
    then show ?thesis using origin internal False by auto
  qed
qed


definition sample_router_env :: router_env where
  "sample_router_env = \<lparr>ro_cashu = \<lambda>_ _ _. [], ro_filter = sample_filter_env, ro_report = sample_report_env,
     ro_segment = Inr, ro_list_query = \<lambda>_. Inl 400, ro_file_query = \<lambda>_. Inr plain_query, ro_filter_query = \<lambda>_. Inr None,
     ro_wot_query = \<lambda>_. Inl 400, ro_report_body = \<lambda>_ _. Inl 400, ro_limit = \<lambda>_ _. Inr,
     ro_not_allowed = \<lambda>_. plain_status 405, ro_free_space = \<lambda>_. Inr 0, ro_percent = \<lambda>_ _. 0,
     ro_metrics = \<lambda>_. Inr [1], ro_upstream_json = \<lambda>_ _ _. [], ro_page = \<lambda>_. []\<rparr>"


end
