(* ===== verification/TrustNetwork.thy ===== *)
theory TrustNetwork
  imports Auth
begin

text \<open>
  \<open>src/trust_network.rs\<close>: the web of trust, counted from contact lists, and the announced services. Relays
  and key parsing are the environment's: \<open>re_add\<close> says why a relay cannot be added, \<open>re_fetch\<close> gives the
  events for a filter within its timeout.
\<close>

record relay_filter =
  rf_kind :: nat
  rf_authors :: "pubkey list"
  rf_k_tags :: "string list"
  rf_limit :: "nat option"

record relay_env =
  re_add :: "string \<Rightarrow> string option"
  re_fetch :: "string list \<Rightarrow> relay_filter \<Rightarrow> string + nostr_event list"
  re_parse_key :: "string \<Rightarrow> pubkey option"
  re_hex_key :: "string \<Rightarrow> pubkey option"

definition SEED_RELAYS :: "string list" where
  "SEED_RELAYS =
     [''wss://nos.lol'', ''wss://nostr.mom'', ''wss://purplepag.es'', ''wss://purplerelay.com'', ''wss://relay.nostr.band'',
      ''wss://relay.snort.social'', ''wss://relay.primal.net'', ''wss://no.str.cr'', ''wss://nostr21.com'', ''wss://nostrue.com'',
      ''wss://relay.nostr.bg'', ''wss://nostr.bitcoiner.social'']"

fun add_relays :: "relay_env \<Rightarrow> string list \<Rightarrow> string + unit" where
  "add_relays re [] = Inr ()"
| "add_relays re (r # rs) = (case re_add re r of Some err \<Rightarrow> Inl err | None \<Rightarrow> add_relays re rs)"

text \<open>A connected client is the list of its relays.\<close>

definition create_pool :: "relay_env \<Rightarrow> string list \<Rightarrow> string + string list" where
  "create_pool re custom_relays =
     (let relays = (if custom_relays = [] then SEED_RELAYS else custom_relays)
      in and_then (add_relays re relays) (\<lambda>_. Inr relays))"

text \<open>\<open>sort\<close> and \<open>dedup\<close> of a \<open>Vec<String>\<close>.\<close>

definition sort_dedup :: "string list \<Rightarrow> string list" where
  "sort_dedup xs = remdups_adj (sort xs)"

definition contacts_of :: "nostr_event \<Rightarrow> string list" where
  "contacts_of ev = sort_dedup (List.map_filter id (tags_of ''p'' ev))"

definition collect_followers :: "nostr_event list \<Rightarrow> (pubkey \<times> string list) list" where
  "collect_followers events =
     map (\<lambda>(author, followers). (author, sort_dedup followers))
       (fold (\<lambda>ev m. hm_insert (ev_pubkey ev)
                ((case map_of m (ev_pubkey ev) of None \<Rightarrow> [] | Some xs \<Rightarrow> xs) @ contacts_of ev) m) events [])"

definition get_followers :: "relay_env \<Rightarrow> string list \<Rightarrow> pubkey list \<Rightarrow> string + (pubkey \<times> string list) list" where
  "get_followers re client pubkeys =
     and_then (re_fetch re client \<lparr>rf_kind = 3, rf_authors = pubkeys, rf_k_tags = [], rf_limit = Some 300\<rparr>)
       (\<lambda>events. Inr (collect_followers events))"

definition increment :: "string \<Rightarrow> (string \<times> nat) list \<Rightarrow> (string \<times> nat) list" where
  "increment k m = hm_insert k ((case map_of m k of None \<Rightarrow> 0 | Some n \<Rightarrow> n) + 1) m"

definition count_followers :: "(pubkey \<times> string list) list \<Rightarrow> (string \<times> nat) list \<Rightarrow> (string \<times> nat) list" where
  "count_followers followers_by_pubkey m = fold (\<lambda>(_, followers) m. fold increment followers m) followers_by_pubkey m"

function chunks :: "nat \<Rightarrow> 'a list \<Rightarrow> 'a list list" where
  "chunks n xs = (if xs = [] \<or> n = 0 then [] else take n xs # chunks n (drop n xs))"
  by pat_completeness auto
termination by (relation "measure (\<lambda>(n, xs). length xs)") auto

declare chunks.simps [simp del]

definition count_chunk :: "relay_env \<Rightarrow> string list \<Rightarrow> string list \<Rightarrow> (string \<times> nat) list \<Rightarrow> (string \<times> nat) list" where
  "count_chunk re client chunk m =
     (case get_followers re client (List.map_filter (re_parse_key re) chunk) of
        Inl _ \<Rightarrow> m
      | Inr followers_by_pubkey \<Rightarrow> count_followers followers_by_pubkey m)"

definition trusted_of :: "relay_env \<Rightarrow> (string \<times> nat) list \<Rightarrow> (pubkey \<times> nat) list" where
  "trusted_of re counts =
     fold (\<lambda>(pk, n) m. hm_insert pk n m)
       (List.map_filter (\<lambda>(s, n). if n > 3 then map_option (\<lambda>pk. (pk, n)) (re_hex_key re s) else None) counts) []"

text \<open>The caller has checked that there is an owner: \<open>owner_pubkeys[0]\<close> would panic.\<close>

definition refresh_trust_network :: "relay_env \<Rightarrow> pubkey list \<Rightarrow> string + (pubkey \<times> nat) list" where
  "refresh_trust_network re owner_pubkeys =
     and_then (create_pool re []) (\<lambda>client.
     and_then (get_followers re client owner_pubkeys) (\<lambda>one_hop_network.
     let followers = (case map_of one_hop_network (hd owner_pubkeys) of None \<Rightarrow> [] | Some xs \<Rightarrow> xs);
         pubkey_follower_count = fold (count_chunk re client) (chunks 50 followers) []
     in Inr (trusted_of re pubkey_follower_count)))"

definition dvm_filter :: "nat list \<Rightarrow> pubkey list \<Rightarrow> nat option \<Rightarrow> relay_filter" where
  "dvm_filter allowed_kinds authors limit =
     \<lparr>rf_kind = 31990, rf_authors = authors, rf_k_tags = map show_nat allowed_kinds, rf_limit = limit\<rparr>"

definition refresh_dvm_pubkeys :: "relay_env \<Rightarrow> nat list \<Rightarrow> string list \<Rightarrow> string + pubkey list" where
  "refresh_dvm_pubkeys re allowed_kinds custom_relays =
     and_then (create_pool re custom_relays) (\<lambda>client.
     and_then (re_fetch re client (dvm_filter allowed_kinds [] None)) (\<lambda>events.
     Inr (remdups (map ev_pubkey events))))"

definition check_dvm_announced :: "relay_env \<Rightarrow> pubkey \<Rightarrow> nat list \<Rightarrow> string list \<Rightarrow> string + bool" where
  "check_dvm_announced re pk allowed_kinds custom_relays =
     and_then (create_pool re custom_relays) (\<lambda>client.
     and_then (re_fetch re client (dvm_filter allowed_kinds [pk] (Some 1))) (\<lambda>events. Inr (events \<noteq> [])))"

section \<open>Who is trusted\<close>

text \<open>How often a key is named: once per author and query, however many events and tags name it.\<close>

definition mentions :: "(pubkey \<times> string list) list list \<Rightarrow> string \<Rightarrow> nat" where
  "mentions answers s = (\<Sum>a \<leftarrow> answers. length (filter (\<lambda>(_, followers). s \<in> set followers) a))"

definition chunk_answers :: "relay_env \<Rightarrow> string list \<Rightarrow> string list \<Rightarrow> (pubkey \<times> string list) list list" where
  "chunk_answers re client followers =
     List.map_filter (\<lambda>chunk. case get_followers re client (List.map_filter (re_parse_key re) chunk) of
         Inl _ \<Rightarrow> None | Inr a \<Rightarrow> Some a) (chunks 50 followers)"

definition count_of :: "(string \<times> nat) list \<Rightarrow> string \<Rightarrow> nat" where
  "count_of m s = (case map_of m s of None \<Rightarrow> 0 | Some n \<Rightarrow> n)"

lemma distinct_remdups_sorted: "sorted (xs :: 'a :: linorder list) \<Longrightarrow> distinct (remdups_adj xs)"
  by (induction xs rule: remdups_adj.induct) auto

lemma distinct_sort_dedup: "distinct (sort_dedup xs)" "set (sort_dedup xs) = set xs"
  by (simp_all add: sort_dedup_def remdups_adj_set distinct_remdups_sorted)

lemma count_of_insert: "count_of (hm_insert k n m) s = (if s = k then n else count_of m s)"
  by (simp add: count_of_def hm_simps)

lemma count_of_increments: "count_of (fold increment xs m) s = count_of m s + count_list xs s"
  by (induction xs arbitrary: m)
    (auto simp: increment_def count_of_insert, auto simp: count_of_def)

lemma increments_wf: "hm_wf m \<Longrightarrow> hm_wf (fold increment xs m)"
  by (induction xs arbitrary: m) (auto simp: increment_def)

lemma collected_distinct: "(a, fs) \<in> set (collect_followers events) \<Longrightarrow> distinct fs"
  by (auto simp: collect_followers_def distinct_sort_dedup)

lemma count_list_distinct: "distinct xs \<Longrightarrow> count_list xs s = (if s \<in> set xs then 1 else 0)"
  by (induction xs) auto

lemma count_followers_simps [simp]:
  "count_followers [] m = m"
  "count_followers ((a, fs) # l) m = count_followers l (fold increment fs m)"
  by (simp_all add: count_followers_def)

lemma count_of_followers:
  "\<forall>(a, fs) \<in> set l. distinct fs \<Longrightarrow>
     count_of (count_followers l m) s = count_of m s + length (filter (\<lambda>(_, fs). s \<in> set fs) l)"
proof (induction l arbitrary: m)
  case (Cons p l)
  then show ?case by (cases p) (simp add: count_of_increments count_list_distinct)
qed simp

lemma count_followers_wf: "hm_wf m \<Longrightarrow> hm_wf (count_followers l m)"
proof (induction l arbitrary: m)
  case (Cons p l)
  then show ?case by (cases p) (simp add: increments_wf)
qed simp

lemma get_followers_distinct: "get_followers re client pks = Inr l \<Longrightarrow> \<forall>(a, fs) \<in> set l. distinct fs"
  by (auto simp: get_followers_def and_then_Inr_iff dest: collected_distinct)

lemma count_of_chunks:
  "hm_wf m \<Longrightarrow> hm_wf (fold (count_chunk re client) cs m) \<and>
     count_of (fold (count_chunk re client) cs m) s = count_of m s +
       mentions (List.map_filter (\<lambda>chunk. case get_followers re client (List.map_filter (re_parse_key re) chunk) of
          Inl _ \<Rightarrow> None | Inr a \<Rightarrow> Some a) cs) s"
proof (induction cs arbitrary: m)
  case Nil
  then show ?case by (simp add: mentions_def map_filter_simps)
next
  case (Cons c cs)
  show ?case
  proof (cases "get_followers re client (List.map_filter (re_parse_key re) c)")
    case (Inl err)
    then show ?thesis using Cons.IH [OF Cons.prems] by (simp add: count_chunk_def map_filter_simps)
  next
    case (Inr l)
    then show ?thesis
      using Cons.IH [OF count_followers_wf [OF Cons.prems, of l]] count_of_followers [OF get_followers_distinct [OF Inr]]
      by (simp add: count_chunk_def map_filter_simps mentions_def)
  qed
qed

lemma fold_insert_pairs:
  "map_of (fold (\<lambda>(pk, n) m. hm_insert pk n m) l m) pk = Some n \<Longrightarrow> (pk, n) \<in> set l \<or> map_of m pk = Some n"
  "map_of (fold (\<lambda>(pk, n) m. hm_insert pk n m) l m) pk = None \<longleftrightarrow> pk \<notin> fst ` set l \<and> map_of m pk = None"
  by (induction l arbitrary: m) (force simp: hm_simps split: if_splits)+

lemma trusted_of_mem:
  assumes "hm_wf counts"
  shows "map_of (trusted_of re counts) pk = Some n \<Longrightarrow> \<exists>s. re_hex_key re s = Some pk \<and> count_of counts s = n \<and> 3 < n"
    "map_of (trusted_of re counts) pk \<noteq> None \<longleftrightarrow> (\<exists>s. re_hex_key re s = Some pk \<and> 3 < count_of counts s)"
proof -
  let ?l = "List.map_filter (\<lambda>(s, n). if n > 3 then map_option (\<lambda>pk. (pk, n)) (re_hex_key re s) else None) counts"
  have l: "(pk, n) \<in> set ?l \<longleftrightarrow> (\<exists>s. map_of counts s = Some n \<and> re_hex_key re s = Some pk \<and> 3 < n)" for pk n
    by (force simp: map_filter_def hm_in_set_iff [OF assms, symmetric] split: if_splits)
  show "map_of (trusted_of re counts) pk = Some n \<Longrightarrow> \<exists>s. re_hex_key re s = Some pk \<and> count_of counts s = n \<and> 3 < n"
    unfolding trusted_of_def using fold_insert_pairs(1) [of ?l "[]" pk n] l by (auto simp: count_of_def)
  have "pk \<in> fst ` set ?l \<longleftrightarrow> (\<exists>s. re_hex_key re s = Some pk \<and> 3 < count_of counts s)"
    using l by (force simp: image_iff count_of_def split: option.splits)
  then show "map_of (trusted_of re counts) pk \<noteq> None \<longleftrightarrow> (\<exists>s. re_hex_key re s = Some pk \<and> 3 < count_of counts s)"
    unfolding trusted_of_def fold_insert_pairs(2) by simp
qed

lemma chunks_concat: "0 < n \<Longrightarrow> concat (chunks n xs) = xs"
  by (induction n xs rule: chunks.induct) (subst chunks.simps, simp)

text \<open>C37: A key is trusted exactly when more than three of the first owner's contacts name it. After a
  successful refresh the trusted keys are those whose text, read as hexadecimal, is named in more than three
  of the contact lists the relays gave for the contacts of the first owner, each contact asked about once, a
  list that cannot be fetched counting as empty and an author counting once per query however many events or
  tags repeat the key; the number recorded with a key is that count. With one owner this
  is the web of trust the documents describe. With several it is not: \<open>src/config.rs\<close>,
  \<open>docs/guide/how-it-works.md\<close> and \<open>CONTEXT.md\<close> make every whitelisted account a root of the graph, while
  the code asks for the contacts of all of them and then uses those of the first alone.\<close>
theorem trust_network_exact:
  assumes "refresh_trust_network re owners = Inr m"
  shows "\<exists>client network contacts named. create_pool re [] = Inr client \<and> get_followers re client owners = Inr network \<and>
     contacts = (case map_of network (hd owners) of None \<Rightarrow> [] | Some xs \<Rightarrow> xs) \<and> concat (chunks 50 contacts) = contacts \<and>
     named = mentions (chunk_answers re client contacts) \<and>
     (\<forall>pk. map_of m pk \<noteq> None \<longleftrightarrow> (\<exists>s. re_hex_key re s = Some pk \<and> 3 < named s)) \<and>
     (\<forall>pk n. map_of m pk = Some n \<longrightarrow> (\<exists>s. re_hex_key re s = Some pk \<and> named s = n \<and> 3 < n))"
proof -
  obtain client network where p: "create_pool re [] = Inr client" "get_followers re client owners = Inr network"
    and m: "m = trusted_of re (fold (count_chunk re client)
       (chunks 50 (case map_of network (hd owners) of None \<Rightarrow> [] | Some xs \<Rightarrow> xs)) [])"
    using assms by (auto simp: refresh_trust_network_def and_then_Inr_iff Let_def)
  define contacts where "contacts = (case map_of network (hd owners) of None \<Rightarrow> [] | Some xs \<Rightarrow> xs)"
  define counts where "counts = fold (count_chunk re client) (chunks 50 contacts) []"
  have c: "hm_wf counts" "count_of counts s = mentions (chunk_answers re client contacts) s" for s
    using count_of_chunks [of "[]" re client "chunks 50 contacts" s]
    by (auto simp: counts_def chunk_answers_def count_of_def)
  note t = trusted_of_mem [OF c(1), unfolded c(2)]
  have m': "m = trusted_of re counts" unfolding m counts_def contacts_def ..
  have 1: "\<forall>pk. map_of m pk \<noteq> None \<longleftrightarrow> (\<exists>s. re_hex_key re s = Some pk \<and> 3 < mentions (chunk_answers re client contacts) s)"
    unfolding m' using t(2) by blast
  have 2: "\<forall>pk n. map_of m pk = Some n \<longrightarrow>
      (\<exists>s. re_hex_key re s = Some pk \<and> mentions (chunk_answers re client contacts) s = n \<and> 3 < n)"
    unfolding m' using t(1) by blast
  have 3: "concat (chunks 50 contacts) = contacts" by (rule chunks_concat) simp
  show ?thesis using p contacts_def 1 2 3 by blast
qed

text \<open>An owner with four contacts, each of whom names one key.\<close>

definition sample_relays :: relay_env where
  "sample_relays = \<lparr>re_add = \<lambda>_. None,
     re_fetch = \<lambda>_ f. Inr (map (\<lambda>pk. \<lparr>ev_id = [], ev_pubkey = pk, ev_created_at = 0, ev_kind = 3,
        ev_tags = map (\<lambda>k. (''p'', Some k)) (if pk = ''o'' then [''a'', ''b'', ''c'', ''d''] else [''x'']), ev_content = []\<rparr>) (rf_authors f)),
     re_parse_key = Some, re_hex_key = Some\<rparr>"

theorem trust_network_exact_witness:
  "\<exists>m. refresh_trust_network sample_relays [''o''] = Inr m \<and> map_of m ''x'' \<noteq> None \<and> map_of m ''a'' = None"
proof -
  have pool: "create_pool sample_relays [] = Inr SEED_RELAYS"
    by (simp add: create_pool_def SEED_RELAYS_def sample_relays_def)
  have net: "get_followers sample_relays SEED_RELAYS [''o''] = Inr [(''o'', [''a'', ''b'', ''c'', ''d''])]"
    by code_simp
  have ans: "chunk_answers sample_relays SEED_RELAYS [''a'', ''b'', ''c'', ''d''] =
      [[(''a'', [''x'']), (''b'', [''x'']), (''c'', [''x'']), (''d'', [''x''])]]"
    by code_simp
  obtain m where m: "refresh_trust_network sample_relays [''o''] = Inr m"
    using pool net by (simp add: refresh_trust_network_def)
  have hex: "re_hex_key sample_relays = Some" by (simp add: sample_relays_def)
  have "\<forall>pk. map_of m pk \<noteq> None \<longleftrightarrow> (\<exists>s. Some s = Some pk \<and> 3 < mentions (chunk_answers sample_relays SEED_RELAYS [''a'', ''b'', ''c'', ''d'']) s)"
    using trust_network_exact [OF m] pool net hex by auto
  then have "\<forall>pk. map_of m pk \<noteq> None \<longleftrightarrow> 3 < mentions (chunk_answers sample_relays SEED_RELAYS [''a'', ''b'', ''c'', ''d'']) pk"
    by simp
  then have x: "map_of m ''x'' \<noteq> None" "\<not> map_of m ''a'' \<noteq> None"
    unfolding ans by (simp_all add: mentions_def)
  then show ?thesis using m by auto
qed

end
