(* ===== verification/Settings.thy ===== *)
theory Settings
  imports Storage Cashu
begin

text \<open>
  The configuration: \<open>src/config.rs\<close>, and what \<open>build_state\<close> of \<open>src/lib.rs\<close> makes of it. Reading
  arguments and variables is clap's, reading the dotenv file dotenvy's, and parsing public keys nostr's
  work; modelled are the value parsers, the cross-field checks, the translation of the deprecated names
  and the order in which the sources override each other. Durations are whole seconds.
\<close>

section \<open>Values\<close>

definition checked_mul :: "u64 \<Rightarrow> u64 \<Rightarrow> u64 option" where
  "checked_mul a b = (if unat a * unat b < 2 ^ 64 then Some (a * b) else None)"

definition parse_with_unit :: "string \<Rightarrow> (string \<times> u64) list \<Rightarrow> string \<Rightarrow> string + u64" where
  "parse_with_unit raw units example =
     (let s = trim raw; unit_names = join_with '', '' (map fst units) in
      if s = ''0'' then Inr 0
      else if list_all is_ascii_digit s then Inl (''missing unit ('' @ unit_names @ ''), e.g. '' @ example)
      else let number = takeWhile is_ascii_digit s; un = dropWhile is_ascii_digit s in
        case parse_u64 number of
          None \<Rightarrow> Inl (''expected <number><unit>, e.g. '' @ example)
        | Some n \<Rightarrow>
            (case find (\<lambda>(u, _). eq_ignore_ascii_case u un) units of
               None \<Rightarrow> Inl (''unknown unit '' @ [CHR 0x27] @ un @ [CHR 0x27] @ '', use one of '' @ unit_names)
             | Some (_, factor) \<Rightarrow> ok_or (checked_mul n factor) ''value too large''))"

definition duration_units :: "(string \<times> u64) list" where
  "duration_units = [(''s'', 1), (''m'', 60), (''h'', 3600), (''d'', 86400)]"

definition size_units :: "(string \<times> u64) list" where
  "size_units = [(''B'', 1), (''KiB'', 2 ^ 10), (''MiB'', 2 ^ 20), (''GiB'', 2 ^ 30), (''TiB'', 2 ^ 40)]"

definition parse_duration :: "string \<Rightarrow> string + u64" where
  "parse_duration s =
     (if list_ex is_ascii_uppercase s then Inl ''duration units are lowercase: s, m, h, d''
      else parse_with_unit s duration_units ''30s'')"

definition parse_size :: "string \<Rightarrow> string + u64" where
  "parse_size s = parse_with_unit s size_units ''100MiB''"

definition trimmed :: "(string \<Rightarrow> string + 'a) \<Rightarrow> string \<Rightarrow> string + 'a" where
  "trimmed parse s = (let t = trim s in if t = [] then Inl ''empty list element'' else parse t)"

definition parse_npub :: "(string \<Rightarrow> string + pubkey) \<Rightarrow> string \<Rightarrow> string + pubkey" where
  "parse_npub from_bech32 s =
     (case from_bech32 (trim s) of Inl err \<Rightarrow> Inl (''invalid npub: '' @ err) | Inr pk \<Rightarrow> Inr pk)"

section \<open>The settings\<close>

record settings =
  sg_bind_addr :: string
  sg_public_url :: "string option"
  sg_cors_origins :: "string list"
  sg_tls_enabled :: bool
  sg_tls_cert :: path
  sg_tls_key :: path
  sg_tls_self_signed :: bool
  sg_storage_path :: path
  sg_storage_max_size :: u64
  sg_storage_max_files :: nat
  sg_storage_min_free :: u64
  sg_blob_max_size :: u64
  sg_cleanup_interval :: u64
  sg_upload_max_age :: u64
  sg_upstream_cache_ttl :: u64
  sg_s3_endpoint :: "string option"
  sg_s3_bucket :: "string option"
  sg_s3_access_key_id :: "string option"
  sg_s3_secret_access_key :: "string option"
  sg_s3_region :: string
  sg_s3_force_path_style :: bool
  sg_upload_access :: feature_mode
  sg_mirror_access :: feature_mode
  sg_custom_origin_access :: feature_mode
  sg_report_access :: feature_mode
  sg_report_action :: report_action
  sg_list_enabled :: bool
  sg_homepage_enabled :: bool
  sg_allowed_npubs :: "pubkey list"
  sg_auth_max_ttl :: u64
  sg_auth_clock_skew :: u64
  sg_auth_require_server_tag :: bool
  sg_chunk_max_size :: u64
  sg_chunk_session_timeout :: u64
  sg_chunk_max_sessions :: nat
  sg_chunk_max_sessions_per_pubkey :: nat
  sg_hls_mirror_concurrency :: nat
  sg_upstream_servers :: "string list"
  sg_upstream_mode :: upstream_mode
  sg_upstream_max_download_size :: u64
  sg_metrics_token :: "string option"
  sg_serve_files_path :: "path option"
  sg_serve_files_manifest_dir :: path
  sg_serve_files_manifest_name :: string
  sg_serve_files_refresh_interval :: u64
  sg_cashu_paid :: "paid_operation list"
  sg_cashu_price_per_mib :: u64
  sg_cashu_mint :: "string option"
  sg_cashu_wallet_path :: path
  sg_server_list_cache_ttl :: u64
  sg_filter_algorithm :: string
  sg_dvm_kinds :: "nat list"
  sg_dvm_relays :: "string list"
  sg_dvm_refresh_interval :: u64

text \<open>\<open>Config::defaults\<close>: the \<open>default_value\<close> of every argument, read by its parser.\<close>

definition defaults :: settings where
  "defaults =
     \<lparr>sg_bind_addr = ''127.0.0.1:3000'', sg_public_url = None, sg_cors_origins = [], sg_tls_enabled = False,
      sg_tls_cert = [''.'', ''cert.pem''], sg_tls_key = [''.'', ''key.pem''], sg_tls_self_signed = False,
      sg_storage_path = [''.'', ''files''], sg_storage_max_size = 0, sg_storage_max_files = 0,
      sg_storage_min_free = 256 * 2 ^ 20, sg_blob_max_size = 500 * 2 ^ 20, sg_cleanup_interval = 30,
      sg_upload_max_age = 0, sg_upstream_cache_ttl = 86400, sg_s3_endpoint = None, sg_s3_bucket = None,
      sg_s3_access_key_id = None, sg_s3_secret_access_key = None, sg_s3_region = ''auto'',
      sg_s3_force_path_style = False, sg_upload_access = Public, sg_mirror_access = Public,
      sg_custom_origin_access = Off, sg_report_access = Off, sg_report_action = Quarantine,
      sg_list_enabled = True, sg_homepage_enabled = True, sg_allowed_npubs = [], sg_auth_max_ttl = 24 * 3600,
      sg_auth_clock_skew = 30, sg_auth_require_server_tag = False, sg_chunk_max_size = 100 * 2 ^ 20,
      sg_chunk_session_timeout = 30 * 60, sg_chunk_max_sessions = 128, sg_chunk_max_sessions_per_pubkey = 8,
      sg_hls_mirror_concurrency = 4, sg_upstream_servers = [], sg_upstream_mode = Proxy,
      sg_upstream_max_download_size = 100 * 2 ^ 20, sg_metrics_token = None, sg_serve_files_path = None,
      sg_serve_files_manifest_dir = [''tmp''], sg_serve_files_manifest_name = ''manifest-sha256.txt'',
      sg_serve_files_refresh_interval = 3600, sg_cashu_paid = [], sg_cashu_price_per_mib = 1, sg_cashu_mint = None,
      sg_cashu_wallet_path = [''.'', ''cashu_wallet.db''], sg_server_list_cache_ttl = 24 * 3600,
      sg_filter_algorithm = ''binary-fuse-16'', sg_dvm_kinds = [], sg_dvm_relays = [], sg_dvm_refresh_interval = 5 * 60\<rparr>"

definition config_public_url :: "settings \<Rightarrow> string" where
  "config_public_url s =
     (case sg_public_url s of
        Some u \<Rightarrow> u
      | None \<Rightarrow> (if sg_tls_enabled s then ''https'' else ''http'') @ ''://127.0.0.1:3000'')"

definition is_region_char :: "char \<Rightarrow> bool" where
  "is_region_char ch \<longleftrightarrow> is_ascii_digit ch \<or> is_ascii_uppercase ch \<or> is_ascii_lowercase ch \<or> ch = CHR ''-''"

text \<open>\<open>check\<close>; \<open>cashu_built\<close> is \<open>cfg!(feature = "cashu")\<close>.\<close>

definition check_settings :: "bool \<Rightarrow> settings \<Rightarrow> string + unit" where
  "check_settings cashu_built s =
     (let s3_set = length (filter (\<lambda>x. x \<noteq> None)
            [sg_s3_endpoint s, sg_s3_bucket s, sg_s3_access_key_id s, sg_s3_secret_access_key s]) in
      if s3_set \<noteq> 0 \<and> s3_set \<noteq> 4
      then Inl (''Incomplete S3 configuration: ALMOND_S3_ENDPOINT, ALMOND_S3_BUCKET, '' @
                ''ALMOND_S3_ACCESS_KEY_ID and ALMOND_S3_SECRET_ACCESS_KEY must be set together'')
      else if sg_s3_region s = [] \<or> \<not> list_all is_region_char (sg_s3_region s)
      then Inl ''ALMOND_S3_REGION must be a region name such as auto or us-east-1''
      else if sg_cleanup_interval s = 0 then Inl ''ALMOND_CLEANUP_INTERVAL must be greater than zero''
      else if sg_auth_max_ttl s = 0 then Inl ''ALMOND_AUTH_MAX_TTL must be greater than zero''
      else if sg_chunk_max_size s > sg_blob_max_size s
      then Inl ''ALMOND_CHUNK_MAX_SIZE must not exceed ALMOND_BLOB_MAX_SIZE''
      else if \<not> cashu_built \<and> sg_cashu_paid s \<noteq> []
      then Inl ''ALMOND_CASHU_PAID is set but almond was built without the cashu feature''
      else if sg_cashu_paid s \<noteq> [] \<and> \<not> (case sg_cashu_mint s of None \<Rightarrow> False | Some m \<Rightarrow> CHR '','' \<notin> set m)
      then Inl ''ALMOND_CASHU_PAID requires exactly one ALMOND_CASHU_MINT''
      else if (requires_dvm (sg_upload_access s) \<or> requires_dvm (sg_mirror_access s)) \<and> sg_dvm_kinds s = []
      then Inl (''ALMOND_DVM_KINDS must be set when any access mode is '' @ [CHR 0x27] @ ''dvm'' @ [CHR 0x27])
      else Inr ())"

definition nonblank :: "string option \<Rightarrow> string option" where
  "nonblank token = (case token of None \<Rightarrow> None | Some t \<Rightarrow> if trim t = [] then None else Some t)"

definition validate_settings :: "bool \<Rightarrow> settings \<Rightarrow> string + settings" where
  "validate_settings cashu_built s =
     and_then (check_settings cashu_built s) (\<lambda>_. Inr (s\<lparr>sg_metrics_token := nonblank (sg_metrics_token s)\<rparr>))"

section \<open>Deprecated names\<close>

definition env_name :: "string \<Rightarrow> string" where
  "env_name long = ''ALMOND_'' @ map (\<lambda>ch. if ch = CHR ''-'' then CHR ''_'' else ch) (map ascii_upper long)"

datatype legacy = Legacy_Same | Legacy_Unit string | Legacy_Mode

definition LEGACY :: "(string \<times> string \<times> legacy) list" where
  "LEGACY =
     [(''BIND_ADDR'', ''BIND_ADDR'', Legacy_Same), (''PUBLIC_URL'', ''PUBLIC_URL'', Legacy_Same),
      (''CORS_ALLOWED_ORIGINS'', ''CORS_ORIGINS'', Legacy_Same), (''ENABLE_HTTPS'', ''TLS_ENABLED'', Legacy_Same),
      (''TLS_CERT_PATH'', ''TLS_CERT'', Legacy_Same), (''TLS_KEY_PATH'', ''TLS_KEY'', Legacy_Same),
      (''TLS_AUTO_GENERATE'', ''TLS_SELF_SIGNED'', Legacy_Same), (''STORAGE_PATH'', ''STORAGE_PATH'', Legacy_Same),
      (''MAX_TOTAL_SIZE'', ''STORAGE_MAX_SIZE'', Legacy_Unit ''MiB''), (''MAX_TOTAL_FILES'', ''STORAGE_MAX_FILES'', Legacy_Same),
      (''MIN_FREE_DISK_MB'', ''STORAGE_MIN_FREE'', Legacy_Unit ''MiB''), (''MAX_BLOB_SIZE_MB'', ''BLOB_MAX_SIZE'', Legacy_Unit ''MiB''),
      (''CLEANUP_INTERVAL_SECS'', ''CLEANUP_INTERVAL'', Legacy_Unit ''s''), (''MAX_FILE_AGE_DAYS'', ''UPLOAD_MAX_AGE'', Legacy_Unit ''d''),
      (''MAX_UPSTREAM_CACHE_TTL_DAYS'', ''UPSTREAM_CACHE_TTL'', Legacy_Unit ''d''),
      (''FEATURE_UPLOAD_ENABLED'', ''UPLOAD_ACCESS'', Legacy_Mode), (''FEATURE_MIRROR_ENABLED'', ''MIRROR_ACCESS'', Legacy_Mode),
      (''FEATURE_CUSTOM_UPSTREAM_ORIGIN_ENABLED'', ''CUSTOM_ORIGIN_ACCESS'', Legacy_Mode),
      (''FEATURE_REPORT_ENABLED'', ''REPORT_ACCESS'', Legacy_Mode), (''REPORT_ACTION'', ''REPORT_ACTION'', Legacy_Same),
      (''FEATURE_LIST_ENABLED'', ''LIST_ENABLED'', Legacy_Same), (''FEATURE_HOMEPAGE_ENABLED'', ''HOMEPAGE_ENABLED'', Legacy_Same),
      (''ALLOWED_NPUBS'', ''ALLOWED_NPUBS'', Legacy_Same), (''AUTH_MAX_TTL_SECS'', ''AUTH_MAX_TTL'', Legacy_Unit ''s''),
      (''AUTH_CLOCK_SKEW_SECS'', ''AUTH_CLOCK_SKEW'', Legacy_Unit ''s''),
      (''AUTH_REQUIRE_SERVER_TAG'', ''AUTH_REQUIRE_SERVER_TAG'', Legacy_Same),
      (''MAX_CHUNK_SIZE_MB'', ''CHUNK_MAX_SIZE'', Legacy_Unit ''MiB''),
      (''CHUNK_CLEANUP_TIMEOUT_MINUTES'', ''CHUNK_SESSION_TIMEOUT'', Legacy_Unit ''m''),
      (''MAX_CHUNK_UPLOAD_SESSIONS'', ''CHUNK_MAX_SESSIONS'', Legacy_Same),
      (''MAX_CHUNK_UPLOAD_SESSIONS_PER_PUBKEY'', ''CHUNK_MAX_SESSIONS_PER_PUBKEY'', Legacy_Same),
      (''HLS_MIRROR_CONCURRENCY'', ''HLS_MIRROR_CONCURRENCY'', Legacy_Same), (''UPSTREAM_SERVERS'', ''UPSTREAM_SERVERS'', Legacy_Same),
      (''UPSTREAM_MODE'', ''UPSTREAM_MODE'', Legacy_Same),
      (''MAX_UPSTREAM_DOWNLOAD_SIZE_MB'', ''UPSTREAM_MAX_DOWNLOAD_SIZE'', Legacy_Unit ''MiB''),
      (''METRICS_BEARER_TOKEN'', ''METRICS_TOKEN'', Legacy_Same), (''SERVE_FILES_PATH'', ''SERVE_FILES_PATH'', Legacy_Same),
      (''SERVE_FILES_MANIFEST_DIR'', ''SERVE_FILES_MANIFEST_DIR'', Legacy_Same),
      (''SERVE_FILES_MANIFEST_NAME'', ''SERVE_FILES_MANIFEST_NAME'', Legacy_Same),
      (''SERVE_FILES_REFRESH_INTERVAL_SECS'', ''SERVE_FILES_REFRESH_INTERVAL'', Legacy_Unit ''s''),
      (''CASHU_PRICE_PER_MB'', ''CASHU_PRICE_PER_MIB'', Legacy_Same), (''CASHU_ACCEPTED_MINTS'', ''CASHU_MINT'', Legacy_Same),
      (''CASHU_WALLET_PATH'', ''CASHU_WALLET_PATH'', Legacy_Same),
      (''BLOSSOM_SERVER_LIST_CACHE_TTL_HOURS'', ''SERVER_LIST_CACHE_TTL'', Legacy_Unit ''h''),
      (''FILTER_ALGORITHM'', ''FILTER_ALGORITHM'', Legacy_Same), (''DVM_ALLOWED_KINDS'', ''DVM_KINDS'', Legacy_Same),
      (''DVM_RELAYS'', ''DVM_RELAYS'', Legacy_Same), (''DVM_REFRESH_INTERVAL_MINS'', ''DVM_REFRESH_INTERVAL'', Legacy_Unit ''m'')]"

definition LEGACY_PAID :: "(string \<times> string) list" where
  "LEGACY_PAID =
     [(''FEATURE_PAID_UPLOAD'', ''upload''), (''FEATURE_PAID_MIRROR'', ''mirror''), (''FEATURE_PAID_DOWNLOAD'', ''download'')]"

definition legacy_value :: "legacy \<Rightarrow> string \<Rightarrow> string" where
  "legacy_value kind raw =
     (let v = trim raw in
      case kind of
        Legacy_Same \<Rightarrow> v
      | Legacy_Unit un \<Rightarrow> v @ un
      | Legacy_Mode \<Rightarrow> (if to_lowercase v = ''true'' then ''public''
                        else if to_lowercase v = ''false'' then ''off'' else v))"

text \<open>The deprecated names that are set: old name, new name, translated value.\<close>

definition legacy_found :: "(string \<Rightarrow> string option) \<Rightarrow> (string \<times> string \<times> string) list" where
  "legacy_found get =
     concat (map (\<lambda>(old, new, kind). case get old of None \<Rightarrow> [] | Some v \<Rightarrow> [(old, ''ALMOND_'' @ new, legacy_value kind v)]) LEGACY) @
     (let paid = concat (map (\<lambda>(old, op). case get old of None \<Rightarrow> [] | Some v \<Rightarrow> [(op, v)]) LEGACY_PAID);
          ops = map fst (filter (\<lambda>(_, v). to_lowercase (trim v) \<in> {''true'', ''1'', ''on''}) paid)
      in if paid = [] then [] else [(''FEATURE_PAID_*'', env_name ''cashu-paid'', join_with '','' ops)])"

definition translate_legacy :: "(string \<Rightarrow> string option) \<Rightarrow> (string \<times> string) list \<times> string list" where
  "translate_legacy get_env =
     (let get = (\<lambda>nm. nonblank (get_env nm)); found = legacy_found get in
      (concat (map (\<lambda>(old, new, v). if get new \<noteq> None \<or> v = [] then [] else [(new, v)]) found),
       map (\<lambda>(old, new, v).
          if get new \<noteq> None then old @ '' is deprecated and ignored because '' @ new @ '' is set''
          else if v = [] then old @ '' is deprecated, use '' @ new
          else old @ '' is deprecated, use '' @ new @ ''='' @ v) found))"

section \<open>The environment\<close>

text \<open>Arguments are byte strings; \<open>utf8\<close> says which are text.\<close>

fun config_path_from_args :: "(string \<Rightarrow> bool) \<Rightarrow> string list \<Rightarrow> string option" where
  "config_path_from_args utf8 [] = None"
| "config_path_from_args utf8 (arg # args) =
     (if arg = ''--config'' then (case args of [] \<Rightarrow> None | p # _ \<Rightarrow> Some p)
      else case (if utf8 arg then strip_prefix ''--config='' arg else None) of
        Some p \<Rightarrow> Some p
      | None \<Rightarrow> config_path_from_args utf8 args)"

type_synonym env = "(string \<times> string) list"

definition remove_empty_almond_vars :: "(string \<Rightarrow> bool) \<Rightarrow> env \<Rightarrow> env" where
  "remove_empty_almond_vars utf8 = filter (\<lambda>(nm, v). \<not> (v = [] \<and> utf8 nm \<and> starts_with ''ALMOND_'' nm))"

text \<open>\<open>std::env::var(name).ok()\<close>: a value that is not text reads as unset.\<close>

definition env_var :: "(string \<Rightarrow> bool) \<Rightarrow> env \<Rightarrow> string \<Rightarrow> string option" where
  "env_var utf8 env nm = (case map_of env nm of None \<Rightarrow> None | Some v \<Rightarrow> if utf8 v then Some v else None)"

definition config_file :: "(string \<Rightarrow> bool) \<Rightarrow> bool \<Rightarrow> string list \<Rightarrow> env \<Rightarrow> string option" where
  "config_file utf8 dot_env_exists args env =
     (case config_path_from_args utf8 args of
        Some p \<Rightarrow> Some p
      | None \<Rightarrow> (case map_of env (env_name ''config'') of
          Some p \<Rightarrow> Some p
        | None \<Rightarrow> if dot_env_exists then Some ''.env'' else None))"

text \<open>
  \<open>dotenv p env\<close>: \<open>dotenvy::from_path\<close>, the environment with the file's variables added, or why the file
  cannot be read. Setting a variable replaces it.
\<close>

definition load_env_file ::
  "(string \<Rightarrow> bool) \<Rightarrow> (string \<Rightarrow> env \<Rightarrow> string + env) \<Rightarrow> bool \<Rightarrow> string list \<Rightarrow> env \<Rightarrow> string + (string list \<times> env)" where
  "load_env_file utf8 dotenv dot_env_exists args env =
     (let env1 = remove_empty_almond_vars utf8 env
      in and_then (case config_file utf8 dot_env_exists args env1 of
             None \<Rightarrow> Inr env1
           | Some p \<Rightarrow> (case dotenv p env1 of
                 Inl err \<Rightarrow> Inl (''Cannot load config file '' @ p @ '': '' @ err)
               | Inr env2 \<Rightarrow> Inr env2)) (\<lambda>env2.
           let env3 = remove_empty_almond_vars utf8 env2;
               (translated, warnings) = translate_legacy (env_var utf8 env3)
           in Inr (warnings, fold (\<lambda>(nm, v) env. hm_insert nm v env) translated env3)))"

section \<open>The state built from the settings\<close>

definition app_config_of :: "settings \<Rightarrow> app_config" where
  "app_config_of s =
     \<lparr>storage = storage_layout_new (sg_storage_path s), max_total_size = sg_storage_max_size s,
      max_total_files = sg_storage_max_files s, max_blob_size_bytes = sg_blob_max_size s,
      min_free_disk_bytes = sg_storage_min_free s, cors_allowed_origins = sg_cors_origins s,
      public_url = config_public_url s, allowed_pubkeys = sg_allowed_npubs s,
      max_file_age_secs = sg_upload_max_age s, max_upstream_cache_ttl_secs = sg_upstream_cache_ttl s,
      upstream_servers = sg_upstream_servers s, upstream_mode_of = sg_upstream_mode s,
      max_upstream_download_size_bytes = sg_upstream_max_download_size s, max_chunk_size_bytes = sg_chunk_max_size s,
      chunk_cleanup_timeout = unat (sg_chunk_session_timeout s),
      feature_upload_enabled = sg_upload_access s, feature_mirror_enabled = sg_mirror_access s,
      feature_list_enabled = sg_list_enabled s, feature_custom_upstream_origin_enabled = sg_custom_origin_access s,
      feature_homepage_enabled = sg_homepage_enabled s, filter_algorithm = sg_filter_algorithm s,
      report_action_of = sg_report_action s, feature_report_enabled = sg_report_access s,
      auth_max_ttl_secs = sg_auth_max_ttl s, auth_clock_skew_secs = sg_auth_clock_skew s,
      auth_require_server_tag = sg_auth_require_server_tag s, metrics_bearer_token = nonblank (sg_metrics_token s),
      feature_paid_upload = (Paid_Upload \<in> set (sg_cashu_paid s)), feature_paid_mirror = (Paid_Mirror \<in> set (sg_cashu_paid s)),
      feature_paid_download = (Paid_Download \<in> set (sg_cashu_paid s)), cashu_price_per_mb = sg_cashu_price_per_mib s,
      cashu_accepted_mints = (case sg_cashu_mint s of None \<Rightarrow> [] | Some m \<Rightarrow> [m]),
      blossom_server_list_cache_ttl = unat (sg_server_list_cache_ttl s),
      max_chunk_upload_sessions = sg_chunk_max_sessions s,
      max_chunk_upload_sessions_per_pubkey = sg_chunk_max_sessions_per_pubkey s, serve_files_path = sg_serve_files_path s,
      serve_files_manifest_dir = sg_serve_files_manifest_dir s, serve_files_manifest_name = sg_serve_files_manifest_name s,
      dvm_allowed_kinds = sg_dvm_kinds s, dvm_relays = sg_dvm_relays s\<rparr>"

section \<open>Quantities\<close>

text \<open>What a quantity means: a lone zero, or digits and a unit, as a natural number.\<close>

definition denotes :: "(string \<times> u64) list \<Rightarrow> string \<Rightarrow> nat \<Rightarrow> bool" where
  "denotes units s m \<longleftrightarrow> s = ''0'' \<and> m = 0 \<or>
     (\<exists>d v u f. s = d @ v \<and> d \<noteq> [] \<and> list_all is_ascii_digit d \<and> (u, f) \<in> set units \<and>
        eq_ignore_ascii_case u v \<and> m = digits_val d * unat f)"

text \<open>What the parser needs of its table: no unit starts with a digit or is empty, none is spelled twice,
  no factor is zero.\<close>

definition units_ok :: "(string \<times> u64) list \<Rightarrow> bool" where
  "units_ok units \<longleftrightarrow> (\<forall>(u, f) \<in> set units. u \<noteq> [] \<and> \<not> is_ascii_digit (ascii_lower (hd u)) \<and> 0 < unat f) \<and>
     distinct (map (to_lowercase \<circ> fst) units)"

lemma ascii_lower_digit: "is_ascii_digit (ascii_lower c) \<longleftrightarrow> is_ascii_digit c"
  by (auto simp: ascii_lower_def is_ascii_digit_def is_ascii_uppercase_def byte_of_def)

lemma units_ok_split:
  assumes "units_ok units" "(u, f) \<in> set units" "eq_ignore_ascii_case u v" "list_all is_ascii_digit d"
  shows "takeWhile is_ascii_digit (d @ v) = d" "dropWhile is_ascii_digit (d @ v) = v"
    "\<not> list_all is_ascii_digit (d @ v)" "find (\<lambda>(u, _). eq_ignore_ascii_case u v) units = Some (u, f)" "0 < unat f"
proof -
  have u: "u \<noteq> []" "\<not> is_ascii_digit (ascii_lower (hd u))" and f: "0 < unat f"
    and dist: "distinct (map (to_lowercase \<circ> fst) units)"
    using assms(1,2) by (auto simp: units_ok_def)
  obtain c cs where v: "v = c # cs" and c: "\<not> is_ascii_digit c"
    using u assms(3) by (cases u; cases v) (auto simp: eq_ignore_ascii_case_def ascii_lower_digit)
  have d: "\<forall>x \<in> set d. is_ascii_digit x" using assms(4) by (simp add: list_all_iff)
  show "takeWhile is_ascii_digit (d @ v) = d" "dropWhile is_ascii_digit (d @ v) = v"
    using v c d by (simp_all add: takeWhile_append2 dropWhile_append2)
  show "\<not> list_all is_ascii_digit (d @ v)" using v c by simp
  show "find (\<lambda>(u, _). eq_ignore_ascii_case u v) units = Some (u, f)"
    using dist assms(2,3)
    by (induction units) (force simp: eq_ignore_ascii_case_def)+
  show "0 < unat f" by (rule f)
qed

lemma unat_mult_checked: "checked_mul a b = Some n \<longleftrightarrow> unat n = unat a * unat b"
  using unat_u64_bound [of n]
  by (auto simp: checked_mul_def unat_word_ariths word_unat_eq_iff mod_less simp del: unat_u64_bound_numeral)

lemma parse_u64_value: "list_all is_ascii_digit d \<Longrightarrow> d \<noteq> [] \<Longrightarrow> parse_u64 d = Some n \<longleftrightarrow> unat n = digits_val d"
  using unat_u64_bound [of n]
  by (auto simp: parse_u64_digits unat_of_nat word_unat_eq_iff simp del: unat_u64_bound_numeral)

lemma parse_with_unit_iff:
  assumes "units_ok units"
  shows "parse_with_unit s units ex = Inr n \<longleftrightarrow> denotes units (trim s) (unat n)"
proof
  assume p: "parse_with_unit s units ex = Inr n"
  show "denotes units (trim s) (unat n)"
  proof (cases "trim s = ''0''")
    case True
    then show ?thesis using p by (simp add: parse_with_unit_def denotes_def)
  next
    case False
    define d v where "d = takeWhile is_ascii_digit (trim s)" and "v = dropWhile is_ascii_digit (trim s)"
    obtain a u f where q: "parse_u64 d = Some a" "find (\<lambda>(u, _). eq_ignore_ascii_case u v) units = Some (u, f)"
      "checked_mul a f = Some n"
      using p False by (auto simp: parse_with_unit_def Let_def d_def v_def ok_or_def split: if_splits option.splits prod.splits)
    have digs: "list_all is_ascii_digit d" by (auto simp: d_def list_all_iff dest: set_takeWhileD)
    have ne: "d \<noteq> []" using q(1) by (auto simp: parse_u64_def)
    have "(u, f) \<in> set units" "eq_ignore_ascii_case u v"
      using q(2) unfolding find_Some_iff by (auto intro: nth_mem dest: sym)
    moreover have "unat n = digits_val d * unat f"
      using q(1,3) parse_u64_value [OF digs ne] by (simp add: unat_mult_checked)
    moreover have "trim s = d @ v" by (simp add: d_def v_def)
    ultimately show ?thesis using digs ne unfolding denotes_def by blast
  qed
next
  assume dn: "denotes units (trim s) (unat n)"
  show "parse_with_unit s units ex = Inr n"
  proof (cases "trim s = ''0'' \<and> unat n = 0")
    case True
    then show ?thesis by (simp add: parse_with_unit_def unat_eq_0)
  next
    case False
    then obtain d v u f where q: "trim s = d @ v" "d \<noteq> []" "list_all is_ascii_digit d" "(u, f) \<in> set units"
        "eq_ignore_ascii_case u v" "unat n = digits_val d * unat f"
      using dn by (auto simp: denotes_def)
    note sp = units_ok_split [OF assms q(4,5,3)]
    have "list_all is_ascii_digit ''0''" by (simp add: is_ascii_digit_def byte_of_def)
    then have z: "d @ v \<noteq> ''0''" using sp(3) by metis
    have "digits_val d \<le> unat n" using q(6) sp(5) by simp
    then have "digits_val d < 2 ^ 64" using unat_u64_bound [of n] by (rule le_less_trans)
    then have p: "parse_u64 d = Some (word_of_nat (digits_val d))" by (simp add: parse_u64_digits [OF q(3,2)])
    define a :: u64 where "a = word_of_nat (digits_val d)"
    have a: "parse_u64 d = Some a" "unat a = digits_val d"
      using p parse_u64_value [OF q(3,2), of a] by (simp_all add: a_def)
    have "checked_mul a f = Some n" using q(6) a(2) by (simp add: unat_mult_checked)
    then show ?thesis using q(1) sp z a(1) by (simp add: parse_with_unit_def Let_def ok_or_def)
  qed
qed

lemma size_units_ok: "units_ok size_units"
  by (simp add: units_ok_def size_units_def ascii_lower_def is_ascii_digit_def is_ascii_uppercase_def byte_of_def)

lemma duration_units_ok: "units_ok duration_units"
  by (simp add: units_ok_def duration_units_def ascii_lower_def is_ascii_digit_def is_ascii_uppercase_def byte_of_def)

text \<open>C32: Sizes and durations of the configuration are read exactly: a value is accepted with result n
  precisely when, spaces around it apart, it is a lone zero or digits followed by a unit of the table (in
  any case for sizes; a duration has no capital letter), and the product of the two as natural numbers is
  n. So nothing wraps around: a product that does not fit 64 bits is refused, as are a missing and an
  unknown unit.\<close>
theorem quantities_parse:
  "(parse_size s = Inr n \<longleftrightarrow> denotes size_units (trim s) (unat n)) \<and>
   (parse_duration s = Inr n \<longleftrightarrow>
      list_all (\<lambda>c. \<not> is_ascii_uppercase c) s \<and> denotes duration_units (trim s) (unat n))"
  using parse_with_unit_iff [OF size_units_ok, of s "''100MiB''" n]
    parse_with_unit_iff [OF duration_units_ok, of s "''30s''" n]
  by (auto simp: parse_size_def parse_duration_def list_ex_iff list_all_iff)

section \<open>Deprecated names\<close>

lemma distinct_concat_keys:
  assumes "distinct (map f xs)" "\<And>x y. x \<in> set xs \<Longrightarrow> y \<in> set (g x) \<Longrightarrow> h y = f x"
    "\<And>x. x \<in> set xs \<Longrightarrow> length (g x) \<le> 1"
  shows "distinct (map h (concat (map g xs)))"
  using assms
proof (induction xs)
  case Nil
  then show ?case by simp
next
  case (Cons x xs)
  have 1: "distinct (map h (concat (map g xs)))" using Cons by simp
  have 2: "h y = f x" if "y \<in> set (g x)" for y using Cons.prems(2) that by simp
  have 3: "\<exists>z \<in> set xs. h y = f z" if "y \<in> set (concat (map g xs))" for y using Cons.prems(2) that by auto
  have "length (g x) \<le> 1" using Cons.prems(3) by simp
  then have "distinct (map h (g x))" by (cases "g x") auto
  with 1 2 3 Cons.prems(1) show ?case by (fastforce simp: image_iff)
qed

lemma legacy_news_distinct: "distinct (map (\<lambda>(old, new, kind). new) LEGACY)"
  by (simp add: LEGACY_def)

lemma legacy_new_unique:
  assumes "(o1, new, k1) \<in> set LEGACY" "(o2, new, k2) \<in> set LEGACY"
  shows "o1 = o2" "k1 = k2"
proof -
  have "inj_on (\<lambda>(old, new, kind). new) (set LEGACY)" using legacy_news_distinct by (simp add: distinct_map)
  from inj_onD [OF this _ assms] show "o1 = o2" "k1 = k2" by simp_all
qed

lemma cashu_paid_not_legacy: "(old, new, kind) \<in> set LEGACY \<Longrightarrow> new \<noteq> ''CASHU_PAID''"
  by (auto simp: LEGACY_def)

lemma env_name_cashu_paid: "env_name ''cashu-paid'' = ''ALMOND_CASHU_PAID''"
  by code_simp

definition renamed :: "(string \<Rightarrow> string option) \<Rightarrow> (string \<times> string \<times> string) list" where
  "renamed get = concat (map (\<lambda>(old, new, kind).
     case get old of None \<Rightarrow> [] | Some v \<Rightarrow> [(old, ''ALMOND_'' @ new, legacy_value kind v)]) LEGACY)"

lemma legacy_found_renamed:
  "\<exists>paid. legacy_found get = renamed get @ paid \<and> (paid = [] \<or> (\<exists>old v. paid = [(old, ''ALMOND_CASHU_PAID'', v)]))"
  by (auto simp: legacy_found_def renamed_def Let_def env_name_cashu_paid)

lemma renamed_mem:
  "(old, nm, v) \<in> set (renamed get) \<longleftrightarrow>
     (\<exists>new kind raw. (old, new, kind) \<in> set LEGACY \<and> nm = ''ALMOND_'' @ new \<and> get old = Some raw \<and>
        v = legacy_value kind raw)"
  unfolding renamed_def by (force split: option.splits)

lemma legacy_found_distinct: "distinct (map (\<lambda>(old, new, v). new) (legacy_found get))"
proof -
  have 1: "distinct (map (\<lambda>(old, new, kind). ''ALMOND_'' @ new) LEGACY)"
    using legacy_news_distinct by (auto simp: distinct_map inj_on_def)
  have 2: "distinct (map (\<lambda>(old, new, v). new) (renamed get))"
    unfolding renamed_def
    by (rule distinct_concat_keys [OF 1]) (auto split: option.splits)
  have 3: "''ALMOND_CASHU_PAID'' \<notin> set (map (\<lambda>(old, new, v). new) (renamed get))"
    by (auto simp: renamed_mem dest: cashu_paid_not_legacy)
  from legacy_found_renamed [of get] 2 3 show ?thesis by auto
qed

lemma legacy_found_iff:
  assumes "(old, new, kind) \<in> set LEGACY"
  shows "(old', ''ALMOND_'' @ new, v) \<in> set (legacy_found get) \<longleftrightarrow>
    old' = old \<and> (\<exists>raw. get old = Some raw \<and> v = legacy_value kind raw)"
proof -
  have u: "(o2, new, k2) \<in> set LEGACY \<longleftrightarrow> o2 = old \<and> k2 = kind" for o2 k2
    using assms legacy_new_unique [OF assms, of o2 k2] by blast
  show ?thesis
    using legacy_found_renamed [of get] cashu_paid_not_legacy [OF assms]
    by (auto simp: renamed_mem u)
qed

lemma legacy_value_nonempty: "trim raw \<noteq> [] \<Longrightarrow> legacy_value kind raw \<noteq> []"
  by (auto simp: legacy_value_def Let_def split: legacy.split)

lemma nonblank_Some: "nonblank t = Some raw \<longleftrightarrow> t = Some raw \<and> trim raw \<noteq> []"
  by (auto simp: nonblank_def split: option.splits)

lemma option_extI: "(\<And>v. a = Some v \<longleftrightarrow> b = Some v) \<Longrightarrow> a = b"
  by (metis option.exhaust)

lemma translate_legacy_wf: "hm_wf (fst (translate_legacy get))"
  unfolding translate_legacy_def Let_def fst_conv
  by (rule distinct_concat_keys [OF legacy_found_distinct]) (auto split: if_splits)

lemma map_of_rev_distinct: "hm_wf m \<Longrightarrow> map_of (rev m) = map_of m"
  by (intro ext option_extI) (simp add: map_of_eq_Some_iff rev_map [symmetric])

lemma translate_legacy_lookup:
  assumes "(old, new, kind) \<in> set LEGACY"
  shows "map_of (fst (translate_legacy get)) (''ALMOND_'' @ new) =
    (if nonblank (get (''ALMOND_'' @ new)) \<noteq> None then None else map_option (legacy_value kind) (nonblank (get old)))"
    (is "map_of ?out _ = ?r")
proof -
  let ?g = "\<lambda>nm. nonblank (get nm)"
  have d: "distinct (map fst ?out)" by (rule translate_legacy_wf)
  have m: "(nm, v) \<in> set ?out \<longleftrightarrow> ?g nm = None \<and> v \<noteq> [] \<and> (\<exists>old. (old, nm, v) \<in> set (legacy_found ?g))" for nm v
    by (auto simp: translate_legacy_def Let_def split: if_splits)
  define nm where "nm = ''ALMOND_'' @ new"
  have fi: "(o2, nm, v) \<in> set (legacy_found ?g) \<longleftrightarrow> o2 = old \<and> (\<exists>raw. ?g old = Some raw \<and> v = legacy_value kind raw)" for o2 v
    unfolding nm_def by (rule legacy_found_iff [OF assms])
  have ne: "legacy_value kind raw \<noteq> []" if "?g old = Some raw" for raw
    using that by (simp add: nonblank_Some legacy_value_nonempty)
  have "map_of ?out nm = Some v \<longleftrightarrow> ?g nm = None \<and> map_option (legacy_value kind) (?g old) = Some v" for v
    unfolding map_of_eq_Some_iff [OF d] m fi using ne by auto
  then have "map_of ?out nm = (if ?g nm \<noteq> None then None else map_option (legacy_value kind) (?g old))"
    by (intro option_extI) auto
  then show ?thesis unfolding nm_def .
qed

text \<open>
  What is assumed of \<open>dotenvy::from_path\<close>, as it documents: a variable that is set keeps its value, another
  takes the one the file has, if any. What the file has may depend on the environment it is read in, as
  \<open>dotenvy\<close> substitutes variables in values.
\<close>

definition dotenv_law :: "(string \<Rightarrow> env \<Rightarrow> string + env) \<Rightarrow> (string \<Rightarrow> env \<Rightarrow> string \<Rightarrow> string option) \<Rightarrow> bool" where
  "dotenv_law dotenv files \<longleftrightarrow> (\<forall>p e e'. hm_wf e \<longrightarrow> dotenv p e = Inr e' \<longrightarrow> hm_wf e' \<and>
     (\<forall>nm. map_of e' nm = (case map_of e nm of Some v \<Rightarrow> Some v | None \<Rightarrow> files p e nm)))"

definition nonempty :: "string option \<Rightarrow> string option" where
  "nonempty t = (case t of None \<Rightarrow> None | Some v \<Rightarrow> if v = [] then None else Some v)"

text \<open>
  What a variable of the new naming is to be: its own value where there is one with something in it, in the
  environment before the file, else the translated value of the deprecated name.
\<close>

definition layered :: "env \<Rightarrow> (string \<Rightarrow> string option) \<Rightarrow> string \<Rightarrow> string option" where
  "layered env file nm =
     (if starts_with ''ALMOND_'' nm
      then case nonempty (map_of env nm) of Some v \<Rightarrow> Some v | None \<Rightarrow> nonempty (file nm)
      else case map_of env nm of Some v \<Rightarrow> Some v | None \<Rightarrow> file nm)"

lemma legacy_old_name: "(old, new, kind) \<in> set LEGACY \<Longrightarrow> \<not> starts_with ''ALMOND_'' old"
  by (auto simp: LEGACY_def str_simps)

lemma remove_empty_lookup:
  "hm_wf e \<Longrightarrow> map_of (remove_empty_almond_vars utf8 e) nm =
     (if utf8 nm \<and> starts_with ''ALMOND_'' nm then nonempty (map_of e nm) else map_of e nm)"
  unfolding remove_empty_almond_vars_def
  by (subst hm_get_filter [where P = "\<lambda>nm v. \<not> (v = [] \<and> utf8 nm \<and> starts_with ''ALMOND_'' nm)"])
    (auto simp: nonempty_def split: option.splits)

lemma remove_empty_wf: "hm_wf e \<Longrightarrow> hm_wf (remove_empty_almond_vars utf8 e)"
  unfolding remove_empty_almond_vars_def by (rule hm_wf_filter)

lemma hm_get_inserts:
  "map_of (fold (\<lambda>(nm, v) e. hm_insert nm v e) tr e) k = (case map_of (rev tr) k of None \<Rightarrow> map_of e k | Some v \<Rightarrow> Some v)"
proof (induction tr arbitrary: e)
  case Nil
  then show ?case by simp
next
  case (Cons p tr)
  then show ?case
    by (cases p) (auto simp: hm_get_insert map_add_def split: option.splits)
qed

lemma load_env_layers:
  assumes ok: "load_env_file utf8 dotenv ex args env = Inr (ws, env')"
    and law: "dotenv_law dotenv files" and wf_env: "hm_wf env"
  obtains e3 where "hm_wf e3"
    "\<And>nm. utf8 nm \<or> \<not> starts_with ''ALMOND_'' nm \<Longrightarrow> map_of e3 nm = layered env
       (case config_file utf8 ex args (remove_empty_almond_vars utf8 env) of
          None \<Rightarrow> Map.empty | Some p \<Rightarrow> files p (remove_empty_almond_vars utf8 env)) nm"
    "\<And>nm. map_of env' nm = (case map_of (rev (fst (translate_legacy (env_var utf8 e3)))) nm of
        None \<Rightarrow> map_of e3 nm | Some v \<Rightarrow> Some v)"
proof -
  define e1 where "e1 = remove_empty_almond_vars utf8 env"
  define fl where "fl = (case config_file utf8 ex args e1 of None \<Rightarrow> Map.empty | Some p \<Rightarrow> files p e1)"
  have wf1: "hm_wf e1" unfolding e1_def by (rule remove_empty_wf [OF wf_env])
  obtain e2 where e2: "(case config_file utf8 ex args e1 of None \<Rightarrow> e2 = e1 | Some p \<Rightarrow> dotenv p e1 = Inr e2)"
    and out: "env' = fold (\<lambda>(nm, v) e. hm_insert nm v e)
       (fst (translate_legacy (env_var utf8 (remove_empty_almond_vars utf8 e2)))) (remove_empty_almond_vars utf8 e2)"
    using ok unfolding load_env_file_def Let_def e1_def [symmetric]
    by (auto simp: and_then_def split: option.splits sum.splits prod.splits)
  have wf2: "hm_wf e2" and look: "map_of e2 nm = (case map_of e1 nm of Some v \<Rightarrow> Some v | None \<Rightarrow> fl nm)" for nm
    using e2 law wf1 unfolding dotenv_law_def fl_def
    by (auto split: option.splits)
  let ?e3 = "remove_empty_almond_vars utf8 e2"
  show ?thesis
  proof (rule that [of ?e3])
    show "hm_wf ?e3" by (rule remove_empty_wf [OF wf2])
    show "map_of ?e3 nm = layered env (case config_file utf8 ex args (remove_empty_almond_vars utf8 env) of
        None \<Rightarrow> Map.empty | Some p \<Rightarrow> files p (remove_empty_almond_vars utf8 env)) nm" if "utf8 nm \<or> \<not> starts_with ''ALMOND_'' nm" for nm
      using that unfolding remove_empty_lookup [OF wf2] look e1_def [symmetric] fl_def [symmetric]
      unfolding e1_def remove_empty_lookup [OF wf_env] layered_def
      by (auto simp: nonempty_def split: option.splits)
    show "map_of env' nm = (case map_of (rev (fst (translate_legacy (env_var utf8 ?e3)))) nm of
        None \<Rightarrow> map_of ?e3 nm | Some v \<Rightarrow> Some v)" for nm
      unfolding out by (rule hm_get_inserts)
  qed
qed

text \<open>
  The deprecated names by themselves: the unit a name implies, the switches that became access modes, and
  the three payment switches that became one list. A value counts when it is text and not blank.
\<close>

definition implied_unit :: "string \<Rightarrow> string" where
  "implied_unit old =
     (if old = ''CASHU_PRICE_PER_MB'' then []
      else if ends_with ''_MB'' old \<or> old = ''MAX_TOTAL_SIZE'' then ''MiB''
      else if ends_with ''_SECS'' old then ''s''
      else if ends_with ''_MINS'' old \<or> ends_with ''_MINUTES'' old then ''m''
      else if ends_with ''_HOURS'' old then ''h''
      else if ends_with ''_DAYS'' old then ''d'' else [])"

definition access_switches :: "string list" where
  "access_switches = [''FEATURE_UPLOAD_ENABLED'', ''FEATURE_MIRROR_ENABLED'',
     ''FEATURE_CUSTOM_UPSTREAM_ORIGIN_ENABLED'', ''FEATURE_REPORT_ENABLED'']"

definition deprecated_value :: "string \<Rightarrow> string \<Rightarrow> string" where
  "deprecated_value old raw =
     (if old \<in> set access_switches
      then if to_lowercase (trim raw) = ''true'' then ''public''
           else if to_lowercase (trim raw) = ''false'' then ''off'' else trim raw
      else trim raw @ implied_unit old)"

definition usable :: "(string \<Rightarrow> bool) \<Rightarrow> string option \<Rightarrow> string option" where
  "usable utf8 t = (case t of Some v \<Rightarrow> if utf8 v \<and> trim v \<noteq> [] then Some v else None | None \<Rightarrow> None)"

definition paid_operations :: "(string \<Rightarrow> string option) \<Rightarrow> string list" where
  "paid_operations get = map fst (filter (\<lambda>(_, old).
     case get old of None \<Rightarrow> False | Some v \<Rightarrow> to_lowercase (trim v) \<in> {''true'', ''1'', ''on''})
     [(''upload'', ''FEATURE_PAID_UPLOAD''), (''mirror'', ''FEATURE_PAID_MIRROR''), (''download'', ''FEATURE_PAID_DOWNLOAD'')])"

lemma legacy_kinds:
  "\<forall>(old, new, kind) \<in> set LEGACY. kind = (if old \<in> set access_switches then Legacy_Mode
     else if implied_unit old = [] then Legacy_Same else Legacy_Unit (implied_unit old))"
proof -
  have "list_all (\<lambda>(old, new, kind). kind = (if old \<in> set access_switches then Legacy_Mode
     else if implied_unit old = [] then Legacy_Same else Legacy_Unit (implied_unit old))) LEGACY"
    by code_simp
  then show ?thesis by (simp add: list_all_iff)
qed

lemma legacy_deprecated: "(old, new, kind) \<in> set LEGACY \<Longrightarrow> legacy_value kind raw = deprecated_value old raw"
  using legacy_kinds by (auto simp: legacy_value_def deprecated_value_def Let_def split: if_splits)

lemma found_paid:
  assumes "\<And>x. get x = usable u (g x)"
  shows "(old', ''ALMOND_CASHU_PAID'', v) \<in> set (legacy_found get) \<Longrightarrow> v = join_with '','' (paid_operations get)"
    "paid_operations get \<noteq> [] \<Longrightarrow>
       (''FEATURE_PAID_*'', ''ALMOND_CASHU_PAID'', join_with '','' (paid_operations get)) \<in> set (legacy_found get)"
proof -
  let ?paid = "concat (map (\<lambda>(old, op). case get old of None \<Rightarrow> [] | Some v \<Rightarrow> [(op, v)]) LEGACY_PAID)"
  have ops: "map fst (filter (\<lambda>(_, v). to_lowercase (trim v) \<in> {''true'', ''1'', ''on''}) ?paid) = paid_operations get"
    by (simp add: LEGACY_PAID_def paid_operations_def split: option.splits)
  have found: "legacy_found get = renamed get @ (if ?paid = [] then [] else
      [(''FEATURE_PAID_*'', ''ALMOND_CASHU_PAID'', join_with '','' (paid_operations get))])"
    unfolding legacy_found_def Let_def ops renamed_def env_name_cashu_paid ..
  have "(old', ''ALMOND_CASHU_PAID'', v) \<notin> set (renamed get)" for v
    by (auto simp: renamed_mem dest: cashu_paid_not_legacy)
  then show "(old', ''ALMOND_CASHU_PAID'', v) \<in> set (legacy_found get) \<Longrightarrow> v = join_with '','' (paid_operations get)"
    unfolding found by (auto split: if_splits)
  have "?paid \<noteq> []" if some: "paid_operations get \<noteq> []"
  proof
    assume none: "?paid = []"
    show False using some unfolding ops [symmetric] none by simp
  qed
  then show "paid_operations get \<noteq> [] \<Longrightarrow>
       (''FEATURE_PAID_*'', ''ALMOND_CASHU_PAID'', join_with '','' (paid_operations get)) \<in> set (legacy_found get)"
    unfolding found by auto
qed

text \<open>C31: The environment wins over the configuration file, and both over the names of older releases.
  After a successful \<open>load_env_file\<close> a setting that has a deprecated name is: its own value, if the
  environment, or failing that the file, gives one that is not blank; else the value of the deprecated
  name, trimmed and translated: with the unit its name implies (\<open>MiB\<close>, \<open>s\<close>, \<open>m\<close>, \<open>h\<close>, \<open>d\<close>), or, for the
  four access switches, \<open>public\<close> for true and \<open>off\<close> for false; else what it was, an empty value counting
  as unset. \<open>ALMOND_CASHU_PAID\<close>, which replaces three switches, is likewise its own value, or else the
  comma-separated list of the operations whose deprecated switch is on, or else what it was.\<close>
theorem environment_precedence:
  assumes "load_env_file utf8 dotenv ex args env = Inr (ws, env')" "dotenv_law dotenv files" "hm_wf env"
  defines "fl \<equiv> (case config_file utf8 ex args (remove_empty_almond_vars utf8 env) of
      None \<Rightarrow> Map.empty | Some p \<Rightarrow> files p (remove_empty_almond_vars utf8 env))"
  shows "(\<forall>old new kind. (old, new, kind) \<in> set LEGACY \<longrightarrow> utf8 (''ALMOND_'' @ new) \<longrightarrow>
      map_of env' (''ALMOND_'' @ new) =
        (case usable utf8 (layered env fl (''ALMOND_'' @ new)) of Some v \<Rightarrow> Some v
         | None \<Rightarrow> (case usable utf8 (layered env fl old) of
               Some raw \<Rightarrow> Some (deprecated_value old raw)
             | None \<Rightarrow> layered env fl (''ALMOND_'' @ new)))) \<and>
    (utf8 ''ALMOND_CASHU_PAID'' \<longrightarrow>
      map_of env' ''ALMOND_CASHU_PAID'' =
        (case usable utf8 (layered env fl ''ALMOND_CASHU_PAID'') of Some v \<Rightarrow> Some v
         | None \<Rightarrow> let ops = paid_operations (\<lambda>old. usable utf8 (layered env fl old))
             in if ops \<noteq> [] then Some (join_with '','' ops) else layered env fl ''ALMOND_CASHU_PAID''))"
proof -
  obtain e3 where wf3: "hm_wf e3"
    and l: "\<And>x. utf8 x \<or> \<not> starts_with ''ALMOND_'' x \<Longrightarrow> map_of e3 x = layered env fl x"
    and e': "\<And>x. map_of env' x = (case map_of (rev (fst (translate_legacy (env_var utf8 e3)))) x of
        None \<Rightarrow> map_of e3 x | Some v \<Rightarrow> Some v)"
    using load_env_layers [OF assms(1-3)] unfolding fl_def by metis
  have d: "hm_wf (fst (translate_legacy get))" for get by (rule translate_legacy_wf)
  have us: "nonblank (env_var utf8 e3 x) = usable utf8 (map_of e3 x)" for x
    by (auto simp: env_var_def nonblank_def usable_def split: option.splits)
  have n: "layered env fl nm = Some x" if "usable utf8 (layered env fl nm) = Some x" for nm x
    using that by (auto simp: usable_def split: option.splits if_splits)
  have renamed: "map_of env' (''ALMOND_'' @ new) =
      (case usable utf8 (layered env fl (''ALMOND_'' @ new)) of Some v \<Rightarrow> Some v
       | None \<Rightarrow> (case usable utf8 (layered env fl old) of
             Some raw \<Rightarrow> Some (deprecated_value old raw)
           | None \<Rightarrow> layered env fl (''ALMOND_'' @ new)))"
    if mem: "(old, new, kind) \<in> set LEGACY" and u: "utf8 (''ALMOND_'' @ new)" for old new kind
  proof -
    define nm where "nm = ''ALMOND_'' @ new"
    have ln: "map_of e3 nm = layered env fl nm" "map_of e3 old = layered env fl old"
      using u legacy_old_name [OF mem] by (simp_all add: l nm_def)
    have kind_value: "legacy_value kind = deprecated_value old" by (rule ext) (rule legacy_deprecated [OF mem])
    have t: "map_of (rev (fst (translate_legacy (env_var utf8 e3)))) nm =
        (if usable utf8 (layered env fl nm) \<noteq> None then None
         else map_option (deprecated_value old) (usable utf8 (layered env fl old)))"
      unfolding map_of_rev_distinct [OF d]
      using translate_legacy_lookup [OF mem, of "env_var utf8 e3", unfolded us, folded nm_def] kind_value ln by simp
    show ?thesis
      unfolding nm_def [symmetric] e' t ln
      using n [of nm] by (cases "usable utf8 (layered env fl nm)"; cases "usable utf8 (layered env fl old)") simp_all
  qed
  have paid: "map_of env' ''ALMOND_CASHU_PAID'' =
      (case usable utf8 (layered env fl ''ALMOND_CASHU_PAID'') of Some v \<Rightarrow> Some v
       | None \<Rightarrow> let ops = paid_operations (\<lambda>old. usable utf8 (layered env fl old))
           in if ops \<noteq> [] then Some (join_with '','' ops) else layered env fl ''ALMOND_CASHU_PAID'')"
    if u: "utf8 ''ALMOND_CASHU_PAID''"
  proof -
    let ?nm = "''ALMOND_CASHU_PAID''" and ?get = "\<lambda>x. usable utf8 (map_of e3 x)"
    let ?out = "fst (translate_legacy (env_var utf8 e3))" and ?v = "join_with '','' (paid_operations ?get)"
    have ln: "map_of e3 ?nm = layered env fl ?nm" using u by (simp add: l)
    have ops: "paid_operations ?get = paid_operations (\<lambda>old. usable utf8 (layered env fl old))"
      by (simp add: paid_operations_def l starts_with_def)
    have m: "(?nm, v) \<in> set ?out \<longleftrightarrow> ?get ?nm = None \<and> v \<noteq> [] \<and> (\<exists>old. (old, ?nm, v) \<in> set (legacy_found ?get))" for v
      by (auto simp: translate_legacy_def Let_def us split: if_splits)
    have ne: "?v \<noteq> []" if "paid_operations ?get \<noteq> []"
    proof -
      have "[] \<notin> set (paid_operations ?get)" by (auto simp: paid_operations_def)
      with that show ?thesis by (cases "('','', paid_operations ?get)" rule: join_with.cases) auto
    qed
    have "map_of ?out ?nm = (if ?get ?nm = None \<and> paid_operations ?get \<noteq> [] then Some ?v else None)"
    proof (intro option_extI)
      fix v
      have "v = ?v" if "(old, ?nm, v) \<in> set (legacy_found ?get)" for old
        using found_paid(1) [OF refl that] .
      moreover have "\<exists>old. (old, ?nm, ?v) \<in> set (legacy_found ?get)" if "paid_operations ?get \<noteq> []"
        using found_paid(2) [OF refl that] by blast
      moreover have "?v = []" if "paid_operations ?get = []" using that by simp
      ultimately have "(\<exists>old. (old, ?nm, v) \<in> set (legacy_found ?get)) \<and> v \<noteq> [] \<longleftrightarrow> paid_operations ?get \<noteq> [] \<and> v = ?v"
        using ne by metis
      then show "map_of ?out ?nm = Some v \<longleftrightarrow>
          (if ?get ?nm = None \<and> paid_operations ?get \<noteq> [] then Some ?v else None) = Some v"
        unfolding map_of_eq_Some_iff [OF d] m by (cases "?get ?nm = None \<and> paid_operations ?get \<noteq> []") auto
    qed
    then show ?thesis
      unfolding e' ops [symmetric] Let_def using d ln n [of ?nm]
      by (cases "usable utf8 (layered env fl ?nm)") (simp_all add: map_of_rev_distinct)
  qed
  show ?thesis using renamed paid by blast
qed

lemma dotenv_law_append:
  assumes "hm_wf fs"
  shows "dotenv_law (\<lambda>p e. Inr (e @ filter (\<lambda>(nm, _). map_of e nm = None) fs)) (\<lambda>p e. map_of fs)"
proof -
  have "hm_wf (e @ filter (\<lambda>(nm, _). map_of e nm = None) fs)" if "hm_wf e" for e
    using that assms by (auto simp: distinct_map_filter map_of_eq_None_iff intro: rev_image_eqI)
  moreover have "map_of (e @ filter (\<lambda>(nm, _). map_of e nm = None) fs) nm =
      (case map_of e nm of Some v \<Rightarrow> Some v | None \<Rightarrow> map_of fs nm)" for e nm
    using hm_get_filter [OF assms, of "\<lambda>nm _. map_of e nm = None" nm]
    by (auto simp: map_add_def split: option.splits)
  ultimately show ?thesis by (simp add: dotenv_law_def)
qed

lemma load_env_file_total:
  assumes "\<And>p e. \<exists>e'. dotenv p e = Inr e'"
  shows "\<exists>ws env'. load_env_file utf8 dotenv ex args env = Inr (ws, env')"
proof -
  define q where "q = config_file utf8 ex args (remove_empty_almond_vars utf8 env)"
  show ?thesis
  proof (cases q)
    case None
    then show ?thesis
      unfolding load_env_file_def Let_def q_def [symmetric] by (simp add: and_then_def split: prod.splits)
  next
    case (Some p)
    obtain e' where "dotenv p (remove_empty_almond_vars utf8 env) = Inr e'" using assms by blast
    with Some show ?thesis
      unfolding load_env_file_def Let_def q_def [symmetric] by (simp add: and_then_def split: prod.splits)
  qed
qed

text \<open>An environment with one deprecated name, a configuration file with another, no flag.\<close>

theorem environment_precedence_witness:
  "\<exists>ws env'. load_env_file (\<lambda>_. True) (\<lambda>p e. Inr (e @ filter (\<lambda>(nm, _). map_of e nm = None) [(''UPSTREAM_MODE'', ''redirect'')]))
      True [''almond''] [(''MAX_BLOB_SIZE_MB'', ''42''), (''FEATURE_UPLOAD_ENABLED'', ''False''), (''FEATURE_PAID_MIRROR'', ''on'')] = Inr (ws, env') \<and>
    map_of env' ''ALMOND_BLOB_MAX_SIZE'' = Some ''42MiB'' \<and> map_of env' ''ALMOND_UPLOAD_ACCESS'' = Some ''off'' \<and>
    map_of env' ''ALMOND_CASHU_PAID'' = Some ''mirror''"
proof -
  let ?files = "\<lambda>(p :: string) (e :: env) nm. map_of [(''UPSTREAM_MODE'', ''redirect'')] nm"
  let ?dotenv = "\<lambda>(p :: string) e. Inr (e @ filter (\<lambda>(nm, _). map_of e nm = None) [(''UPSTREAM_MODE'', ''redirect'')]) :: string + env"
  let ?env = "[(''MAX_BLOB_SIZE_MB'', ''42''), (''FEATURE_UPLOAD_ENABLED'', ''False''), (''FEATURE_PAID_MIRROR'', ''on'')]"
  have law: "dotenv_law ?dotenv ?files"
    by (rule dotenv_law_append) simp
  obtain ws env' where ok: "load_env_file (\<lambda>_. True) ?dotenv True [''almond''] ?env = Inr (ws, env')"
    using load_env_file_total [of ?dotenv "\<lambda>_. True" True "[''almond'']" ?env] by blast
  have mem: "(''MAX_BLOB_SIZE_MB'', ''BLOB_MAX_SIZE'', Legacy_Unit ''MiB'') \<in> set LEGACY"
    "(''FEATURE_UPLOAD_ENABLED'', ''UPLOAD_ACCESS'', Legacy_Mode) \<in> set LEGACY" by (simp_all add: LEGACY_def)
  have tr: "trim ''42'' = ''42''" "trim ''False'' = ''False''" "trim ''on'' = ''on''" by code_simp+
  have dv: "deprecated_value ''MAX_BLOB_SIZE_MB'' ''42'' = ''42MiB''" "deprecated_value ''FEATURE_UPLOAD_ENABLED'' ''False'' = ''off''"
    by code_simp+
  have lo: "ascii_lower CHR ''o'' = CHR ''o''" "ascii_lower CHR ''n'' = CHR ''n''" by code_simp+
  note all = environment_precedence [OF ok law]
  have "map_of env' (''ALMOND_'' @ ''BLOB_MAX_SIZE'') = Some (deprecated_value ''MAX_BLOB_SIZE_MB'' ''42'')"
    using all [THEN conjunct1, rule_format, OF _ mem(1)]
    by (simp add: layered_def usable_def nonempty_def tr starts_with_def split: option.splits)
  moreover have "map_of env' (''ALMOND_'' @ ''UPLOAD_ACCESS'') = Some (deprecated_value ''FEATURE_UPLOAD_ENABLED'' ''False'')"
    using all [THEN conjunct1, rule_format, OF _ mem(2)]
    by (simp add: layered_def usable_def nonempty_def tr starts_with_def split: option.splits)
  moreover have "map_of env' ''ALMOND_CASHU_PAID'' = Some ''mirror''"
    using all [THEN conjunct2]
    by (simp add: layered_def usable_def nonempty_def paid_operations_def tr lo starts_with_def split: option.splits)
  ultimately show ?thesis using ok by (auto simp: dv)
qed

section \<open>Checked settings\<close>

lemma s3_all_or_none:
  "(length (filter (\<lambda>x. x \<noteq> None) [a, b, c, d]) = 0 \<or> length (filter (\<lambda>x. x \<noteq> None) [a, b, c, d]) = 4) \<longleftrightarrow>
     (a = None) = (b = None) \<and> (b = None) = (c = None) \<and> (c = None) = (d = None)"
  by (cases a; cases b; cases c; cases d) simp_all

lemma paid_nonempty:
  "ops \<noteq> [] \<longleftrightarrow> Paid_Upload \<in> set ops \<or> Paid_Mirror \<in> set ops \<or> Paid_Download \<in> set ops"
proof (cases ops)
  case (Cons op ops')
  then show ?thesis by (cases op) auto
qed simp

text \<open>C33: Invalid settings never reach the server. \<open>check\<close> accepts a configuration exactly when the S3
  options are all there or all absent (so the \<open>expect\<close>s of \<open>build_state\<close> cannot fail), the region is a plain
  name, the cleanup interval and the longest token lifetime are positive, a chunk may not exceed a blob,
  and for the state built from it: an operation is only ever paid for in a build with a wallet and with
  exactly one accepted mint, whose name has no comma, and a mode that admits announced services has kinds to
  look for. The built-in defaults are accepted, and the state's directories are disjoint.\<close>
theorem checked_settings:
  "(check_settings cashu_built s = Inr () \<longleftrightarrow>
     (sg_s3_endpoint s = None) = (sg_s3_bucket s = None) \<and>
     (sg_s3_bucket s = None) = (sg_s3_access_key_id s = None) \<and>
     (sg_s3_access_key_id s = None) = (sg_s3_secret_access_key s = None) \<and>
     sg_s3_region s \<noteq> [] \<and> list_all is_region_char (sg_s3_region s) \<and>
     0 < sg_cleanup_interval s \<and> 0 < auth_max_ttl_secs (app_config_of s) \<and>
     max_chunk_size_bytes (app_config_of s) \<le> max_blob_size_bytes (app_config_of s) \<and>
     (feature_paid_upload (app_config_of s) \<or> feature_paid_mirror (app_config_of s) \<or> feature_paid_download (app_config_of s) \<longrightarrow>
        cashu_built \<and> (\<exists>m. cashu_accepted_mints (app_config_of s) = [m] \<and> CHR '','' \<notin> set m)) \<and>
     (requires_dvm (feature_upload_enabled (app_config_of s)) \<or> requires_dvm (feature_mirror_enabled (app_config_of s)) \<longrightarrow>
        dvm_allowed_kinds (app_config_of s) \<noteq> [])) \<and>
   check_settings cashu_built defaults = Inr () \<and>
   layout_ok (app_config_of s) \<and>
   (\<forall>t. metrics_bearer_token (app_config_of s) = Some t \<longrightarrow> trim t \<noteq> [])"
proof -
  have paid: "sg_cashu_paid s \<noteq> [] \<longleftrightarrow> feature_paid_upload (app_config_of s) \<or> feature_paid_mirror (app_config_of s) \<or>
      feature_paid_download (app_config_of s)"
    by (simp add: app_config_of_def paid_nonempty)
  have mint: "(case sg_cashu_mint s of None \<Rightarrow> False | Some m \<Rightarrow> CHR '','' \<notin> set m) \<longleftrightarrow>
      (\<exists>m. cashu_accepted_mints (app_config_of s) = [m] \<and> CHR '','' \<notin> set m)"
    by (auto simp: app_config_of_def split: option.splits)
  have s3: "\<not> (n \<noteq> 0 \<and> n \<noteq> 4) \<longleftrightarrow> n = 0 \<or> n = (4 :: nat)" for n by blast
  have iff: "check_settings cashu_built s = Inr () \<longleftrightarrow> \<not> (length (filter (\<lambda>x. x \<noteq> None)
        [sg_s3_endpoint s, sg_s3_bucket s, sg_s3_access_key_id s, sg_s3_secret_access_key s]) \<noteq> 0 \<and>
      length (filter (\<lambda>x. x \<noteq> None)
        [sg_s3_endpoint s, sg_s3_bucket s, sg_s3_access_key_id s, sg_s3_secret_access_key s]) \<noteq> 4) \<and>
      sg_s3_region s \<noteq> [] \<and> list_all is_region_char (sg_s3_region s) \<and>
      sg_cleanup_interval s \<noteq> 0 \<and> sg_auth_max_ttl s \<noteq> 0 \<and> \<not> sg_chunk_max_size s > sg_blob_max_size s \<and>
      (sg_cashu_paid s \<noteq> [] \<longrightarrow> cashu_built \<and> (case sg_cashu_mint s of None \<Rightarrow> False | Some m \<Rightarrow> CHR '','' \<notin> set m)) \<and>
      (requires_dvm (sg_upload_access s) \<or> requires_dvm (sg_mirror_access s) \<longrightarrow> sg_dvm_kinds s \<noteq> [])"
    unfolding check_settings_def Let_def by (simp del: filter.simps)
  have defs: "check_settings cashu_built defaults = Inr ()"
    by (simp add: check_settings_def defaults_def is_region_char_def is_ascii_lowercase_def byte_of_def requires_dvm_def)
  have app: "auth_max_ttl_secs (app_config_of s) = sg_auth_max_ttl s" "max_chunk_size_bytes (app_config_of s) = sg_chunk_max_size s"
    "max_blob_size_bytes (app_config_of s) = sg_blob_max_size s" "feature_upload_enabled (app_config_of s) = sg_upload_access s"
    "feature_mirror_enabled (app_config_of s) = sg_mirror_access s" "dvm_allowed_kinds (app_config_of s) = sg_dvm_kinds s"
    by (simp_all add: app_config_of_def)
  have rest: "layout_ok (app_config_of s)" "\<And>t. metrics_bearer_token (app_config_of s) = Some t \<Longrightarrow> trim t \<noteq> []"
    by (auto simp: app_config_of_def layout_ok_def nonblank_Some)
  show ?thesis
    unfolding iff s3 s3_all_or_none paid mint app using defs rest by (simp add: word_neq_0_conv not_less)
qed

theorem checked_settings_witness:
  "\<exists>m. cashu_accepted_mints (app_config_of
     (defaults\<lparr>sg_cashu_paid := [Paid_Upload], sg_cashu_mint := Some ''https://mint''\<rparr>)) = [m] \<and> CHR '','' \<notin> set m"
proof -
  let ?s = "defaults\<lparr>sg_cashu_paid := [Paid_Upload], sg_cashu_mint := Some ''https://mint''\<rparr>"
  have "check_settings True ?s = Inr ()"
    by (simp add: check_settings_def defaults_def is_region_char_def is_ascii_lowercase_def byte_of_def requires_dvm_def)
  moreover have "feature_paid_upload (app_config_of ?s)" by (simp add: app_config_of_def)
  ultimately show ?thesis using checked_settings [of True ?s] by blast
qed

end
