(* ===== verification/Boot.thy ===== *)
theory Boot
  imports ServeFiles Migration Router TrustNetwork Settings
begin

text \<open>
  Start-up and the periodic jobs: \<open>build_state\<close>, \<open>spawn_background_tasks\<close> and the jobs of \<open>src/lib.rs\<close>,
  the chunk and cache clean-ups of \<open>src/utils.rs\<close>, the wallet seed of \<open>src/services/cashu.rs\<close> and the
  certificate files of \<open>src/tls.rs\<close>. What libraries do (wallet database, HTTP client, certificate
  generation, randomness, file modes) is a field of \<open>boot_env\<close>, as an error text or a value.
\<close>

record boot_env =
  be_crypto :: bool
  be_cashu_built :: bool
  be_dir_len :: "path \<Rightarrow> nat"
  be_fuel :: nat
  be_wallet_db :: "path \<Rightarrow> string option"
  be_random_seed :: bytes
  be_chmod :: "path \<Rightarrow> string option"
  be_new_wallet :: "string \<Rightarrow> bytes \<Rightarrow> string option"
  be_http_client :: "string option"
  be_self_signed :: "string + bytes \<times> bytes"
  be_relays :: relay_env

section \<open>Certificates\<close>

definition path_exists :: "fs \<Rightarrow> path \<Rightarrow> bool" where
  "path_exists f p \<longleftrightarrow> fs_data f p \<noteq> None \<or> p \<in> set (fs_dirs f)"

definition generate_self_signed_cert :: "boot_env \<Rightarrow> host_env \<Rightarrow> path \<Rightarrow> path \<Rightarrow> fs \<Rightarrow> (string + unit) \<times> fs" where
  "generate_self_signed_cert be h cert_path key_path f =
     bind_st (pure_st (be_self_signed be) f) (\<lambda>(cert, key) f.
     bind_st (err_st io_text (fs_write h cert_path cert f)) (\<lambda>_ f.
     err_st io_text (fs_write h key_path key f)))"

definition ensure_tls_certificates :: "boot_env \<Rightarrow> host_env \<Rightarrow> path \<Rightarrow> path \<Rightarrow> bool \<Rightarrow> fs \<Rightarrow> (string + unit) \<times> fs" where
  "ensure_tls_certificates be h cert_path key_path auto_generate f =
     (let cert_exists = path_exists f cert_path; key_exists = path_exists f key_path in
      if cert_exists \<and> key_exists then (Inr (), f)
      else if \<not> auto_generate \<and> \<not> cert_exists then (Inl (''Certificate file not found: '' @ display_path cert_path), f)
      else if \<not> auto_generate \<and> \<not> key_exists then (Inl (''Private key file not found: '' @ display_path key_path), f)
      else bind_st (err_st io_text (fs_create_dir_all h (butlast cert_path) f)) (\<lambda>_ f.
           bind_st (err_st io_text (fs_create_dir_all h (butlast key_path) f)) (\<lambda>_ f.
           generate_self_signed_cert be h cert_path key_path f)))"

text \<open>What \<open>from_pem\<close> is given: the two files.\<close>

definition load_tls_config :: "host_env \<Rightarrow> path \<Rightarrow> path \<Rightarrow> fs \<Rightarrow> string + bytes \<times> bytes" where
  "load_tls_config h cert_path key_path f =
     (if \<not> path_exists f cert_path then Inl (''Certificate file not found: '' @ display_path cert_path)
      else if \<not> path_exists f key_path then Inl (''Private key file not found: '' @ display_path key_path)
      else case fs_read h cert_path f of Inl err \<Rightarrow> Inl (io_text err) | Inr cert \<Rightarrow>
           (case fs_read h key_path f of Inl err \<Rightarrow> Inl (io_text err) | Inr key \<Rightarrow> Inr (cert, key)))"

section \<open>The wallet seed\<close>

definition file_stem :: "string \<Rightarrow> string" where
  "file_stem nm = (case rsplit_once (CHR ''.'') nm of None \<Rightarrow> nm | Some (s, _) \<Rightarrow> if s = [] then nm else s)"

definition with_extension :: "string \<Rightarrow> path \<Rightarrow> path" where
  "with_extension ext p = butlast p @ [file_stem (last p) @ ''.'' @ ext]"

text \<open>The new seed is written to a temporary file, synced and renamed into place.\<close>

definition write_seed_0600 :: "boot_env \<Rightarrow> host_env \<Rightarrow> path \<Rightarrow> bytes \<Rightarrow> fs \<Rightarrow> unit app_result \<times> fs" where
  "write_seed_0600 be h p seed f =
     (let temporary = with_extension (''seed.tmp.'' @ fresh_uuid h) p in
      bind_st (if path_exists f temporary
               then (Inl (InternalError ''Failed to create wallet seed: File exists (os error 17)''), f)
               else err_st (\<lambda>e. InternalError (''Failed to create wallet seed: '' @ io_text e)) (fs_create h temporary f)) (\<lambda>_ f.
      bind_st (err_st (\<lambda>e. InternalError (''Failed to write wallet seed: '' @ io_text e)) (fs_append h temporary seed f)) (\<lambda>_ f.
      bind_st (pure_st (app_err (\<lambda>e. InternalError (''Failed to write wallet seed: '' @ io_text e)) (fs_sync h temporary f)) f) (\<lambda>_ f.
      bind_st (err_st (\<lambda>e. InternalError (''Failed to install wallet seed: '' @ io_text e)) (fs_rename h temporary p f)) (\<lambda>_ f.
      (case be_chmod be p of
         Some err \<Rightarrow> (Inl (InternalError (''Failed to secure wallet seed: '' @ err)), f) | None \<Rightarrow> (Inr (), f)))))))"

definition wallet_seed :: "boot_env \<Rightarrow> host_env \<Rightarrow> path \<Rightarrow> fs \<Rightarrow> bytes app_result \<times> fs" where
  "wallet_seed be h seed_path f =
     (if path_exists f seed_path then
        (case be_chmod be seed_path of
           Some err \<Rightarrow> (Inl (InternalError (''Failed to secure wallet seed: '' @ err)), f)
         | None \<Rightarrow>
             (case fs_read h seed_path f of
                Inl err \<Rightarrow> (Inl (InternalError (''Failed to read wallet seed: '' @ io_text err)), f)
              | Inr seed_bytes \<Rightarrow>
                  if length seed_bytes \<noteq> 64 then (Inl (InternalError ''Invalid seed file size''), f)
                  else (Inr seed_bytes, f)))
      else bind_st (write_seed_0600 be h seed_path (be_random_seed be) f) (\<lambda>_ f. (Inr (be_random_seed be), f)))"

text \<open>The wallet is represented by its seed.\<close>

definition init_wallet :: "boot_env \<Rightarrow> host_env \<Rightarrow> path \<Rightarrow> string list \<Rightarrow> fs \<Rightarrow> bytes app_result \<times> fs" where
  "init_wallet be h wallet_path accepted_mints f =
     (if accepted_mints = [] then (Inl (InternalError ''No accepted mints configured''), f)
      else case be_wallet_db be wallet_path of
        Some err \<Rightarrow> (Inl (InternalError (''Failed to initialize wallet database: '' @ err)), f)
      | None \<Rightarrow> bind_st (wallet_seed be h (with_extension ''seed'' wallet_path) f) (\<lambda>seed f.
          case be_new_wallet be (hd accepted_mints) seed of
            Some err \<Rightarrow> (Inl (InternalError (''Failed to create wallet: '' @ err)), f)
          | None \<Rightarrow> (Inr seed, f)))"

section \<open>Building the state\<close>

definition fresh_world :: "store \<Rightarrow> world" where
  "fresh_world s =
     \<lparr>w_store = s, w_auth = \<lparr>trusted_pubkeys = [], dvm_pubkeys = [], destructive_event_replays = []\<rparr>,
      w_sessions = sessions_new, w_ledger = [], w_net = [], w_failed = [], w_serve_files = [], w_lists = [], w_next = 0,
      w_handles = [], w_ongoing = [], w_phases = [], w_negotiations = [], w_filter = None, w_spawned = []\<rparr>"

definition needs_relays :: "settings \<Rightarrow> bool" where
  "needs_relays s \<longleftrightarrow> requires_wot (sg_upload_access s) \<or> requires_wot (sg_mirror_access s) \<or>
     is_enabled (sg_custom_origin_access s) \<or> requires_dvm (sg_upload_access s) \<or> requires_dvm (sg_mirror_access s)"

definition prefixed :: "string \<Rightarrow> app_error \<Rightarrow> string" where
  "prefixed what err = what @ '': '' @ error_display err"

text \<open>The storage part: directories, temporary files, migration, catalogue, bucket. \<open>None\<close>: out of fuel.\<close>

definition build_storage :: "boot_env \<Rightarrow> app_env \<Rightarrow> settings \<Rightarrow> fs \<Rightarrow> ((string + unit) \<times> store) option" where
  "build_storage be e s disk =
     (let c = app_config_of s; l = storage c; h = env_host e;
          s0 = \<lparr>st_fs = disk, st_index = entries_default, st_s3 = None, st_superseded = [], st_changes_pending = True\<rparr> in
      case initialize_storage h l s0 of
        (Inl err, s1) \<Rightarrow> Some (Inl (prefixed ''Failed to initialize storage layout'' err), s1)
      | (Inr _, s1) \<Rightarrow>
          (let s2 = s1\<lparr>st_s3 := (if sg_s3_endpoint s = None then None else Some s3_connect),
                       st_fs := snd (clear_temp_directory h (temp l) (st_fs s1))\<rparr> in
           case migrate_legacy_blobs (be_fuel be) h (be_dir_len be) l (st_fs s2) of
             None \<Rightarrow> None
           | Some (Inl err, f) \<Rightarrow> Some (Inl (prefixed ''Failed to migrate legacy storage'' err), s2\<lparr>st_fs := f\<rparr>)
           | Some (Inr _, f) \<Rightarrow>
               (case build_file_index c (ae_storage e) (s2\<lparr>st_fs := f\<rparr>) of
                  (Inl err, s3) \<Rightarrow> Some (Inl (prefixed ''Failed to reconstruct blob index'' err), s3)
                | (Inr _, s3) \<Rightarrow>
                    Some (Inr (),
                      (case st_s3 s3 of
                         None \<Rightarrow> s3
                       | Some b \<Rightarrow> (let (_, b', ix) = sync_index (s3e (ae_storage e)) (env_now e) (b, st_index s3)
                                   in s3\<lparr>st_s3 := Some b', st_index := ix\<rparr>))))))"

definition refresh_on_start :: "app_env \<Rightarrow> app_config \<Rightarrow> world \<Rightarrow> world" where
  "refresh_on_start e c w =
     (case serve_files_path c of
        None \<Rightarrow> w
      | Some p \<Rightarrow> snd (refresh_serve_file_index e p (serve_files_manifest_name c) (serve_files_manifest_dir c) w))"

definition build_state :: "boot_env \<Rightarrow> app_env \<Rightarrow> settings \<Rightarrow> fs \<Rightarrow> ((string + world) \<times> fs) option" where
  "build_state be e s disk =
     (case check_settings (be_cashu_built be) s of
        Inl err \<Rightarrow> Some (Inl err, disk)
      | Inr _ \<Rightarrow>
          if needs_relays s \<and> \<not> be_crypto be
          then Some (Inl (''Relay-backed features require the host to install a rustls CryptoProvider before build_state''), disk)
          else case build_storage be e s disk of
            None \<Rightarrow> None
          | Some (Inl err, st) \<Rightarrow> Some (Inl err, st_fs st)
          | Some (Inr _, st) \<Rightarrow>
              (let c = app_config_of s;
                   w = refresh_on_start e c (fresh_world st);
                   (wallet, f) = (if be_cashu_built be \<and> sg_cashu_paid s \<noteq> []
                                  then err_st error_display (init_wallet be (env_host e) (sg_cashu_wallet_path s) (cashu_accepted_mints c)
                                         (st_fs (w_store w)))
                                  else (Inr [], st_fs (w_store w))) in
               case wallet of
                 Inl err \<Rightarrow> Some (Inl err, f)
               | Inr _ \<Rightarrow>
                   (case be_http_client be of
                      Some err \<Rightarrow> Some (Inl (''Failed to build upstream HTTP client: '' @ err), f)
                    | None \<Rightarrow> Some (Inr (w\<lparr>w_store := (w_store w)\<lparr>st_fs := f\<rparr>\<rparr>), f))))"

section \<open>Periodic jobs\<close>

definition enforce_storage_limits :: "app_env \<Rightarrow> app_config \<Rightarrow> world \<Rightarrow> world" where
  "enforce_storage_limits e c w = w\<lparr>w_store := enforce_storage_limits_at c (ae_storage e) (env_now e) (w_store w)\<rparr>"

definition cleanup_expired_failed_lookups :: "app_env \<Rightarrow> world \<Rightarrow> world" where
  "cleanup_expired_failed_lookups e w = w\<lparr>w_failed := filter (\<lambda>(_, t). ae_instant e - t < 3600) (w_failed w)\<rparr>"

definition cleanup_expired_blossom_server_lists :: "app_env \<Rightarrow> app_config \<Rightarrow> world \<Rightarrow> world" where
  "cleanup_expired_blossom_server_lists e c w =
     w\<lparr>w_lists := filter (\<lambda>(_, _, cached_at). ae_instant e - cached_at < blossom_server_list_cache_ttl c) (w_lists w)\<rparr>"

definition cleanup_tick :: "app_env \<Rightarrow> app_config \<Rightarrow> world \<Rightarrow> world" where
  "cleanup_tick e c w =
     (let w1 = enforce_storage_limits e c w;
          w2 = w1\<lparr>w_store := (w_store w1)\<lparr>st_changes_pending := False\<rparr>\<rparr>
      in cleanup_expired_blossom_server_lists e c (cleanup_expired_failed_lookups e w2))"

text \<open>Chunk files not touched for the session timeout, whether a session still refers to them or not.\<close>

definition cleanup_orphaned_chunk_files :: "app_env \<Rightarrow> app_config \<Rightarrow> world \<Rightarrow> world" where
  "cleanup_orphaned_chunk_files e c w =
     (let h = env_host e; f = st_fs (w_store w); d = temp (storage c) @ [''chunks'']; cutoff = int (unat (env_now e)) - int (chunk_cleanup_timeout c) in
      if d \<notin> set (fs_dirs f) then w
      else case fs_read_dir h d f of
        Inl _ \<Rightarrow> w
      | Inr names \<Rightarrow>
          fold (unlink_temp e)
            (filter (\<lambda>p. p \<notin> set (fs_dirs f) \<and> fs_data f p \<noteq> None \<and> io_fault h Io_Stat p = None \<and> int (unat (mtime_of h p)) < cutoff)
               (map (\<lambda>nm. d @ [nm]) names)) w)"

definition cleanup_abandoned_chunks :: "app_env \<Rightarrow> app_config \<Rightarrow> world \<Rightarrow> world" where
  "cleanup_abandoned_chunks e c w =
     (let (evicted, w1) = in_sessions (evict_older_than (ae_instant e) (chunk_cleanup_timeout c)) w
      in cleanup_orphaned_chunk_files e c
           (fold (\<lambda>u w. fold (\<lambda>ch. unlink_temp e (ch_path ch)) (cu_chunks u) w) evicted w1))"

text \<open>One round of the S3 recovery: \<open>None\<close> when the bucket is available and the job ends.\<close>

definition s3_recovery_round :: "app_env \<Rightarrow> world \<Rightarrow> world option" where
  "s3_recovery_round e w =
     (case st_s3 (w_store w) of
        None \<Rightarrow> None
      | Some b \<Rightarrow>
          if s3_status_of b = S3_Available then None
          else let (_, b', ix) = sync_index (s3e (ae_storage e)) (env_now e) (b, st_index (w_store w))
               in Some (w\<lparr>w_store := (w_store w)\<lparr>st_s3 := Some b', st_index := ix\<rparr>\<rparr>))"

text \<open>The pause before round \<open>n\<close>, in seconds.\<close>

fun s3_retry_delay :: "nat \<Rightarrow> nat" where
  "s3_retry_delay 0 = 1"
| "s3_retry_delay (Suc n) = min (s3_retry_delay n * 2) 300"

definition trust_network_tick :: "boot_env \<Rightarrow> app_config \<Rightarrow> world \<Rightarrow> world" where
  "trust_network_tick be c w =
     (if allowed_pubkeys c = [] then w
      else case refresh_trust_network (be_relays be) (allowed_pubkeys c) of
        Inl _ \<Rightarrow> w
      | Inr trusted \<Rightarrow> w\<lparr>w_auth := (w_auth w)\<lparr>trusted_pubkeys := trusted\<rparr>\<rparr>)"

definition dvm_tick :: "boot_env \<Rightarrow> app_config \<Rightarrow> world \<Rightarrow> world" where
  "dvm_tick be c w =
     (case refresh_dvm_pubkeys (be_relays be) (dvm_allowed_kinds c) (dvm_relays c) of
        Inl _ \<Rightarrow> w
      | Inr pks \<Rightarrow> w\<lparr>w_auth := (w_auth w)\<lparr>dvm_pubkeys := pks\<rparr>\<rparr>)"

datatype background_job = Cleanup_Job | Chunk_Job | S3_Recovery_Job | Trust_Network_Job | Dvm_Job | Serve_Files_Job

definition spawn_background_tasks :: "settings \<Rightarrow> background_job list" where
  "spawn_background_tasks s =
     [Cleanup_Job, Chunk_Job] @
     (if sg_s3_endpoint s \<noteq> None then [S3_Recovery_Job] else []) @
     (if requires_wot (sg_upload_access s) \<or> requires_wot (sg_mirror_access s) \<or> requires_wot (sg_custom_origin_access s)
      then [Trust_Network_Job] else []) @
     (if (requires_dvm (sg_upload_access s) \<or> requires_dvm (sg_mirror_access s)) \<and> sg_dvm_kinds s \<noteq> [] then [Dvm_Job] else []) @
     (case sg_serve_files_path s of None \<Rightarrow> [] | Some _ \<Rightarrow> if sg_serve_files_refresh_interval s = 0 then [] else [Serve_Files_Job])"

definition run_job :: "boot_env \<Rightarrow> app_env \<Rightarrow> app_config \<Rightarrow> background_job \<Rightarrow> world \<Rightarrow> world" where
  "run_job be e c j w =
     (case j of
        Cleanup_Job \<Rightarrow> cleanup_tick e c w
      | Chunk_Job \<Rightarrow> cleanup_abandoned_chunks e c w
      | S3_Recovery_Job \<Rightarrow> (case s3_recovery_round e w of None \<Rightarrow> w | Some w' \<Rightarrow> w')
      | Trust_Network_Job \<Rightarrow> trust_network_tick be c w
      | Dvm_Job \<Rightarrow> dvm_tick be c w
      | Serve_Files_Job \<Rightarrow> refresh_on_start e c w)"

text \<open>A setting of the jobs the ticker of tokio refuses: an interval of zero panics.\<close>

definition job_interval :: "settings \<Rightarrow> background_job \<Rightarrow> u64 option" where
  "job_interval s j =
     (case j of
        Cleanup_Job \<Rightarrow> Some (sg_cleanup_interval s)
      | Chunk_Job \<Rightarrow> Some (5 * 60)
      | S3_Recovery_Job \<Rightarrow> None
      | Trust_Network_Job \<Rightarrow> Some (4 * 3600)
      | Dvm_Job \<Rightarrow> Some (sg_dvm_refresh_interval s)
      | Serve_Files_Job \<Rightarrow> Some (sg_serve_files_refresh_interval s))"

section \<open>The seed\<close>

lemma last_with_extension: "last (with_extension ext p) = file_stem (last p) @ ''.'' @ ext"
  by (simp add: with_extension_def)

lemma stem_of_seed: "file_stem (s @ ''.seed'') = (if s = [] then ''.seed'' else s)"
  by (simp add: file_stem_def rsplit_once_def)

lemma temporary_seed_differs: "with_extension (''seed.tmp.'' @ u) (with_extension ''seed'' wp) \<noteq> with_extension ''seed'' wp"
proof
  let ?p = "with_extension ''seed'' wp"
  assume "with_extension (''seed.tmp.'' @ u) ?p = ?p"
  then have "last (with_extension (''seed.tmp.'' @ u) ?p) = last ?p" by (rule arg_cong)
  then have "file_stem (file_stem (last wp) @ ''.seed'') @ ''.seed.tmp.'' @ u = file_stem (last wp) @ ''.seed''"
    by (simp only: last_with_extension) simp
  then show False by (simp only: stem_of_seed split: if_splits) auto
qed

lemma write_seed_cases:
  assumes "write_seed_0600 be h p seed f = (r, f')" "t = with_extension (''seed.tmp.'' @ fresh_uuid h) p" "t \<noteq> p"
  shows "q \<noteq> p \<Longrightarrow> q \<noteq> t \<Longrightarrow> fs_data f' q = fs_data f q"
    "fs_data f' p = fs_data f p \<or> fs_data f' p = Some seed"
    "r = Inr u \<Longrightarrow> fs_data f' p = Some seed"
  using assms
  by (auto simp: write_seed_0600_def Let_def bind_st_def err_st_def pure_st_def app_err_def path_exists_def fs_create_def
      fs_append_def fs_sync_def fs_rename_def hm_simps split: if_splits option.splits prod.splits sum.splits)


lemma wallet_seed_cases:
  assumes "wallet_seed be h p f = (r, f')" "t = with_extension (''seed.tmp.'' @ fresh_uuid h) p" "t \<noteq> p"
  shows "q \<noteq> p \<Longrightarrow> q \<noteq> t \<Longrightarrow> fs_data f' q = fs_data f q"
    "path_exists f p \<Longrightarrow> f' = f"
    "fs_data f' p = fs_data f p \<or> fs_data f p = None \<and> fs_data f' p = Some (be_random_seed be)"
    "r = Inr s \<Longrightarrow> fs_data f' p = Some s"
    "r = Inr s \<Longrightarrow> length (be_random_seed be) = 64 \<Longrightarrow> length s = 64"
proof -
  consider (old) "path_exists f p" | (new) "\<not> path_exists f p" "fs_data f p = None"
    by (auto simp: path_exists_def)
  then have "(q \<noteq> p \<longrightarrow> q \<noteq> t \<longrightarrow> fs_data f' q = fs_data f q) \<and> (path_exists f p \<longrightarrow> f' = f) \<and>
    (fs_data f' p = fs_data f p \<or> fs_data f p = None \<and> fs_data f' p = Some (be_random_seed be)) \<and>
    (r = Inr s \<longrightarrow> fs_data f' p = Some s \<and> (length (be_random_seed be) = 64 \<longrightarrow> length s = 64))"
  proof cases
    case old
    then show ?thesis using assms(1)
      by (auto simp: wallet_seed_def fs_read_def split: option.splits if_splits)
  next
    case new
    obtain r1 f1 where w: "write_seed_0600 be h p (be_random_seed be) f = (r1, f1)" by fastforce
    have e: "f' = f1" "r = Inr s \<longrightarrow> s = be_random_seed be \<and> r1 = Inr ()"
      using assms(1) new(1) w by (cases r1; auto simp: wallet_seed_def)+
    show ?thesis using e new write_seed_cases [OF w assms(2,3)] by metis
  qed
  then show "q \<noteq> p \<Longrightarrow> q \<noteq> t \<Longrightarrow> fs_data f' q = fs_data f q" "path_exists f p \<Longrightarrow> f' = f"
    "fs_data f' p = fs_data f p \<or> fs_data f p = None \<and> fs_data f' p = Some (be_random_seed be)"
    "r = Inr s \<Longrightarrow> fs_data f' p = Some s" "r = Inr s \<Longrightarrow> length (be_random_seed be) = 64 \<Longrightarrow> length s = 64"
    by blast+
qed

lemma init_wallet_seed:
  assumes "init_wallet be h wp ms f = (r, f')"
  shows "f' = f \<and> (\<exists>e. r = Inl e) \<or> (\<exists>r1. wallet_seed be h (with_extension ''seed'' wp) f = (r1, f') \<and>
     (r = r1 \<or> (\<exists>e. r = Inl e)))"
  using assms by (auto simp: init_wallet_def bind_st_def split: if_splits option.splits prod.splits sum.splits)

lemma wallet_seed_reused:
  assumes "fs_data f p = Some s" "wallet_seed be h p f = (Inr s', f')"
  shows "s' = s"
  using assms by (auto simp: wallet_seed_def path_exists_def fs_read_def split: option.splits if_splits)


text \<open>C40: The wallet keeps its seed. A start either leaves the seed file as it was or installs a complete new
  seed where none was, whatever write fails on the way, and changes no other file but its own temporary
  one. When it succeeds, the 64 bytes it uses are those of the file, and every later start that finds the
  file, on whatever host and with whatever randomness, uses the same seed or refuses to start, and leaves
  the files alone. The files meant are those that \<open>init_wallet\<close> and \<open>write_seed_0600\<close> write themselves: the
  database file, which the sqlite library creates and writes at the wallet's path, is a parameter with no
  file effect in the model, and so is every file that library writes.\<close>
theorem wallet_seed_stable:
  assumes "length (be_random_seed be) = 64" and "init_wallet be h wallet_path ms f = (r, f')"
  shows "let p = with_extension ''seed'' wallet_path; t = with_extension (''seed.tmp.'' @ fresh_uuid h) p in
    (fs_data f' p = fs_data f p \<or> fs_data f p = None \<and> fs_data f' p = Some (be_random_seed be)) \<and>
    (\<forall>q. q \<noteq> p \<and> q \<noteq> t \<longrightarrow> fs_data f' q = fs_data f q) \<and>
    (\<forall>s. r = Inr s \<longrightarrow> length s = 64 \<and> fs_data f' p = Some s \<and>
       (\<forall>be2 h2 ms2 f2 r2 f3. fs_data f2 p = Some s \<and> init_wallet be2 h2 wallet_path ms2 f2 = (r2, f3) \<longrightarrow>
          f3 = f2 \<and> (\<forall>s2. r2 = Inr s2 \<longrightarrow> s2 = s)))"
proof -
  let ?p = "with_extension ''seed'' wallet_path"
  let ?t = "with_extension (''seed.tmp.'' @ fresh_uuid h) ?p"
  have ne: "with_extension (''seed.tmp.'' @ fresh_uuid h1) ?p \<noteq> ?p" for h1 :: host_env by (rule temporary_seed_differs)
  have frames: "fs_data f' ?p = fs_data f ?p \<or> fs_data f ?p = None \<and> fs_data f' ?p = Some (be_random_seed be)"
    "\<forall>q. q \<noteq> ?p \<and> q \<noteq> ?t \<longrightarrow> fs_data f' q = fs_data f q"
    using init_wallet_seed [OF assms(2)] wallet_seed_cases(1,3) [OF _ refl ne] by blast+
  have used: "length s = 64 \<and> fs_data f' ?p = Some s" if "r = Inr s" for s
    using init_wallet_seed [OF assms(2)] that wallet_seed_cases(4,5) [OF _ refl ne] assms(1) by blast
  have later: "f3 = f2 \<and> (\<forall>s2. r2 = Inr s2 \<longrightarrow> s2 = s)"
    if "fs_data f2 ?p = Some s" "init_wallet be2 h2 wallet_path ms2 f2 = (r2, f3)" for be2 h2 ms2 f2 r2 f3 s
  proof -
    have "path_exists f2 ?p" using that(1) by (simp add: path_exists_def)
    then show ?thesis
      using init_wallet_seed [OF that(2)] wallet_seed_cases(2) [OF _ refl ne] wallet_seed_reused [OF that(1)] by blast
  qed
  show ?thesis
    unfolding Let_def
  proof (intro conjI frames allI impI)
    fix s assume r: "r = Inr s"
    show "length s = 64" "fs_data f' ?p = Some s" using used [OF r] by blast+
    fix be2 h2 ms2 f2 r2 f3 assume again: "fs_data f2 ?p = Some s \<and> init_wallet be2 h2 wallet_path ms2 f2 = (r2, f3)"
    show "f3 = f2" using later again by blast
    show "s2 = s" if "r2 = Inr s2" for s2 using later again that by blast
  qed
qed

text \<open>The first start of a server on an empty directory.\<close>

definition sample_boot :: boot_env where
  "sample_boot = \<lparr>be_crypto = True, be_cashu_built = True, be_dir_len = \<lambda>_. 4096, be_fuel = 8, be_wallet_db = \<lambda>_. None,
     be_random_seed = replicate 64 7, be_chmod = \<lambda>_. None, be_new_wallet = \<lambda>_ _. None, be_http_client = None,
     be_self_signed = Inl ''none'', be_relays = sample_relays\<rparr>"

theorem wallet_seed_stable_witness:
  "\<exists>f'. init_wallet sample_boot calm_host [''srv'', ''w.db''] [''m''] \<lparr>fs_files = [], fs_dirs = [[''srv'']]\<rparr> =
      (Inr (replicate 64 7), f') \<and> fs_data f' [''srv'', ''w.seed''] = Some (replicate 64 7)"
proof -
  let ?f = "\<lparr>fs_files = [], fs_dirs = [[''srv'']]\<rparr> :: fs"
  have p: "with_extension ''seed'' [''srv'', ''w.db''] = [''srv'', ''w.seed'']"
    by (simp add: with_extension_def file_stem_def rsplit_once_def)
  have t: "with_extension (''seed.tmp.'' @ u) [''srv'', ''w.seed''] = [''srv'', ''w.seed.tmp.'' @ u]" for u
    by (simp add: with_extension_def file_stem_def rsplit_once_def)
  have "\<exists>f'. init_wallet sample_boot calm_host [''srv'', ''w.db''] [''m''] ?f = (Inr (replicate 64 7), f')"
    unfolding init_wallet_def wallet_seed_def write_seed_0600_def Let_def p t
    by (simp add: sample_boot_def path_exists_def fs_create_def fs_append_def fs_sync_def fs_rename_def calm_host_def
        hm_simps pure_st_def)
  moreover have "length (be_random_seed sample_boot) = 64" by (simp add: sample_boot_def)
  ultimately show ?thesis using wallet_seed_stable [of sample_boot calm_host "[''srv'', ''w.db'']" "[''m'']" ?f]
    unfolding p Let_def by blast
qed

section \<open>Intervals\<close>

text \<open>Every job's interval but one is checked to be positive.\<close>

lemma checked_intervals:
  assumes "check_settings b s = Inr ()" "j \<in> set (spawn_background_tasks s)" "j \<noteq> Dvm_Job"
  shows "job_interval s j \<noteq> Some 0"
  using assms
  by (auto simp: check_settings_def Let_def spawn_background_tasks_def job_interval_def split: if_splits option.splits)

lemma dvm_interval_unchecked:
  "let s = defaults\<lparr>sg_upload_access := Dvm, sg_dvm_kinds := [5000], sg_dvm_refresh_interval := 0\<rparr> in
     check_settings b s = Inr () \<and> Dvm_Job \<in> set (spawn_background_tasks s) \<and> job_interval s Dvm_Job = Some 0"
  by (simp add: check_settings_def defaults_def is_region_char_def is_ascii_lowercase_def byte_of_def requires_dvm_def
      spawn_background_tasks_def job_interval_def)

end
