(* ===== verification/Soundness.thy ===== *)
theory Soundness
  imports Boot
begin

text \<open>
  The invariant that no fault can break: whatever the disk and the bucket refuse, no step of the server puts
  bytes under a name they do not hash to. \<open>clean\<close> is a preorder on stores, so it composes along a handler,
  across handlers and along runs; \<open>blob_safe\<close> says more (the files are there) and holds where nothing fails.
\<close>

section \<open>Clean steps\<close>

definition clean :: "(bytes \<Rightarrow> string) \<Rightarrow> app_config \<Rightarrow> store \<Rightarrow> store \<Rightarrow> bool" where
  "clean sha c s s' \<longleftrightarrow>
     (\<forall>p k d. blob_path c p k \<longrightarrow> fs_data (st_fs s') p = Some d \<longrightarrow> fs_data (st_fs s) p = Some d \<or> sha d = k) \<and>
     (index_inv (st_index s) \<longrightarrow> index_inv (st_index s') \<and>
        (\<forall>k m. index_get (st_index s') k = Some m \<longrightarrow> index_get (st_index s) k = Some m \<or> placed c k m))"

lemma clean_refl [simp, intro]: "clean sha c s s"
  by (simp add: clean_def)

lemma clean_trans: "clean sha c s s1 \<Longrightarrow> clean sha c s1 s2 \<Longrightarrow> clean sha c s s2"
  unfolding clean_def by metis

lemma clean_same: "clean sha c s s1 \<Longrightarrow> st_fs s2 = st_fs s1 \<Longrightarrow> st_index s2 = st_index s1 \<Longrightarrow> clean sha c s s2"
  by (simp add: clean_def)

text \<open>The frequent case: files disappear or appear outside the blobs, and the catalogue stays or shrinks.\<close>

definition sheds :: "app_config \<Rightarrow> fs \<Rightarrow> fs \<Rightarrow> bool" where
  "sheds c f f' \<longleftrightarrow> (\<forall>p k d. blob_path c p k \<longrightarrow> fs_data f' p = Some d \<longrightarrow> fs_data f p = Some d)"

lemma sheds_refl [simp, intro]: "sheds c f f"
  by (simp add: sheds_def)

lemma sheds_files: "fs_files f' = fs_files f \<Longrightarrow> sheds c f f'"
  by (simp add: sheds_def)

lemma sheds_trans: "sheds c f f1 \<Longrightarrow> sheds c f1 f2 \<Longrightarrow> sheds c f f2"
  unfolding sheds_def by metis

lemma clean_sheds: "sheds c (st_fs s) (st_fs s') \<Longrightarrow> st_index s' = st_index s \<Longrightarrow> clean sha c s s'"
  by (auto simp: clean_def sheds_def)

lemma sheds_only_file: "only_file p f f' \<Longrightarrow> (\<And>k. \<not> blob_path c p k) \<Longrightarrow> sheds c f f'"
  unfolding sheds_def only_file_def by metis

section \<open>The storage layer\<close>

lemma sheds_remove_file: "fs_remove_file h p f = (r, f') \<Longrightarrow> sheds c f f'"
  using remove_file_cases [of h p f] by (auto simp: sheds_def hm_simps split: if_splits)

lemma clean_remove_local: "remove_local_file h p s = (r, s') \<Longrightarrow> clean sha c s s'"
  using sheds_remove_file [of h p "st_fs s"]
  by (cases "fs_remove_file h p (st_fs s)"; cases "fst (fs_remove_file h p (st_fs s))")
    (auto simp: remove_local_file_def on_fs_def intro!: clean_sheds split: io_error.splits)

lemma clean_drop_temp: "clean sha c s (drop_temp h p s)"
  using sheds_remove_file [of h p "st_fs s"]
  by (cases "fs_remove_file h p (st_fs s)") (auto simp: drop_temp_def on_fs_def intro!: clean_sheds)

lemma clean_on_s3: "on_s3 g s = (r, s') \<Longrightarrow> clean sha c s s'"
  using on_s3_effect [of g s r s'] by (auto intro: clean_sheds)

lemma clean_remove_physical: "remove_physical_file e m s = (r, s') \<Longrightarrow> clean sha c s s'"
  by (auto simp: remove_physical_file_def split: file_location.splits intro: clean_remove_local clean_on_s3)

lemma clean_sweep: "sweep_backend_copies e k s = (r, s') \<Longrightarrow> clean sha c s s'"
  using sweep_effect by (fastforce intro: clean_sheds)

lemma clean_publish_metadata:
  assumes "publish_metadata e k m s = (r, s')" and "placed c k m"
  shows "clean sha c s s'"
proof -
  obtain ix out where pub: "index_publish k m (st_index s) = (ix, out)" by fastforce
  have new: "clean sha c s (s\<lparr>st_index := ix\<rparr>)"
    unfolding clean_def
  proof (intro conjI impI allI)
    assume inv: "index_inv (st_index s)"
    show "index_inv (st_index (s\<lparr>st_index := ix\<rparr>))" using index_inv_publish [OF inv, of k m] pub by simp
    fix j n
    assume "index_get (st_index (s\<lparr>st_index := ix\<rparr>)) j = Some n"
    then show "index_get (st_index s) j = Some n \<or> placed c j n"
      using pub assms(2) get_publish [of k m "st_index s"] by (auto split: if_splits)
  qed auto
  show ?thesis
  proof (cases out)
    case (Retained ex)
    then show ?thesis using assms(1) pub new by (simp add: publish_metadata_def)
  next
    case (Published old)
    show ?thesis
    proof (cases old)
      case None
      then show ?thesis using assms(1) pub Published
        by (intro clean_same [OF new]) (auto simp: publish_metadata_def Let_def mark_changes_pending_def)
    next
      case (Some d)
      obtain r1 s1 where rm: "remove_physical_file e d (s\<lparr>st_index := ix\<rparr>) = (r1, s1)" by fastforce
      have "clean sha c s s1" by (rule clean_trans [OF new clean_remove_physical [OF rm]])
      then show ?thesis
        by (rule clean_same) (use assms(1) pub Published Some rm in
          \<open>cases r1; auto simp: publish_metadata_def Let_def mark_changes_pending_def queue_superseded_deletion_def\<close>)+
    qed
  qed
qed

lemma clean_publish_existing:
  "publish_existing_metadata e k m s = (r, s') \<Longrightarrow> placed c k m \<Longrightarrow> clean sha c s s'"
  by (auto simp: publish_existing_metadata_def bind_st_def split: prod.splits sum.splits intro: clean_publish_metadata)

text \<open>The rename into place is the only step that puts a file where blobs are.\<close>

lemma rename_places:
  assumes "fs_rename h src dst f = (r, f')" "fs_data f' q = Some d"
  shows "fs_data f q = Some d \<or> q = dst \<and> fs_data f src = Some d"
  using rename_cases [OF assms(1)] assms(2) by (auto simp: hm_simps split: if_splits)

lemma parent_dirs_files: "create_parent_dirs h p s = (r, s') \<Longrightarrow> fs_files (st_fs s') = fs_files (st_fs s) \<and> st_index s' = st_index s"
  using create_dir_keeps [of h "butlast p" "st_fs s"]
  by (auto simp: create_parent_dirs_def on_fs_def err_st_def split: if_splits sum.splits prod.splits)

lemma remove_local_shrinks:
  "remove_local_file h p s = (r, s') \<Longrightarrow> fs_data (st_fs s') q = Some d \<Longrightarrow> fs_data (st_fs s) q = Some d"
  using remove_file_cases [of h p "st_fs s"]
  by (cases "fs_remove_file h p (st_fs s)"; cases "fst (fs_remove_file h p (st_fs s))")
    (auto simp: remove_local_file_def on_fs_def hm_simps split: io_error.splits if_splits)

lemma move_places:
  assumes "move_into_place h src dst s = (r, s')"
  shows "st_index s' = st_index s"
    "fs_data (st_fs s') q = Some d \<Longrightarrow> fs_data (st_fs s) q = Some d \<or> q = dst \<and> fs_data (st_fs s) src = Some d"
proof -
  obtain r1 s1 where c1: "create_parent_dirs h dst s = (r1, s1)" by fastforce
  note f1 = parent_dirs_files [OF c1]
  have "st_index s' = st_index s \<and>
    (\<forall>q d. fs_data (st_fs s') q = Some d \<longrightarrow> fs_data (st_fs s) q = Some d \<or> q = dst \<and> fs_data (st_fs s) src = Some d)"
  proof (cases "\<exists>x present. r1 = Inr x \<and> fs_try_exists h dst (st_fs s1) = Inr present")
    case False
    then show ?thesis
      using assms c1 f1 by (cases r1; cases "fs_try_exists h dst (st_fs s1)") (auto simp: move_into_place_def)
  next
    case True
    then obtain x present where ok: "r1 = Inr x" "fs_try_exists h dst (st_fs s1) = Inr present" by blast
    obtain r3 s3 where c3: "(if present then remove_local_file h dst s1 else (Inr (), s1)) = (r3, s3)" by fastforce
    have f3: "st_index s3 = st_index s" "\<And>q d. fs_data (st_fs s3) q = Some d \<Longrightarrow> fs_data (st_fs s) q = Some d"
      using c3 f1 remove_local_effect(1) [of h dst s1 r3 s3] remove_local_shrinks [of h dst s1 r3 s3]
      by (auto split: if_splits)
    obtain r4 f4 where c4: "fs_rename h src dst (st_fs s3) = (r4, f4)" by fastforce
    show ?thesis
    proof (cases r3)
      case (Inl e)
      then show ?thesis using assms c1 ok c3 f3 by (auto simp: move_into_place_def)
    next
      case (Inr y)
      then have "s' = s3\<lparr>st_fs := f4\<rparr>"
        using assms c1 ok c3 c4 by (cases r4) (auto simp: move_into_place_def on_fs_def)
      then show ?thesis using f3 rename_places [OF c4] by (simp, metis)
    qed
  qed
  then show "st_index s' = st_index s"
    "fs_data (st_fs s') q = Some d \<Longrightarrow> fs_data (st_fs s) q = Some d \<or> q = dst \<and> fs_data (st_fs s) src = Some d" by blast+
qed

lemma clean_move:
  assumes "move_into_place h src dst s = (r, s')" and "blob_path c dst k"
    and "\<And>d. fs_data (st_fs s) src = Some d \<Longrightarrow> sha d = k"
  shows "clean sha c s s'"
  unfolding clean_def using move_places [OF assms(1)] blob_path_hash [OF assms(2)] assms(3) by metis

lemma clean_to_s3: "publish_to_s3 e src p s = (r, s') \<Longrightarrow> clean sha c s s'"
  using sheds_remove_file [of "host e" src "st_fs s"]
  by (auto simp: publish_to_s3_def s3_put_def Let_def intro!: clean_sheds split: option.splits sum.splits prod.splits)


lemma s3_placed: "md_location m = S3 key \<Longrightarrow> placed c k m" "placed c k (publication_metadata now p (S3 key))"
  by (simp_all add: placed_def publication_metadata_def)

lemma clean_publish_new:
  assumes "publish_new c e tmp p s = (r, s')"
    and content: "\<And>d. fs_data (st_fs s) tmp = Some d \<Longrightarrow> sha d = bp_sha256 p"
  shows "clean sha c s s'"
proof (cases "bp_origin p = Upload \<and> st_s3 s \<noteq> None")
  case True
  obtain r1 s1 where u: "publish_to_s3 e tmp p s = (r1, s1)" by fastforce
  note c1 = clean_to_s3 [OF u, of sha c]
  show ?thesis
    using assms(1) True u c1 clean_trans [OF c1 clean_drop_temp]
    by (cases r1) (auto simp: publish_new_def intro: clean_trans [OF c1 clean_publish_metadata [OF _ s3_placed(2)]])
next
  case local: False
  show ?thesis
  proof (cases "completed_path c (bp_origin p) (bp_sha256 p) (bp_extension p) (bp_expiration p)")
    case None
    then show ?thesis using assms(1) local by (auto simp: publish_new_def intro: clean_drop_temp)
  next
    case (Some dst)
    note cp = completed_path_blob [OF Some]
    have dst: "blob_path c dst (bp_sha256 p)" using cp by (auto simp: blob_path_def)
    have "dst \<noteq> []" using cp(2) by auto
    then have pl: "placed c (bp_sha256 p) (publication_metadata (now_secs (host e)) p (Local dst))"
      using dst by (simp add: placed_def publication_metadata_def)
    obtain r1 s1 where m: "move_into_place (host e) tmp dst s = (r1, s1)" by fastforce
    note c1 = clean_move [OF m dst content]
    show ?thesis
      using assms(1) local Some m c1 clean_trans [OF c1 clean_drop_temp] clean_trans [OF c1 clean_publish_metadata [OF _ pl]]
      by (cases r1) (auto simp: publish_new_def)
  qed
qed

lemma clean_publish:
  assumes "publish_blob c e tmp p s = (r, s')"
    and "\<And>d. fs_data (st_fs s) tmp = Some d \<Longrightarrow> sha d = bp_sha256 p"
  shows "clean sha c s s'"
  using assms(1) clean_publish_new [of c e tmp p s r s' sha, OF _ assms(2)]
  by (auto simp: publish_blob_def intro: clean_drop_temp split: sum.splits option.splits if_splits)

lemma clean_quarantine:
  assumes "layout_ok c" "quarantine_current c e k m s = (r, s')"
  shows "clean sha c s s'"
proof (cases "md_location m")
  case (S3 key)
  then show ?thesis using assms(2) by (auto simp: quarantine_current_def intro: clean_sweep)
next
  case (Local p)
  let ?q = "quarantine (storage c)" and ?x = "if p = [] then k else last p"
  obtain r1 f1 where mk: "fs_create_dir_all (host e) ?q (st_fs s) = (r1, f1)" by fastforce
  note f1 = create_dir_keeps [OF mk]
  obtain r2 f2 where mv: "fs_rename (host e) p (?q @ [?x]) f1 = (r2, f2)" by fastforce
  have "sheds c (st_fs s) f2"
    unfolding sheds_def using rename_places [OF mv] f1 quarantine_not_blob [OF assms(1)] by metis
  then show ?thesis
    using assms(2) Local mk mv f1
      sheds_files [of f1 "st_fs s" c]
    by (cases r1; cases r2) (auto simp: quarantine_current_def on_fs_def Let_def intro!: clean_sheds)
qed

lemma clean_removed: "clean sha c s s1 \<Longrightarrow> clean sha c s (s1\<lparr>st_index := fst (index_remove_if_location_matches k loc (st_index s1))\<rparr>)"
  by (auto simp: clean_def get_remove_if split: if_splits)

lemma clean_remove_indexed:
  assumes "layout_ok c" "remove_indexed_blob c e k removal expected s = (r, s')"
  shows "clean sha c s s'"
proof (cases "\<exists>m. index_get (st_index s) k = Some m \<and> \<not> stale_candidate m expected")
  case False
  then show ?thesis using assms(2) clean_sweep [of e k s]
    by (cases "index_get (st_index s) k")
      (auto simp: remove_indexed_blob_def bind_st_def split: if_splits prod.splits sum.splits)
next
  case True
  then obtain m where m: "index_get (st_index s) k = Some m" "\<not> stale_candidate m expected" by blast
  obtain r1 s1 where d: "dispose c e k removal m s = (r1, s1)" by fastforce
  have c1: "clean sha c s s1"
    using d clean_quarantine [OF assms(1)] clean_remove_physical by (auto simp: dispose_def split: if_splits)
  obtain r2 s2 where sw: "(if sweeps_backend removal then sweep_backend_copies e k s1 else (Inr (), s1)) = (r2, s2)"
    by fastforce
  have c2: "clean sha c s s2"
    using sw clean_trans [OF c1 clean_sweep] c1 by (auto split: if_splits)
  note res = assms(2) [unfolded remove_indexed_alt [OF m] d]
  show ?thesis
  proof (cases "r1 = Inr () \<and> r2 = Inr ()")
    case False
    then show ?thesis using res sw c1 c2 by (cases r1; cases r2) auto
  next
    case True
    then show ?thesis
      using res sw by (intro clean_same [OF clean_removed [OF c2, of k "md_location m"]])
        (auto simp: split_beta Let_def mark_changes_pending_def)
  qed
qed


section \<open>Sweeps and the bucket\<close>

lemma clean_candidate: "layout_ok c \<Longrightarrow> clean sha c s (snd (delete_cleanup_candidate c e k m s))"
  using clean_remove_indexed by (auto simp: delete_cleanup_candidate_def split: prod.splits sum.splits) 

lemma clean_reconcile: "clean sha c s (reconcile_superseded_blobs e s)"
proof -
  have loop: "reconcile_loop e pend retry t = (retry', t') \<Longrightarrow> clean sha c t t'" for pend retry t retry' t'
  proof (induction e pend retry t rule: reconcile_loop.induct)
    case (2 e h m pend retry t)
    obtain r t1 where rm: "remove_physical_file e m t = (r, t1)" by fastforce
    note c1 = clean_remove_physical [OF rm, of sha c]
    have "clean sha c t1 t'"
      using "2.IH"(1) [OF rm [symmetric]] "2.IH"(2) [OF rm [symmetric]] "2.prems" rm by (cases r) auto
    then show ?case by (rule clean_trans [OF c1])
  qed simp
  obtain retry s1 where l: "reconcile_loop e (st_superseded s) [] (s\<lparr>st_superseded := []\<rparr>) = (retry, s1)" by fastforce
  have "clean sha c s s1" using loop [OF l] by (simp add: clean_def)
  then show ?thesis by (rule clean_same) (simp_all add: reconcile_superseded_blobs_def l)
qed

lemma clean_expiry: "layout_ok c \<Longrightarrow> clean sha c s (expiry_loop c e now es s)"
proof (induction es arbitrary: s)
  case (Cons km es)
  obtain k m where km: "km = (k, m)" by fastforce
  show ?case
    using Cons.IH [OF Cons.prems] clean_trans [OF clean_candidate [OF Cons.prems] Cons.IH [OF Cons.prems]]
    by (auto simp: km split: option.splits)
qed simp

lemma clean_capacity: "layout_ok c \<Longrightarrow> clean sha c s (capacity_loop c e es sz n s)"
proof (induction es arbitrary: s sz n)
  case (Cons km es)
  obtain k m where km: "km = (k, m)" by fastforce
  obtain gone s1 where d: "delete_cleanup_candidate c e k m s = (gone, s1)" by fastforce
  have c1: "clean sha c s s1" using clean_candidate [OF Cons.prems, of sha s e k m] d by simp
  show ?case using clean_trans [OF c1 Cons.IH [OF Cons.prems]] by (auto simp: km d Let_def)
qed simp

lemma clean_empty_dirs: "clean sha c s (cleanup_empty_dirs h d s)"
proof -
  have "fs_files (fold (fs_remove_dir h) ds f) = fs_files f" for ds f
    by (induction ds arbitrary: f) (auto simp: fs_remove_dir_def)
  then show ?thesis by (auto simp: cleanup_empty_dirs_def Let_def intro!: clean_sheds sheds_files)
qed

lemma clean_enforce:
  assumes "layout_ok c"
  shows "clean sha c s (enforce_storage_limits_at c e now s)"
  unfolding enforce_storage_limits_at_def Let_def
  by (intro clean_trans [OF _ clean_empty_dirs] clean_trans [OF _ clean_capacity [OF assms]]
      clean_trans [OF _ clean_expiry [OF assms]] clean_reconcile)

lemma listed_in_bucket: "(k, m) \<in> set (listed_blobs e now ens) \<Longrightarrow> \<exists>key. md_location m = S3 key"
  by (induction ens) (auto simp: entry_metadata_def split: option.splits)

lemma found_in_bucket: "find_entry e now k ens = Some m \<Longrightarrow> \<exists>key. md_location m = S3 key"
  by (induction ens) (auto simp: entry_metadata_def split: option.splits if_splits)

lemma clean_sync:
  assumes "sync_index e now (b, st_index s) = (r, b', ix)"
  shows "clean sha c s (s\<lparr>st_s3 := x, st_index := ix\<rparr>)"
proof (cases "list_all_blobs e now b")
  case (Inl err)
  then show ?thesis using assms by (auto simp: sync_index_def intro: clean_sheds)
next
  case (Inr kms)
  then have ix: "ix = merge_listing kms (st_index s)" using assms by (auto simp: sync_index_def)
  have pl: "placed c k m" if "map_of kms k = Some m" for k m
    using listed_in_bucket [of k m e now] map_of_SomeD [OF that] Inr s3_placed(1)
    by (fastforce simp: list_all_blobs_def Let_def split: prod.splits option.splits)
  show ?thesis
    unfolding clean_def ix
    using merge_listing_inv [of "st_index s" kms] pl by (auto simp: merge_listing_get split: option.splits)
qed

end
