(* ===== verification/SoundHandlers.thy ===== *)
theory SoundHandlers
  imports Soundness
begin

text \<open>
  Every handler of the router, run to its end, is a clean step, whatever fails on the way: the lemmas go
  along the definitions of theories UploadHandlers to Router, collected in \<open>clean_step\<close> and \<open>sound_step\<close>.
\<close>

section \<open>Clean handlers\<close>

definition clean_since :: "app_env \<Rightarrow> app_config \<Rightarrow> store \<Rightarrow> world \<Rightarrow> bool" where
  "clean_since e c s0 w \<longleftrightarrow> clean (ae_sha e) c s0 (w_store w)"

named_theorems clean_step

lemma since_store: "clean_since e c s0 w \<Longrightarrow> w_store w' = w_store w \<Longrightarrow> clean_since e c s0 w'"
  by (simp add: clean_since_def)

lemma since_then: "clean_since e c s0 w \<Longrightarrow> clean (ae_sha e) c (w_store w) (w_store w') \<Longrightarrow> clean_since e c s0 w'"
  unfolding clean_since_def by (rule clean_trans)

lemma since_bind [clean_step]:
  assumes "clean_since e c s0 (snd m)"
    "\<And>x w'. m = (Inr x, w') \<Longrightarrow> clean_since e c s0 w' \<Longrightarrow> clean_since e c s0 (snd (k x w'))"
  shows "clean_since e c s0 (snd (bind_st m k))"
  using assms by (cases m; cases "fst m") auto

lemma since_err [clean_step]: "clean_since e c s0 (snd m) \<Longrightarrow> clean_since e c s0 (snd (err_st g m))"
  by (cases m; cases "fst m") auto

lemma since_pure [clean_step]: "clean_since e c s0 w \<Longrightarrow> clean_since e c s0 (snd (pure_st r w))"
  by (simp add: pure_st_def)

lemma since_pair [clean_step]: "clean_since e c s0 w \<Longrightarrow> clean_since e c s0 (snd (r, w))"
  by simp

lemma since_parts [clean_step]:
  "clean_since e c s0 w \<Longrightarrow> clean_since e c s0 (snd (in_auth g w))"
  "clean_since e c s0 w \<Longrightarrow> clean_since e c s0 (snd (in_ledger l w))"
  "clean_since e c s0 w \<Longrightarrow> clean_since e c s0 (snd (in_net n w))"
  "clean_since e c s0 w \<Longrightarrow> clean_since e c s0 (snd (in_sessions k w))"
  by (simp_all add: clean_since_def in_auth_def in_ledger_def in_net_def in_sessions_def split_beta Let_def)

lemma since_in_store:
  "clean_since e c s0 w \<Longrightarrow> (\<And>r s'. g (w_store w) = (r, s') \<Longrightarrow> clean (ae_sha e) c (w_store w) s') \<Longrightarrow>
     clean_since e c s0 (snd (in_store g w))"
  by (erule since_then) (cases "g (w_store w)", simp_all add: in_store_def split_beta Let_def)

lemma since_in_files:
  assumes "clean_since e c s0 w" "\<And>r f'. g (st_fs (w_store w)) = (r, f') \<Longrightarrow> sheds c (st_fs (w_store w)) f'"
  shows "clean_since e c s0 (snd (in_files g w))"
  using assms(2) by (intro since_then [OF assms(1)] clean_sheds)
    (cases "g (st_fs (w_store w))", simp_all add: in_files_def on_fs_def split_beta Let_def)

lemma since_temp_file:
  assumes "layout_ok c" "is_temp_path c p" "clean_since e c s0 w" "\<And>f r f'. g f = (r, f') \<Longrightarrow> only_file p f f'"
  shows "clean_since e c s0 (snd (in_files g w))"
  using sheds_only_file [OF assms(4)] temp_not_blob [OF assms(1,2)] by (intro since_in_files assms(3)) blast

lemma since_create_dir [clean_step]: "clean_since e c s0 w \<Longrightarrow> clean_since e c s0 (snd (in_files (fs_create_dir_all h d) w))"
  by (rule since_in_files) (auto intro: sheds_files dest: create_dir_keeps)

lemma since_temp_dir [clean_step]: "clean_since e c s0 w \<Longrightarrow> clean_since e c s0 (snd (in_store (ensure_temp_dir c h) w))"
  by (rule since_in_store) (auto intro!: clean_sheds sheds_files dest: ensure_temp_dir_files)

lemma since_unlink [clean_step]: "clean_since e c s0 w \<Longrightarrow> clean_since e c s0 (unlink_temp e p w)"
  by (erule since_then) (simp add: unlink_temp_def clean_drop_temp)

lemma since_with_temp [clean_step]: "clean_since e c s0 (snd m) \<Longrightarrow> clean_since e c s0 (snd (with_temp e p m))"
  using since_unlink by (cases m; cases "fst m") auto

lemma since_discard [clean_step]: "clean_since e c s0 w \<Longrightarrow> clean_since e c s0 (discard_chunk_files e chs w)"
  unfolding discard_chunk_files_def by (induction chs arbitrary: w) (auto intro: since_unlink)

lemma since_streams:
  assumes "layout_ok c" "is_temp_path c p" "clean_since e c s0 w"
  shows "clean_since e c s0 (snd (in_files (stream_response_to_temp_file h (ae_sha e) response p mx) w))"
    "clean_since e c s0 (snd (in_files (stream_to_temp_file h (ae_sha e) items p mx) w))"
    "clean_since e c s0 (snd (in_files (reassemble e p chs n k) w))"
  by (rule since_temp_file [OF assms], erule stream_response_spec(1) stream_upload_spec(1) reassemble_only)+

lemma since_finalize:
  assumes "clean_since e c s0 w" "staged (ae_sha e) p k n (st_fs (w_store w))"
  shows "clean_since e c s0 (snd (in_store (finalize_upload c (ae_storage e) p k n extension mime expiration) w))"
  using assms by (intro since_in_store) (auto simp: finalize_upload_def accept_def staged_def dest: clean_publish)

section \<open>Uploads and mirrors\<close>

lemma receive_clean:
  assumes "layout_ok c" "is_temp_path c tmp" "clean_since e c s0 w"
  shows "clean_since e c s0 (snd (receive_upload e c headers items tmp a k w))"
    "clean_since e c s0 (snd (receive_mirror e c headers response tmp k w))"
  unfolding receive_upload_def receive_mirror_def by (auto intro!: clean_step assms since_streams)

lemma upload_file_clean:
  assumes lay: "layout_ok c" and w: "clean_since e c s0 w"
  shows "clean_since e c s0 (snd (upload_file e c headers items w))"
  unfolding upload_file_def Let_def
  by (auto intro!: clean_step w lay receive_clean since_finalize dest: receive_upload_staged(1))

lemma mirror_blob_clean:
  assumes lay: "layout_ok c" and fit: "bodies_fit (ae_net e)" and w: "clean_since e c s0 w"
  shows "clean_since e c s0 (snd (mirror_blob e c headers items w))"
proof -
  have spawn: "clean_since e c s0 w \<Longrightarrow> clean_since e c s0 (spawn_hls e t u k w)" for t u k w
    by (rule since_store) simp_all
  show ?thesis
    unfolding mirror_blob_def Let_def
    by (auto intro!: clean_step w lay receive_clean since_finalize spawn
        dest!: in_net_fetched [OF fit] dest: receive_mirror_staged)
qed

lemma head_upload_clean: "clean_since e c s0 w \<Longrightarrow> clean_since e c s0 (snd (head_upload enc e c headers w))"
  unfolding head_upload_def Let_def by (auto intro!: clean_step)

lemma write_chunk_clean:
  assumes "layout_ok c" "clean_since e c s0 w"
  shows "clean_since e c s0 (snd (write_chunk e c cr items w))"
  unfolding write_chunk_def Let_def
  by (auto intro!: clean_step since_streams chunk_path_temp chunk_path_is assms)

lemma reconstruct_clean:
  assumes lay: "layout_ok c" and paths: "\<forall>ch \<in> set (cu_chunks up). is_chunk_path c (ch_path ch)" and w: "clean_since e c s0 w"
  shows "clean_since e c s0 (snd (reconstruct_blob e c up k w))"
proof (cases "chunk_coverage up")
  case (Inl err)
  then show ?thesis using w by (auto simp: reconstruct_blob_def intro: since_discard)
next
  case (Inr chs)
  then have ch: "\<forall>ch \<in> set chs. is_chunk_path c (ch_path ch)" using coverage_set [OF Inr] paths by simp
  show ?thesis
    unfolding reconstruct_blob_def Inr Let_def split_beta sum.case
    by (auto intro!: clean_step w lay since_streams since_finalize dest: reassemble_staged [OF _ fresh_target [OF ch]])
qed

lemma finish_chunked_clean:
  assumes lay: "layout_ok c" and paths: "\<forall>ch \<in> set (cu_chunks up). is_chunk_path c (ch_path ch)" and w: "clean_since e c s0 w"
  shows "clean_since e c s0 (snd (finish_chunked e c headers key cr p up w))"
proof (cases "in_ledger (charge c (ae_cashu e) headers Paid_Upload (cr_upload_length cr)) w")
  case (Pair r w1)
  then have s1: "clean_since e c s0 w1" using since_parts(2) [OF w] by (metis snd_conv)
  show ?thesis
  proof (cases r)
    case (Inl err)
    have "clean_since e c s0 (snd (in_sessions (restore key (up\<lparr>cu_chunks := butlast (cu_chunks up)\<rparr>)) w1))"
      by (rule since_parts(4) [OF s1])
    then show ?thesis
      using Pair Inl by (auto simp: finish_chunked_def split_beta Let_def intro: since_discard since_unlink)
  next
    case (Inr u)
    have "clean_since e c s0 (snd (bind_st (reconstruct_blob e c up (cr_sha256 cr) w1) (\<lambda>descriptor w2.
            (Inr \<lparr>status = 200, rheaders = [(''content-type'', ''application/json'')],
                  body = ae_descriptor_json e descriptor\<rparr>, w2))))"
      by (intro clean_step reconstruct_clean lay paths s1)
    then show ?thesis using Pair Inr s1 by (simp add: finish_chunked_def)
  qed
qed

interpretation clean_chunks: chunk_invariant e c "\<lambda>w. layout_ok c \<and> clean_since e c s0 w" for e c s0
  by unfold_locales (auto intro: write_chunk_clean finish_chunked_clean since_unlink since_store)

lemma mirror_single_clean:
  assumes lay: "layout_ok c" and fit: "bodies_fit (ae_net e)" and w: "clean_since e c s0 w"
  shows "clean_since e c s0 (snd (mirror_single_reference e c base r w))"
  unfolding mirror_single_reference_def Let_def
  by (auto intro!: clean_step w lay since_streams since_finalize
      dest!: in_net_fetched [OF fit] dest: staged_response(1) simp: bind_st_Inr_iff split: if_splits)

text \<open>What every fetch of a segment keeps, the whole task keeps.\<close>

lemma mirror_hls_keeps:
  assumes single: "\<And>r w. I w \<Longrightarrow> I (snd (mirror_single_reference e c base r w))" and w: "I w"
  shows "I (snd (mirror_hls_references e c base refs w))"
proof -
  have all: "I w \<Longrightarrow> I (snd (mirror_all e c base rs w))" for rs w
  proof (induction rs arbitrary: w)
    case (Cons r rs)
    from Cons.IH [OF single [OF Cons.prems]] show ?case by (simp add: split_beta Let_def)
  qed simp
  have "I w \<Longrightarrow> I (snd (mirror_rounds e c base n rs seen w))" for n rs seen w
  proof (induction n arbitrary: rs seen w)
    case (Suc n)
    then show ?case using all by (simp add: split_beta Let_def)
  qed simp
  then show ?thesis using w by (simp add: mirror_hls_references_def split_beta)
qed

lemma mirror_hls_clean:
  "layout_ok c \<Longrightarrow> bodies_fit (ae_net e) \<Longrightarrow> clean_since e c s0 w \<Longrightarrow>
     clean_since e c s0 (snd (mirror_hls_references e c base refs w))"
  by (rule mirror_hls_keeps [where I = "clean_since e c s0"]) (rule mirror_single_clean)

lemma mirror_hls_sessions: "w_sessions (snd (mirror_hls_references e c base refs w)) = w_sessions w"
  by (rule mirror_hls_keeps [where I = "\<lambda>w'. w_sessions w' = w_sessions w"])
    (auto simp: mirror_single_reference_def Let_def intro!: keep_bind)

section \<open>Sound handlers\<close>

text \<open>\<open>books\<close>: the sessions are consistent and their chunks lie in the chunk directory.\<close>

definition books :: "app_config \<Rightarrow> world \<Rightarrow> bool" where
  "books c w \<longleftrightarrow> sessions_ok (w_sessions w) \<and> chunks_staged c (w_sessions w)"

definition sound_for :: "(bytes \<Rightarrow> string) \<Rightarrow> app_config \<Rightarrow> world \<Rightarrow> world \<Rightarrow> bool" where
  "sound_for sha c w0 w \<longleftrightarrow> (books c w0 \<longrightarrow> clean sha c (w_store w0) (w_store w) \<and> books c w)"

abbreviation sound :: "app_env \<Rightarrow> app_config \<Rightarrow> world \<Rightarrow> world \<Rightarrow> bool" where
  "sound e \<equiv> sound_for (ae_sha e)"

lemma sound_refl [simp, intro]: "sound_for sha c w w"
  by (simp add: sound_for_def)

lemma sound_trans: "sound_for sha c w0 w1 \<Longrightarrow> sound_for sha c w1 w2 \<Longrightarrow> sound_for sha c w0 w2"
  unfolding sound_for_def using clean_trans by blast

lemma sound_same: "sound_for sha c w0 w \<Longrightarrow> w_store w' = w_store w \<Longrightarrow> w_sessions w' = w_sessions w \<Longrightarrow> sound_for sha c w0 w'"
  by (simp add: sound_for_def books_def)

lemma sound_by:
  "sound e c w0 w \<Longrightarrow> clean_since e c (w_store w) w' \<Longrightarrow> w_sessions w' = w_sessions w \<Longrightarrow> sound e c w0 w'"
  by (rule sound_trans [of "ae_sha e" c w0 w]) (simp_all add: sound_for_def clean_since_def books_def)

named_theorems sound_step

lemma since_start [simp, intro]: "clean_since e c (w_store w) w"
  by (simp add: clean_since_def)

lemma sound_bind [sound_step]:
  assumes "sound e c w0 (snd m)" "\<And>x w'. m = (Inr x, w') \<Longrightarrow> sound e c w0 w' \<Longrightarrow> sound e c w0 (snd (k x w'))"
  shows "sound e c w0 (snd (bind_st m k))"
  using assms by (cases m; cases "fst m") auto

lemma sound_basic [sound_step]:
  "sound e c w0 (snd m) \<Longrightarrow> sound e c w0 (snd (err_st g m))"
  "sound e c w0 w \<Longrightarrow> sound e c w0 (snd (pure_st r w))"
  "sound e c w0 w \<Longrightarrow> sound e c w0 (snd (r', w))"
  "sound e c w0 w \<Longrightarrow> sound e c w0 (snd (in_auth a w))"
  "sound e c w0 w \<Longrightarrow> sound e c w0 (snd (in_ledger l w))"
  "sound e c w0 w \<Longrightarrow> sound e c w0 (snd (in_net n w))"
  "sound e c w0 w \<Longrightarrow> sound e c w0 (unlink_temp e p w)"
  "sound e c w0 w \<Longrightarrow> sound e c w0 (snd (in_files (fs_create_dir_all h d) w))"
  by (erule sound_by; auto intro!: clean_step simp: pure_st_def)+


lemma upload_file_sound': "layout_ok c \<Longrightarrow> sound e c w (snd (upload_file e c headers items w))"
  by (rule sound_by [OF sound_refl upload_file_clean]) (simp_all add: upload_file_sessions)

lemma mirror_blob_sound': "layout_ok c \<Longrightarrow> bodies_fit (ae_net e) \<Longrightarrow> sound e c w (snd (mirror_blob e c headers items w))"
  by (rule sound_by [OF sound_refl mirror_blob_clean]) (simp_all add: mirror_blob_sessions)

lemma head_upload_sound: "sound e c w (snd (head_upload enc e c headers w))"
  by (rule sound_by [OF sound_refl head_upload_clean]) (simp_all add: head_upload_sessions)

lemma patch_upload_sound: "layout_ok c \<Longrightarrow> sound e c w (snd (patch_upload e c headers items w))"
  using clean_chunks.patch_upload_balanced [of c e "w_store w" w headers items]
  by (simp add: balanced_def sound_for_def clean_since_def books_def)

section \<open>The operator's requests\<close>

lemma sound_removal [sound_step]:
  "layout_ok c \<Longrightarrow> sound e c w0 w \<Longrightarrow> sound e c w0 (snd (in_store (remove_indexed_blob c (ae_storage e) k removal x) w))"
  by (erule sound_by) (auto intro: since_in_store clean_remove_indexed)

lemma delete_blob_sound: "layout_ok c \<Longrightarrow> sound e c w (snd (delete_blob e c filename headers w))"
  unfolding delete_blob_def Let_def status_st_def by (auto intro!: sound_step)

lemma list_blobs_sound: "sound e c w (snd (list_blobs e c q headers uri w))"
  unfolding list_blobs_def Let_def status_st_def by (auto intro!: sound_step)

lemma process_reported_sound:
  "layout_ok c \<Longrightarrow> sound e c w0 w \<Longrightarrow> sound e c w0 (snd (process_reported e c hs acc w))"
proof (induction hs arbitrary: acc w)
  case (Cons h hs)
  from Cons.IH [OF Cons.prems(1)] Cons.prems sound_removal [OF Cons.prems] show ?case by (simp add: split_beta Let_def)
qed simp

lemma record_report_sound [sound_step]:
  assumes "layout_ok c" "sound e c w0 w"
  shows "sound e c w0 (snd (record_report e c rp ev st action requested processed w))"
  unfolding record_report_def
  by (intro sound_basic(1) sound_by [OF assms(2)] since_in_files)
    (auto dest!: fs_write_effect(1) intro: sheds_only_file [OF _ report_not_blob [OF assms(1)]])

lemma report_blob_sound': "layout_ok c \<Longrightarrow> sound e c w (snd (report_blob e c rp report w))"
  unfolding report_blob_def act_on_report_def Let_def take_report_nonce_def split_beta
  by (auto intro!: sound_step process_reported_sound)

lemma get_filter_sound: "sound e c w (snd (get_filter fe e c fp headers w))"
  by (rule sound_same [OF sound_refl])
    (auto simp: get_filter_def get_filter_miss_def Let_def split: sum.splits option.splits prod.splits)

section \<open>Requests for blobs\<close>

lemma coalesce_stores [simp]:
  "w_store (send_phase i p w) = w_store w" "w_sessions (send_phase i p w) = w_sessions w"
  "w_store (remove_negotiation k i w) = w_store w" "w_sessions (remove_negotiation k i w) = w_sessions w"
  "w_store (update_handle i f w) = w_store w" "w_sessions (update_handle i f w) = w_sessions w"
  "w_store (remove_handle k i w) = w_store w" "w_sessions (remove_handle k i w) = w_sessions w"
  by (auto simp: send_phase_def remove_negotiation_def update_handle_def remove_handle_def split: option.splits)

lemma guard_stores [simp]:
  "w_store (negotiation_finish g p w) = w_store w" "w_sessions (negotiation_finish g p w) = w_sessions w"
  "w_store (negotiation_drop g w) = w_store w" "w_sessions (negotiation_drop g w) = w_sessions w"
  "w_store (send_progress i f w) = w_store w" "w_sessions (send_progress i f w) = w_sessions w"
  "w_store (download_finish dg ph w) = w_store w" "w_sessions (download_finish dg ph w) = w_sessions w"
  "w_store (download_drop dg w) = w_store w" "w_sessions (download_drop dg w) = w_sessions w"
  by (simp_all add: negotiation_finish_def negotiation_drop_def send_progress_def download_finish_def download_drop_def Let_def)

lemma flow_stores [simp]:
  "w_store (drop_negotiation ng w) = w_store w" "w_sessions (drop_negotiation ng w) = w_sessions w"
  "w_store (finish_negotiation ng p w) = w_store w" "w_sessions (finish_negotiation ng p w) = w_sessions w"
  "w_store (spawn j w) = w_store w" "w_sessions (spawn j w) = w_sessions w"
  "w_store (snd (claim_upstream_negotiation k w)) = w_store w"
  "w_sessions (snd (claim_upstream_negotiation k w)) = w_sessions w"
  by (auto simp: drop_negotiation_def finish_negotiation_def spawn_def claim_upstream_negotiation_def open_negotiation_def
      Let_def split: option.splits)

lemma sound_flow [sound_step]:
  "sound e c w0 w \<Longrightarrow> sound e c w0 (drop_negotiation ng w)"
  "sound e c w0 w \<Longrightarrow> sound e c w0 (finish_negotiation ng p w)"
  "sound e c w0 w \<Longrightarrow> sound e c w0 (spawn j w)"
  "sound e c w0 w \<Longrightarrow> sound e c w0 (download_drop dg w)"
  "sound e c w0 w \<Longrightarrow> sound e c w0 (download_finish dg ph w)"
  "sound e c w0 w \<Longrightarrow> sound e c w0 (send_progress i f w)"
  "sound e c w0 w \<Longrightarrow> sound e c w0 (snd (send_request e meth u hs w))"
  by (erule sound_same; simp add: send_request_def)+

lemma prepare_sound [sound_step]:
  assumes "layout_ok c" "sound e c w0 w"
  shows "sound e c w0 (snd (prepare_download_state e c filename content_type total_len w))"
proof -
  have create: "sound e c w0 (snd (in_files (fs_create h (temp_reserve c h' pre ext)) w))" if "sound e c w0 w" for w h h' pre ext
    using that assms(1) by (intro sound_by [OF that] since_temp_file) (auto intro: create_only)
  have publish: "sound e c w0 (snd (publish_handle k d w))" if "sound e c w0 w" for k d w
    using that by (rule sound_same) (simp_all add: publish_handle_def Let_def)
  show ?thesis
    unfolding prepare_download_state_def split_beta Let_def
    by (auto intro!: sound_step create publish assms(2))
qed


definition flow_act :: "app_env \<Rightarrow> app_config \<Rightarrow> ('a \<Rightarrow> world \<Rightarrow> 'r \<times> world) \<Rightarrow> bool" where
  "flow_act e c act \<longleftrightarrow> (\<forall>cd w0 w. sound e c w0 w \<longrightarrow> sound e c w0 (snd (act cd w)))"

lemma flow_actD: "flow_act e c act \<Longrightarrow> sound e c w0 w \<Longrightarrow> sound e c w0 (snd (act cd w))"
  by (simp add: flow_act_def)

lemma answer_sound:
  assumes lay: "layout_ok c" and w: "sound e c w0 w"
  shows "sound e c w0 (snd (stream_and_save_from_upstream e c u response filename g ng w))"
    "sound e c w0 (snd (answer_head e c response u h filename ct ng w))"
    "sound e c w0 (snd (answer_range e c response u h filename ct headers n ng w))"
    "sound e c w0 (snd (proxy_original_range e u headers ct filename ng w))"
proof -
  have prep: "sound e c w0 (snd (prepare_download e c h ct n w))" for h ct n
    unfolding prepare_download_def by (intro sound_step lay w)
  show "sound e c w0 (snd (stream_and_save_from_upstream e c u response filename g ng w))"
    unfolding stream_and_save_from_upstream_def proxy_uncached_def Let_def
    by (auto intro!: sound_step w split: sum.splits)
  show "sound e c w0 (snd (answer_head e c response u h filename ct ng w))"
    using prep [of h ct "upstream_response_total_len e response"]
    by (cases "prepare_download e c h ct (upstream_response_total_len e response) w"; cases "fst (prepare_download e c h ct (upstream_response_total_len e response) w)")
      (auto simp: answer_head_def intro!: sound_step)
  show "sound e c w0 (snd (answer_range e c response u h filename ct headers n ng w))"
    using prep [of h ct "Some n"]
    by (cases "prepare_download e c h ct (Some n) w"; cases "fst (prepare_download e c h ct (Some n) w)")
      (auto simp: answer_range_def intro!: sound_step split: option.splits sum.splits)
  show "sound e c w0 (snd (proxy_original_range e u headers ct filename ng w))"
    unfolding proxy_original_range_def by (auto intro!: sound_step w)
qed

lemma handle_response_sound:
  assumes lay: "layout_ok c" and w: "sound e c w0 w"
  shows "sound e c w0 (snd (handle_successful_upstream_response e c response u h filename headers meth ng w))"
proof -
  let ?ct = "extract_content_type_from_response (ur_headers response)"
  have prep: "sound e c w0 (snd (prepare_download e c h ?ct (ae_content_length e response) w))"
    unfolding prepare_download_def by (intro sound_step lay w)
  show ?thesis
    using prep answer_sound [OF lay w] answer_sound(1) [OF lay]
    by (cases "prepare_download e c h ?ct (ae_content_length e response) w"; cases "fst (prepare_download e c h ?ct (ae_content_length e response) w)")
      (auto simp: handle_successful_upstream_response_def Let_def intro!: sound_step w split: option.splits)
qed

lemma candidates_sound:
  assumes lay: "layout_ok c"
  shows "flow_act e c (fetch_candidate e c h filename headers meth ng)"
    "flow_act e c (relay_candidate e filename headers)"
    "flow_act e c (try_head_and_redirect e c h filename cache)"
proof -
  have send: "sound e c w0 w \<Longrightarrow> send_request e meth u hs w = (r, w1) \<Longrightarrow> sound e c w0 w1" for w0 w meth u hs r w1
    using sound_flow(7) by (metis snd_conv)
  show "flow_act e c (fetch_candidate e c h filename headers meth ng)"
    unfolding flow_act_def fetch_candidate_def
    by (auto split: prod.splits sum.splits intro: send)
      (metis send handle_response_sound [OF lay] snd_conv)
  show "flow_act e c (relay_candidate e filename headers)"
    unfolding flow_act_def relay_candidate_def by (auto split: prod.splits sum.splits intro: send)
  show "flow_act e c (try_head_and_redirect e c h filename cache)"
    unfolding flow_act_def try_head_and_redirect_def cache_after_redirect_def Let_def
    by (auto split: prod.splits sum.splits option.splits intro: send sound_flow(3))
qed

lemma walk_frame_stores: "walk_frame w1 w2 \<Longrightarrow> w_store w2 = w_store w1" "walk_frame w1 w2 \<Longrightarrow> w_sessions w2 = w_sessions w1"
  unfolding walk_frame_def by (elim conjE; drule arg_cong [where f = w_store] arg_cong [where f = w_sessions]; simp)+

lemma walk_sound:
  assumes "walk_until e c act wk w = (r, w')" "walk_ok e c UNIV named wk" "flow_act e c act" "sound e c w0 w"
  shows "sound e c w0 w'"
proof -
  have frame: "sound e c w0 w1 \<Longrightarrow> walk_frame w1 w2 \<Longrightarrow> sound e c w0 w2" for w1 w2
    by (erule sound_same; simp add: walk_frame_stores)
  have act: "sound e c w0 w1 \<Longrightarrow> act cd w1 = (x, w2) \<Longrightarrow> sound e c w0 w2" for cd w1 x w2
    using flow_actD [OF assms(3)] by (metis snd_conv)
  have "case r of None \<Rightarrow> sound e c w0 w' | Some x \<Rightarrow> (\<lambda>_. sound e c w0) x w'"
    using assms(1,2,4) frame act act by (rule walk_until_inv)
  then show ?thesis by (cases r) auto
qed

text \<open>The waiting points of a request: what other tasks do there is a sound stretch of the run.\<close>

definition sound_waits :: "app_env \<Rightarrow> app_config \<Rightarrow> (world \<Rightarrow> world) list \<Rightarrow> bool" where
  "sound_waits e c waits \<longleftrightarrow> list_all (\<lambda>meanwhile. \<forall>w. sound e c w (meanwhile w)) waits"

lemma negotiate_sound:
  assumes "negotiate e k filename headers meth waits w = Some (a, w')" "sound_waits e c waits" "sound e c w0 w"
  shows "sound e c w0 w'"
  using assms
proof (induction waits arbitrary: w)
  case (Nil w)
  have "sound e c w0 (snd (claim_upstream_negotiation k w))" using Nil.prems(3) by (rule sound_same) simp_all
  then show ?case using Nil.prems
    by (auto simp: negotiate.simps Let_def intro: sound_same split: option.splits negotiation_claim.splits prod.splits if_splits)
next
  case (Cons meanwhile waits w)
  obtain cl w1 where cl: "claim_upstream_negotiation k w = (cl, w1)" by fastforce
  have s1: "sound e c w0 w1" using Cons.prems(3) by (rule sound_same) (use cl flow_stores(7,8) in \<open>metis snd_conv\<close>)+
  have "sound e c w0 (meanwhile w1)"
    using sound_trans [OF s1] Cons.prems(2) by (simp add: sound_waits_def)
  moreover have "sound_waits e c waits" using Cons.prems(2) by (simp add: sound_waits_def)
  ultimately show ?case using Cons.IH Cons.prems(1) cl s1
    by (auto simp: negotiate.simps [of _ _ _ _ _ "meanwhile # waits"] Let_def
        intro: sound_same split: negotiation_claim.splits negotiation_phase.splits option.splits)
qed

lemma proceed_sound:
  assumes "layout_ok c" "walk_ok e c UNIV named wk" "sound e c w0 w"
  shows "sound e c w0 (snd (proceed e c wk headers meth a w))"
proof (cases a)
  case (Fetch ng)
  obtain ru w1 where u: "walk_until e c (fetch_candidate e c (requested_hash (wk_filename wk)) (wk_filename wk) headers meth ng) wk w = (ru, w1)"
    by fastforce
  from walk_sound [OF u assms(2) candidates_sound(1) [OF assms(1)] assms(3)] show ?thesis
    using u by (cases ru) (auto simp: proceed_def Fetch intro: sound_flow)
next
  case Relay
  obtain ru w1 where u: "walk_until e c (relay_candidate e (wk_filename wk) headers) wk w = (ru, w1)" by fastforce
  from walk_sound [OF u assms(2) candidates_sound(2) [OF assms(1)] assms(3)] show ?thesis
    using u by (cases ru) (auto simp: proceed_def Relay proxy_request_to_upstream_def)
qed (use assms in \<open>simp add: proceed_def\<close>)

lemma upstream_sound:
  assumes lay: "layout_ok c" and w: "sound e c w0 w"
  shows "sound_waits e c waits \<Longrightarrow> try_upstream_servers e c filename headers meth origin xs author waits w = Some (r, w') \<Longrightarrow>
      sound e c w0 w'"
    "sound e c w0 (snd (try_upstream_redirect e c filename origin xs author cache w))"
proof -
  let ?wk = "walk_new c filename origin xs author"
  have ok: "walk_ok e c UNIV (named_by e c origin xs author UNIV) ?wk" by (rule walk_new_ok)
  show "sound e c w0 w'" if "sound_waits e c waits"
      "try_upstream_servers e c filename headers meth origin xs author waits w = Some (r, w')"
    using that(2) proceed_sound [OF lay ok] negotiate_sound [OF _ that(1) w] w
    by (auto simp: try_upstream_servers_def Let_def split: option.splits if_splits) (metis snd_conv)+
  obtain ru w1 where u: "walk_until e c (try_head_and_redirect e c (requested_hash filename) filename cache) ?wk w = (ru, w1)"
    by fastforce
  from walk_sound [OF u ok candidates_sound(3) [OF lay] w]
  show "sound e c w0 (snd (try_upstream_redirect e c filename origin xs author cache w))"
    using u by (cases ru) (auto simp: try_upstream_redirect_def)
qed

lemma find_native_sound:
  assumes "sound e c w0 w"
  shows "sound e c w0 (snd (find_native e k w))"
proof -
  have pub: "sound e c w0 (snd (in_store (publish_existing_metadata (ae_storage e) k m) w))"
    if found: "s3_find (s3e (ae_storage e)) now k s3 = Inr (Some m)" for now s3 m
  proof -
    obtain pre where "hash_prefix k = Inr pre" using found by (auto simp: s3_find_def and_then_Inr_iff)
    moreover obtain ens failure where "s3_list_answer (s3e (ae_storage e)) (s3_log_of s3) pre = (ens, failure)" by fastforce
    ultimately have "find_entry (s3e (ae_storage e)) now k ens = Some m"
      using that by (auto simp: s3_find_def split: option.splits)
    then have "\<exists>key. md_location m = S3 key" by (rule found_in_bucket)
    then have "placed c k m" using s3_placed(1) by blast
    then show ?thesis by (intro sound_by [OF assms] since_in_store) (auto intro: clean_publish_existing)
  qed
  show ?thesis
    unfolding find_native_def
    by (auto intro!: sound_step assms pub simp: pure_st_def split: option.splits)
qed

lemma resolve_sound: "sound e c w0 w \<Longrightarrow> sound e c w0 (snd (resolve_blob e c k query w))"
  unfolding resolve_blob_def Let_def
  by (auto intro!: sound_step find_native_sound split: option.splits)

lemma serve_blob_sound: "sound e c w0 w \<Longrightarrow> sound e c w0 (snd (serve_blob e c headers meth k sz mime x bs w))"
  unfolding serve_blob_def Let_def by (auto intro!: sound_step split: option.splits)

lemma handle_file_request_sound:
  assumes lay: "layout_ok c" and ws: "sound_waits e c waits"
    and "handle_file_request e c filename query headers meth waits w = Some (r, w')"
  shows "sound e c w w'"
proof (cases "get_sha256_hash_from_filename filename")
  case None
  then show ?thesis using assms(3) by (auto simp: handle_file_request_def Let_def)
next
  case (Some k)
  obtain rs w1 where rs: "resolve_blob e c k query w = (rs, w1)" by fastforce
  then have s1: "sound e c w w1" using resolve_sound [OF sound_refl] by (metis snd_conv)
  have up: "sound e c w w2" if fetch: "fetch_from_upstream e c filename k headers meth pl waits w1 = Some (r2, w2)" for pl r2 w2
  proof -
    let ?go = "\<lambda>rw. case rw of (Inr r, w1) \<Rightarrow> (Inr r, w1)
       | (Inl _, w1) \<Rightarrow> (Inl (NotFound ''File not found''), record_miss e pl k w1)"
    have miss: "sound e c w (snd (?go rw))" if "sound e c w (snd rw)" for rw
      using that by (cases rw; cases "fst rw") (auto simp: record_miss_def intro: sound_same)
    let ?red = "try_upstream_redirect e c filename (up_custom_origin pl) (up_xs_servers pl) (up_author_pubkey pl)
                   (caches_in_background (upstream_mode_of c)) w1"
    have "\<exists>rw :: served status_result \<times> world. (r2, w2) = ?go rw \<and> sound e c w (snd rw)"
    proof (cases "is_redirect (upstream_mode_of c)")
      case True
      then have "(r2, w2) = ?go ?red" using that by (cases ?red) (simp add: fetch_from_upstream_def)
      moreover have "sound e c w (snd ?red)" by (rule upstream_sound(2) [OF lay s1])
      ultimately show ?thesis by blast
    next
      case False
      then obtain r3 w3 where up: "try_upstream_servers e c filename headers meth (up_custom_origin pl) (up_xs_servers pl)
             (up_author_pubkey pl) waits w1 = Some (r3, w3)" and go: "(r2, w2) = ?go (r3, w3)"
        using fetch by (auto simp: fetch_from_upstream_def)
      have "sound e c w (snd (r3, w3))" using upstream_sound(1) [OF lay s1 ws up] by simp
      with go show ?thesis by blast
    qed
    then obtain rw :: "served status_result \<times> world" where rw: "(r2, w2) = ?go rw" "sound e c w (snd rw)" by blast
    from miss [OF rw(2)] show ?thesis unfolding rw(1) [symmetric] by simp
  qed
  have "sound e c w (snd (bind_st (serve_indexed e c headers meth k m w1) (\<lambda>r w. (Inr (whole_response r), w))))"
      "sound e c w (snd (bind_st (serve_listed_file e c headers meth k f w1) (\<lambda>r w. (Inr (whole_response r), w))))" for m f
    unfolding serve_indexed_def serve_listed_file_def by (auto intro!: sound_step serve_blob_sound s1)
  then show ?thesis
    using assms(3) Some rs s1 up
    by (auto simp: handle_file_request_def respond_from_def split: sum.splits blob_source.splits) (metis snd_conv)+
qed


section \<open>Every endpoint\<close>

lemma dispatch_sound:
  assumes lay: "layout_ok c" and fit: "bodies_fit (ae_net e)" and ws: "sound_waits e c waits"
    and d: "dispatch ro e c req items waits ep w = Some (r, w')"
  shows "sound e c w w'"
proof -
  note handlers = upload_file_sound' [OF lay] head_upload_sound patch_upload_sound [OF lay] list_blobs_sound
    mirror_blob_sound' [OF lay fit] report_blob_sound' [OF lay] delete_blob_sound [OF lay] get_filter_sound
  have blob: "sound e c w w'"
    if "handle_file_request e c filename q (rq_headers req) (rq_method req) waits w = Some (x, w')" for filename q x
    by (rule handle_file_request_sound [OF lay ws that])
  show ?thesis
  proof (cases ep)
    case Get_Blob
    then show ?thesis using d blob
      by (auto simp: dispatch_def rejecting_def answer_def Let_def bind_eq_Some_conv split: sum.splits)
  qed (use d handlers in \<open>auto simp: dispatch_def rejecting_def answer_def Let_def split: sum.splits\<close>)
qed

lemma serve_sound:
  assumes "layout_ok c" "bodies_fit (ae_net e)" "sound_waits e c waits"
    and "serve ro e c standalone req waits w = Some (r, w')"
  shows "sound e c w w'"
  using assms(4)
  by (auto simp: serve_def with_common_layers_def cors_middleware_def rejecting_def Let_def
      split: if_splits option.splits sum.splits prod.splits intro: dispatch_sound [OF assms(1-3)])

end
