(* ===== verification/Server.thy ===== *)
theory Server
  imports SoundHandlers
begin

text \<open>
  The whole server: requests (theory Router), spawned tasks and periodic jobs (theory Boot) in any order, on
  the world that \<open>build_state\<close> made. Shown is that no run puts or keeps bytes under a hash that is not theirs.
\<close>

section \<open>Tasks\<close>

definition answers_fit :: "app_env \<Rightarrow> bool" where
  "answers_fit e \<longleftrightarrow> (\<forall>lg meth u hs response. ae_upstream e lg meth u hs = Inr response \<longrightarrow> body_fits response)"

text \<open>A download task starts on the empty file it was spawned with.\<close>

definition task_ready :: "app_config \<Rightarrow> job \<Rightarrow> world \<Rightarrow> bool" where
  "task_ready c j w \<longleftrightarrow> (case j of Run_Download _ response _ i _ \<Rightarrow> download_ready c i w \<and> body_fits response | _ \<Rightarrow> True)"

definition run_task :: "app_env \<Rightarrow> app_config \<Rightarrow> job \<Rightarrow> world \<Rightarrow> world" where
  "run_task e c j w =
     (case j of
        Run_Download _ response filename i _ \<Rightarrow> run_download e c response filename i w
      | Redirect_Download file_url file_hash content_type \<Rightarrow>
          start_background_download_for_redirect e c file_url file_hash content_type w
      | Mirror_References origin_base_url refs \<Rightarrow> snd (mirror_hls_references e c origin_base_url refs w)
      | Remove_Negotiation k i \<Rightarrow> remove_negotiation k i w
      | Remove_Handle k i \<Rightarrow> remove_handle k i w)"

lemma receive_chunks_sound:
  assumes "layout_ok c" "is_temp_path c p" "sound e c w0 w"
  shows "sound e c w0 (snd (receive_chunks e p i mx items st w))"
  using assms
proof (induction e p i mx items st w rule: receive_chunks.induct)
  case (3 e p i mx chunk items hashed n0 w)
  have "sound e c w0 (snd (in_files (fs_append (env_host e) p chunk) w))"
    by (rule sound_by [OF "3.prems"(3) since_temp_file [OF "3.prems"(1,2) since_start append_only]]) auto
  then show ?case using "3.IH" "3.prems" by (auto simp: Let_def intro!: sound_step)
qed auto

lemma download_body_sound:
  assumes lay: "layout_ok c" and d: "is_temp_path c (dh_temp_path d)" "writer_at (dh_temp_path d) i [] ([], 0) w"
    and fit: "body_fits response"
  shows "sound e c w (snd (download_body e c response filename i d w))"
proof -
  have accept: "sound e c w (snd (in_store (accept c se p pub) w1))"
    if "sound e c w w1" "staged (ae_sha e) p (bp_sha256 pub) n (st_fs (w_store w1))" for se p pub n w1
  proof (rule sound_by [OF that(1) since_in_store])
    fix x s' assume "accept c se p pub (w_store w1) = (x, s')"
    then show "clean (ae_sha e) c (w_store w1) s'"
      unfolding accept_def by (rule clean_publish) (use that(2) in \<open>auto simp: staged_def\<close>)
  qed auto
  have handle: "sound e c w w1 \<Longrightarrow> sound e c w (update_handle i f w1)" for f w1
    by (erule sound_same) simp_all
  have size: "length ([] :: bytes) + sum_list (map item_length (ur_stream response)) < 2 ^ 64"
    using fit by (simp add: body_fits_def)
  have full: "staged (ae_sha e) (dh_temp_path d) (ae_sha e body) n (st_fs (w_store w1))"
    if "receive_chunks e (dh_temp_path d) i mx (ur_stream response) ([], 0) w = (Inr (body, n), w1)" for mx body n w1
    using receive_chunks_spec [OF that d(2) size] by (simp add: writer_at_def staged_def)
  show ?thesis
    unfolding download_body_def Let_def
    by (auto intro!: sound_step receive_chunks_sound lay d accept handle full split: option.splits)
qed

lemma run_download_sound':
  assumes "layout_ok c" "download_ready c i w" "body_fits response"
  shows "sound e c w (run_download e c response filename i w)"
proof -
  obtain d where d: "handle_of w i = Some d" "is_temp_path c (dh_temp_path d)" "writer_at (dh_temp_path d) i [] ([], 0) w"
    using assms(2) by (auto simp: download_ready_def split: option.splits)
  from download_body_sound [OF assms(1) d(2,3) assms(3)] show ?thesis
    by (auto simp: run_download_def Let_def d(1) intro!: sound_step split: prod.splits sum.splits) (metis snd_conv)+
qed

lemma prepared_ready:
  assumes "prepare_download_state e c filename ct len w = (Inr g, w')"
  shows "download_ready c (dg_cell g) w'"
proof -
  show ?thesis using assms
    by (auto simp: prepare_download_state_def Let_def bind_st_Inr_iff err_st_Inr_iff publish_handle_def download_ready_def
        handle_of_def hm_simps writer_at_def in_files_def on_fs_def fs_create_def split: prod.splits option.splits if_splits)
qed

lemma redirect_sound:
  assumes lay: "layout_ok c" and fit: "answers_fit e"
  shows "sound e c w (start_background_download_for_redirect e c u h ct w)"
proof -
  obtain rs w1 where rs: "send_request e ''GET'' u [] w = (rs, w1)" by fastforce
  have s1: "sound e c w w1" using sound_flow(7) [OF sound_refl] rs by (metis snd_conv)
  have "sound e c w (run_download e c response h (dg_cell g) w2)"
    if "rs = Inr response" "prepare_download_state e c h ct len w1 = (Inr g, w2)" for response len g w2
  proof -
    have "body_fits response" using fit rs that(1) by (auto simp: answers_fit_def send_request_def)
    from run_download_sound' [OF lay prepared_ready [OF that(2)] this]
    show ?thesis using prepare_sound [OF lay s1] that(2) sound_trans by (metis snd_conv)
  qed
  moreover have "sound e c w w2" if "prepare_download_state e c h ct len w1 = (x, w2)" for len x w2
    using prepare_sound [OF lay s1] that by (metis snd_conv)
  ultimately show ?thesis using s1
    by (auto simp: start_background_download_for_redirect_def rs split: sum.splits prod.splits)
qed

lemma run_task_sound:
  assumes "layout_ok c" "bodies_fit (ae_net e)" "answers_fit e" "task_ready c j w"
  shows "sound e c w (run_task e c j w)"
proof (cases j)
  case (Mirror_References base refs)
  have "sound e c w (snd (mirror_hls_references e c base refs w))"
    by (rule sound_by [OF sound_refl mirror_hls_clean [OF assms(1,2)]]) (simp_all add: mirror_hls_sessions)
  then show ?thesis by (simp add: run_task_def Mirror_References)
next
  case Remove_Negotiation
  show ?thesis by (rule sound_same [OF sound_refl]) (simp_all add: run_task_def Remove_Negotiation)
next
  case Remove_Handle
  show ?thesis by (rule sound_same [OF sound_refl]) (simp_all add: run_task_def Remove_Handle)
qed (use assms in \<open>simp_all add: run_task_def task_ready_def run_download_sound' redirect_sound\<close>)

section \<open>Periodic jobs\<close>

text \<open>The manifest of the served directory is not named like a blob.\<close>

definition manifest_apart :: "app_config \<Rightarrow> bool" where
  "manifest_apart c \<longleftrightarrow> extract_sha256_from_filename (serve_files_manifest_name c) = None"

lemma manifest_not_blob: "manifest_apart c \<Longrightarrow> \<not> blob_path c (d @ [serve_files_manifest_name c]) k"
  by (simp add: manifest_apart_def blob_path_def)

lemma sheds_manifests:
  assumes "manifest_apart c"
  shows "sheds c f (write_manifests h (d @ [serve_files_manifest_name c]) (d' @ [serve_files_manifest_name c]) es f)"
proof -
  have one: "sheds c g g'" if "write_manifest h (d @ [serve_files_manifest_name c]) es g = (r, g')" for d g r g'
    unfolding sheds_def using write_manifest_only manifest_not_blob [OF assms] that by (metis snd_conv)
  show ?thesis
    using one sheds_trans by (auto simp: write_manifests_def split: prod.splits sum.splits) (metis prod.collapse)+
qed

lemma refresh_on_start_sound: "manifest_apart c \<Longrightarrow> sound e c w (refresh_on_start e c w)"
proof -
  assume "manifest_apart c"
  then have "sound e c w (snd (refresh_serve_file_index e p (serve_files_manifest_name c) d w))" for p d
    by (intro sound_by [OF sound_refl]) (auto simp: refresh_serve_file_index_def Let_def clean_since_def
        split: sum.splits prod.splits intro!: clean_sheds sheds_manifests)
  then show ?thesis by (simp add: refresh_on_start_def split: option.splits)
qed

lemma unlinks_sound: "sound e c w0 w \<Longrightarrow> sound e c w0 (fold (\<lambda>x. unlink_temp e (g x)) xs w)"
  by (induction xs arbitrary: w) (auto intro: sound_basic(7))

lemma abandoned_sound: "sound e c w (cleanup_abandoned_chunks e c w)"
proof -
  obtain st us where ev: "evict_older_than (ae_instant e) (chunk_cleanup_timeout c) (w_sessions w) = (st, us)" by fastforce
  let ?w1 = "w\<lparr>w_sessions := st\<rparr>"
  have "books c ?w1" if b: "books c w"
  proof -
    have st: "st = fst (evict_older_than (ae_instant e) (chunk_cleanup_timeout c) (w_sessions w))" using ev by simp
    have sub: "map_of (ss_uploads st) k = Some u \<Longrightarrow> map_of (ss_uploads (w_sessions w)) k = Some u" for k u
      using b unfolding st by (auto simp: books_def sessions_ok_def evict_older_than_def)
    have "sessions_ok st" using b evict_ok(1) by (simp add: st books_def)
    moreover have "chunks_staged c st" using b sub unfolding books_def chunks_staged_def by blast
    ultimately show ?thesis by (simp add: books_def)
  qed
  then have s1: "sound e c w ?w1" by (simp add: sound_for_def)
  have "sound e c w (fold (\<lambda>u w. fold (\<lambda>ch. unlink_temp e (ch_path ch)) (cu_chunks u) w) us w1)" if "sound e c w w1" for w1
    using that
  proof (induction us arbitrary: w1)
    case (Cons u us)
    from Cons.IH [OF unlinks_sound [OF Cons.prems]] show ?case by simp
  qed simp
  from this [OF s1] show ?thesis
    using ev unlinks_sound [where g = id]
    by (auto simp: cleanup_abandoned_chunks_def cleanup_orphaned_chunk_files_def in_sessions_def Let_def split: sum.splits)
qed

lemma run_job_sound:
  assumes "layout_ok c" "manifest_apart c"
  shows "sound e c w (run_job be e c j w)"
proof (cases j)
  case Cleanup_Job
  have "clean (ae_sha e) c (w_store w) ((w_store (enforce_storage_limits e c w))\<lparr>st_changes_pending := False\<rparr>)"
    by (rule clean_same [OF clean_enforce [OF assms(1)]]) (simp_all add: enforce_storage_limits_def)
  then show ?thesis
    by (simp add: Cleanup_Job run_job_def cleanup_tick_def cleanup_expired_failed_lookups_def sound_for_def books_def
        cleanup_expired_blossom_server_lists_def enforce_storage_limits_def)
next
  case S3_Recovery_Job
  show ?thesis
    by (auto simp: S3_Recovery_Job run_job_def s3_recovery_round_def sound_for_def books_def split: option.splits prod.splits
        dest: clean_sync)
qed (use assms in \<open>auto simp: run_job_def trust_network_tick_def dvm_tick_def intro: sound_same abandoned_sound
      refresh_on_start_sound split: sum.splits\<close>)

section \<open>Runs\<close>

text \<open>The parameters may answer differently at every step; the hash is one function.\<close>

definition env_fits :: "(bytes \<Rightarrow> string) \<Rightarrow> app_env \<Rightarrow> bool" where
  "env_fits sha e \<longleftrightarrow> ae_sha e = sha \<and> bodies_fit (ae_net e) \<and> answers_fit e"

text \<open>While a request waits, others run: every function of \<open>waits\<close> is a run itself.\<close>

inductive server_run :: "router_env \<Rightarrow> boot_env \<Rightarrow> app_config \<Rightarrow> (bytes \<Rightarrow> string) \<Rightarrow> world \<Rightarrow> world \<Rightarrow> bool"
  for ro be c sha where
  run_idle: "server_run ro be c sha w w"
| run_then: "server_run ro be c sha w w1 \<Longrightarrow> server_run ro be c sha w1 w2 \<Longrightarrow> server_run ro be c sha w w2"
| run_request: "env_fits sha e \<Longrightarrow> (\<forall>meanwhile \<in> set waits. \<forall>v. server_run ro be c sha v (meanwhile v)) \<Longrightarrow>
    serve ro e c standalone req waits w = Some (r, w') \<Longrightarrow> server_run ro be c sha w w'"
| run_spawned: "env_fits sha e \<Longrightarrow> j \<in> set (w_spawned w) \<Longrightarrow> task_ready c j w \<Longrightarrow>
    server_run ro be c sha w (run_task e c j (w\<lparr>w_spawned := remove1 j (w_spawned w)\<rparr>))"
| run_periodic: "env_fits sha e \<Longrightarrow> server_run ro be c sha w (run_job be e c j w)"

inductive_cases server_run_cases: "server_run ro be c sha w w'"

lemma server_run_sound:
  assumes "server_run ro be c sha w w'" "layout_ok c" "manifest_apart c"
  shows "sound_for sha c w w'"
  using assms(1)
proof (induction rule: server_run.induct)
  case (run_idle w)
  show ?case by (rule sound_refl)
next
  case (run_then w w1 w2)
  then show ?case by (blast intro: sound_trans)
next
  case (run_request e waits standalone req w r w')
  then have "sound_waits e c waits" by (auto simp: sound_waits_def list_all_iff env_fits_def)
  moreover have "serve ro e c standalone req waits w = Some (r, w')" "bodies_fit (ae_net e)" "ae_sha e = sha"
    using run_request by (simp_all add: env_fits_def)
  ultimately show ?case using serve_sound [OF assms(2)] by metis
next
  case (run_spawned e j w)
  let ?w = "w\<lparr>w_spawned := remove1 j (w_spawned w)\<rparr>"
  have "sound e c w ?w" by (rule sound_same [OF sound_refl]) simp_all
  moreover have "task_ready c j ?w"
    using run_spawned(3) by (auto simp: task_ready_def download_ready_def writer_at_def handle_of_def split: job.splits option.splits)
  ultimately show ?case
    using run_task_sound [OF assms(2)] run_spawned(1) sound_trans unfolding env_fits_def by blast
next
  case (run_periodic e w j)
  then show ?case using run_job_sound [OF assms(2,3)] by (auto simp: env_fits_def)
qed

end
