(* ===== verification/Launch.thy ===== *)
theory Launch
  imports Server
begin

text \<open>
  A start and everything after it: \<open>build_state\<close> on a disk whose blobs are named by their hashes leads to a
  world from which no run departs from that.
\<close>

section \<open>Files move under their own names\<close>

definition honest_names :: "(bytes \<Rightarrow> string) \<Rightarrow> path \<Rightarrow> fs \<Rightarrow> bool" where
  "honest_names sha r f \<longleftrightarrow>
     (\<forall>p d k. below r p \<longrightarrow> fs_data f p = Some d \<longrightarrow> extract_sha256_from_filename (last p) = Some k \<longrightarrow> sha d = k)"

definition moves :: "path \<Rightarrow> fs \<Rightarrow> fs \<Rightarrow> bool" where
  "moves r f f' \<longleftrightarrow>
     (\<forall>q d. fs_data f' q = Some d \<longrightarrow> fs_data f q = Some d \<or> (\<exists>p. below r p \<and> fs_data f p = Some d \<and> last p = last q))"

lemma movesD: "moves r f f' \<Longrightarrow> fs_data f' q = Some d \<Longrightarrow> fs_data f q = Some d \<or> (\<exists>p. below r p \<and> fs_data f p = Some d \<and> last p = last q)"
  by (simp add: moves_def)

lemma honest_moves: "honest_names sha r f \<Longrightarrow> moves r f f' \<Longrightarrow> honest_names sha r f'"
  unfolding honest_names_def by (intro allI impI) (fastforce dest!: movesD)

lemma moves_refl [simp, intro]: "moves r f f"
  by (simp add: moves_def)

lemma moves_trans:
  assumes "moves r f g" "moves r g k"
  shows "moves r f k"
  unfolding moves_def
proof (intro allI impI)
  fix q d
  assume "fs_data k q = Some d"
  from movesD [OF assms(2) this] show "fs_data f q = Some d \<or> (\<exists>p. below r p \<and> fs_data f p = Some d \<and> last p = last q)"
  proof (elim disjE exE conjE)
    fix p
    assume p: "below r p" "fs_data g p = Some d" "last p = last q"
    from movesD [OF assms(1) p(2)] show ?thesis using p(1,3) by auto
  qed (rule movesD [OF assms(1)])
qed

lemma moves_shrink: "(\<And>q d. fs_data f' q = Some d \<Longrightarrow> fs_data f q = Some d) \<Longrightarrow> moves r f f'"
  by (simp add: moves_def)

lemma moves_bind:
  assumes "moves r f (snd m)" "\<And>x g. m = (Inr x, g) \<Longrightarrow> moves r f g \<Longrightarrow> moves r f (snd (k x g))"
  shows "moves r f (snd (bind_st m k))"
  using assms by (cases m; cases "fst m") auto

lemma moves_pure [simp]: "moves r f (snd (pure_st x g)) = moves r f g"
  by (simp add: pure_st_def)

lemma moves_err [simp]: "moves r f (snd (err_st g m)) = moves r f (snd m)"
  by (cases m; cases "fst m") auto

section \<open>Before the scan\<close>

lemma remove_moves:
  assumes "moves r f g"
  shows "moves r f (snd (fs_remove_file h p g))"
proof (rule moves_trans [OF assms moves_shrink])
  show "fs_data (snd (fs_remove_file h p g)) q = Some d \<Longrightarrow> fs_data g q = Some d" for q d
    using remove_file_cases [of h p g] by (cases "fs_remove_file h p g") (auto simp: hm_simps split: if_splits)
qed

lemma map_of_filter_key: "map_of (filter (\<lambda>(k, _). P k) xs) k = (if P k then map_of xs k else None)"
  by (induction xs) auto

lemma remove_dir_moves:
  assumes "moves r f g"
  shows "moves r f (snd (fs_remove_dir_all h p g))"
proof (rule moves_trans [OF assms moves_shrink])
  show "fs_data (snd (fs_remove_dir_all h p g)) q = Some d \<Longrightarrow> fs_data g q = Some d" for q d
    by (auto simp: fs_remove_dir_all_def map_of_filter_key [of "\<lambda>q. \<not> below p q"] split: option.splits if_splits)
qed

lemma clear_moves: "moves r f g \<Longrightarrow> moves r f (snd (clear_entries h d nms g))"
proof (induction nms arbitrary: g)
  case (Cons nm nms)
  then show ?case by (auto simp: Let_def intro!: moves_bind remove_moves remove_dir_moves)
qed simp

lemma clear_temp_moves: "moves r f (snd (clear_temp_directory h d f))"
  by (auto simp: clear_temp_directory_def clear_moves split: sum.splits)

lemma merge_file_moves: "below r sp \<Longrightarrow> last sp = last dp \<Longrightarrow> moves r f (snd (merge_file h dir_len sp dp f))"
  by (cases rule: merge_file_effect [of h dir_len sp dp f]) (auto simp: moves_def hm_simps split: if_splits)

lemma below_child: "below r s \<Longrightarrow> below r (s @ [nm])"
  unfolding below_def by (metis append_take_drop_id take_append append_assoc append_eq_conv_conj)

lemma merge_entries_moves:
  assumes "below r s" "moves r f0 f" "merge_entries h dir_len s d names f = (x, f')"
  shows "moves r f0 f' \<and> (\<forall>ps. x = Inr ps \<longrightarrow> list_all (\<lambda>sd. below r (fst sd)) ps)"
  using assms(2,3)
proof (induction names arbitrary: f x f')
  case (Cons nm nms)
  note here = below_child [OF assms(1), of nm]
  have moved: "moves r f0 (snd (merge_file h dir_len (s @ [nm]) (d @ [nm]) f))"
    by (rule moves_trans [OF Cons.prems(1) merge_file_moves [OF here]]) simp
  show ?case
    using Cons.prems here moved Cons.IH [OF Cons.prems(1)] Cons.IH [OF moved]
    by (auto simp: Let_def bind_st_def pure_st_def split: sum.splits option.splits prod.splits if_splits)
qed auto

lemma merge_directory_moves:
  assumes "below r (fst sd)" "moves r f0 f" "merge_directory h dir_len sd f = (x, f')"
  shows "moves r f0 f' \<and> (\<forall>ps. x = Inr ps \<longrightarrow> list_all (\<lambda>sd. below r (fst sd)) ps)"
proof -
  obtain x1 f1 where c: "fs_create_dir_all h (snd sd) f = (x1, f1)" by fastforce
  have m1: "moves r f0 f1" using assms(2) create_dir_keeps [OF c] by (simp add: moves_def)
  show ?thesis
    using assms(3) c m1 merge_entries_moves [OF assms(1) m1]
    by (cases x1; cases "fs_read_dir h (fst sd) f1") (auto simp: merge_directory_def pure_st_def err_st_def app_err_def)
qed

lemma merge_stack_moves:
  "merge_stack n h dir_len stack f = Some (x, f') \<Longrightarrow> list_all (\<lambda>sd. below r (fst sd)) stack \<Longrightarrow> moves r f0 f \<Longrightarrow> moves r f0 f'"
proof (induction n h dir_len stack f arbitrary: x f' rule: merge_stack.induct)
  case (2 n h dir_len stack f)
  show ?case
  proof (cases "stack = []")
    case False
    obtain y g where g: "merge_directory h dir_len (last stack) f = (y, g)" by fastforce
    have "below r (fst (last stack))" using False "2.prems"(2) by (simp add: list_all_iff)
    note m = merge_directory_moves [OF this "2.prems"(3) g]
    show ?thesis
    proof (cases y)
      case (Inr ps)
      have "list_all (\<lambda>sd. below r (fst sd)) (butlast stack @ ps)"
        using "2.prems"(2) m Inr by (auto simp: list_all_iff dest: in_set_butlastD)
      then show ?thesis using "2.IH" [OF False g [symmetric] Inr] "2.prems"(1) m False g Inr by simp
    qed (use "2.prems"(1) m False g in simp)
  qed (use "2.prems" in simp)
qed simp

lemma migrate_moves:
  assumes "migrate_legacy_blobs n h dir_len l f = Some (x, f')"
  shows "moves (root l) f f'"
proof -
  have "migrate_entries n h dir_len l nms g = Some (x, f') \<Longrightarrow> moves (root l) f g \<Longrightarrow> moves (root l) f f'" for nms g x f'
  proof (induction n h dir_len l nms g rule: migrate_entries.induct)
    case (2 n h dir_len l nm nms g)
    have "below (root l) (root l @ [nm])" by (simp add: below_def)
    then have "moves (root l) f g'" if "merge_legacy_tree n h dir_len (root l @ [nm]) (uploads l @ [nm]) g = Some (y, g')" for y g'
      using merge_stack_moves [OF that [unfolded merge_legacy_tree_def] _ "2.prems"(2)] by simp
    then show ?case using "2.prems" "2.IH" by (auto split: if_splits option.splits prod.splits sum.splits)
  qed simp
  then show ?thesis using assms by (auto simp: migrate_legacy_blobs_def split: sum.splits)
qed

lemma create_roots_files: "create_roots h ds s = (x, s') \<Longrightarrow> fs_files (st_fs s') = fs_files (st_fs s)"
proof (induction h ds s arbitrary: x s' rule: create_roots.induct)
  case (2 h d ds s)
  obtain y f1 where c: "fs_create_dir_all h d (st_fs s) = (y, f1)" by fastforce
  show ?case using 2 c create_dir_keeps [OF c] by (cases y) (auto simp: on_fs_def)
qed simp

section \<open>The first world\<close>

text \<open>\<open>honest\<close>: whatever lies where blobs lie has the content its name says, and the catalogue points there.\<close>

definition honest :: "(bytes \<Rightarrow> string) \<Rightarrow> app_config \<Rightarrow> store \<Rightarrow> bool" where
  "honest sha c s \<longleftrightarrow>
     (\<forall>p k d. blob_path c p k \<longrightarrow> fs_data (st_fs s) p = Some d \<longrightarrow> sha d = k) \<and>
     index_inv (st_index s) \<and> (\<forall>k m. index_get (st_index s) k = Some m \<longrightarrow> placed c k m)"

lemma honest_clean: "honest sha c s \<Longrightarrow> clean sha c s s' \<Longrightarrow> honest sha c s'"
  unfolding honest_def clean_def by metis

lemma blob_path_root:
  assumes "storage c = storage_layout_new r" "blob_path c p k"
  shows "\<exists>x tail. p = (r @ [x]) @ tail \<and> tail \<noteq> []"
proof -
  obtain orig tail where t: "p = root_of c orig @ tail" "tail \<noteq> []" using assms(2) by (auto simp: blob_path_def)
  have "\<exists>x. root_of c orig = r @ [x]" by (cases orig) (simp_all add: root_of_def assms(1) storage_layout_new_def)
  then show ?thesis using t by auto
qed

lemma blob_below_root:
  assumes "layout_ok c" "blob_path c p k"
  shows "below (root (storage c)) p"
proof -
  obtain r where r: "storage c = storage_layout_new r" using assms(1) by (auto simp: layout_ok_def)
  show ?thesis using blob_path_root [OF r assms(2)] by (auto simp: r storage_layout_new_def below_def)
qed

lemma settings_layout: "storage (app_config_of s) = storage_layout_new (sg_storage_path s)"
  by (simp add: app_config_of_def)

lemma build_storage_honest:
  assumes c: "c = app_config_of s" and names: "honest_names (ae_sha e) (root (storage c)) disk"
    and built: "build_storage be e s disk = Some (Inr u, st)"
  shows "honest (ae_sha e) c st"
proof -
  have lay: "layout_ok c" unfolding layout_ok_def c settings_layout by blast
  let ?h = "env_host e" and ?l = "storage c"
  let ?s0 = "\<lparr>st_fs = disk, st_index = entries_default, st_s3 = None, st_superseded = [], st_changes_pending = True\<rparr>"
  obtain x1 s1 where i: "initialize_storage ?h ?l ?s0 = (x1, s1)" by fastforce
  define s2 where "s2 = s1\<lparr>st_s3 := (if sg_s3_endpoint s = None then None else Some s3_connect),
                       st_fs := snd (clear_temp_directory ?h (temp ?l) (st_fs s1))\<rparr>"
  obtain f u3 s3 where m: "migrate_legacy_blobs (be_fuel be) ?h (be_dir_len be) ?l (st_fs s2) = Some (Inr (), f)"
    and b: "build_file_index c (ae_storage e) (s2\<lparr>st_fs := f\<rparr>) = (Inr u3, s3)"
    and st: "st = (case st_s3 s3 of None \<Rightarrow> s3
       | Some b \<Rightarrow> (let (_, b', ix) = sync_index (s3e (ae_storage e)) (env_now e) (b, st_index s3)
                   in s3\<lparr>st_s3 := Some b', st_index := ix\<rparr>))"
    using built i unfolding build_storage_def c [symmetric] Let_def s2_def [symmetric]
    by (auto simp: s2_def split: sum.splits option.splits prod.splits)
  have "fs_files (st_fs s1) = fs_files disk" using create_roots_files [OF i [unfolded initialize_storage_def]] by simp
  then have "moves (root ?l) disk (st_fs s1)" by (simp add: moves_def)
  then have "moves (root ?l) disk (st_fs s2)" using clear_temp_moves moves_trans by (fastforce simp: s2_def)
  then have "honest_names (ae_sha e) (root ?l) f"
    using honest_moves [OF names] moves_trans migrate_moves [OF m] by blast
  then have files: "blob_path c p k \<Longrightarrow> fs_data (st_fs s3) p = Some d \<Longrightarrow> ae_sha e d = k" for p k d
    using rebuild_shrinks [OF b, of p d] blob_below_root [OF lay, of p k] by (auto simp: honest_names_def blob_path_def)
  have "store_inv c (\<lambda>_ m d. md_size m = word_of_nat (length d)) s3" by (rule rebuilt_catalogue [OF lay]) (use b in auto)
  then have "honest (ae_sha e) c s3" using files
    unfolding honest_def store_inv_def by (blast intro: located_placed)
  moreover have "clean (ae_sha e) c s3 st"
    using clean_sync by (auto simp: st Let_def split: option.splits prod.splits)
  ultimately show ?thesis by (rule honest_clean)
qed

text \<open>The wallet's files lie outside the storage root.\<close>

definition wallet_apart :: "settings \<Rightarrow> bool" where
  "wallet_apart s \<longleftrightarrow> \<not> below (sg_storage_path s) (butlast (sg_cashu_wallet_path s))"

lemma sheds_wallet:
  assumes "wallet_apart s" "init_wallet be h (sg_cashu_wallet_path s) ms f = (r, f')"
  shows "sheds (app_config_of s) f f'"
proof -
  let ?p = "with_extension ''seed'' (sg_cashu_wallet_path s)"
  have out: "\<not> blob_path (app_config_of s) (butlast (sg_cashu_wallet_path s) @ [nm]) k" for nm k
  proof
    assume "blob_path (app_config_of s) (butlast (sg_cashu_wallet_path s) @ [nm]) k"
    then obtain x tail where "butlast (sg_cashu_wallet_path s) @ [nm] = (sg_storage_path s @ [x]) @ tail" "tail \<noteq> []"
      using blob_path_root [OF settings_layout] by blast
    then have "butlast (sg_cashu_wallet_path s) = (sg_storage_path s @ [x]) @ butlast tail"
      by (metis butlast_append butlast_snoc)
    then show False using assms(1) by (simp add: wallet_apart_def below_def)
  qed
  have "sheds (app_config_of s) f g" if "wallet_seed be h ?p f = (x, g)" for x g
    unfolding sheds_def
  proof (intro allI impI)
    fix p k d
    assume p: "blob_path (app_config_of s) p k" "fs_data g p = Some d"
    then have "p \<noteq> with_extension ext ?p" "p \<noteq> ?p" for ext using out by (auto simp: with_extension_def)
    then show "fs_data f p = Some d" using wallet_seed_cases(1) [OF that refl temporary_seed_differs] p(2) by simp
  qed
  then show ?thesis using init_wallet_seed [OF assms(2)] by auto
qed

lemma build_state_honest:
  assumes built: "build_state be e s disk = Some (Inr w, f)" and c: "c = app_config_of s"
    and "honest_names (ae_sha e) (root (storage c)) disk" "manifest_apart c" "wallet_apart s"
  shows "honest (ae_sha e) c (w_store w)" "books c w"
proof -
  obtain u st where st: "build_storage be e s disk = Some (Inr u, st)"
    using built by (auto simp: build_state_def split: sum.splits if_splits option.splits)
  let ?w1 = "refresh_on_start e c (fresh_world st)"
  obtain f1 where w: "w = (?w1 :: world)\<lparr>w_store := (w_store ?w1)\<lparr>st_fs := f1\<rparr>\<rparr>" and f1: "sheds c (st_fs (w_store ?w1)) f1"
  proof (cases "be_cashu_built be \<and> sg_cashu_paid s \<noteq> []")
    case True
    obtain x g where g: "init_wallet be (env_host e) (sg_cashu_wallet_path s) (cashu_accepted_mints c) (st_fs (w_store ?w1)) = (x, g)"
      by fastforce
    then have "w = ?w1\<lparr>w_store := (w_store ?w1)\<lparr>st_fs := g\<rparr>\<rparr>"
      using built st True
      by (cases x) (auto simp: build_state_def c [symmetric] Let_def split: sum.splits if_splits option.splits)
    then show thesis using that sheds_wallet [OF assms(5) g, folded c] by blast
  next
    case False
    then have "w = ?w1\<lparr>w_store := (w_store ?w1)\<lparr>st_fs := st_fs (w_store ?w1)\<rparr>\<rparr>"
      using built st by (auto simp: build_state_def c [symmetric] Let_def split: sum.splits if_splits option.splits)
    then show thesis using that by blast
  qed
  have "books c (fresh_world st)" by (simp add: books_def fresh_world_def sessions_new_def sessions_ok_def chunks_staged_def)
  then have r: "clean (ae_sha e) c st (w_store ?w1)" "books c ?w1"
    using refresh_on_start_sound [OF assms(4), of e "fresh_world st"] by (simp_all add: sound_for_def fresh_world_def)
  have "clean (ae_sha e) c (w_store ?w1) (w_store w)" using f1 by (simp add: w clean_sheds)
  with r(1) have "clean (ae_sha e) c st (w_store w)" by (rule clean_trans)
  with build_storage_honest [OF c assms(3) st] show "honest (ae_sha e) c (w_store w)" by (rule honest_clean)
  show "books c w" using r(2) by (simp add: w books_def)
qed


lemma plain_get_body:
  assumes "serve_indexed e c headers ''GET'' k m w = (Inr r, w')" "status r = 200" "md_location m = Local p"
    "\<forall>d. fs_data (st_fs (w_store w)) p = Some d \<longrightarrow> length d < 2 ^ 64"
  shows "\<exists>d. fs_data (st_fs (w_store w)) p = Some d \<and> body r = Inr d"
proof -
  have "serve_blob e c headers ''GET'' k (md_size m) (md_mime_type m) (sunset_expiration m (max_file_age_secs c))
      (LocalFile p) w = (Inr r, w')"
    using assms(1,3) by (simp add: serve_indexed_def pure_st_def)
  then show ?thesis
  proof (cases rule: serve_blob_cases)
    case (sent r1)
    have f: "serve_file_with_range (ae_serve e) (env_host e) (st_fs (w_store w)) p (md_mime_type m) headers (blob_etag k) = Inr r1"
      using sent(3) by (simp add: send_blob_def)
    then obtain d where d: "fs_data (st_fs (w_store w)) p = Some d"
      by (auto simp: serve_file_with_range_def open_blob_file_def and_then_Inr_iff Let_def split: option.splits if_splits)
    from file_answer [OF f d] show ?thesis using d assms(2,4) sent(4) by auto
  qed (use assms(2) in simp_all)
qed

section \<open>The process\<close>

text \<open>
  \<open>run\<close> of \<open>main.rs\<close>, up to the listener: certificates, state, jobs, socket. An exit and a panic are both
  \<open>Stops\<close>; the process installs the crypto provider that \<open>build_state\<close> asks for. \<open>bind_fault\<close> is the listener's.
\<close>

datatype outcome = Stops string | Serves "(bytes \<times> bytes) option" "background_job list" world

definition run ::
  "boot_env \<Rightarrow> app_env \<Rightarrow> string option \<Rightarrow> settings \<Rightarrow> fs \<Rightarrow> (outcome \<times> fs) option" where
  "run be e bind_fault s disk =
     (let h = env_host e in
      case (if sg_tls_enabled s then ensure_tls_certificates be h (sg_tls_cert s) (sg_tls_key s) (sg_tls_self_signed s) disk
            else (Inr (), disk)) of
        (Inl err, f) \<Rightarrow> Some (Stops (''Failed to setup TLS certificates: '' @ err), f)
      | (Inr _, f) \<Rightarrow>
          (case build_state (be\<lparr>be_crypto := True\<rparr>) e s f of
             None \<Rightarrow> None
           | Some (Inl err, f) \<Rightarrow> Some (Stops err, f)
           | Some (Inr w, f) \<Rightarrow>
               Some (case (if sg_tls_enabled s then map_sum id Some (load_tls_config h (sg_tls_cert s) (sg_tls_key s) f)
                           else Inr None) of
                       Inl err \<Rightarrow> Stops (''Failed to load TLS configuration: '' @ err)
                     | Inr tls \<Rightarrow>
                         (case bind_fault of
                            Some err \<Rightarrow> Stops err
                          | None \<Rightarrow> Serves tls (spawn_background_tasks s) w), f)))"

text \<open>The certificate and its key lie outside the storage root, as does the wallet; the manifest is no blob name.\<close>

definition settings_apart :: "settings \<Rightarrow> bool" where
  "settings_apart s \<longleftrightarrow> manifest_apart (app_config_of s) \<and> wallet_apart s \<and>
     \<not> below (sg_storage_path s) (sg_tls_cert s) \<and> \<not> below (sg_storage_path s) (sg_tls_key s)"

lemma certificates_written:
  assumes "ensure_tls_certificates be h cp kp auto f = (r, f')" "q \<noteq> cp" "q \<noteq> kp"
  shows "fs_data f' q = fs_data f q"
proof -
  have gen: "fs_data g' q = fs_data g q" if "generate_self_signed_cert be h cp kp g = (x, g')" for x g g'
    using that assms(2,3) by (auto simp: generate_self_signed_cert_def bind_st_def err_st_def pure_st_def only_file_def
        split: prod.splits sum.splits dest!: fs_write_effect(1))
  show ?thesis
    using assms(1) by (auto simp: ensure_tls_certificates_def Let_def bind_st_def err_st_def
        split: if_splits prod.splits sum.splits dest!: create_dir_keeps gen)
qed

lemma honest_certificates:
  assumes "honest_names sha r disk" "\<not> below r cp" "\<not> below r kp" "ensure_tls_certificates be h cp kp auto disk = (x, f)"
  shows "honest_names sha r f"
  unfolding honest_names_def
proof (intro allI impI)
  fix p d k
  assume p: "below r p" "fs_data f p = Some d" "extract_sha256_from_filename (last p) = Some k"
  then have "p \<noteq> cp" "p \<noteq> kp" using assms(2,3) by auto
  then have "fs_data disk p = Some d" using certificates_written [OF assms(4)] p(2) by simp
  then show "sha d = k" using assms(1) p(1,3) by (auto simp: honest_names_def)
qed

lemma run_honest:
  assumes r: "run be e bind_fault s disk = Some (Serves tls jobs w, f)" and c: "c = app_config_of s"
    and names: "honest_names (ae_sha e) (sg_storage_path s) disk" and apart: "settings_apart s"
  shows "honest (ae_sha e) c (w_store w)" "books c w"
proof -
  obtain g f' where g: "build_state (be\<lparr>be_crypto := True\<rparr>) e s g = Some (Inr w, f')"
    "honest_names (ae_sha e) (sg_storage_path s) g"
  proof (cases "sg_tls_enabled s")
    case False
    then show thesis using r that [of disk] names
      by (auto simp: run_def Let_def split: option.splits prod.splits sum.splits)
  next
    case True
    obtain x g where g: "ensure_tls_certificates be (env_host e) (sg_tls_cert s) (sg_tls_key s) (sg_tls_self_signed s) disk = (x, g)"
      by fastforce
    have "honest_names (ae_sha e) (sg_storage_path s) g"
      by (rule honest_certificates [OF names _ _ g]) (use apart in \<open>simp_all add: settings_apart_def\<close>)
    then show thesis using r that [of g] True g
      by (auto simp: run_def Let_def split: option.splits prod.splits sum.splits)
  qed
  have "root (storage c) = sg_storage_path s" by (simp add: c settings_layout storage_layout_new_def)
  with build_state_honest [OF g(1) c] g(2) apart show "honest (ae_sha e) c (w_store w)" "books c w"
    by (simp_all add: settings_apart_def c)
qed

section \<open>Properties\<close>

text \<open>C1: The server puts and keeps no bytes in a served root under the hash of other bytes. Start the process on
  a disk where every blob is named by its hash, with settings that keep the manifest, the wallet and the
  certificate away from the blobs: in every world that any run reaches from there, made of requests to any
  endpoint, interleaved with what others do while they wait, of spawned tasks (a download task starting on the
  empty temporary file it was spawned with, and on an answer whose body fits in 64 bits) and of periodic jobs,
  under any faults of disk, bucket and network, every file at a blob's place in the served roots has the
  content its name says, and a catalogue entry located on disk points at such a file's place. So a 200 answer
  to a plain GET of an entry located on disk, its file shorter than 2 to the 64 bytes, carries bytes of that
  hash. Nothing is said of the bytes of objects in the bucket, nor of upstream bytes that are relayed while
  they arrive, before the hash is checked.\<close>
theorem server_never_corrupts:
  assumes "run be e bind_fault s disk = Some (Serves tls jobs w0, f0)" and "c = app_config_of s"
    and "honest_names (ae_sha e) (sg_storage_path s) disk" and "settings_apart s"
    and "server_run ro be c (ae_sha e) w0 w"
  shows "(\<forall>p k d. blob_path c p k \<longrightarrow> fs_data (st_fs (w_store w)) p = Some d \<longrightarrow> ae_sha e d = k) \<and>
    (\<forall>k m p. get_file_metadata (w_store w) k = Some m \<longrightarrow> md_location m = Local p \<longrightarrow> blob_path c p k) \<and>
    (\<forall>e' k m p headers r w'. get_file_metadata (w_store w) k = Some m \<longrightarrow> md_location m = Local p \<longrightarrow>
       (\<forall>d. fs_data (st_fs (w_store w)) p = Some d \<longrightarrow> length d < 2 ^ 64) \<longrightarrow>
       serve_indexed e' c headers ''GET'' k m w = (Inr r, w') \<longrightarrow> status r = 200 \<longrightarrow>
       (\<exists>d. body r = Inr d \<and> ae_sha e d = k))"
proof -
  have lay: "layout_ok c" unfolding layout_ok_def assms(2) settings_layout by blast
  note start = run_honest [OF assms(1-4)]
  have man: "manifest_apart c" using assms(2,4) by (simp add: settings_apart_def)
  have "clean (ae_sha e) c (w_store w0) (w_store w)"
    using server_run_sound [OF assms(5) lay man] start(2) by (simp add: sound_for_def)
  with start(1) have h: "honest (ae_sha e) c (w_store w)" by (rule honest_clean)
  have at: "blob_path c p k" if "get_file_metadata (w_store w) k = Some m" "md_location m = Local p" for k m p
  proof -
    have "placed c k m" using h that(1) unfolding honest_def get_file_metadata_def by blast
    then show ?thesis using that(2) by (rule placed_blob_path)
  qed
  have "\<exists>d. body r = Inr d \<and> ae_sha e d = k" if m: "get_file_metadata (w_store w) k = Some m" "md_location m = Local p"
      and len: "\<forall>d. fs_data (st_fs (w_store w)) p = Some d \<longrightarrow> length d < 2 ^ 64"
      and sent: "serve_indexed e' c headers ''GET'' k m w = (Inr r, w')" "status r = 200" for e' k m p headers r w'
  proof -
    obtain d where d: "fs_data (st_fs (w_store w)) p = Some d" "body r = Inr d"
      using plain_get_body [OF sent m(2) len] by blast
    then show ?thesis using h at [OF m] by (auto simp: honest_def)
  qed
  then show ?thesis using h at unfolding honest_def by blast
qed

text \<open>A start on a disk that holds one upload.\<close>

definition launch_settings :: settings where
  "launch_settings = defaults\<lparr>sg_storage_path := [''srv'']\<rparr>"

definition launch_disk :: fs where
  "launch_disk = \<lparr>fs_files = [([''srv'', ''uploads'', hash_a], [1, 2])],
     fs_dirs = [[], [''srv''], [''srv'', ''uploads''], [''srv'', ''upstream-cache''], [''srv'', ''temp''],
       [''srv'', ''quarantine''], [''srv'', ''reports'']]\<rparr>"

lemma launch_scan:
  "scan_blob_root calm_env launch_disk [''srv'', ''upstream-cache''] UpstreamCache [] = Inr ([], [])"
  "\<exists>m d. scan_blob_root calm_env launch_disk [''srv'', ''uploads''] Upload [] = Inr (m, d)"
proof -
  show "scan_blob_root calm_env launch_disk [''srv'', ''upstream-cache''] UpstreamCache [] = Inr ([], [])"
    by (simp add: scan_blob_root_def scan_stack.simps fs_read_dir_def calm_env_def calm_host_def launch_disk_def
        subdirs_def dir_names_def)
  have "scan_files calm_env launch_disk Upload [''srv'', ''uploads''] [hash_a] ([], []) =
      Inr ([(hash_a, scanned_metadata calm_env Upload [''srv'', ''uploads'', hash_a] hash_a [1, 2] None)], [])"
    using parse_name_append [OF hash_a_valid, of "[]"]
    by (simp add: parse_filename_for_hash_and_expiration_def launch_disk_def calm_env_def calm_host_def parse_rest_def)
  moreover have "fs_read_dir calm_host [''srv'', ''uploads''] launch_disk = Inr [hash_a]"
    "subdirs launch_disk [''srv'', ''uploads''] = []"
    by (simp_all add: fs_read_dir_def calm_host_def launch_disk_def subdirs_def dir_names_def)
  ultimately show "\<exists>m d. scan_blob_root calm_env launch_disk [''srv'', ''uploads''] Upload [] = Inr (m, d)"
    by (simp add: scan_blob_root_def scan_stack.simps calm_env_def)
qed

lemma launch_storage: "\<exists>st. build_storage sample_boot sample_env launch_settings launch_disk = Some (Inr (), st)"
proof -
  let ?s0 = "\<lparr>st_fs = launch_disk, st_index = entries_default, st_s3 = None, st_superseded = [], st_changes_pending = True\<rparr>"
  have c: "storage (app_config_of launch_settings) = storage_layout_new [''srv'']"
    by (simp add: app_config_of_def launch_settings_def)
  have "initialize_storage calm_host (storage_layout_new [''srv'']) ?s0 = (Inr (), ?s0)"
    by (simp add: initialize_storage_def storage_layout_new_def on_fs_def fs_create_dir_all_def calm_host_def launch_disk_def)
  moreover have "clear_temp_directory calm_host [''srv'', ''temp''] launch_disk = (Inr (), launch_disk)"
    by (simp add: clear_temp_directory_def fs_read_dir_def launch_disk_def dir_names_def calm_host_def)
  moreover have "migrate_legacy_blobs (be_fuel sample_boot) calm_host (be_dir_len sample_boot) (storage_layout_new [''srv'']) launch_disk =
      Some (Inr (), launch_disk)"
    by (simp add: sample_boot_def migrate_legacy_blobs_def fs_read_dir_def storage_layout_new_def dir_names_def
        is_legacy_name_def launch_disk_def calm_host_def)
  moreover have "\<exists>s3. build_file_index (app_config_of launch_settings) calm_env ?s0 = (Inr (), s3)"
    using launch_scan by (auto simp: build_file_index_def c storage_layout_new_def and_then_def)
  moreover have "sg_s3_endpoint launch_settings = None" by (simp add: launch_settings_def defaults_def)
  ultimately show ?thesis
    by (auto simp: build_storage_def c sample_env_def calm_env_def storage_layout_new_def Let_def split: option.splits prod.splits)
qed

lemma launch_state: "\<exists>w f. build_state sample_boot sample_env launch_settings launch_disk = Some (Inr w, f)"
proof -
  have "check_settings True launch_settings = Inr ()"
    by (simp add: launch_settings_def check_settings_def defaults_def is_region_char_def is_ascii_lowercase_def byte_of_def
        requires_dvm_def)
  moreover have "\<not> needs_relays launch_settings" "sg_cashu_paid launch_settings = []"
    by (simp_all add: launch_settings_def needs_relays_def defaults_def requires_wot_def requires_dvm_def)
  ultimately show ?thesis using launch_storage by (auto simp: build_state_def sample_boot_def Let_def)
qed

theorem server_never_corrupts_witness:
  "\<exists>w0 f0 jobs. run sample_boot sample_env None launch_settings launch_disk = Some (Serves None jobs w0, f0) \<and>
     (let w = run_job sample_boot sample_env (app_config_of launch_settings) Cleanup_Job w0 in
      \<forall>p k d. blob_path (app_config_of launch_settings) p k \<longrightarrow> fs_data (st_fs (w_store w)) p = Some d \<longrightarrow> hash_a = k)"
proof -
  let ?c = "app_config_of launch_settings"
  have on: "sample_boot\<lparr>be_crypto := True\<rparr> = sample_boot" "\<not> sg_tls_enabled launch_settings"
    by (simp_all add: sample_boot_def launch_settings_def defaults_def)
  then obtain w0 f0 jobs where w0: "run sample_boot sample_env None launch_settings launch_disk = Some (Serves None jobs w0, f0)"
    using launch_state by (auto simp: run_def)
  have "honest_names (ae_sha sample_env) (sg_storage_path launch_settings) launch_disk"
    using parse_name_append [OF hash_a_valid, of "[]"]
    by (auto simp: honest_names_def launch_disk_def sample_env_def extract_sha256_from_filename_def parse_rest_def
        split: if_splits)
  moreover have "settings_apart launch_settings"
    by (simp add: settings_apart_def manifest_apart_def wallet_apart_def app_config_of_def launch_settings_def defaults_def
        extract_sha256_from_filename_def parse_name_def below_def)
  moreover have "env_fits (ae_sha sample_env) sample_env"
    by (simp add: env_fits_def answers_fit_def bodies_fit_def sample_env_def sample_net_def)
  ultimately show ?thesis
    using w0 server_never_corrupts [OF w0 refl _ _ run_periodic] by (auto simp: Let_def sample_env_def)
qed

end
