(* ===== verification/Tools.thy ===== *)
theory Tools
  imports AdminHandlers
begin

text \<open>
  \<open>bin/analyze_reports.rs\<close>: the statistics over NIP-56 report events that the operator's tool prints. The
  tool's requests and its terminal output are not modelled. The iteration order of a \<open>HashMap\<close> is the list's.
\<close>

section \<open>Counting\<close>

record report_note =
  rn_id :: string
  rn_pubkey :: string
  rn_created_at :: int
  rn_kind :: "32 word"
  rn_tags :: "string list list"
  rn_content :: string

record report_stats =
  total_events :: nat
  unique_reporters :: nat
  unique_reported_pubkeys :: nat
  unique_reported_events :: nat
  label_counts :: "(string \<times> nat) list"
  reporter_counts :: "(string \<times> nat) list"
  reported_pubkey_counts :: "(string \<times> nat) list"
  reported_event_counts :: "(string \<times> nat) list"
  kind_counts :: "(32 word \<times> nat) list"

text \<open>\<open>*counts.entry(k).or_insert(0) += 1\<close>\<close>

definition count_up :: "'k \<Rightarrow> ('k \<times> nat) list \<Rightarrow> ('k \<times> nat) list" where
  "count_up k m = hm_insert k (Suc (case map_of m k of None \<Rightarrow> 0 | Some n \<Rightarrow> n)) m"

definition count_tag :: "string list \<Rightarrow> report_stats \<Rightarrow> report_stats" where
  "count_tag tag st =
     (case tag of
        nm # v # more_parts \<Rightarrow>
          if nm = ''L'' then st\<lparr>label_counts := count_up (''L:'' @ v) (label_counts st)\<rparr>
          else if nm = ''l'' then
            st\<lparr>label_counts := count_up
                 (''l:'' @ (case more_parts of [] \<Rightarrow> ''unknown'' | ns # _ \<Rightarrow> ns) @ '':'' @ v) (label_counts st)\<rparr>
          else if nm = ''p'' then st\<lparr>reported_pubkey_counts := count_up v (reported_pubkey_counts st)\<rparr>
          else if nm = ''e'' then st\<lparr>reported_event_counts := count_up v (reported_event_counts st)\<rparr>
          else st
      | _ \<Rightarrow> st)"

definition count_event :: "report_note \<Rightarrow> report_stats \<Rightarrow> report_stats" where
  "count_event ev st =
     fold count_tag (rn_tags ev)
       (st\<lparr>kind_counts := count_up (rn_kind ev) (kind_counts st),
           reporter_counts := count_up (rn_pubkey ev) (reporter_counts st)\<rparr>)"

definition analyze_events :: "report_note list \<Rightarrow> report_stats" where
  "analyze_events evs =
     (let st = fold count_event evs
            \<lparr>total_events = length evs, unique_reporters = 0, unique_reported_pubkeys = 0, unique_reported_events = 0,
             label_counts = [], reporter_counts = [], reported_pubkey_counts = [], reported_event_counts = [],
             kind_counts = []\<rparr>
      in st\<lparr>unique_reporters := length (reporter_counts st),
            unique_reported_pubkeys := length (reported_pubkey_counts st),
            unique_reported_events := length (reported_event_counts st)\<rparr>)"

text \<open>\<open>print_top_n\<close>: the lines below the title. \<open>None\<close>: a key cut inside a character panics.\<close>

definition display_key :: "string \<Rightarrow> string option" where
  "display_key key =
     (if length key > 64 then (if char_boundary 61 key then Some (take 61 key @ ''...'') else None) else Some key)"

definition top_n :: "('k \<times> nat) list \<Rightarrow> nat \<Rightarrow> ('k \<times> nat) list" where
  "top_n counts n = take n (sort_key (\<lambda>(_, count). - int count) counts)"

definition print_top_n :: "(string \<times> nat) list \<Rightarrow> nat \<Rightarrow> string list option" where
  "print_top_n counts n =
     those (map (\<lambda>(key, count). map_option (\<lambda>k. ''  '' @ k @ '' - '' @ show_nat count @ '' reports'') (display_key key))
       (top_n counts n))"

section \<open>The statistics are the occurrences\<close>

definition tally :: "'k list \<Rightarrow> ('k \<times> nat) list" where
  "tally ks = fold count_up ks []"

lemma tally_snoc: "tally (ks @ [k]) = count_up k (tally ks)"
  by (simp add: tally_def)

lemma tally_get: "map_of (tally ks) k = (if k \<in> set ks then Some (count_list ks k) else None)"
proof (induction ks rule: rev_induct)
  case (snoc j ks)
  have absent: "j \<notin> set ks \<Longrightarrow> count_list ks j = 0" by (simp add: count_list_0_iff)
  show ?case using snoc absent by (cases "j \<in> set ks") (auto simp: tally_snoc count_up_def hm_simps)
qed (simp add: tally_def)

lemma tally_wf: "hm_wf (tally ks)"
  by (induction ks rule: rev_induct) (simp_all add: tally_snoc count_up_def, simp add: tally_def)

lemma tally_length: "length (tally ks) = card (set ks)"
proof -
  have "fst ` set (tally ks) = dom (map_of (tally ks))" by (simp add: dom_map_of_conv_image_fst)
  also have "\<dots> = set ks" by (auto simp: dom_def tally_get)
  finally have "fst ` set (tally ks) = set ks" .
  then show ?thesis using tally_wf [of ks] distinct_card [of "map fst (tally ks)"] by simp
qed

text \<open>What an event says, by tag.\<close>

definition labels :: "string list \<Rightarrow> string list" where
  "labels tag =
     (case tag of
        nm # v # ns \<Rightarrow>
          if nm = ''L'' then [''L:'' @ v]
          else if nm = ''l'' then [''l:'' @ (if ns = [] then ''unknown'' else hd ns) @ '':'' @ v] else []
      | _ \<Rightarrow> [])"

definition values_of :: "string \<Rightarrow> string list \<Rightarrow> string list" where
  "values_of name tag = (case tag of nm # v # _ \<Rightarrow> if nm = name then [v] else [] | _ \<Rightarrow> [])"

definition counts_of :: "report_note list \<Rightarrow> report_stats \<Rightarrow> bool" where
  "counts_of evs st \<longleftrightarrow>
     label_counts st = tally (concat (map (\<lambda>ev. concat (map labels (rn_tags ev))) evs)) \<and>
     reporter_counts st = tally (map rn_pubkey evs) \<and>
     reported_pubkey_counts st = tally (concat (map (\<lambda>ev. concat (map (values_of ''p'') (rn_tags ev))) evs)) \<and>
     reported_event_counts st = tally (concat (map (\<lambda>ev. concat (map (values_of ''e'') (rn_tags ev))) evs)) \<and>
     kind_counts st = tally (map rn_kind evs)"

lemma count_tag_counts:
  "label_counts (count_tag tag st) = fold count_up (labels tag) (label_counts st)"
  "reported_pubkey_counts (count_tag tag st) = fold count_up (values_of ''p'' tag) (reported_pubkey_counts st)"
  "reported_event_counts (count_tag tag st) = fold count_up (values_of ''e'' tag) (reported_event_counts st)"
  "reporter_counts (count_tag tag st) = reporter_counts st" "kind_counts (count_tag tag st) = kind_counts st"
  "total_events (count_tag tag st) = total_events st"
  by (auto simp: count_tag_def labels_def values_of_def split: list.splits)

lemma count_tags_counts:
  "label_counts (fold count_tag tags st) = fold count_up (concat (map labels tags)) (label_counts st) \<and>
   reported_pubkey_counts (fold count_tag tags st) =
     fold count_up (concat (map (values_of ''p'') tags)) (reported_pubkey_counts st) \<and>
   reported_event_counts (fold count_tag tags st) =
     fold count_up (concat (map (values_of ''e'') tags)) (reported_event_counts st) \<and>
   reporter_counts (fold count_tag tags st) = reporter_counts st \<and> kind_counts (fold count_tag tags st) = kind_counts st \<and>
   total_events (fold count_tag tags st) = total_events st"
  by (induction tags arbitrary: st) (simp_all add: count_tag_counts)

lemma count_events_counts:
  assumes "counts_of seen st"
  shows "counts_of (seen @ evs) (fold count_event evs st) \<and> total_events (fold count_event evs st) = total_events st"
  using assms
proof (induction evs arbitrary: seen st)
  case (Cons ev evs)
  have "counts_of (seen @ [ev]) (count_event ev st)" "total_events (count_event ev st) = total_events st"
    using Cons.prems by (simp_all add: counts_of_def count_event_def count_tags_counts tally_def)
  with Cons.IH [of "seen @ [ev]"] show ?case by simp
qed simp

lemma sorted_take_greatest:
  fixes g :: "'a \<Rightarrow> int"
  assumes "sorted (map g xs)" "x \<in> set (take n xs)" "y \<in> set (drop n xs)"
  shows "g x \<le> g y"
proof -
  have "sorted (map g (take n xs) @ map g (drop n xs))"
    using assms(1) by (simp flip: map_append)
  then show ?thesis using assms(2,3) by (auto simp: sorted_append)
qed

text \<open>The top list: as many as asked for, in descending order, and nothing left out counts more.\<close>

lemma top_n_greatest:
  assumes "(k, n) \<in> set (top_n counts l)" "(j, m) \<in> set counts" "(j, m) \<notin> set (top_n counts l)"
  shows "m \<le> n"
proof -
  let ?xs = "sort_key (\<lambda>(_, count). - int count) counts"
  have "(j, m) \<in> set ?xs" using assms(2) by simp
  then have "(j, m) \<in> set (drop l ?xs)"
    using assms(3) by (metis Un_iff append_take_drop_id set_append top_n_def)
  from sorted_take_greatest [OF sorted_sort_key, OF _ this] assms(1) show ?thesis by (fastforce simp: top_n_def)
qed

text \<open>The report statistics are exact: every counter is the number of the tags, reporters or kinds it
  stands for, nothing that does not occur has one, and the three totals of distinct keys are right.\<close>

lemma report_counts_exact:
  "counts_of evs (analyze_events evs) \<and> total_events (analyze_events evs) = length evs \<and>
   unique_reporters (analyze_events evs) = card (rn_pubkey ` set evs) \<and>
   unique_reported_pubkeys (analyze_events evs) = card (\<Union>ev \<in> set evs. \<Union>tag \<in> set (rn_tags ev). set (values_of ''p'' tag)) \<and>
   unique_reported_events (analyze_events evs) = card (\<Union>ev \<in> set evs. \<Union>tag \<in> set (rn_tags ev). set (values_of ''e'' tag))"
proof -
  let ?s0 = "\<lparr>total_events = length evs, unique_reporters = 0, unique_reported_pubkeys = 0, unique_reported_events = 0,
             label_counts = [], reporter_counts = [], reported_pubkey_counts = [], reported_event_counts = [],
             kind_counts = []\<rparr>"
  have "counts_of [] ?s0" by (simp add: counts_of_def tally_def)
  note c = count_events_counts [OF this, of evs]
  then show ?thesis
    by (simp add: analyze_events_def counts_of_def tally_length Let_def)
qed

end
