(* ===== verification/Metrics.thy ===== *)
theory Metrics
  imports Errors
begin

text \<open>
  \<open>metrics.rs\<close>: what \<open>Metrics::new\<close> registers, and the counters that the handlers bump. No handler reads a
  counter, so they are a state of their own; the gauges are refreshed by \<open>metrics_update\<close> in theory \<open>Router\<close>.
\<close>

section \<open>Registration\<close>

datatype metric_kind = Int_Counter | Int_Gauge | Int_Counter_Vec string | Int_Gauge_Vec string

record metric =
  mt_name :: string
  mt_help :: string
  mt_kind :: metric_kind

definition declared_metrics :: "metric list" where
  "declared_metrics =
     [\<lparr>mt_name = ''almond_files_uploaded_total'', mt_help = ''Total number of files uploaded'', mt_kind = Int_Counter\<rparr>,
      \<lparr>mt_name = ''almond_files_downloaded_total'', mt_help = ''Total number of files downloaded'', mt_kind = Int_Counter\<rparr>,
      \<lparr>mt_name = ''almond_storage_bytes'', mt_help = ''Total storage used in bytes'', mt_kind = Int_Gauge\<rparr>,
      \<lparr>mt_name = ''almond_total_files'', mt_help = ''Total number of files stored'', mt_kind = Int_Gauge\<rparr>,
      \<lparr>mt_name = ''almond_served_bytes'', mt_help = ''Total bytes served to users'', mt_kind = Int_Counter\<rparr>,
      \<lparr>mt_name = ''almond_downloaded_from_upstream_bytes'', mt_help = ''Total bytes downloaded from upstream servers'',
       mt_kind = Int_Counter_Vec ''upstream''\<rparr>,
      \<lparr>mt_name = ''almond_upstream_requests_coalesced_total'', mt_help = ''Requests served from an existing upstream fetch'',
       mt_kind = Int_Counter\<rparr>,
      \<lparr>mt_name = ''almond_free_disk_space_bytes'', mt_help = ''Free disk space in bytes'', mt_kind = Int_Gauge\<rparr>,
      \<lparr>mt_name = ''almond_max_total_files'', mt_help = ''Maximum total number of files allowed (0 = unlimited)'',
       mt_kind = Int_Gauge\<rparr>,
      \<lparr>mt_name = ''almond_max_storage_bytes'', mt_help = ''Maximum total storage in bytes allowed (0 = unlimited)'',
       mt_kind = Int_Gauge\<rparr>,
      \<lparr>mt_name = ''almond_max_age'', mt_help = ''Maximum file age in days'', mt_kind = Int_Gauge\<rparr>,
      \<lparr>mt_name = ''almond_feature_enabled'', mt_help = ''Feature enabled status (0=off, 1=wot, 2=public)'',
       mt_kind = Int_Gauge_Vec ''feature''\<rparr>,
      \<lparr>mt_name = ''almond_storage_usage_percent'', mt_help = ''Storage usage as a percentage (0-100)'', mt_kind = Int_Gauge\<rparr>]"

text \<open>\<open>register\<close> is the library's: it says whether a metric may join those registered. \<open>None\<close>: \<open>expect\<close> panics.\<close>

fun register_all :: "(metric list \<Rightarrow> metric \<Rightarrow> bool) \<Rightarrow> metric list \<Rightarrow> metric list \<Rightarrow> metric list option" where
  "register_all register registered [] = Some registered"
| "register_all register registered (m # ms) =
     (if register registered m then register_all register (registered @ [m]) ms else None)"

definition metrics_new :: "(metric list \<Rightarrow> metric \<Rightarrow> bool) \<Rightarrow> metric list option" where
  "metrics_new register = register_all register [] declared_metrics"

text \<open>The documented rule of the registry: a descriptor is refused when its name is taken.\<close>

definition by_name :: "metric list \<Rightarrow> metric \<Rightarrow> bool" where
  "by_name registered m \<longleftrightarrow> mt_name m \<notin> mt_name ` set registered"

lemma declared_names_distinct: "distinct (map mt_name declared_metrics)"
  by (simp add: declared_metrics_def)

lemma register_distinct:
  "distinct (map mt_name (registered @ ms)) \<Longrightarrow> register_all by_name registered ms = Some (registered @ ms)"
  by (induction ms arbitrary: registered) (auto simp: by_name_def)

lemma metrics_new_registers: "metrics_new by_name = Some declared_metrics"
  using register_distinct [of "[]" declared_metrics] declared_names_distinct by (simp add: metrics_new_def)

section \<open>Counters\<close>

text \<open>\<open>AtomicU64\<close> counters: \<open>fetch_add\<close> wraps.\<close>

record counters =
  files_uploaded :: u64
  files_downloaded :: u64
  served_bytes :: u64
  downloaded_from_upstream_bytes :: "(string \<times> u64) list"
  upstream_requests_coalesced :: u64

definition counter_of :: "(string \<times> u64) list \<Rightarrow> string \<Rightarrow> u64" where
  "counter_of m l = (case map_of m l of None \<Rightarrow> 0 | Some n \<Rightarrow> n)"

definition track_download :: "u64 \<Rightarrow> counters \<Rightarrow> counters" where
  "track_download n c = c\<lparr>files_downloaded := files_downloaded c + 1, served_bytes := served_bytes c + n\<rparr>"

definition track_upload :: "counters \<Rightarrow> counters" where
  "track_upload c = c\<lparr>files_uploaded := files_uploaded c + 1\<rparr>"

definition upstream_label :: "string \<Rightarrow> string" where
  "upstream_label upstream_url =
     hd (split_on (CHR ''/'') (trim_start_matches ''http://'' (trim_start_matches ''https://'' upstream_url)))"

definition track_upstream_download :: "string \<Rightarrow> u64 \<Rightarrow> counters \<Rightarrow> counters" where
  "track_upstream_download upstream_url n c =
     (let l = upstream_label upstream_url; m = downloaded_from_upstream_bytes c
      in c\<lparr>downloaded_from_upstream_bytes := hm_insert l (counter_of m l + n) m\<rparr>)"

definition track_coalesced_request :: "counters \<Rightarrow> counters" where
  "track_coalesced_request c = c\<lparr>upstream_requests_coalesced := upstream_requests_coalesced c + 1\<rparr>"

text \<open>What a coalesced answer and the end of a download task count (\<open>handlers/upstream.rs\<close>).\<close>

definition track_coalesced_response :: "string \<Rightarrow> header_map \<Rightarrow> counters \<Rightarrow> counters" where
  "track_coalesced_response meth response_headers c =
     (let c1 = track_coalesced_request c in
      if meth = ''HEAD'' then c1
      else case Option.bind (hget_str response_headers ''content-length'') parse_u64 of
        Some n \<Rightarrow> track_download n c1
      | None \<Rightarrow> c1\<lparr>files_downloaded := files_downloaded c1 + 1\<rparr>)"

definition track_finished_download :: "bool \<Rightarrow> string \<Rightarrow> u64 \<Rightarrow> counters \<Rightarrow> counters" where
  "track_finished_download count_as_served file_url total_bytes c =
     track_upstream_download file_url total_bytes
       (if count_as_served then track_download total_bytes c else c\<lparr>files_downloaded := files_downloaded c + 1\<rparr>)"

lemma label_no_slash: "CHR ''/'' \<notin> set (upstream_label u)"
  unfolding upstream_label_def by (rule split_on_fields [OF hd_in_set]) simp

text \<open>Downloads from one host add up under its label, whatever happens to the others.\<close>

lemma track_upstream_counts:
  "counter_of (downloaded_from_upstream_bytes (fold (\<lambda>(u, n). track_upstream_download u n) ds c)) l =
     counter_of (downloaded_from_upstream_bytes c) l + (\<Sum>(u, n) \<leftarrow> filter (\<lambda>(u, _). upstream_label u = l) ds. n)"
proof (induction ds arbitrary: c)
  case (Cons d ds)
  obtain u n where d: "d = (u, n)" by fastforce
  show ?case unfolding d using Cons
    by (simp add: track_upstream_download_def Let_def counter_of_def hm_simps)
qed simp

end
