(* ===== verification/Spec2Isabelle.thy ===== *)
theory Spec2Isabelle
  imports Locks Launch Tools Metrics
begin

text \<open>
  A model of Almond, a Blossom blob server for the Nostr network written in Rust. Clients upload blobs
  under a signed, possibly paid authorization; the server keeps each blob under its SHA-256 hash on disk
  or in a bucket, serves it, fetches and caches blobs of other servers, mirrors playlists, answers the
  operator, and expires what policy says. The sources are under \<open>src/src/\<close>; the theories follow them
  component by component, from the data to the running process.

  \<^bold>\<open>The data and the services.\<close>
  \<^item> \<open>Prelude\<close>: 64-bit words with Rust's saturating and checked arithmetic, the string functions of the
    standard library the code uses, and hash maps as association lists.
  \<^item> \<open>Errors\<close> (\<open>error.rs\<close>): the error type, its status codes and its HTTP rendering; header maps.
  \<^item> \<open>Models\<close> (\<open>models.rs\<close>): the feature modes, the settings and the records that pass between components.
  \<^item> \<open>BlobName\<close> (\<open>services/blob_name.rs\<close>, keys of \<open>services/native_storage.rs\<close>): the file name grammar,
    its inverse, the directory fan-out and the bucket keys.
  \<^item> \<open>BlobIndex\<close> (\<open>services/blob_index.rs\<close>): the catalogue, its order index, running totals and pages.
  \<^item> \<open>ChunkSessions\<close> (\<open>services/chunk_sessions.rs\<close>): the registry of chunked uploads.
  \<^item> \<open>Auth\<close> (\<open>services/auth.rs\<close>, \<open>services/authorization.rs\<close>): authorization events, the policy of a
    deployment, the binding to a hash and the single use of destructive events.
  \<^item> \<open>Cashu\<close> (\<open>services/cashu.rs\<close>): prices, tokens and settlement.
  \<^item> \<open>Files\<close>, \<open>NativeS3\<close>, \<open>Storage\<close>, \<open>StorageProps\<close> (\<open>services/file_storage.rs\<close>, \<open>services/intake.rs\<close>,
    \<open>services/native_storage.rs\<close>): files and buckets, publication and removal of blobs, quarantine,
    admission, and the invariant \<open>store_inv\<close> that ties catalogue and files together.
  \<^item> \<open>Retention\<close>, \<open>Startup\<close>, \<open>Migration\<close> (\<open>utils.rs\<close>, parts of \<open>helpers.rs\<close> and \<open>lib.rs\<close>): deadlines and
    sweeps; the scan that rebuilds the catalogue; the migration of an old directory tree.
  \<^item> \<open>Helpers\<close> (\<open>helpers.rs\<close>): MIME types, forwarded headers, server lists. \<open>Fetch\<close> (\<open>services/upload.rs\<close>): the
    address policy, validated redirects and the streaming loops. \<open>Serving\<close> (\<open>utils.rs\<close>, \<open>handlers/file_serving.rs\<close>):
    byte ranges and the responses that carry a blob.
  \<^item> \<open>Locks\<close> (\<open>models.rs\<close>): the lock table of the blobs, shown to refine one mutex per hash.
  \<^item> \<open>TrustNetwork\<close> (\<open>trust_network.rs\<close>): the web of trust. \<open>Settings\<close> (\<open>config.rs\<close>, \<open>lib.rs\<close>): where a setting
    comes from, how it is read and checked. \<open>Metrics\<close> (\<open>metrics.rs\<close>): registration and counters. \<open>Tools\<close>
    (\<open>bin/analyze_reports.rs\<close>): the report statistics.

  \<^bold>\<open>The handlers.\<close> \<open>World\<close> puts the mutable parts of \<open>AppState\<close> into the record \<open>world\<close> and what is outside the
  repository into \<open>app_env\<close>; every handler is a function of both.
  \<^item> \<open>Integrity\<close>: the world's invariant \<open>blob_safe\<close>. \<open>UploadHandlers\<close> and \<open>Hls\<close> (\<open>handlers/upload.rs\<close>,
    \<open>services/hls.rs\<close>): uploads whole and in chunks, mirrors and the mirror task of a playlist.
  \<^item> \<open>Candidates\<close> (\<open>services/upstream_candidates.rs\<close>, \<open>services/blossom_servers.rs\<close>): the walk over the servers that may have a blob.
    \<open>Coalesce\<close> (\<open>services/download.rs\<close>): one negotiation and one download per blob. \<open>Tail\<close> (\<open>services/tail.rs\<close>):
    followers of a download. \<open>Upstream\<close>, \<open>UpstreamProps\<close>, \<open>UpstreamFlow\<close> (\<open>handlers/upstream.rs\<close>): the handlers, what
    the download task stores, whom they ask and what they leave behind.
  \<^item> \<open>FileRequests\<close> and \<open>ServeFiles\<close> (\<open>handlers/file_serving.rs\<close>, \<open>services/serve_files.rs\<close>): GET and HEAD of a blob; the
    served directory. \<open>AdminHandlers\<close> (\<open>handlers/delete.rs\<close>, \<open>list.rs\<close>, \<open>report.rs\<close>), \<open>Filters\<close> (\<open>handlers/filter.rs\<close>,
    \<open>wot.rs\<close>): the operator's requests. \<open>Router\<close> (\<open>lib.rs\<close>, \<open>middleware.rs\<close>): routes, limits, CORS, and \<open>serve\<close>, which
    answers any request.

  \<^bold>\<open>The process.\<close> \<open>Boot\<close> (\<open>lib.rs\<close>, \<open>tls.rs\<close>): certificates, the wallet seed, \<open>build_state\<close> and the periodic jobs.
  \<open>Soundness\<close> and \<open>SoundHandlers\<close>: every storage operation and every handler is a clean step, one that puts no
  bytes under a name they do not hash to, whatever fails. \<open>Server\<close>: tasks, jobs and runs of all of it
  in any order. \<open>Launch\<close> (\<open>main.rs\<close>): the start of the process, and what holds in every world a run reaches.
\<close>

text \<open>
  \<^bold>\<open>How the model is built.\<close> State is a record passed explicitly; an operation returns its result, a
  value of \<open>app_error + 'a\<close>, with the new state, also on the error paths. An operation the code runs
  under the mutation lock of its hash is one step, which theory \<open>Locks\<close> justifies. Code that is not in the
  repository (Base64, JSON, signatures, SHA-256, the wallet, the S3 service, relays, the clock, the file
  system's faults, other servers) is a field of an environment record, an argument of every definition
  that uses it; where a property relies on its documented behaviour the property names the hypothesis.
  External services are logs of the accepted requests together with functions that answer them.

  Where operations share a contract or one component relies on another, the contract is a locale
  (codecs of names, the catalogue, single use, guarded registries, the chunk protocol) whose lemmas are proved once and interpreted
  on the model: \<open>chunk_invariant\<close>, for one, is interpreted for \<open>blob_safe\<close> in \<open>UploadHandlers\<close> and for clean steps
  in \<open>SoundHandlers\<close>.

  \<^bold>\<open>Waiting and interleaving.\<close> A handler runs to its end in one step, except where it waits for another
  task: a request that follows a negotiation takes a list \<open>waits\<close>, one function per waiting point, that says
  what others do meanwhile, and is still waiting (\<open>None\<close>) when the list ends. \<open>server_run\<close> admits there
  every run of the server. The protocols whose interleaving matters are step relations with an invariant:
  chunk sessions (\<open>session_reach\<close>), the coalescing registries (\<open>coalesce_step\<close>), the lock table
  (\<open>lock_step\<close>), a follower beside its writer (\<open>tail_run\<close>).

  \<^bold>\<open>Termination and fuel.\<close> Loops are structural recursion or come with a termination proof (the scan, the
  walk over the servers, the fetch loop). The one exception is the legacy migration, which changes the
  tree it walks: \<open>merge_stack\<close> has fuel, and \<open>merge_stack_enough\<close> shows that more than the number of
  directories is enough. The rounds of the playlist mirror are the code's own bound of ten.

  \<^bold>\<open>What is shown.\<close> From the start of the process through every run, the served roots hold under a
  hash only bytes of that hash, and the catalogue points at such places on disk (\<open>Launch\<close>). The
  catalogue's aggregates and pages are exact; chunk sessions stay within their limits, but for the sessions
  a failed payment restores, and a completed session tiles its declared length; authorization is the BUD-11
  rules with the deployment's policy, on the server's own clock, and destructive events are used once; no
  paid operation is free; publication, upload, mirroring, downloads, deletion and reports keep every
  catalogued local blob present with the content of its hash while nothing fails; the bytes of a quarantined
  blob are refused as long as its quarantine file is there; retention deletes what is overdue and then the
  oldest, cache copies first, and nothing else; a restart rebuilds a catalogue that agrees with the files;
  the migration returns, and loses no blob where equal lengths mean equal contents. The fetches of uploads,
  mirrors and playlists are pinned to admissible addresses; the upstream handlers ask only URLs below
  servers whose host has just been looked up, which does not bind what the HTTP client resolves then.
  Followers get the blob's own bytes and every negotiation is given up; the answers to GET, list and filter
  requests are those of the catalogue; the operator's pages are guarded; settings come from the source that
  documentation names.

  \<^bold>\<open>How the statements are pinned.\<close> A property names what the program promises in words of its own, not
  in those of the function it is about: \<open>overdue\<close> and \<open>evicted_before\<close> for retention, \<open>vetted\<close>, \<open>named_by\<close> and
  \<open>blob_url_of\<close> for upstream servers, \<open>asked_for\<close> for a download, \<open>quarantine_holds\<close> for the quarantine,
  \<open>catalogued_hashes\<close>, \<open>leading_bits\<close> and \<open>built_from\<close> for filters, \<open>deprecated_value\<close> and \<open>paid_operations\<close>
  for settings, \<open>reported_hashes\<close> for reports, \<open>shown\<close> for the served directory.

  \<^bold>\<open>Where the code and its documents differ.\<close> Some properties state what the code does where a document says
  otherwise, and say so where they stand: no clock skew is tolerated (\<open>Auth\<close>), a listing needs the operator's
  key and a report that acts the allowlist (\<open>AdminHandlers\<close>), only the first owner's contacts make the web of
  trust (\<open>TrustNetwork\<close>), every upstream error is remembered as an absence (\<open>FileRequests\<close>), and an object that
  is still in the bucket is catalogued again although its hash is quarantined (\<open>StorageProps\<close>).

  \<^bold>\<open>Not modelled.\<close> Logging has no effect on behaviour, and nothing reads a metric counter: the handlers' models leave
  both out, and theory \<open>Metrics\<close> has the counters as a state of their own. The request timeout
  and the concurrency limit of the router, and the cancellation of a request at an await point, are the
  runtime's: their effect on the registries is that of a guard dropped, which \<open>Coalesce\<close> has as a
  step. rustls, axum's extraction and the HTTP clients are configuration of third-party
  libraries. Two live temporary files never share a name: fresh UUIDs are taken to be
  distinct, which \<open>task_ready\<close> states for a download that starts. Signals, help texts and the
  demonstration \<open>bin/inspect_filter.rs\<close> are left out.
\<close>

end
